(* ===== verification/Prelude.thy ===== *)
theory Prelude
  imports Main "HOL-Library.Char_ord" "HOL-Library.List_Lexorder"
begin

text \<open>
  What every component shares: the result type that carries failed assertions and thrown
  exceptions, the error messages a component reports, and the lemmas on lists, sorted lists and
  folds that the component proofs use.

  A C++ \<open>assert\<close> that fails stops the program, and a \<open>QEXC\<close> exception leaves the function;
  both are values of type \<open>abort\<close>, on the left of the sum \<open>'a res\<close>. \<open>std::string\<close> is
  \<open>string\<close>, ordered as \<open>std::string::operator<\<close> orders it: lexicographically, by the
  unsigned value of the characters.
\<close>

section \<open>Results\<close>

datatype abort =
    Assertion string          \<comment> \<open>a failed \<open>assert\<close>, with the asserted text\<close>
  | Qexc_General string       \<comment> \<open>\<open>throw QEXC::General\<close>\<close>
  | Qexc_Internal string      \<comment> \<open>\<open>throw QEXC::Internal\<close>\<close>
  | Undefined string          \<comment> \<open>the C++ code has undefined behaviour here\<close>

type_synonym 'a res = "abort + 'a"

definition bind_res :: "'a res \<Rightarrow> ('a \<Rightarrow> 'b res) \<Rightarrow> 'b res" where
  "bind_res m f = (case m of Inl e \<Rightarrow> Inl e | Inr x \<Rightarrow> f x)"

definition assert_res :: "bool \<Rightarrow> string \<Rightarrow> 'a res \<Rightarrow> 'a res" where
  "assert_res b msg k = (if b then k else Inl (Assertion msg))"

named_theorems res_simps \<open>rewriting of results\<close>

lemma bind_res_Inl [simp, res_simps]: "bind_res (Inl e) f = Inl e"
  by (simp add: bind_res_def)

lemma bind_res_Inr [simp, res_simps]: "bind_res (Inr x) f = f x"
  by (simp add: bind_res_def)

lemma bind_res_eq_Inr [res_simps]:
  "bind_res m f = Inr y \<longleftrightarrow> (\<exists>x. m = Inr x \<and> f x = Inr y)"
  by (cases m) auto

lemma assert_res_True [simp, res_simps]: "assert_res True msg k = k"
  by (simp add: assert_res_def)

lemma assert_res_False [simp, res_simps]: "assert_res False msg k = Inl (Assertion msg)"
  by (simp add: assert_res_def)

lemma assert_res_eq_Inr [res_simps]: "assert_res b msg k = Inr y \<longleftrightarrow> b \<and> k = Inr y"
  by (simp add: assert_res_def)

section \<open>Loops\<close>

text \<open>A loop whose body can fail; its variables are the state.\<close>

primrec each :: "('a \<Rightarrow> 's \<Rightarrow> 's res) \<Rightarrow> 'a list \<Rightarrow> 's \<Rightarrow> 's res" where
  "each f [] s = Inr s"
| "each f (x # xs) s = bind_res (f x s) (each f xs)"

lemma each_invariant:
  assumes "each f xs s = Inr s'" and "P s"
    and "\<And>x s s'. x \<in> set xs \<Longrightarrow> P s \<Longrightarrow> f x s = Inr s' \<Longrightarrow> P s'"
  shows "P s'"
  using assms
proof (induction xs arbitrary: s)
  case Nil
  then show ?case by simp
next
  case (Cons x xs)
  obtain s1 where s1: "f x s = Inr s1" using Cons.prems(1) by (cases "f x s") auto
  show ?case
    by (rule Cons.IH [of s1]) (use Cons.prems s1 in auto)
qed

section \<open>Lists and folds\<close>

lemma fold_invariant:
  assumes "P s" and "\<And>x s. x \<in> set xs \<Longrightarrow> P s \<Longrightarrow> P (f x s)"
  shows "P (fold f xs s)"
  using assms by (induction xs arbitrary: s) auto

lemma fold_invariant_rel:
  assumes refl: "\<And>s. R s s" and trans: "\<And>a b c. R a b \<Longrightarrow> R b c \<Longrightarrow> R a c"
    and step: "\<And>x s. x \<in> set xs \<Longrightarrow> P s \<Longrightarrow> R s (f x s) \<and> P (f x s)" and start: "P s"
  shows "R s (fold f xs s) \<and> P (fold f xs s)"
  using step start
proof (induction xs arbitrary: s)
  case Nil
  then show ?case using refl by simp
next
  case (Cons x xs)
  have *: "R s (f x s) \<and> P (f x s)" using Cons.prems by simp
  then have "R (f x s) (fold f xs (f x s)) \<and> P (fold f xs (f x s))"
    using Cons.IH Cons.prems by simp
  then show ?case using * trans by auto
qed

text \<open>The position of the first occurrence, for orders given by a list.\<close>

fun index_of :: "'a list \<Rightarrow> 'a \<Rightarrow> nat" where
  "index_of [] y = 0"
| "index_of (x # xs) y = (if x = y then 0 else Suc (index_of xs y))"

lemma index_of_less [simp]: "y \<in> set xs \<Longrightarrow> index_of xs y < length xs"
  by (induction xs) auto

lemma nth_index_of [simp]: "y \<in> set xs \<Longrightarrow> xs ! index_of xs y = y"
  by (induction xs) auto

lemma index_of_notin: "y \<notin> set xs \<Longrightarrow> index_of xs y = length xs"
  by (induction xs) auto

lemma index_of_append:
  "index_of (xs @ ys) y = (if y \<in> set xs then index_of xs y else length xs + index_of ys y)"
  by (induction xs) auto

lemma index_of_inj: "x \<in> set xs \<Longrightarrow> y \<in> set xs \<Longrightarrow> index_of xs x = index_of xs y \<Longrightarrow> x = y"
  by (metis nth_index_of)

text \<open>
  \<open>deps_first xs deps\<close>: what \<open>deps\<close> gives for an element of \<open>xs\<close> comes before that element. The
  list grows at its end, as a result list grows by \<open>push_back\<close>.
\<close>

definition deps_first :: "'a list \<Rightarrow> ('a \<Rightarrow> 'a list) \<Rightarrow> bool" where
  "deps_first xs deps \<longleftrightarrow>
     (\<forall>i < length xs. set (deps (xs ! i)) \<subseteq> set (take i xs))"

lemma deps_first_Nil [simp]: "deps_first [] deps"
  by (simp add: deps_first_def)

lemma deps_first_snoc:
  "deps_first (xs @ [x]) deps \<longleftrightarrow> deps_first xs deps \<and> set (deps x) \<subseteq> set xs"
  by (auto simp: deps_first_def nth_append less_Suc_eq)

lemma deps_first_cong: "(\<And>x. x \<in> set xs \<Longrightarrow> f x = g x) \<Longrightarrow> deps_first xs f \<longleftrightarrow> deps_first xs g"
  by (simp add: deps_first_def)

lemma deps_first_closed: "deps_first xs deps \<Longrightarrow> x \<in> set xs \<Longrightarrow> set (deps x) \<subseteq> set xs"
  by (metis deps_first_def in_set_conv_nth set_take_subset subset_trans)

lemma deps_first_index:
  assumes "deps_first xs deps" and "x \<in> set xs" and "y \<in> set (deps x)"
  shows "index_of xs y < index_of xs x"
proof -
  let ?i = "index_of xs x"
  have "?i < length xs" using assms(2) by simp
  then have "set (deps (xs ! ?i)) \<subseteq> set (take ?i xs)"
    using assms(1) by (simp add: deps_first_def)
  then have y: "y \<in> set (take ?i xs)" using assms(2,3) by auto
  have "index_of xs y = index_of (take ?i xs @ drop ?i xs) y" by simp
  also have "\<dots> = index_of (take ?i xs) y" using y by (simp add: index_of_append del: append_take_drop_id)
  also have "\<dots> < length (take ?i xs)" by (rule index_of_less [OF y])
  finally show ?thesis by simp
qed

lemma deps_first_sort_key:
  assumes "\<And>x d. x \<in> set xs \<Longrightarrow> d \<in> set (deps x) \<Longrightarrow> d \<in> set xs \<and> f d < (f x :: 'b :: linorder)"
  shows "deps_first (sort_key f xs) deps"
  unfolding deps_first_def
proof (intro allI impI subsetI)
  let ?ys = "sort_key f xs"
  fix i d
  assume i: "i < length ?ys" and d: "d \<in> set (deps (?ys ! i))"
  then have "?ys ! i \<in> set xs" by (metis nth_mem set_sort)
  then have dx: "d \<in> set ?ys" "f d < f (?ys ! i)" using assms d by auto
  then obtain j where j: "j < length ?ys" "?ys ! j = d" by (metis in_set_conv_nth)
  have "sorted (map f ?ys)" by simp
  then have "i \<le> j \<Longrightarrow> f (?ys ! i) \<le> f (?ys ! j)"
    using j(1) sorted_nth_mono [of "map f ?ys" i j] by simp
  then have "j < i" using dx(2) j(2) by force
  then show "d \<in> set (take i ?ys)" using i j by (metis in_set_conv_nth length_take min.absorb4 nth_take)
qed

end
