(* ===== verification/Std_Map.thy ===== *)
theory Std_Map
  imports Prelude
begin

text \<open>
  \<open>std::map\<close>: an association list whose keys are strictly increasing, so that iterating over the
  map is reading the list from the left. The locale \<open>std_map\<close> states what the components rely on
  (what a lookup returns after an insertion or an erasure, which keys there are, and that every
  operation keeps the order), and the facts on maps built by repeated insertion are proved once
  inside it.
\<close>

section \<open>Operations\<close>

type_synonym ('k, 'v) omap = "('k \<times> 'v) list"

abbreviation om_get :: "('k, 'v) omap \<Rightarrow> 'k \<Rightarrow> 'v option" where
  "om_get \<equiv> map_of"

fun om_put :: "'k::linorder \<Rightarrow> 'v \<Rightarrow> ('k, 'v) omap \<Rightarrow> ('k, 'v) omap" where
  "om_put k v [] = [(k, v)]"
| "om_put k v ((k', v') # m) =
     (if k < k' then (k, v) # (k', v') # m
      else if k = k' then (k, v) # m
      else (k', v') # om_put k v m)"

definition om_erase :: "'k \<Rightarrow> ('k, 'v) omap \<Rightarrow> ('k, 'v) omap" where
  "om_erase k m = filter (\<lambda>e. fst e \<noteq> k) m"

definition om_keys :: "('k, 'v) omap \<Rightarrow> 'k list" where
  "om_keys m = map fst m"

definition om_has :: "('k, 'v) omap \<Rightarrow> 'k \<Rightarrow> bool" where
  "om_has m k = (om_get m k \<noteq> None)"

definition om_ok :: "('k::linorder, 'v) omap \<Rightarrow> bool" where
  "om_ok m = sorted_wrt (<) (om_keys m)"

text \<open>\<open>m[k]\<close> where the key may be missing: \<open>operator[]\<close> inserts a default value first.\<close>

definition om_get_default :: "'v \<Rightarrow> ('k, 'v) omap \<Rightarrow> 'k \<Rightarrow> 'v" where
  "om_get_default d m k = (case om_get m k of None \<Rightarrow> d | Some v \<Rightarrow> v)"

definition om_push_back :: "'k::linorder \<Rightarrow> 'v \<Rightarrow> ('k, 'v list) omap \<Rightarrow> ('k, 'v list) omap" where
  "om_push_back k v m = om_put k (om_get_default [] m k @ [v]) m"

section \<open>The interface\<close>

locale std_map =
  fixes get :: "'m \<Rightarrow> 'k \<Rightarrow> 'v option"
    and put :: "'k \<Rightarrow> 'v \<Rightarrow> 'm \<Rightarrow> 'm"
    and erase :: "'k \<Rightarrow> 'm \<Rightarrow> 'm"
    and keys :: "'m \<Rightarrow> 'k list"
    and ok :: "'m \<Rightarrow> bool"
  assumes get_put: "get (put k v m) = (get m)(k \<mapsto> v)"
    and get_erase: "get (erase k m) = (get m)(k := None)"
    and keys_get: "set (keys m) = dom (get m)"
    and ok_put: "ok m \<Longrightarrow> ok (put k v m)"
    and ok_erase: "ok m \<Longrightarrow> ok (erase k m)"
    and ok_distinct: "ok m \<Longrightarrow> distinct (keys m)"
begin

lemma keys_put: "set (keys (put k v m)) = insert k (set (keys m))"
  by (simp add: keys_get get_put)

lemma keys_erase: "set (keys (erase k m)) = set (keys m) - {k}"
  by (simp add: keys_get get_erase)

lemma ok_fold_put: "ok m \<Longrightarrow> ok (fold (\<lambda>x. put (f x) (g x)) xs m)"
  by (induction xs arbitrary: m) (auto simp: ok_put)

lemma get_fold_put_other:
  "k \<notin> f ` set xs \<Longrightarrow> get (fold (\<lambda>x. put (f x) (g x)) xs m) k = get m k"
  by (induction xs arbitrary: m) (auto simp: get_put)

lemma get_fold_put:
  assumes "distinct (map f xs)" and "x \<in> set xs"
  shows "get (fold (\<lambda>x. put (f x) (g x)) xs m) (f x) = Some (g x)"
  using assms
proof (induction xs arbitrary: m)
  case Nil
  then show ?case by simp
next
  case (Cons y ys)
  then show ?case
    by (cases "x = y") (auto simp: get_fold_put_other get_put)
qed

lemma keys_fold_put:
  "set (keys (fold (\<lambda>x. put (f x) (g x)) xs m)) = f ` set xs \<union> set (keys m)"
  by (induction xs arbitrary: m) (auto simp: keys_put)

lemma get_put_erase: "get (put k v (erase k m)) = get (put k v m)"
  by (auto simp: get_put get_erase)

end

section \<open>The sorted list provides it\<close>

lemma map_of_om_put [simp]: "om_get (om_put k v m) = (om_get m)(k \<mapsto> v)"
  by (induction k v m rule: om_put.induct) (auto simp: fun_eq_iff)

lemma map_of_om_erase [simp]: "om_get (om_erase k m) = (om_get m)(k := None)"
  by (induction m) (auto simp: om_erase_def fun_eq_iff)

lemma set_om_keys: "set (om_keys m) = dom (om_get m)"
  by (simp add: om_keys_def dom_map_of_conv_image_fst)

lemma om_keys_erase: "om_keys (om_erase k m) = filter (\<lambda>x. x \<noteq> k) (om_keys m)"
  by (induction m) (auto simp: om_keys_def om_erase_def)

lemma set_om_keys_put: "set (om_keys (om_put k v m)) = insert k (set (om_keys m))"
  by (simp add: set_om_keys)

lemma om_ok_put [simp]: "om_ok m \<Longrightarrow> om_ok (om_put k v m)"
proof (induction k v m rule: om_put.induct)
  case (1 k v)
  then show ?case by (simp add: om_ok_def om_keys_def)
next
  case (2 k v k' v' m)
  have "om_ok m" and lt: "\<forall>x \<in> set (om_keys m). k' < x"
    using "2.prems" by (auto simp: om_ok_def om_keys_def)
  then have IH: "\<not> k < k' \<Longrightarrow> k \<noteq> k' \<Longrightarrow> om_ok (om_put k v m)" using "2.IH" by blast
  have "\<not> k < k' \<Longrightarrow> k \<noteq> k' \<Longrightarrow> \<forall>x \<in> set (om_keys (om_put k v m)). k' < x"
    using lt by (auto simp: set_om_keys_put)
  then show ?case
    using IH "2.prems" by (auto simp: om_ok_def om_keys_def)
qed

lemma om_ok_erase [simp]: "om_ok m \<Longrightarrow> om_ok (om_erase k m)"
  by (auto simp: om_ok_def om_keys_erase sorted_wrt_filter)

lemma om_ok_Nil [simp]: "om_ok []"
  by (simp add: om_ok_def om_keys_def)

lemma om_ok_distinct: "om_ok m \<Longrightarrow> distinct (om_keys m)"
  by (auto simp: om_ok_def strict_sorted_iff)

interpretation om: std_map om_get om_put om_erase om_keys om_ok
  by unfold_locales (simp_all add: set_om_keys om_ok_distinct)

section \<open>Lookups\<close>

lemma om_has_iff: "om_has m k \<longleftrightarrow> k \<in> set (om_keys m)"
  by (auto simp: om_has_def set_om_keys)

lemma om_has_put [simp]: "om_has (om_put k v m) x \<longleftrightarrow> x = k \<or> om_has m x"
  by (auto simp: om_has_def)

lemma om_has_erase [simp]: "om_has (om_erase k m) x \<longleftrightarrow> x \<noteq> k \<and> om_has m x"
  by (auto simp: om_has_def)

lemma om_has_Nil [simp]: "\<not> om_has [] k"
  by (simp add: om_has_def)

lemma om_keys_Nil [simp]: "om_keys [] = []"
  by (simp add: om_keys_def)

lemma om_put_neq_Nil [simp]: "om_put k v m \<noteq> []"
  by (cases "(k, v, m)" rule: om_put.cases) auto

lemma om_push_neq_Nil [simp]: "om_push_back k v m \<noteq> []"
  by (simp add: om_push_back_def)

lemma om_no_keys: "(\<forall>x. \<not> om_has m x) \<longleftrightarrow> m = []"
  by (cases m) (auto simp: om_has_iff om_keys_def)

lemma om_erase_put: "om_erase k (om_put k v m) = om_erase k m"
  by (induction k v m rule: om_put.induct) (auto simp: om_erase_def)

lemma om_erase_id: "\<not> om_has m k \<Longrightarrow> om_erase k m = m"
  by (auto simp: om_erase_def om_has_iff om_keys_def filter_id_conv)

lemma om_get_default_put [simp]:
  "om_get_default d (om_put k v m) x = (if x = k then v else om_get_default d m x)"
  by (simp add: om_get_default_def)

lemma om_get_default_Nil [simp]: "om_get_default d [] x = d"
  by (simp add: om_get_default_def)

lemma om_get_default_push [simp]:
  "om_get_default [] (om_push_back k v m) x =
     (if x = k then om_get_default [] m x @ [v] else om_get_default [] m x)"
  by (simp add: om_push_back_def)

lemma om_ok_push [simp]: "om_ok m \<Longrightarrow> om_ok (om_push_back k v m)"
  by (simp add: om_push_back_def)

lemma set_om_keys_push: "set (om_keys (om_push_back k v m)) = insert k (set (om_keys m))"
  by (simp add: om_push_back_def set_om_keys_put)

lemma om_has_push [simp]: "om_has (om_push_back k v m) x \<longleftrightarrow> x = k \<or> om_has m x"
  by (simp add: om_push_back_def)

text \<open>Appending to the lists of a map, one pair at a time.\<close>

lemma om_get_default_fold_push:
  "om_get_default [] (fold (\<lambda>(k, v). om_push_back k v) ps m) x =
     om_get_default [] m x @ map snd (filter (\<lambda>p. fst p = x) ps)"
  by (induction ps arbitrary: m) auto

lemma om_keys_fold_push:
  "set (om_keys (fold (\<lambda>(k, v). om_push_back k v) ps m)) = fst ` set ps \<union> set (om_keys m)"
  by (induction ps arbitrary: m) (auto simp: set_om_keys_push)

lemma om_ok_fold_push: "om_ok m \<Longrightarrow> om_ok (fold (\<lambda>(k, v). om_push_back k v) ps m)"
  by (induction ps arbitrary: m) auto

end
