(* ===== verification/Util_Strings.thy ===== *)
theory Util_Strings
  imports Prelude "HOL-Library.Word"
begin

text \<open>
  The functions of \<open>src/src/Util.cc\<close> that work on strings and numbers, in the UNIX configuration
  (\<open>_WIN32\<close> not defined). The character functions of the C library are those of the "C" locale, and
  \<open>char\<close> is signed, as on the platforms abuild runs on.
\<close>

section \<open>Characters\<close>

abbreviation slash :: char where "slash \<equiv> CHR ''/''"
abbreviation backslash :: char where "backslash \<equiv> CHR 0x5C"
abbreviation newline :: char where "newline \<equiv> CHR 0x0A"
abbreviation carriage_return :: char where "carriage_return \<equiv> CHR 0x0D"

definition isspace :: "char \<Rightarrow> bool" where
  "isspace c \<longleftrightarrow> c \<in> {CHR '' '', CHR 0x09, newline, CHR 0x0B, CHR 0x0C, carriage_return}"

definition tolower :: "char \<Rightarrow> char" where
  "tolower c = (if CHR ''A'' \<le> c \<and> c \<le> CHR ''Z'' then char_of (of_char c + 32 :: nat) else c)"

definition schar :: "char \<Rightarrow> int" where
  "schar c = (let n = of_char c in if n \<ge> 128 then n - 256 else n)"

section \<open>Numbers\<close>

definition digit_char :: "nat \<Rightarrow> char" where
  "digit_char d = char_of (48 + d)"

fun nat_digits :: "nat \<Rightarrow> string" where
  "nat_digits n = (if n < 10 then [digit_char n] else nat_digits (n div 10) @ [digit_char (n mod 10)])"

declare nat_digits.simps [simp del]

text \<open>What \<open>std::ostream\<close> prints for an \<open>int\<close>.\<close>

definition int_string :: "int \<Rightarrow> string" where
  "int_string i = (if i < 0 then CHR ''-'' # nat_digits (nat (- i)) else nat_digits (nat i))"

definition intToString :: "int \<Rightarrow> nat \<Rightarrow> string" where
  "intToString num min_digits =
     (let buf = int_string num in
      (if length buf < min_digits then replicate (min_digits - length buf) (CHR ''0'') else []) @ buf)"

text \<open>The loop of \<open>digitsIn\<close>, on 32-bit unsigned integers; None if it does not end.\<close>

partial_function (option) digits_loop :: "32 word \<Rightarrow> 32 word \<Rightarrow> 32 word \<Rightarrow> 32 word option" where
  "digits_loop num upper ndigits =
     (if num \<ge> upper then digits_loop num (upper * 10) (ndigits + 1) else Some ndigits)"

definition digitsIn :: "32 word \<Rightarrow> nat option" where
  "digitsIn num = map_option unat (digits_loop num 10 1)"

section \<open>Comparing and stripping\<close>

fun strCaseCmp :: "string \<Rightarrow> string \<Rightarrow> int" where
  "strCaseCmp (a # as) (b # bs) =
     (let c1 = tolower a; c2 = tolower b in
      if c1 \<noteq> c2 then (if schar c1 < schar c2 then -1 else 1) else strCaseCmp as bs)"
| "strCaseCmp [] [] = 0"
| "strCaseCmp [] (b # bs) = -1"
| "strCaseCmp (a # as) [] = 1"

definition StringCaseLess :: "string \<Rightarrow> string \<Rightarrow> bool" where
  "StringCaseLess a b \<longleftrightarrow> strCaseCmp a b < 0"

definition normalizePathSeparators :: "string \<Rightarrow> string" where
  "normalizePathSeparators filename = map (\<lambda>c. if c = backslash then slash else c) filename"

definition stripTrailingSlash :: "string \<Rightarrow> string" where
  "stripTrailingSlash str = (if str \<noteq> [] \<and> last str = slash then butlast str else str)"

definition stripTrailingNewline :: "string \<Rightarrow> string" where
  "stripTrailingNewline str =
     (let str = (if str \<noteq> [] \<and> last str = newline then butlast str else str)
      in if str \<noteq> [] \<and> last str = carriage_return then butlast str else str)"

section \<open>Splitting and joining\<close>

text \<open>\<open>find\<close> cuts the input at the first separator, as long as there is one.\<close>

function split :: "char \<Rightarrow> string \<Rightarrow> string list" where
  "split sep input =
     (if sep \<in> set input
      then takeWhile (\<lambda>c. c \<noteq> sep) input # split sep (tl (dropWhile (\<lambda>c. c \<noteq> sep) input))
      else [input])"
  by pat_completeness auto
termination
proof (relation "measure (length o snd)", goal_cases)
  case (2 sep input)
  then have "dropWhile (\<lambda>c. c \<noteq> sep) input \<noteq> []" by (simp add: dropWhile_eq_Nil_conv)
  moreover have "length (dropWhile (\<lambda>c. c \<noteq> sep) input) \<le> length input"
    by (rule length_dropWhile_le)
  ultimately show ?case by (cases "dropWhile (\<lambda>c. c \<noteq> sep) input") auto
qed simp

declare split.simps [simp del]

fun join_loop :: "string \<Rightarrow> bool \<Rightarrow> string \<Rightarrow> string list \<Rightarrow> string" where
  "join_loop sep first result [] = result"
| "join_loop sep first result (x # xs) =
     join_loop sep False ((if first then result else result @ sep) @ x) xs"

definition join :: "string \<Rightarrow> string list \<Rightarrow> string" where
  "join sep items = join_loop sep True [] items"

definition splitBySpace_step :: "char \<Rightarrow> string list \<Rightarrow> string list" where
  "splitBySpace_step c result =
     (if isspace c then (if last result \<noteq> [] then result @ [[]] else result)
      else butlast result @ [last result @ [c]])"

definition splitBySpace :: "string \<Rightarrow> string list" where
  "splitBySpace input =
     (let result = fold splitBySpace_step input [[]]
      in if last result = [] then butlast result else result)"

definition appendNonMembers :: "string list \<Rightarrow> string list \<Rightarrow> string list" where
  "appendNonMembers list members = fst (fold (\<lambda>x (list, existing).
     if x \<in> existing then (list, existing) else (list @ [x], insert x existing))
     members (list, set list))"

text \<open>
  \<open>readLinesFromFile\<close> on a stream: \<open>buf\<close> points to the last line or is null. The state is the list
  of the lines and whether \<open>buf\<close> is set.
\<close>

definition readLines_step :: "bool \<Rightarrow> char \<Rightarrow> string list \<times> bool \<Rightarrow> string list \<times> bool" where
  "readLines_step strip c s =
     (let result = (if snd s then fst s else fst s @ [[]]); buf = last result in
      if c = newline then
        (butlast result @ [if strip then (if buf \<noteq> [] \<and> last buf = carriage_return then butlast buf else buf)
                           else buf @ [c]], False)
      else (butlast result @ [buf @ [c]], True))"

definition readLinesFromFile :: "string \<Rightarrow> bool \<Rightarrow> string list" where
  "readLinesFromFile content strip = fst (fold (readLines_step strip) content ([], False))"

section \<open>XML and file name patterns\<close>

definition XMLify_char :: "bool \<Rightarrow> char \<Rightarrow> string" where
  "XMLify_char attribute ch =
     (if ch = CHR ''<'' then ''&lt;''
      else if ch = CHR ''>'' then ''&gt;''
      else if ch = CHR ''&'' then ''&amp;''
      else if ch = CHR 0x27 then (if attribute then ''&apos;'' else [ch])
      else if ch = CHR 0x22 then (if attribute then ''&quot;'' else [ch])
      else if ch = carriage_return then (if attribute then [] else [ch])
      else if ch = newline then (if attribute then '' '' else [ch])
      else [ch])"

definition XMLify :: "string \<Rightarrow> bool \<Rightarrow> string" where
  "XMLify str attribute = concat (map (XMLify_char attribute) str)"

datatype glob_state = Glob_top | Glob_in_brace | Glob_in_bracket

record globber =
  glob_st :: glob_state
  glob_literal :: bool
  brace_expr_length :: int
  brace_expr_optional :: bool
  glob_result :: string

definition glob_append :: "string \<Rightarrow> globber \<Rightarrow> globber res" where
  "glob_append to_append g = Inr (g\<lparr>glob_result := glob_result g @ to_append\<rparr>)"

definition glob_step :: "char \<Rightarrow> globber \<Rightarrow> globber res" where
  "glob_step ch g =
     (if glob_literal g then glob_append [ch] (g\<lparr>glob_literal := False\<rparr>)
      else
        let st = glob_st g;
            g = (if st = Glob_in_brace then g\<lparr>brace_expr_length := brace_expr_length g + 1\<rparr> else g) in
        if ch = backslash then glob_append [ch] (g\<lparr>glob_literal := True\<rparr>)
        else if ch = CHR ''{'' then
          (if st = Glob_in_brace
           then Inl (Qexc_General ''nested { characters are not allowed in a filename pattern'')
           else if st = Glob_top
           then glob_append ''(?:'' (g\<lparr>glob_st := Glob_in_brace, brace_expr_length := 0,
                                      brace_expr_optional := False\<rparr>)
           else glob_append [ch] g)
        else if ch = CHR ''}'' then
          (if st = Glob_in_brace then
             let g = (if brace_expr_length g = 1
                      then g\<lparr>brace_expr_optional := True,
                             glob_result := (if last (glob_result g) = CHR ''|''
                                             then butlast (glob_result g) else glob_result g)\<rparr>
                      else g)
             in glob_append ('')'' @ (if brace_expr_optional g then ''?'' else []))
                            (g\<lparr>glob_st := Glob_top\<rparr>)
           else glob_append [ch] g)
        else if ch = CHR ''['' then
          glob_append [ch] (if st = Glob_top then g\<lparr>glob_st := Glob_in_bracket\<rparr> else g)
        else if ch = CHR '']'' then
          glob_append [ch] (if st = Glob_in_bracket then g\<lparr>glob_st := Glob_top\<rparr> else g)
        else if ch = CHR '','' then
          (if st = Glob_in_brace then
             if brace_expr_length g = 1
             then glob_append [] (g\<lparr>brace_expr_optional := True, brace_expr_length := 0\<rparr>)
             else glob_append ''|'' (g\<lparr>brace_expr_length := 0\<rparr>)
           else glob_append [ch] g)
        else if ch = CHR ''^'' then
          glob_append (if st \<noteq> Glob_in_bracket then [backslash, ch] else [ch]) g
        else if ch \<in> {CHR ''.'', CHR ''+'', CHR ''('', CHR '')'', CHR ''$''} then glob_append [backslash, ch] g
        else if ch = CHR ''*'' then glob_append ''[^/]*'' g
        else if ch = CHR ''?'' then glob_append ''[^/]'' g
        else glob_append [ch] g)"

fun glob_loop :: "string \<Rightarrow> globber \<Rightarrow> globber res" where
  "glob_loop [] g = Inr g"
| "glob_loop (ch # glob) g = bind_res (glob_step ch g) (glob_loop glob)"

text \<open>\<open>regex_error\<close> is \<open>boost::regex\<close>: the message of the exception for a pattern that it rejects.\<close>

definition globToRegex :: "(string \<Rightarrow> string option) \<Rightarrow> string \<Rightarrow> string res" where
  "globToRegex regex_error glob =
     (if glob = [] then Inl (Qexc_General ''the empty string is not a valid filename pattern'')
      else bind_res (glob_loop glob \<lparr>glob_st = Glob_top, glob_literal = False, brace_expr_length = 0,
                                     brace_expr_optional = False, glob_result = []\<rparr>) (\<lambda>g.
        if glob_literal g \<or> glob_st g \<noteq> Glob_top
        then Inl (Qexc_General (''filename pattern '' @ glob @ '' terminated prematurely''))
        else case regex_error (glob_result g) of
            Some e \<Rightarrow> Inl (Qexc_General (''converted '' @ glob @ '' to an invalid regular expression \"''
                        @ glob_result g @ ''\": '' @ e))
          | None \<Rightarrow> Inr (glob_result g)))"

end
