(* ===== verification/Basic_Data.thy ===== *)
theory Basic_Data
  imports Std_Map Util_Strings
begin

text \<open>
  The small classes that most of the program uses: \<open>FileLocation\<close>, \<open>TargetType\<close>, \<open>FlagData\<close>,
  \<open>TraitData\<close> and \<open>Error\<close> (the files of these names under \<open>src/src\<close>).
\<close>

section \<open>FileLocation\<close>

text \<open>The constructor with arguments turns line 0 into line 1; only the default location has line 0.\<close>

datatype file_location = Location (getFilename: string) (getLineno: int) (getColno: int)

definition no_location :: file_location where
  "no_location = Location [] 0 0"

definition FileLocation :: "string \<Rightarrow> int \<Rightarrow> int \<Rightarrow> file_location" where
  "FileLocation filename lineno colno = Location filename (if lineno = 0 then 1 else lineno) colno"

definition location_string :: "file_location \<Rightarrow> string" where
  "location_string l =
     getFilename l @
     (if getLineno l \<noteq> 0
      then (if getFilename l \<noteq> [] then '':'' else []) @ int_string (getLineno l) @
           (if getColno l \<noteq> 0 then '':'' @ int_string (getColno l) else [])
      else [])"

definition location_less :: "file_location \<Rightarrow> file_location \<Rightarrow> bool" where
  "location_less a b =
     (if getFilename a < getFilename b then True
      else if getFilename a > getFilename b then False
      else if getLineno a < getLineno b then True
      else if getLineno a > getLineno b then False
      else getColno a < getColno b)"

text \<open>\<open>operator<\<close> is a total order, so that a location can be the key of a \<open>std::map\<close>.\<close>

instantiation file_location :: linorder
begin

definition less_file_location :: "file_location \<Rightarrow> file_location \<Rightarrow> bool" where
  "less_file_location a b = location_less a b"

definition less_eq_file_location :: "file_location \<Rightarrow> file_location \<Rightarrow> bool" where
  "less_eq_file_location a b = (location_less a b \<or> a = b)"

instance
proof
  fix a b c :: file_location
  show "a < b \<longleftrightarrow> a \<le> b \<and> \<not> b \<le> a"
    by (cases a; cases b) (auto simp: less_file_location_def less_eq_file_location_def location_less_def)
  show "a \<le> a" by (simp add: less_eq_file_location_def)
  show "a \<le> b \<Longrightarrow> b \<le> c \<Longrightarrow> a \<le> c"
    by (cases a; cases b; cases c) (auto simp: less_eq_file_location_def location_less_def split: if_splits)
  show "a \<le> b \<Longrightarrow> b \<le> a \<Longrightarrow> a = b"
    by (cases a; cases b) (auto simp: less_eq_file_location_def location_less_def split: if_splits)
  show "a \<le> b \<or> b \<le> a"
    by (cases a; cases b) (auto simp: less_eq_file_location_def location_less_def)
qed

end

section \<open>TargetType\<close>

datatype target_type_e = tt_unknown | tt_all | tt_platform_independent | tt_object_code | tt_java

definition target_type_names :: "(target_type_e \<times> string) list" where
  "target_type_names =
     [(tt_unknown, ''unknown''), (tt_all, ''all''), (tt_platform_independent, ''platform-independent''),
      (tt_object_code, ''object-code''), (tt_java, ''java'')]"

definition target_type_ids :: "(string, target_type_e) omap" where
  "target_type_ids = fold (\<lambda>(t, name). om_put name t) target_type_names []"

definition getName :: "target_type_e \<Rightarrow> string res" where
  "getName t = (case map_of target_type_names t of
     None \<Rightarrow> Inl (Assertion ''target_type_names.count(target_type) > 0'') | Some name \<Rightarrow> Inr name)"

definition getID :: "string \<Rightarrow> target_type_e res" where
  "getID name = (case om_get target_type_ids name of
     None \<Rightarrow> Inl (Assertion ''target_type_ids.count(target_type) > 0'') | Some t \<Rightarrow> Inr t)"

definition isValid :: "string \<Rightarrow> bool" where
  "isValid name \<longleftrightarrow> om_has target_type_ids name \<and> om_get target_type_ids name \<noteq> Some tt_unknown"

lemma target_type_ids_alist:
  "target_type_ids = [(''all'', tt_all), (''java'', tt_java), (''object-code'', tt_object_code),
     (''platform-independent'', tt_platform_independent), (''unknown'', tt_unknown)]"
  by code_simp

lemma getName_total: "\<exists>name. getName t = Inr name \<and> getID name = Inr t"
  by (cases t) (simp_all add: getName_def getID_def target_type_names_def target_type_ids_alist)

lemma getID_valid: "isValid name \<Longrightarrow> \<exists>t. getID name = Inr t \<and> t \<noteq> tt_unknown"
  by (auto simp: isValid_def getID_def om_has_def)

section \<open>FlagData and TraitData\<close>

type_synonym flag_data = "(string, string set) omap"

definition addFlag :: "string \<Rightarrow> string \<Rightarrow> flag_data \<Rightarrow> flag_data" where
  "addFlag name flag d = om_put name (insert flag (om_get_default {} d name)) d"

definition isSet :: "flag_data \<Rightarrow> string \<Rightarrow> string \<Rightarrow> bool" where
  "isSet d name flag = (case om_get d name of None \<Rightarrow> False | Some flags \<Rightarrow> flag \<in> flags)"

definition getNames :: "flag_data \<Rightarrow> string set" where
  "getNames d = set (om_keys d)"

definition hasFlags :: "flag_data \<Rightarrow> string \<Rightarrow> bool" where
  "hasFlags d name = om_has d name"

definition getFlags :: "flag_data \<Rightarrow> string \<Rightarrow> string set res" where
  "getFlags d name = (case om_get d name of None \<Rightarrow> Inl (Assertion ''hasFlags(name)'') | Some f \<Rightarrow> Inr f)"

definition removeItem :: "string \<Rightarrow> flag_data \<Rightarrow> flag_data" where
  "removeItem name d = om_erase name d"

lemma isSet_addFlag [simp]: "isSet (addFlag n f d) n' f' \<longleftrightarrow> n = n' \<and> f = f' \<or> isSet d n' f'"
  by (auto simp: isSet_def addFlag_def om_get_default_def split: option.splits)

lemma isSet_removeItem [simp]: "isSet (removeItem n d) n' f' \<longleftrightarrow> n \<noteq> n' \<and> isSet d n' f'"
  by (auto simp: isSet_def removeItem_def split: option.splits)

lemma isSet_Nil [simp]: "\<not> isSet [] n f"
  by (simp add: isSet_def)

type_synonym trait_data = "(string, string set) omap"

definition addTrait :: "string \<Rightarrow> trait_data \<Rightarrow> trait_data" where
  "addTrait trait d = (if om_has d trait then d else om_put trait {} d)"

definition addTraitItem :: "string \<Rightarrow> string \<Rightarrow> trait_data \<Rightarrow> trait_data" where
  "addTraitItem trait item d = om_put trait (insert item (om_get_default {} d trait)) d"

definition hasTrait :: "trait_data \<Rightarrow> string \<Rightarrow> bool" where
  "hasTrait d trait = om_has d trait"

definition hasTraitItem :: "trait_data \<Rightarrow> string \<Rightarrow> string \<Rightarrow> bool" where
  "hasTraitItem d trait item = (case om_get d trait of None \<Rightarrow> False | Some items \<Rightarrow> item \<in> items)"

definition removeTraitItem :: "string \<Rightarrow> trait_data \<Rightarrow> trait_data" where
  "removeTraitItem item d = map (\<lambda>(trait, items). (trait, items - {item})) d"

lemma hasTraitItem_add [simp]:
  "hasTraitItem (addTraitItem t i d) t' i' \<longleftrightarrow> t = t' \<and> i = i' \<or> hasTraitItem d t' i'"
  by (auto simp: hasTraitItem_def addTraitItem_def om_get_default_def split: option.splits)

lemma hasTraitItem_remove [simp]:
  "hasTraitItem (removeTraitItem i d) t i' \<longleftrightarrow> i \<noteq> i' \<and> hasTraitItem d t i'"
  unfolding hasTraitItem_def removeTraitItem_def by (induction d) auto

section \<open>Error\<close>

text \<open>
  The static members and what reaches the outside (the logger with the job, and the callback) are
  shared by all objects: \<open>error_statics\<close>. \<open>NO_JOB\<close> is the handle of the logger
  that stands for no job.
\<close>

record error_statics =
  any_errors :: bool
  deprecate_is_error :: bool
  error_callback :: bool
  error_log :: "(string \<times> int) list"
  callback_log :: "string list"

record error =
  default_prefix :: string
  default_logger_job :: int
  num_errors :: int
  error_shared :: error_statics

definition NO_JOB :: int where
  "NO_JOB = 0"

definition new_error :: "int \<Rightarrow> string \<Rightarrow> error_statics \<Rightarrow> error" where
  "new_error job prefix s =
     \<lparr>default_prefix = prefix, default_logger_job = job, num_errors = 0, error_shared = s\<rparr>"

definition logText :: "file_location \<Rightarrow> string \<Rightarrow> int \<Rightarrow> error \<Rightarrow> error" where
  "logText location msg job e =
     (let job = (if job = NO_JOB then default_logger_job e else job);
          fullmsg = (if location = no_location
                     then (if default_prefix e \<noteq> [] then default_prefix e @ '': '' else [])
                     else location_string location @ '': '') @ msg;
          s = error_shared e
      in e\<lparr>error_shared := s\<lparr>error_log := error_log s @ [(fullmsg, job)],
              callback_log := callback_log s @ (if error_callback s then [fullmsg] else [])\<rparr>\<rparr>)"

definition error_at :: "file_location \<Rightarrow> string \<Rightarrow> int \<Rightarrow> bool \<Rightarrow> error \<Rightarrow> error" where
  "error_at location msg job count_as_error e =
     (let e = (if count_as_error
               then e\<lparr>num_errors := num_errors e + 1,
                      error_shared := (error_shared e)\<lparr>any_errors := True\<rparr>\<rparr>
               else e)
      in logText location (''ERROR: '' @ msg) job e)"

text \<open>The call with the default arguments.\<close>

definition report :: "file_location \<Rightarrow> string \<Rightarrow> error \<Rightarrow> error" where
  "report location msg e = error_at location msg NO_JOB True e"

definition warning :: "file_location \<Rightarrow> string \<Rightarrow> error \<Rightarrow> error" where
  "warning location msg e = logText location (''WARNING: '' @ msg) NO_JOB e"

definition deprecate :: "string \<Rightarrow> file_location \<Rightarrow> string \<Rightarrow> int \<Rightarrow> error \<Rightarrow> error" where
  "deprecate version location orig_message job e =
     (let message = ''*** DEPRECATION WARNING *** (abuild version '' @ version @ ''): '' @ orig_message
      in if deprecate_is_error (error_shared e) then error_at location message job True e
         else logText location message job e)"

text \<open>The number of errors never decreases, and the flag of the class is set with the first one.\<close>

lemma num_errors_logText [simp]: "num_errors (logText l msg job e) = num_errors e"
  by (simp add: logText_def Let_def)

lemma num_errors_report [simp]: "num_errors (report l msg e) = num_errors e + 1"
  by (simp add: report_def error_at_def Let_def)

lemma any_errors_report [simp]: "any_errors (error_shared (report l msg e))"
  by (simp add: report_def error_at_def logText_def Let_def)

definition log_of :: "error \<Rightarrow> (string \<times> int) list" where
  "log_of e = error_log (error_shared e)"

end
