(* ===== verification/Key_Val.thy ===== *)
theory Key_Val
  imports Basic_Data
begin

text \<open>
  The class \<open>KeyVal\<close> (\<open>src/src/KeyVal.cc\<close>), which reads files of \<open>key: value\<close> lines and can write
  them back with changes. The content of the file is an argument of \<open>readFile\<close> and the result of
  \<open>writeFile\<close>.

  The fixed regular expressions are functions on the line. Their quantifiers leave no choice: the
  leading blanks, the key and the blanks after the colon are as long as possible, the value is what
  remains without trailing blanks and without one backslash before them.
\<close>

section \<open>Lines\<close>

definition strip_front :: "string \<Rightarrow> string" where
  "strip_front s = dropWhile isspace s"

definition strip_end :: "string \<Rightarrow> string" where
  "strip_end s = rev (dropWhile isspace (rev s))"

text \<open>The groups of \<open>\s*(.*?)(\\?)\s*\<close>: the text, and whether a backslash follows.\<close>

definition content_groups :: "string \<Rightarrow> string \<times> bool" where
  "content_groups s =
     (let r = strip_end (strip_front s)
      in if r \<noteq> [] \<and> last r = backslash then (butlast r, True) else (r, False))"

text \<open>\<open>comment_line\<close>.\<close>

definition comment_line :: "string \<Rightarrow> bool" where
  "comment_line s \<longleftrightarrow> (let r = strip_front s in r \<noteq> [] \<and> hd r = CHR ''#'')"

text \<open>The groups 1 to 4 of \<open>kv_line\<close>: blanks, key, all that follows the key, and the value.\<close>

definition kv_groups :: "string \<Rightarrow> (string \<times> string \<times> string \<times> string) option" where
  "kv_groups s =
     (let leading = takeWhile isspace s;
          rest = dropWhile isspace s;
          key = takeWhile (\<lambda>c. \<not> isspace c \<and> c \<noteq> CHR '':'') rest;
          trailing = dropWhile (\<lambda>c. \<not> isspace c \<and> c \<noteq> CHR '':'') rest;
          colon = dropWhile isspace trailing
      in if key \<noteq> [] \<and> colon \<noteq> [] \<and> hd colon = CHR '':''
         then Some (leading, key, trailing, fst (content_groups (tl colon))) else None)"

text \<open>The group of \<open>eol_re\<close>.\<close>

definition line_end :: "string \<Rightarrow> string" where
  "line_end s =
     (if s \<noteq> [] \<and> last s = newline
      then (if butlast s \<noteq> [] \<and> last (butlast s) = carriage_return then [carriage_return, newline]
            else [newline])
      else [])"

section \<open>State\<close>

record orig_data =
  od_before :: string
  od_key :: string
  od_after :: string

definition new_orig_data :: orig_data where
  "new_orig_data = \<lparr>od_before = [], od_key = [], od_after = []\<rparr>"

record keyval =
  kv_error :: error
  kv_filename :: string
  preferred_eol :: string
  kv_keys :: "string set"
  explicit_keys :: "string set"
  kv_defaults :: "(string, string) omap"
  kv_data :: "(string, string) omap"
  kv_orig_data :: "orig_data list"

definition KeyVal :: "error \<Rightarrow> string \<Rightarrow> string set \<Rightarrow> (string, string) omap \<Rightarrow> keyval res" where
  "KeyVal error_handler filename ks ds =
     (let duplicates = list_ex (\<lambda>k. k \<in> ks) (om_keys ds)
      in assert_res (\<not> duplicates) ''! duplicates''
         (Inr \<lparr>kv_error = error_handler, kv_filename = filename, preferred_eol = [newline],
               kv_keys = ks \<union> set (om_keys ds), explicit_keys = {}, kv_defaults = ds, kv_data = [],
               kv_orig_data = []\<rparr>))"

section \<open>Reading\<close>

text \<open>
  The local variables of \<open>readFile\<close> that are kept from line to line. \<open>accumulated_text\<close> points to
  \<open>before\<close> or \<open>after\<close> of the last element of \<open>orig_data\<close>; \<open>value\<close> is null, points to \<open>trash\<close>, which is
  never read, or points to the value of a key.
\<close>

datatype value_ptr = Null_Value | Trash | Value_Of string

record kv_state =
  kvs :: keyval
  in_after :: bool
  value_ptr :: value_ptr

definition add_text :: "bool \<Rightarrow> string \<Rightarrow> orig_data \<Rightarrow> orig_data" where
  "add_text after s od =
     (if after then od\<lparr>od_after := od_after od @ s\<rparr> else od\<lparr>od_before := od_before od @ s\<rparr>)"

definition accumulate :: "string \<Rightarrow> kv_state \<Rightarrow> kv_state" where
  "accumulate s st =
     st\<lparr>kvs := (kvs st)\<lparr>kv_orig_data := butlast (kv_orig_data (kvs st)) @
                                      [add_text (in_after st) s (last (kv_orig_data (kvs st)))]\<rparr>\<rparr>"

definition append_value :: "string \<Rightarrow> kv_state \<Rightarrow> kv_state" where
  "append_value s st =
     (case value_ptr st of
        Value_Of k \<Rightarrow> st\<lparr>kvs := (kvs st)\<lparr>kv_data :=
            om_put k (om_get_default [] (kv_data (kvs st)) k @ s) (kv_data (kvs st))\<rparr>\<rparr>
      | _ \<Rightarrow> st)"

definition kv_report :: "file_location \<Rightarrow> string \<Rightarrow> keyval \<Rightarrow> keyval" where
  "kv_report location msg kv = kv\<lparr>kv_error := report location msg (kv_error kv)\<rparr>"

text \<open>The branch for a line with a key: the reports and the value, then the text of the line.\<close>

definition report_duplicate :: "file_location \<Rightarrow> string \<Rightarrow> keyval \<Rightarrow> keyval" where
  "report_duplicate location key kv =
     (if om_has (kv_data kv) key
      then kv_report location (''duplicate value for '' @ key @ '' (using new value)'') kv else kv)"

definition put_value :: "file_location \<Rightarrow> string \<Rightarrow> string \<Rightarrow> keyval \<Rightarrow> kv_state \<Rightarrow> kv_state" where
  "put_value location key val_str kv st =
     (if key \<notin> kv_keys kv
      then st\<lparr>kvs := kv_report location (''invalid key '' @ key @ '' (ignored)'') kv, value_ptr := Trash\<rparr>
      else st\<lparr>kvs := kv\<lparr>kv_data := om_put key val_str (kv_data kv),
                        explicit_keys := insert key (explicit_keys kv)\<rparr>,
              value_ptr := Value_Of key\<rparr>)"

definition start_after :: "string \<Rightarrow> kv_state \<Rightarrow> kv_state" where
  "start_after key st =
     st\<lparr>kvs := (kvs st)\<lparr>kv_orig_data := butlast (kv_orig_data (kvs st)) @
           [(last (kv_orig_data (kvs st)))\<lparr>od_key := key\<rparr>]\<rparr>, in_after := True\<rparr>"

definition key_line ::
    "file_location \<Rightarrow> bool \<Rightarrow> string \<times> string \<times> string \<times> string \<Rightarrow> kv_state \<Rightarrow> kv_state" where
  "key_line location continuation = (\<lambda>(leading, key, trailing, val_str) st.
     accumulate trailing (start_after key (accumulate leading
       (put_value location key (if continuation \<and> val_str \<noteq> [] then val_str @ '' '' else val_str)
          (report_duplicate location key (kvs st)) st))))"

definition end_entry :: "kv_state \<Rightarrow> kv_state" where
  "end_entry st = st\<lparr>kvs := (kvs st)\<lparr>kv_orig_data := kv_orig_data (kvs st) @ [new_orig_data]\<rparr>,
                     in_after := False, value_ptr := Null_Value\<rparr>"

definition set_preferred_eol :: "nat \<Rightarrow> string \<Rightarrow> kv_state \<Rightarrow> kv_state" where
  "set_preferred_eol lineno orig_line st =
     (if lineno = 1 \<and> line_end orig_line \<noteq> []
      then st\<lparr>kvs := (kvs st)\<lparr>preferred_eol := line_end orig_line\<rparr>\<rparr> else st)"

text \<open>The end of the round: without a continuation the next line starts a new entry.\<close>

definition end_unless :: "bool \<Rightarrow> kv_state \<Rightarrow> kv_state res" where
  "end_unless b st = Inr (if b then st else end_entry st)"

definition process_line ::
    "file_location \<Rightarrow> string \<Rightarrow> bool \<Rightarrow> bool \<Rightarrow> string \<Rightarrow> kv_state \<Rightarrow> kv_state res" where
  "process_line location orig_line comment continuation content st =
     (if value_ptr st \<noteq> Null_Value
      then end_unless (comment \<or> continuation) (append_value content (accumulate orig_line st))
      else if content = [] \<or> comment
      then end_unless continuation (accumulate orig_line st)
      else case kv_groups orig_line of
        Some groups \<Rightarrow>
          assert_res (\<not> in_after st) ''accumulated_text == &(this->orig_data.back().before)''
          (end_unless continuation (key_line location continuation groups st))
      | None \<Rightarrow>
          end_unless continuation
            (accumulate orig_line (st\<lparr>kvs := kv_report location ''syntax error'' (kvs st)\<rparr>)))"

text \<open>One round of the loop; \<open>lineno\<close> is the number of the line, from 1.\<close>

definition read_content :: "string \<Rightarrow> bool \<Rightarrow> string \<times> bool \<Rightarrow> string \<times> bool" where
  "read_content orig_line comment groups =
     (if comment then ([], False)
      else (fst groups @ (if snd groups then '' '' else []), snd groups))"

definition read_line :: "nat \<times> string \<Rightarrow> kv_state \<Rightarrow> kv_state res" where
  "read_line = (\<lambda>(lineno, orig_line) st.
     (case read_content orig_line (comment_line orig_line) (content_groups orig_line) of
        (content, continuation) \<Rightarrow>
          process_line (FileLocation (kv_filename (kvs st)) (int lineno) 0) orig_line
            (comment_line orig_line) continuation content (set_preferred_eol lineno orig_line st)))"

fun read_lines :: "(nat \<times> string) list \<Rightarrow> kv_state \<Rightarrow> kv_state res" where
  "read_lines [] st = Inr st"
| "read_lines (l # ls) st = bind_res (read_line l st) (read_lines ls)"

text \<open>The keys without a value get their default, or are missing.\<close>

definition fill_default :: "string \<Rightarrow> keyval \<times> string list \<Rightarrow> keyval \<times> string list" where
  "fill_default key = (\<lambda>(kv, missing).
     (if om_has (kv_data kv) key then (kv, missing)
      else case om_get (kv_defaults kv) key of
        Some v \<Rightarrow> (kv\<lparr>kv_data := om_put key v (kv_data kv)\<rparr>, missing)
      | None \<Rightarrow> (kv, missing @ [key])))"

definition report_continuation :: "kv_state \<Rightarrow> keyval" where
  "report_continuation st =
     (if in_after st
      then kv_report (FileLocation (kv_filename (kvs st)) 0 0) ''file ended with continuation line'' (kvs st)
      else kvs st)"

definition fill_defaults :: "keyval \<Rightarrow> keyval \<times> string list" where
  "fill_defaults kv = fold fill_default (sorted_list_of_set (kv_keys kv)) (kv, [])"

definition report_missing :: "keyval \<times> string list \<Rightarrow> keyval" where
  "report_missing = (\<lambda>(kv, missing_keys).
     (if missing_keys \<noteq> []
      then kv_report (FileLocation (kv_filename kv) 0 0)
             (''no values for the following keys: '' @ join '' '' missing_keys) kv
      else kv))"

definition with_status :: "int \<Rightarrow> keyval \<Rightarrow> keyval \<times> bool" where
  "with_status orig_errors kv = (kv, num_errors (kv_error kv) = orig_errors)"

definition finish_file :: "int \<Rightarrow> kv_state \<Rightarrow> keyval \<times> bool" where
  "finish_file orig_errors st =
     with_status orig_errors (report_missing (fill_defaults (report_continuation st)))"

definition start_state :: "keyval \<Rightarrow> kv_state" where
  "start_state kv =
     \<lparr>kvs = kv\<lparr>kv_orig_data := kv_orig_data kv @ [new_orig_data]\<rparr>, in_after = False, value_ptr = Null_Value\<rparr>"

definition readFile :: "string \<Rightarrow> keyval \<Rightarrow> (keyval \<times> bool) res" where
  "readFile content kv =
     bind_res (read_lines (enumerate 1 (readLinesFromFile content False)) (start_state kv))
       (\<lambda>st. Inr (finish_file (num_errors (kv_error kv)) st))"

section \<open>Writing\<close>

definition write_entry ::
    "(string, string) omap \<Rightarrow> (string, string) omap \<Rightarrow> string set \<Rightarrow> orig_data \<Rightarrow> string" where
  "write_entry key_changes replacements deletions od =
     (let change = (if od_key od = [] then None else om_get key_changes (od_key od));
          replacement = (if od_key od = [] then None else om_get replacements (od_key od));
          omit = (od_key od \<noteq> [] \<and> od_key od \<in> deletions)
      in if omit then []
         else od_before od @
           (case replacement of
              Some r \<Rightarrow> r @ line_end (od_after od)
            | None \<Rightarrow> (case change of Some c \<Rightarrow> c | None \<Rightarrow> od_key od) @ od_after od))"

definition writeFile ::
    "(string, string) omap \<Rightarrow> (string, string) omap \<Rightarrow> string set \<Rightarrow> string list \<Rightarrow> keyval \<Rightarrow> string" where
  "writeFile key_changes replacements deletions additions kv =
     concat (map (\<lambda>a. a @ preferred_eol kv) additions) @
     concat (map (write_entry key_changes replacements deletions) (kv_orig_data kv))"

section \<open>Queries\<close>

definition getPreferredEOL :: "keyval \<Rightarrow> string" where
  "getPreferredEOL kv = preferred_eol kv"

definition getKeys :: "keyval \<Rightarrow> string set" where
  "getKeys kv = kv_keys kv"

definition getExplicitKeys :: "keyval \<Rightarrow> string set" where
  "getExplicitKeys kv = explicit_keys kv"

definition getVal :: "keyval \<Rightarrow> string \<Rightarrow> string res" where
  "getVal kv key = (case om_get (kv_data kv) key of
     None \<Rightarrow> Inl (Assertion ''this->data.count(key)'') | Some v \<Rightarrow> Inr v)"

definition getVal_or :: "keyval \<Rightarrow> string \<Rightarrow> string \<Rightarrow> string res" where
  "getVal_or kv key fallback_value =
     (if om_has (kv_data kv) key then getVal kv key else Inr fallback_value)"

end
