(* ===== verification/Platform_Selector.thy ===== *)
theory Platform_Selector
  imports Std_Map Util_Strings
begin

text \<open>
  The class \<open>PlatformSelector\<close> and its nested class \<open>Matcher\<close> (\<open>src/src/PlatformSelector.cc\<close>):
  which of the platforms of a platform type are to be built. The fixed regular expressions are
  recognizers: none of their alternatives overlap, so that cutting the text at its separators
  gives the groups that the expression captures.
\<close>

section \<open>The syntax of names\<close>

text \<open>\<open>[a-zA-Z0-9_-]\<close>, and a non-empty sequence of them.\<close>

definition word_char :: "char \<Rightarrow> bool" where
  "word_char c \<longleftrightarrow> (CHR ''a'' \<le> c \<and> c \<le> CHR ''z'') \<or> (CHR ''A'' \<le> c \<and> c \<le> CHR ''Z'')
     \<or> (CHR ''0'' \<le> c \<and> c \<le> CHR ''9'') \<or> c = CHR ''_'' \<or> c = CHR ''-''"

definition name_word :: "string \<Rightarrow> bool" where
  "name_word s \<longleftrightarrow> s \<noteq> [] \<and> list_all word_char s"

definition starts_with :: "string \<Rightarrow> string \<Rightarrow> bool" where
  "starts_with prefix s \<longleftrightarrow> take (length prefix) s = prefix"

text \<open>\<open>n\<close> or \<open>n + 1\<close> components, separated by dots.\<close>

definition dotted :: "(string \<Rightarrow> bool) \<Rightarrow> nat \<Rightarrow> string \<Rightarrow> bool" where
  "dotted component n s \<longleftrightarrow>
     (let fields = split (CHR ''.'') s
      in (length fields = n \<or> length fields = Suc n) \<and> list_all component fields)"

section \<open>State\<close>

definition ANY :: string where
  "ANY = ''*''"

record platform_selector =
  ps_skip :: bool
  ps_dfault :: bool
  ps_platform_type :: string
  ps_os :: string
  ps_cpu :: string
  ps_toolset :: string
  ps_compiler :: string
  ps_option :: string

definition new_selector :: platform_selector where
  "new_selector = \<lparr>ps_skip = False, ps_dfault = False, ps_platform_type = [], ps_os = [],
     ps_cpu = [], ps_toolset = [], ps_compiler = [], ps_option = []\<rparr>"

definition isSkip :: "platform_selector \<Rightarrow> bool" where
  "isSkip p = ps_skip p"

definition isDefault :: "platform_selector \<Rightarrow> bool" where
  "isDefault p = ps_dfault p"

definition getPlatformType :: "platform_selector \<Rightarrow> string" where
  "getPlatformType p = ps_platform_type p"

section \<open>Parsing\<close>

text \<open>The last argument is what \<open>option\<close> refers to: it keeps its value for a platform of four fields.\<close>

definition split_platform ::
    "string \<Rightarrow> string \<Rightarrow> (string \<times> string \<times> string \<times> string \<times> string) res" where
  "split_platform platform opt =
     (case split (CHR ''.'') platform of
        [os, cpu, toolset, compiler] \<Rightarrow> Inr (os, cpu, toolset, compiler, opt)
      | [os, cpu, toolset, compiler, opt'] \<Rightarrow> Inr (os, cpu, toolset, compiler, opt')
      | _ \<Rightarrow> Inl (Assertion ''(nfields == 4) || (nfields == 5)''))"

text \<open>A component of a selector, \<open>(?:[a-zA-Z0-9_-]+|\*)\<close>.\<close>

definition selector_component :: "string \<Rightarrow> bool" where
  "selector_component s \<longleftrightarrow> name_word s \<or> s = ANY"

text \<open>The second group of \<open>selector_re\<close>.\<close>

definition selector_body :: "string \<Rightarrow> bool" where
  "selector_body s \<longleftrightarrow> s = ''all'' \<or> s = ''skip'' \<or> s = ''default''
     \<or> starts_with ''option='' s \<and> (drop 7 s = [] \<or> selector_component (drop 7 s))
     \<or> starts_with ''compiler='' s \<and> dotted selector_component 1 (drop 9 s)
     \<or> starts_with ''platform='' s \<and> dotted selector_component 4 (drop 9 s)"

text \<open>
  \<open>selector_re\<close>: no colon can be part of the second group, so that the first colon, if any, ends
  the platform type. The result is the two groups.
\<close>

definition selector_groups :: "string \<Rightarrow> (string option \<times> string) option" where
  "selector_groups s =
     (let t = takeWhile (\<lambda>c. c \<noteq> CHR '':'') s in
      if t = s then (if selector_body s then Some (None, s) else None)
      else let body = drop (Suc (length t)) s
           in if name_word t \<and> selector_body body then Some (Some t, body) else None)"

text \<open>The branch of \<open>initialize\<close> for a selector with an equals sign.\<close>

definition set_fields :: "string \<Rightarrow> platform_selector \<Rightarrow> platform_selector res" where
  "set_fields selector p =
     (let fields = split (CHR ''='') selector in
      assert_res (length fields = 2) ''fields.size() == 2''
      (let specifier = hd fields; pattern = last fields in
       if specifier = ''option'' then Inr (p\<lparr>ps_option := pattern\<rparr>)
       else if specifier = ''compiler'' then
         (let fields = split (CHR ''.'') pattern; nfields = length fields in
          assert_res (nfields = 1 \<or> nfields = 2) ''(nfields == 1) || (nfields == 2)''
          (let p = p\<lparr>ps_compiler := hd fields\<rparr>
           in Inr (if nfields = 2 then p\<lparr>ps_option := last fields\<rparr> else p)))
       else if specifier = ''platform'' then
         bind_res (split_platform pattern (ps_option p)) (\<lambda>(os, cpu, toolset, compiler, opt).
           Inr (p\<lparr>ps_os := os, ps_cpu := cpu, ps_toolset := toolset, ps_compiler := compiler,
                  ps_option := opt\<rparr>))
       else Inl (Qexc_Internal ''unknown selector in PlatformSelector::initialize'')))"

definition initialize :: "string \<Rightarrow> platform_selector \<Rightarrow> (platform_selector \<times> bool) res" where
  "initialize str p =
     (case selector_groups str of
        None \<Rightarrow> Inr (p, False)
      | Some (t, selector) \<Rightarrow>
          let p = p\<lparr>ps_platform_type := (case t of None \<Rightarrow> ANY | Some t \<Rightarrow> t)\<rparr> in
          if selector = ''skip'' then Inr (p\<lparr>ps_skip := True\<rparr>, True)
          else if selector = ''default'' then
            (if ps_platform_type p = ANY then Inr (p, False) else Inr (p\<lparr>ps_dfault := True\<rparr>, True))
          else if selector = ''all'' then
            Inr (p\<lparr>ps_os := ANY, ps_cpu := ANY, ps_toolset := ANY, ps_compiler := ANY,
                   ps_option := ANY\<rparr>, True)
          else bind_res (set_fields selector p) (\<lambda>p. Inr (p, True)))"

section \<open>Matching\<close>

text \<open>The constructor never sets \<open>default_option\<close>, which stays empty.\<close>

record matcher =
  default_os :: string
  default_cpu :: string
  default_toolset :: string
  default_compiler :: string
  default_option :: string
  selector_of :: platform_selector

definition new_matcher :: "string \<Rightarrow> platform_selector \<Rightarrow> matcher res" where
  "new_matcher first_platform p =
     assert_res (\<not> isDefault p) ''! p.isDefault()''
     (bind_res (split_platform first_platform []) (\<lambda>(os, cpu, toolset, compiler, ignore).
        Inr \<lparr>default_os = os, default_cpu = cpu, default_toolset = toolset,
             default_compiler = compiler, default_option = [], selector_of = p\<rparr>))"

definition fieldsMatch :: "string \<Rightarrow> string \<Rightarrow> string \<Rightarrow> bool" where
  "fieldsMatch dfault selector platform \<longleftrightarrow>
     selector = ANY \<or> (selector = [] \<and> platform = dfault) \<or> selector = platform"

definition matches :: "matcher \<Rightarrow> string \<Rightarrow> bool res" where
  "matches m platform =
     bind_res (split_platform platform []) (\<lambda>(os, cpu, toolset, compiler, opt).
       let p = selector_of m in
       Inr (fieldsMatch (default_os m) (ps_os p) os
          \<and> fieldsMatch (default_cpu m) (ps_cpu p) cpu
          \<and> fieldsMatch (default_toolset m) (ps_toolset p) toolset
          \<and> fieldsMatch (default_compiler m) (ps_compiler p) compiler
          \<and> fieldsMatch (default_option m) (ps_option p) opt))"

end
