(* ===== verification/Dependency_Graph.thy ===== *)
theory Dependency_Graph
  imports Std_Map "HOL-Library.While_Combinator"
begin

text \<open>
  The class \<open>DependencyGraph\<close> (\<open>src/src/DependencyGraph.cc\<close>): items with their dependencies,
  checked for unknown items and cycles and sorted by a depth-first traversal from every item.
  The fields of the object are the record \<open>dgraph\<close>; the data that \<open>traverseInternal\<close> passes by
  reference is the record \<open>tstate\<close>. The parameters \<open>visiting\<close> and \<open>path\<close> are restored by the C++
  function before it returns, so the model passes them down and does not return them.
\<close>

section \<open>State\<close>

type_synonym item = string
type_synonym item_map = "(item, item list) omap"

datatype graph_state = GS_INIT | GS_ERROR | GS_READY

record dgraph =
  graph_state :: graph_state
  dependencies :: item_map
  sorted_dependencies :: item_map
  reverse_dependencies :: item_map
  in_order :: "item list"
  item_order :: "(item, nat) omap"
  independent_sets :: "item list list"
  unknowns :: item_map
  cycles :: "item list list"

record tstate =
  visited :: "item set"
  unknowns_seen :: "string set"
  cycles_seen :: "string set"
  result :: "item list"
  t_unknowns :: item_map
  t_cycles :: "item list list"

definition new_graph :: dgraph where
  "new_graph = \<lparr>graph_state = GS_INIT, dependencies = [], sorted_dependencies = [],
     reverse_dependencies = [], in_order = [], item_order = [], independent_sets = [],
     unknowns = [], cycles = []\<rparr>"

section \<open>Construction\<close>

definition addItem :: "item \<Rightarrow> dgraph \<Rightarrow> dgraph res" where
  "addItem i g =
     (let g = g\<lparr>graph_state := GS_INIT\<rparr> in
      assert_res (\<not> om_has (dependencies g) i) ''this->dependencies.count(item) == 0''
      (assert_res (i \<noteq> []) ''! item.empty()''
      (Inr (g\<lparr>dependencies := om_put i [] (dependencies g),
              reverse_dependencies := om_put i [] (reverse_dependencies g)\<rparr>))))"

definition addDependency :: "item \<Rightarrow> item \<Rightarrow> dgraph \<Rightarrow> dgraph res" where
  "addDependency i dep g =
     (let g = g\<lparr>graph_state := GS_INIT\<rparr> in
      assert_res (om_has (dependencies g) i) ''this->dependencies.count(item) != 0''
      (assert_res (dep \<noteq> []) ''! dep.empty()''
      (Inr (g\<lparr>dependencies := om_push_back i dep (dependencies g)\<rparr>))))"

section \<open>Traversal\<close>

definition unknown_str :: "item list \<Rightarrow> item \<Rightarrow> string" where
  "unknown_str path i = ''('' @ last path @ '') -> ('' @ i @ '')''"

definition record_unknown :: "item list \<Rightarrow> item \<Rightarrow> tstate \<Rightarrow> tstate" where
  "record_unknown path i st =
     (let unknown = unknown_str path i in
      if unknown \<in> unknowns_seen st then st
      else st\<lparr>unknowns_seen := insert unknown (unknowns_seen st),
              t_unknowns := om_push_back (last path) i (t_unknowns st)\<rparr>)"

text \<open>The path is shortened from the front until it starts with the repeated item, \<dots>\<close>

definition cycle_of :: "item list \<Rightarrow> item \<Rightarrow> item list" where
  "cycle_of path i = dropWhile (\<lambda>x. x \<noteq> i) path"

text \<open>\<dots> and rotated until its least item is in front.\<close>

definition min_item :: "item list \<Rightarrow> item" where
  "min_item c = foldl (\<lambda>m x. if x < m then x else m) (hd c) c"

definition rotate_to :: "item \<Rightarrow> item list \<Rightarrow> item list" where
  "rotate_to m c = while (\<lambda>c. hd c \<noteq> m) (\<lambda>c. tl c @ [hd c]) c"

definition cycle_str :: "item list \<Rightarrow> string" where
  "cycle_str c = concat (map (\<lambda>x. ''('' @ x @ '') -> '') c)"

definition record_cycle :: "item list \<Rightarrow> item \<Rightarrow> tstate \<Rightarrow> tstate" where
  "record_cycle path i st =
     (let c = cycle_of path i; c = rotate_to (min_item c) c; s = cycle_str c in
      if s \<in> cycles_seen st then st
      else st\<lparr>cycles_seen := insert s (cycles_seen st), t_cycles := t_cycles st @ [c]\<rparr>)"

function traverseInternal ::
    "item_map \<Rightarrow> item set \<Rightarrow> item list \<Rightarrow> item \<Rightarrow> tstate \<Rightarrow> tstate" where
  "traverseInternal deps visiting path i st =
     (case om_get deps i of
        None \<Rightarrow> record_unknown path i st
      | Some neighbors \<Rightarrow>
          if i \<in> visited st then st
          else if i \<in> visiting then record_cycle path i st
          else
            let st' = fold (\<lambda>n s. traverseInternal deps (insert i visiting) (path @ [i]) n s)
                           neighbors st
            in st'\<lparr>visited := insert i (visited st'), result := result st' @ [i]\<rparr>)"
  by pat_completeness auto
termination
proof (relation "measure (\<lambda>(deps, visiting, path, i, st). card (set (om_keys deps) - visiting))",
    goal_cases)
  case 1
  then show ?case by simp
next
  case (2 deps visiting path i st neighbors n s)
  then have "i \<in> set (om_keys deps) - visiting" by (auto simp: set_om_keys)
  then have "card (set (om_keys deps) - insert i visiting) < card (set (om_keys deps) - visiting)"
    by (intro psubset_card_mono) auto
  then show ?case by simp
qed

declare traverseInternal.simps [simp del]

definition traverse :: "item_map \<Rightarrow> item \<Rightarrow> tstate \<Rightarrow> tstate" where
  "traverse deps i st = traverseInternal deps {} [] i st"

definition sort_item :: "item_map \<Rightarrow> item \<Rightarrow> tstate \<times> item_map \<Rightarrow> tstate \<times> item_map" where
  "sort_item deps i s =
     (let st = traverse deps i ((fst s)\<lparr>visited := {}, result := []\<rparr>)
      in (st, om_put i (result st) (snd s)))"

definition topologicalSort :: "dgraph \<Rightarrow> dgraph" where
  "topologicalSort g =
     (let st0 = \<lparr>visited = {}, unknowns_seen = {}, cycles_seen = {}, result = [],
                 t_unknowns = unknowns g, t_cycles = cycles g\<rparr>;
          s = fold (sort_item (dependencies g)) (om_keys (dependencies g))
                   (st0, sorted_dependencies g)
      in g\<lparr>unknowns := t_unknowns (fst s), cycles := t_cycles (fst s),
           sorted_dependencies := snd s\<rparr>)"

section \<open>Checking\<close>

definition add_reverse :: "item_map \<Rightarrow> item_map \<Rightarrow> item_map" where
  "add_reverse deps rdeps =
     fold (\<lambda>(i, ds) r. fold (\<lambda>d r. om_push_back d i r) ds r) deps rdeps"

definition number_items :: "item list \<Rightarrow> (item, nat) omap \<Rightarrow> (item, nat) omap" where
  "number_items xs ord = fold (\<lambda>(p, i) o'. om_put i p o') (enumerate 1 xs) ord"

definition check :: "dgraph \<Rightarrow> (dgraph \<times> bool) res" where
  "check g =
     (if graph_state g \<noteq> GS_INIT then Inr (g, graph_state g = GS_READY)
      else assert_res (\<not> om_has (dependencies g) []) ''this->dependencies.count(empty) == 0''
      (let g1 = g\<lparr>dependencies := om_put [] (filter (\<lambda>k. k \<noteq> []) (om_keys (dependencies g)))
                                  (dependencies g)\<rparr>;
           g2 = topologicalSort g1;
           order = om_get_default [] (sorted_dependencies g2) []
       in assert_res (order \<noteq> [] \<and> last order = []) ''this->in_order.back().empty()''
       (let g3 = g2\<lparr>in_order := butlast order,
                    dependencies := om_erase [] (dependencies g2),
                    sorted_dependencies := om_erase [] (sorted_dependencies g2)\<rparr>;
            g4 = g3\<lparr>item_order := number_items (in_order g3) (item_order g3),
                    reverse_dependencies :=
                      add_reverse (dependencies g3) (reverse_dependencies g3)\<rparr>;
            g5 = g4\<lparr>graph_state :=
                      (if \<not> (unknowns g4 = [] \<and> cycles g4 = []) then GS_ERROR else GS_READY)\<rparr>
        in Inr (g5, graph_state g5 = GS_READY))))"

section \<open>Queries\<close>

text \<open>
  Every query asserts that \<open>check\<close> has been called and that the item is known. A pointer into the
  map is modelled as the value it points to.
\<close>

definition assertChecked :: "dgraph \<Rightarrow> 'a res \<Rightarrow> 'a res" where
  "assertChecked g k = assert_res (graph_state g \<noteq> GS_INIT) ''val == (this->graph_state != gs_INIT)'' k"

definition lookup_item :: "(item, 'v) omap \<Rightarrow> item \<Rightarrow> 'v res" where
  "lookup_item m i = (case om_get m i of None \<Rightarrow> Inl (Assertion ''count(item) != 0'') | Some v \<Rightarrow> Inr v)"

definition getDirectDependencies :: "dgraph \<Rightarrow> item \<Rightarrow> item list res" where
  "getDirectDependencies g i = assertChecked g (lookup_item (dependencies g) i)"

definition getSortedDependencies :: "dgraph \<Rightarrow> item \<Rightarrow> item list res" where
  "getSortedDependencies g i = assertChecked g (lookup_item (sorted_dependencies g) i)"

definition getReverseDependencies :: "dgraph \<Rightarrow> item \<Rightarrow> item list res" where
  "getReverseDependencies g i = assertChecked g (lookup_item (reverse_dependencies g) i)"

definition compareItems :: "dgraph \<Rightarrow> item \<Rightarrow> item \<Rightarrow> int res" where
  "compareItems g i1 i2 =
     assertChecked g
     (bind_res (lookup_item (item_order g) i1) (\<lambda>n1.
      bind_res (lookup_item (item_order g) i2) (\<lambda>n2.
      Inr (if n1 < n2 then -1 else if n1 > n2 then 1 else 0))))"

definition itemLessFunction :: "dgraph \<Rightarrow> item \<Rightarrow> item \<Rightarrow> bool res" where
  "itemLessFunction g i1 i2 = bind_res (compareItems g i1 i2) (\<lambda>c. Inr (c = -1))"

definition getSortedGraph :: "dgraph \<Rightarrow> item list res" where
  "getSortedGraph g = assertChecked g (Inr (in_order g))"

text \<open>
  \<open>getIndependentSets\<close>: flood the graph in both directions from every item that has no set yet.
  The work list grows at its end while its front is popped; a node that is not an item makes
  \<open>getDirectDependencies\<close> fail its assertion.
\<close>

function flood :: "dgraph \<Rightarrow> nat \<Rightarrow> item list \<Rightarrow> (item, nat) omap \<Rightarrow> (item, nat) omap res" where
  "flood g n [] nums = Inr nums"
| "flood g n (node # nodes) nums =
     (if om_has nums node then flood g n nodes nums
      else case om_get (dependencies g) node of
          None \<Rightarrow> Inl (Assertion ''count(item) != 0'')
        | Some deps \<Rightarrow>
           (case om_get (reverse_dependencies g) node of
              None \<Rightarrow> Inl (Assertion ''count(item) != 0'')
            | Some rdeps \<Rightarrow> flood g n (nodes @ deps @ rdeps) (om_put node n nums)))"
  by pat_completeness auto
termination
proof (relation "measures [\<lambda>(g, n, nodes, nums). card (set (om_keys (dependencies g)) - set (om_keys nums)),
                           \<lambda>(g, n, nodes, nums). length nodes]", goal_cases)
  case (3 g n node nodes nums deps rdeps)
  then have "node \<in> set (om_keys (dependencies g)) - set (om_keys nums)"
    by (auto simp: set_om_keys om_has_def)
  then have "card (set (om_keys (dependencies g)) - set (om_keys (om_put node n nums)))
      < card (set (om_keys (dependencies g)) - set (om_keys nums))"
    by (intro psubset_card_mono) (auto simp: set_om_keys_put)
  then show ?case by simp
qed auto

fun number_sets :: "dgraph \<Rightarrow> item list \<Rightarrow> nat \<Rightarrow> (item, nat) omap \<Rightarrow> (item, nat) omap res" where
  "number_sets g [] next nums = Inr nums"
| "number_sets g (node # nodes) next nums =
     (if \<not> om_has nums node
      then bind_res (flood g next [node] nums) (number_sets g nodes (Suc next))
      else number_sets g nodes next nums)"

definition gather_sets :: "(item, nat) omap \<Rightarrow> (nat, item list) omap" where
  "gather_sets nums = fold (\<lambda>(i, n). om_push_back n i) nums []"

definition getIndependentSets :: "dgraph \<Rightarrow> (dgraph \<times> item list list) res" where
  "getIndependentSets g =
     assertChecked g
     (assert_res (graph_state g = GS_READY) ''check()''
     (if independent_sets g \<noteq> [] then Inr (g, independent_sets g)
      else bind_res (number_sets g (in_order g) 0 []) (\<lambda>nums.
        let sets = map (\<lambda>(n, nodes). sort_key (om_get_default 0 (item_order g)) nodes)
                       (gather_sets nums)
        in Inr (g\<lparr>independent_sets := sets\<rparr>, sets))))"

definition check_const :: "dgraph \<Rightarrow> bool res" where
  "check_const g = assertChecked g (Inr (graph_state g = GS_READY))"

definition getErrors :: "dgraph \<Rightarrow> (item_map \<times> item list list) res" where
  "getErrors g = assertChecked g (Inr (unknowns g, cycles g))"

end
