(* ===== verification/Platform_Data.thy ===== *)
theory Platform_Data
  imports Platform_Selector Basic_Data Dependency_Graph
begin

text \<open>
  The class \<open>PlatformData\<close> (\<open>src/src/PlatformData.cc\<close>): the platform types with their parents and
  platforms, kept in a dependency graph, from which \<open>check\<close> computes the platforms of every type
  with the selected ones, and the types every type is compatible with. \<open>loadPlatformData\<close>
  (\<open>src/src/Abuild-init.cc\<close>) fills it from the files of a platform directory.

  An operation that throws has often changed the object before, and \<open>loadPlatformData\<close> catches the
  exception and goes on with the object; so these operations return the object in any case.
\<close>

section \<open>State\<close>

definition PLATFORM_INDEP :: string where "PLATFORM_INDEP = ''indep''"
definition PLATFORM_JAVA :: string where "PLATFORM_JAVA = ''java''"
definition pt_INDEP :: string where "pt_INDEP = ''indep''"
definition pt_NATIVE :: string where "pt_NATIVE = ''native''"
definition pt_JAVA :: string where "pt_JAVA = ''java''"
definition PLATFORM_PREFIX :: string where "PLATFORM_PREFIX = ''platform ''"
definition PLATFORM_TYPE_PREFIX :: string where "PLATFORM_TYPE_PREFIX = ''platform type ''"

type_synonym selected_platforms = "(string \<times> bool) list"

record platform_data =
  pd_initializing :: bool
  pd_checked :: bool
  target_types :: "(string, target_type_e) omap"
  platform_types :: "(string, string) omap"
  platforms_by_type :: "(string, selected_platforms) omap"
  compatible_platform_types :: "(string, string list) omap"
  platform_declaration :: "(string, int) omap"
  platform_type_parents :: "(string, string) omap"
  platform_graph :: dgraph

definition empty_platform_data :: platform_data where
  "empty_platform_data = \<lparr>pd_initializing = True, pd_checked = False, target_types = [],
     platform_types = [], platforms_by_type = [], compatible_platform_types = [],
     platform_declaration = [], platform_type_parents = [], platform_graph = new_graph\<rparr>"

section \<open>Adding platform types and platforms\<close>

text \<open>A change of the graph; if it fails an assertion, the program stops.\<close>

definition on_graph :: "(dgraph \<Rightarrow> dgraph res) \<Rightarrow> platform_data \<Rightarrow> platform_data \<times> unit res" where
  "on_graph f pd = (case f (platform_graph pd) of
     Inl e \<Rightarrow> (pd, Inl e) | Inr g \<Rightarrow> (pd\<lparr>platform_graph := g\<rparr>, Inr ()))"

definition and_then :: "'s \<times> unit res \<Rightarrow> ('s \<Rightarrow> 's \<times> unit res) \<Rightarrow> 's \<times> unit res" where
  "and_then r k = (case r of (s, Inl e) \<Rightarrow> (s, Inl e) | (s, Inr u) \<Rightarrow> k s)"

definition target_type_text :: "target_type_e \<Rightarrow> string" where
  "target_type_text t = (case getName t of Inl e \<Rightarrow> [] | Inr name \<Rightarrow> name)"

definition set_parent :: "string \<Rightarrow> target_type_e \<Rightarrow> string \<Rightarrow> platform_data \<Rightarrow> platform_data \<times> unit res" where
  "set_parent platform_type target_type parent pd =
     (if target_type \<noteq> tt_object_code then (pd, Inl (Assertion ''target_type == tt_object_code''))
      else case om_get (target_types pd) parent of
        None \<Rightarrow> (pd, Inl (Qexc_General (''platform type \"'' @ platform_type @
                  ''\" has unknown parent type \"'' @ parent @ ''\"'')))
      | Some t \<Rightarrow>
          if t \<noteq> tt_object_code
          then (pd, Inl (Qexc_General (''platform type \"'' @ platform_type @
                  ''\" has parent type '' @ parent @ '', which is not in target type \"'' @
                  target_type_text tt_object_code @ ''\"'')))
          else on_graph (addDependency (PLATFORM_TYPE_PREFIX @ platform_type)
                                       (PLATFORM_TYPE_PREFIX @ parent)) pd)"

definition addPlatformType ::
    "string \<Rightarrow> target_type_e \<Rightarrow> string \<Rightarrow> platform_data \<Rightarrow> platform_data \<times> unit res" where
  "addPlatformType platform_type target_type parent pd =
     (let pd = pd\<lparr>pd_checked := False\<rparr> in
      if \<not> (pd_initializing pd \<or> target_type = tt_object_code)
      then (pd, Inl (Qexc_General (''platform types may not be added to target type '' @
                                   target_type_text target_type)))
      else if om_has (target_types pd) platform_type
      then (pd, Inl (Qexc_General (''platform type '' @ platform_type @
                                   '' has been registered multiple times'')))
      else
        let pd = pd\<lparr>target_types := om_put platform_type target_type (target_types pd),
                    platform_type_parents := om_put platform_type parent (platform_type_parents pd)\<rparr>
        in and_then (on_graph (addItem (PLATFORM_TYPE_PREFIX @ platform_type)) pd) (\<lambda>pd.
             if parent = [] then (pd, Inr ())
             else set_parent platform_type target_type parent pd))"

definition addPlatform ::
    "string \<Rightarrow> string \<Rightarrow> bool \<Rightarrow> platform_data \<Rightarrow> platform_data \<times> unit res" where
  "addPlatform platform platform_type lowpri pd =
     (let pd = pd\<lparr>pd_checked := False\<rparr> in
      if om_has (platform_declaration pd) platform
      then (pd, Inl (Qexc_General (''platform '' @ platform @ '' has already been registered'')))
      else
        let n = int (length (platform_declaration pd));
            pd = pd\<lparr>platform_declaration :=
                      om_put platform (if lowpri then - n else n) (platform_declaration pd)\<rparr>
        in and_then (on_graph (addItem (PLATFORM_PREFIX @ platform)) pd) (\<lambda>pd.
             if \<not> om_has (target_types pd) platform_type
             then (pd, Inl (Qexc_General (''platform '' @ platform @
                              '' belongs to unknown platform type '' @ platform_type)))
             else and_then (on_graph (addDependency (PLATFORM_TYPE_PREFIX @ platform_type)
                                                    (PLATFORM_PREFIX @ platform)) pd) (\<lambda>pd.
               (pd\<lparr>platform_types := om_put platform platform_type (platform_types pd)\<rparr>, Inr ()))))"

definition PlatformData :: "platform_data \<times> unit res" where
  "PlatformData =
     and_then (addPlatformType pt_INDEP tt_platform_independent [] empty_platform_data) (\<lambda>pd.
     and_then (addPlatformType pt_NATIVE tt_object_code [] pd) (\<lambda>pd.
     and_then (addPlatformType pt_JAVA tt_java [] pd) (\<lambda>pd.
     and_then (addPlatform PLATFORM_INDEP pt_INDEP False pd) (\<lambda>pd.
     and_then (addPlatform PLATFORM_JAVA pt_JAVA False pd) (\<lambda>pd.
       (pd\<lparr>pd_initializing := False\<rparr>, Inr ()))))))"

section \<open>Checking\<close>

text \<open>The text of the errors of the graph.\<close>

definition graph_error_text :: "item_map \<Rightarrow> item list list \<Rightarrow> string" where
  "graph_error_text us cs =
     concat (map (\<lambda>(node, items).
       concat (map (\<lambda>u. ''  '' @ node @ '' contains unknown item '' @ u @ [newline]) items)) us) @
     concat (map (\<lambda>c. ''  circular nesting detected: '' @ join '' -> '' c @ '' -> '' @ hd c) cs)"

text \<open>
  \<open>regex_match\<close> against a prefix followed by \<open>(\S+)\<close>: the group.
\<close>

definition after_prefix :: "string \<Rightarrow> string \<Rightarrow> string option" where
  "after_prefix prefix s =
     (let rest = drop (length prefix) s
      in if starts_with prefix s \<and> rest \<noteq> [] \<and> list_all (\<lambda>c. \<not> isspace c) rest then Some rest
         else None)"

text \<open>The selector for a platform type with the key under which it is found.\<close>

definition find_selector ::
    "(string, platform_selector) omap \<Rightarrow> string \<Rightarrow> target_type_e \<Rightarrow> (string \<times> platform_selector) option" where
  "find_selector selectors platform_type target_type =
     (case om_get selectors platform_type of
        Some ps \<Rightarrow> Some (platform_type, ps)
      | None \<Rightarrow>
          if target_type = tt_object_code
          then map_option (\<lambda>ps. (ANY, ps)) (om_get selectors ANY)
          else None)"

definition declared_at :: "platform_data \<Rightarrow> string \<Rightarrow> int" where
  "declared_at pd platform = om_get_default 0 (platform_declaration pd) platform"

definition declarationOrder :: "platform_data \<Rightarrow> string \<times> bool \<Rightarrow> string \<times> bool \<Rightarrow> bool res" where
  "declarationOrder pd p1 p2 =
     assert_res (om_has (platform_declaration pd) (fst p1)) ''count(p1.first) != 0''
     (assert_res (om_has (platform_declaration pd) (fst p2)) ''count(p2.first) != 0''
     (Inr (declared_at pd (fst p1) > declared_at pd (fst p2))))"

text \<open>
  \<open>std::sort\<close> by \<open>declarationOrder\<close>, whose assertions are checked for all elements when there is
  anything to compare. Declaration numbers differ, so that the result is determined.
\<close>

definition sort_platforms :: "platform_data \<Rightarrow> selected_platforms \<Rightarrow> selected_platforms res" where
  "sort_platforms pd ps =
     assert_res (length ps < 2 \<or> list_all (\<lambda>p. om_has (platform_declaration pd) (fst p)) ps)
       ''this->platform_declaration.count(p1.first) != 0''
     (Inr (sort_key (\<lambda>p. - declared_at pd (fst p)) ps))"

fun mark_matching :: "matcher \<Rightarrow> selected_platforms \<Rightarrow> selected_platforms res" where
  "mark_matching m [] = Inr []"
| "mark_matching m ((p, b) # ps) =
     bind_res (matches m p) (\<lambda>b'. bind_res (mark_matching m ps) (\<lambda>ps'. Inr ((p, b') # ps')))"

definition select_first :: "selected_platforms \<Rightarrow> selected_platforms" where
  "select_first ps = (case ps of [] \<Rightarrow> [] | (p, b) # rest \<Rightarrow> (p, True) # rest)"

text \<open>The platforms marked by the selector, and whether the selector was used.\<close>

definition select_platforms ::
    "platform_selector option \<Rightarrow> selected_platforms \<Rightarrow> (selected_platforms \<times> bool) res" where
  "select_platforms ps platforms =
     (if platforms = [] then Inr ([], False)
      else case ps of
        None \<Rightarrow> Inr (select_first platforms, False)
      | Some ps \<Rightarrow>
          if isSkip ps then Inr (platforms, True)
          else if isDefault ps then Inr (select_first platforms, True)
          else bind_res (new_matcher (fst (hd platforms)) ps) (\<lambda>m.
               bind_res (mark_matching m platforms) (\<lambda>platforms.
               if list_ex snd platforms then Inr (platforms, True)
               else Inr (select_first platforms, False))))"

text \<open>One round of the loop of \<open>check\<close> over the platform types.\<close>

definition check_type ::
    "(string, platform_selector) omap \<Rightarrow> string \<times> target_type_e \<Rightarrow>
     platform_data \<times> (string, string) omap \<Rightarrow> (platform_data \<times> (string, string) omap) res" where
  "check_type selectors = (\<lambda>(platform_type, target_type) (pd, unused).
     (let found = find_selector selectors platform_type target_type;
          ps = map_option snd found
      in if (case ps of None \<Rightarrow> False | Some ps \<Rightarrow> \<not> isSkip ps \<and> target_type \<noteq> tt_object_code)
         then Inl (Qexc_General (''platform selectors for non-object-code platform types'' @
                                 '' may only specify skip''))
         else
           bind_res (getDirectDependencies (platform_graph pd) (PLATFORM_TYPE_PREFIX @ platform_type)) (\<lambda>deps.
           let platforms = om_get_default [] (platforms_by_type pd) platform_type @
                           map (\<lambda>p. (p, False)) (List.map_filter (after_prefix PLATFORM_PREFIX) deps)
           in
           bind_res (getSortedDependencies (platform_graph pd) (PLATFORM_TYPE_PREFIX @ platform_type)) (\<lambda>sdeps.
           let types = om_get_default [] (compatible_platform_types pd) platform_type @
                       List.map_filter (after_prefix PLATFORM_TYPE_PREFIX) (rev (butlast sdeps))
           in
           bind_res (sort_platforms pd platforms) (\<lambda>platforms.
           bind_res (select_platforms ps platforms) (\<lambda>(platforms, used).
           Inr (pd\<lparr>platforms_by_type := om_put platform_type platforms (platforms_by_type pd),
                   compatible_platform_types :=
                     om_put platform_type types (compatible_platform_types pd)\<rparr>,
                case found of
                  None \<Rightarrow> unused
                | Some (which, _) \<Rightarrow> if used then om_erase which unused else unused)))))))"

fun check_types ::
    "(string, platform_selector) omap \<Rightarrow> (string \<times> target_type_e) list \<Rightarrow>
     platform_data \<times> (string, string) omap \<Rightarrow> (platform_data \<times> (string, string) omap) res" where
  "check_types selectors [] s = Inr s"
| "check_types selectors (t # ts) s = bind_res (check_type selectors t s) (check_types selectors ts)"

definition check_platforms ::
    "(string, platform_selector) omap \<Rightarrow> (string, string) omap \<Rightarrow> platform_data \<Rightarrow>
     (platform_data \<times> (string, string) omap) res" where
  "check_platforms selectors unused pd =
     bind_res (check (platform_graph pd)) (\<lambda>(g, okay).
       let pd = pd\<lparr>pd_checked := True, platform_graph := g\<rparr> in
       if \<not> okay
       then bind_res (getErrors g) (\<lambda>(us, cs). Inl (Qexc_General (graph_error_text us cs)))
       else check_types selectors (target_types pd) (pd\<lparr>platforms_by_type := []\<rparr>, unused))"

section \<open>Queries\<close>

definition isPlatformTypeValid :: "platform_data \<Rightarrow> string \<Rightarrow> bool res" where
  "isPlatformTypeValid pd platform_type =
     assert_res (pd_checked pd) ''this->checked'' (Inr (om_has (platforms_by_type pd) platform_type))"

definition when_valid :: "platform_data \<Rightarrow> string \<Rightarrow> 'a option \<Rightarrow> 'a res" where
  "when_valid pd platform_type v =
     bind_res (isPlatformTypeValid pd platform_type) (\<lambda>b.
       assert_res b ''isPlatformTypeValid(platform_type)''
       (case v of None \<Rightarrow> Inl (Undefined ''*map.end()'') | Some x \<Rightarrow> Inr x))"

definition getTargetType :: "platform_data \<Rightarrow> string \<Rightarrow> target_type_e res" where
  "getTargetType pd t = when_valid pd t (om_get (target_types pd) t)"

definition getPlatformsByType :: "platform_data \<Rightarrow> string \<Rightarrow> selected_platforms res" where
  "getPlatformsByType pd t = when_valid pd t (om_get (platforms_by_type pd) t)"

definition getPlatformTypeParent :: "platform_data \<Rightarrow> string \<Rightarrow> string res" where
  "getPlatformTypeParent pd t = when_valid pd t (om_get (platform_type_parents pd) t)"

definition getCompatiblePlatformTypes :: "platform_data \<Rightarrow> string \<Rightarrow> string list res" where
  "getCompatiblePlatformTypes pd platform =
     bind_res
       (case om_get (platform_types pd) platform of
          None \<Rightarrow> Inr []
        | Some t \<Rightarrow>
            bind_res (isPlatformTypeValid pd t) (\<lambda>b.
              assert_res b ''isPlatformTypeValid(platform_type)''
              (case om_get (compatible_platform_types pd) t of
                 None \<Rightarrow> Inl (Assertion ''this->compatible_platform_types.count(platform_type)'')
               | Some ts \<Rightarrow> Inr ts)))
       (\<lambda>ts. Inr (if platform \<noteq> PLATFORM_INDEP then ts @ [pt_INDEP] else ts))"

definition getPlatformTypes :: "platform_data \<Rightarrow> target_type_e \<Rightarrow> string set" where
  "getPlatformTypes pd target_type = fst ` set (filter (\<lambda>(t, tt). tt = target_type) (target_types pd))"

end
