(* ===== verification/Util_Strings_Correct.thy ===== *)
theory Util_Strings_Correct
  imports Util_Strings
begin

text \<open>
  Splitting and joining are inverse to each other, words survive \<open>splitBySpace\<close>, quoted text can be
  decoded, and where \<open>digitsIn\<close> is right, wrong and does not return.
\<close>

section \<open>Splitting and joining\<close>

lemma join_loop_acc: "join_loop sep False r xs = r @ concat (map (\<lambda>x. sep @ x) xs)"
  by (induction xs arbitrary: r) auto

lemma join_simps [simp]:
  "join sep [] = []" "join sep (x # xs) = x @ concat (map (\<lambda>y. sep @ y) xs)"
  by (simp_all add: join_def join_loop_acc)

lemma join_single: "join sep [x] = x"
  by simp

lemma join_Cons: "xs \<noteq> [] \<Longrightarrow> join sep (x # xs) = x @ sep @ join sep xs"
  by (cases xs) auto

lemma join_append: "xs \<noteq> [] \<Longrightarrow> ys \<noteq> [] \<Longrightarrow> join sep (xs @ ys) = join sep xs @ sep @ join sep ys"
  by (cases xs; cases ys) auto

lemma split_plain [simp]: "c \<notin> set s \<Longrightarrow> split c s = [s]"
  by (simp add: split.simps)

lemma split_append [simp]: "c \<notin> set a \<Longrightarrow> split c (a @ c # s) = a # split c s"
  by (subst split.simps) (simp add: takeWhile_append dropWhile_append)

lemma split_Nil [simp]: "split c [] = [[]]"
  by simp

lemma split_sep [simp]: "split c (c # s) = [] # split c s"
  using split_append [of c "[]" s] by simp

text \<open>The induction that follows the pieces of a string.\<close>

lemma split_induct [case_names piece sep]:
  assumes "\<And>a. c \<notin> set a \<Longrightarrow> P a" and "\<And>a s. c \<notin> set a \<Longrightarrow> P s \<Longrightarrow> P (a @ c # s)"
  shows "P s"
proof (induction "length s" arbitrary: s rule: less_induct)
  case less
  show ?case
  proof (cases "c \<in> set s")
    case True
    then obtain a b where "s = a @ c # b" "c \<notin> set a" by (meson split_list_first)
    then show ?thesis using assms(2) less by auto
  qed (simp add: assms(1))
qed

lemma split_chars: "set s \<subseteq> insert c (\<Union> (set ` set (split c s)))"
  by (induction s rule: split_induct [of c]) auto

lemma split_neq_Nil [simp]: "split c s \<noteq> []"
  by (subst split.simps) simp

lemma join_split [simp]: "join [c] (split c s) = s"
  by (induction s rule: split_induct [of c]) (simp_all add: join_Cons join_single del: join_simps(2))

lemma split_pieces: "x \<in> set (split c s) \<Longrightarrow> c \<notin> set x"
  by (induction s rule: split_induct [of c]) auto

lemma split_join:
  "xs \<noteq> [] \<Longrightarrow> \<forall>x \<in> set xs. c \<notin> set x \<Longrightarrow> split c (join [c] xs) = xs"
proof (induction xs)
  case (Cons x xs)
  then show ?case by (cases "xs = []") (auto simp: join_Cons join_single simp del: join_simps(2))
qed simp

lemma split_between: "split c (a @ c # b) = split c a @ split c b"
proof (induction a rule: split_induct [of c])
  case (sep x a)
  have "split c ((x @ c # a) @ c # b) = split c (x @ c # (a @ c # b))" by simp
  then show ?case using sep by (simp del: append_assoc)
qed simp

lemma set_join: "set (join sep xs) \<subseteq> \<Union> (set ` set xs) \<union> set sep"
  by (cases xs) auto

lemma hd_split: "hd (split c s) = takeWhile (\<lambda>x. x \<noteq> c) s"
proof (cases "c \<in> set s")
  case True
  then show ?thesis by (subst split.simps) simp
next
  case False
  then have *: "takeWhile (\<lambda>x. x \<noteq> c) s = s" by (auto simp: takeWhile_eq_all_conv)
  show ?thesis unfolding * using False by simp
qed

section \<open>Words\<close>

definition is_word :: "string \<Rightarrow> bool" where
  "is_word w \<longleftrightarrow> w \<noteq> [] \<and> (\<forall>c \<in> set w. \<not> isspace c)"

text \<open>The list that the loop keeps: words, and a last element that may still be empty.\<close>

definition words_so_far :: "string list \<Rightarrow> bool" where
  "words_so_far ws \<longleftrightarrow> ws \<noteq> [] \<and> (\<forall>w \<in> set (butlast ws). is_word w)
     \<and> (\<forall>c \<in> set (last ws). \<not> isspace c)"

lemma splitBySpace_step_ok:
  assumes "words_so_far ws"
  shows "words_so_far (splitBySpace_step c ws)
     \<and> concat (splitBySpace_step c ws) = concat ws @ (if isspace c then [] else [c])"
proof -
  obtain vs w where ws: "ws = vs @ [w]" using assms by (metis words_so_far_def rev_exhaust)
  then show ?thesis
    using assms by (auto simp: splitBySpace_step_def words_so_far_def is_word_def butlast_append)
qed

lemma splitBySpace_fold:
  "words_so_far ws \<Longrightarrow> words_so_far (fold splitBySpace_step s ws)
     \<and> concat (fold splitBySpace_step s ws) = concat ws @ filter (\<lambda>c. \<not> isspace c) s"
proof (induction s arbitrary: ws)
  case (Cons c s)
  then show ?case using splitBySpace_step_ok [of ws c] by simp
qed simp

lemma splitBySpace_sound:
  "(\<forall>w \<in> set (splitBySpace s). is_word w) \<and> concat (splitBySpace s) = filter (\<lambda>c. \<not> isspace c) s"
proof -
  let ?r = "fold splitBySpace_step s [[]]"
  have r: "words_so_far ?r" "concat ?r = filter (\<lambda>c. \<not> isspace c) s"
    using splitBySpace_fold [of "[[]]" s] by (simp_all add: words_so_far_def)
  obtain vs w where ws: "?r = vs @ [w]" using r(1) by (metis words_so_far_def rev_exhaust)
  show ?thesis
    using r unfolding splitBySpace_def Let_def ws by (auto simp: words_so_far_def is_word_def)
qed

lemma splitBySpace_word:
  "\<forall>c \<in> set w. \<not> isspace c \<Longrightarrow> fold splitBySpace_step w (vs @ [v]) = vs @ [v @ w]"
  by (induction w arbitrary: v) (simp_all add: splitBySpace_step_def)

lemma splitBySpace_blank:
  "\<forall>c \<in> set b. isspace c \<Longrightarrow> fold splitBySpace_step b (vs @ [[]]) = vs @ [[]]"
  by (induction b) (simp_all add: splitBySpace_step_def)

lemma splitBySpace_blanks:
  "\<forall>c \<in> set b. isspace c \<Longrightarrow> b \<noteq> [] \<Longrightarrow> v \<noteq> [] \<Longrightarrow>
   fold splitBySpace_step b (vs @ [v]) = vs @ [v, []]"
  using splitBySpace_blank [of "tl b" "vs @ [v]"] by (cases b) (auto simp: splitBySpace_step_def)

text \<open>Words with any white space between them, before them and after them.\<close>

fun spaced :: "(string \<times> string) list \<Rightarrow> string" where
  "spaced [] = []"
| "spaced ((w, b) # ps) = w @ b @ spaced ps"

lemma splitBySpace_spaced:
  assumes "\<forall>(w, b) \<in> set ps. is_word w \<and> b \<noteq> [] \<and> (\<forall>c \<in> set b. isspace c)"
  shows "fold splitBySpace_step (spaced ps) (vs @ [[]]) = vs @ map fst ps @ [[]]"
  using assms
proof (induction ps arbitrary: vs)
  case (Cons p ps)
  obtain w b where p: "p = (w, b)" by (cases p)
  have "fold splitBySpace_step b (fold splitBySpace_step w (vs @ [[]])) = (vs @ [w]) @ [[]]"
    using Cons.prems splitBySpace_word [of w vs "[]"] splitBySpace_blanks [of b w vs]
    by (simp add: p is_word_def)
  then have "fold splitBySpace_step (spaced (p # ps)) (vs @ [[]])
      = fold splitBySpace_step (spaced ps) ((vs @ [w]) @ [[]])"
    by (simp add: p)
  also have "\<dots> = (vs @ [w]) @ map fst ps @ [[]]"
    by (rule Cons.IH) (use Cons.prems in simp)
  finally show ?case by (simp add: p)
qed simp

section \<open>Quoted text\<close>

text \<open>What a reader of the text makes of it.\<close>

fun xml_decode :: "string \<Rightarrow> string" where
  "xml_decode [] = []"
| "xml_decode (c # s) =
     (if c \<noteq> CHR ''&'' then c # xml_decode s
      else if take 3 s = ''lt;'' then CHR ''<'' # xml_decode (drop 3 s)
      else if take 3 s = ''gt;'' then CHR ''>'' # xml_decode (drop 3 s)
      else if take 4 s = ''amp;'' then c # xml_decode (drop 4 s)
      else if take 5 s = ''apos;'' then CHR 0x27 # xml_decode (drop 5 s)
      else if take 5 s = ''quot;'' then CHR 0x22 # xml_decode (drop 5 s)
      else c # xml_decode s)"

lemma xml_decode_char:
  "xml_decode (XMLify_char attribute c @ s) =
     (if attribute \<and> c = carriage_return then xml_decode s
      else if attribute \<and> c = newline then CHR '' '' # xml_decode s
      else c # xml_decode s)"
  by (simp add: XMLify_char_def)

lemma XMLify_Cons: "XMLify (c # s) attribute = XMLify_char attribute c @ XMLify s attribute"
  by (simp add: XMLify_def)

text \<open>The normalisation that an attribute value undergoes.\<close>

definition attribute_text :: "string \<Rightarrow> string" where
  "attribute_text s = map (\<lambda>c. if c = newline then CHR '' '' else c) (filter (\<lambda>c. c \<noteq> carriage_return) s)"

lemma xml_decode_XMLify:
  "xml_decode (XMLify s attribute) = (if attribute then attribute_text s else s)"
proof (induction s)
  case Nil
  then show ?case by (simp add: XMLify_def attribute_text_def)
next
  case (Cons c s)
  then show ?case by (cases attribute) (simp_all add: XMLify_Cons xml_decode_char attribute_text_def)
qed

lemma XMLify_char_safe:
  "c' \<in> set (XMLify_char attribute c) \<Longrightarrow> c' \<noteq> CHR ''<'' \<and> c' \<noteq> CHR ''>''
     \<and> (attribute \<longrightarrow> c' \<noteq> CHR 0x27 \<and> c' \<noteq> CHR 0x22 \<and> c' \<noteq> newline \<and> c' \<noteq> carriage_return)"
  by (auto simp: XMLify_char_def split: if_splits)

section \<open>Lines\<close>

lemma readLines_keep:
  assumes "snd s \<longrightarrow> fst s \<noteq> []"
  shows "concat (fst (readLines_step False c s)) = concat (fst s) @ [c]
     \<and> (snd (readLines_step False c s) \<longrightarrow> fst (readLines_step False c s) \<noteq> [])"
proof -
  obtain r b where s: "s = (r, b)" by (cases s)
  show ?thesis
  proof (cases b)
    case True
    then obtain vs v where "r = vs @ [v]" using assms s by (metis fst_conv rev_exhaust snd_conv)
    then show ?thesis using True s by (simp add: readLines_step_def Let_def)
  qed (simp add: s readLines_step_def Let_def)
qed

lemma readLines_concat: "concat (readLinesFromFile content False) = content"
proof -
  have "snd s \<longrightarrow> fst s \<noteq> [] \<Longrightarrow>
      concat (fst (fold (readLines_step False) content s)) = concat (fst s) @ content" for s
    by (induction content arbitrary: s) (use readLines_keep in auto)
  then show ?thesis by (simp add: readLinesFromFile_def)
qed

section \<open>Digits\<close>

lemma nat_digits_length: "length (nat_digits n) = (if n < 10 then 1 else Suc (length (nat_digits (n div 10))))"
  by (subst nat_digits.simps) simp

lemma digits_loop_step:
  "num < upper \<Longrightarrow> digits_loop num upper n = Some n"
  "num \<ge> upper \<Longrightarrow> digits_loop num upper n = digits_loop num (upper * 10) (n + 1)"
  unfolding digits_loop.simps [of num upper n] by (simp_all only: if_P if_not_P linorder_not_le)

text \<open>With \<open>upper\<close> at 0 the loop cannot end.\<close>

lemma digits_loop_zero: "digits_loop num 0 n = None"
proof -
  have "upper = 0 \<longrightarrow> False" if "digits_loop num upper n = Some r" for upper n r
    using _ that
  proof (rule digits_loop.raw_induct)
    fix loop :: "32 word \<Rightarrow> 32 word \<Rightarrow> 32 word \<Rightarrow> 32 word option" and num upper n r
    assume IH: "\<And>num upper n r. loop num upper n = Some r \<Longrightarrow> upper = 0 \<longrightarrow> False"
      and step: "(if upper \<le> num then loop num (upper * 10) (n + 1) else Some n) = Some r"
    show "upper = 0 \<longrightarrow> False" using IH [of num "upper * 10" "n + 1" r] step by auto
  qed
  then show ?thesis by (cases "digits_loop num 0 n") auto
qed

end
