(* ===== verification/Util_Paths.thy ===== *)
theory Util_Paths
  imports Util_Strings_Correct
begin

text \<open>
  The functions of \<open>src/src/Util.cc\<close> on path names, in the UNIX configuration. What they ask the
  operating system is the record \<open>os\<close>: the current directory, the symbolic links that can be read
  (path and target; a target is not empty), the regular files, the directories and the executable
  files, and the environment.
\<close>

record os =
  os_cwd :: string
  os_links :: "(string \<times> string) list"
  os_file :: "string \<Rightarrow> bool"
  os_directory :: "string \<Rightarrow> bool"
  os_executable :: "string \<Rightarrow> bool"
  os_env :: "string \<Rightarrow> string option"

definition getCurrentDirectory :: "os \<Rightarrow> string" where
  "getCurrentDirectory sys = normalizePathSeparators (os_cwd sys)"

definition isAbsolutePath :: "string \<Rightarrow> bool" where
  "isAbsolutePath path \<longleftrightarrow> length path \<ge> 1 \<and> (path ! 0 = slash \<or> path ! 0 = backslash)"

section \<open>Canonical paths\<close>

text \<open>
  The loop of \<open>canonicalizePath\<close>. The list of components behind the iterator is the third argument;
  the components of a link's target are inserted there. An absolute target starts again behind its
  first component, which is the empty one before the first slash.
\<close>

definition push_component :: "string \<Rightarrow> string list \<Rightarrow> string list" where
  "push_component c result =
     (if c = [] \<and> result \<noteq> [] then result
      else if c = ''.'' then result
      else if c = ''..'' then (if length result > 1 then butlast result else result)
      else result @ [c])"

function canonical_loop ::
    "(string \<times> string) list \<Rightarrow> string set \<Rightarrow> string list \<Rightarrow> string list \<Rightarrow> string list" where
  "canonical_loop links sawlinks [] result = result"
| "canonical_loop links sawlinks (component # components) result =
     (let result = push_component component result; so_far = join ''/'' result in
      if length result > 1 \<and> so_far \<notin> sawlinks then
        case map_of links so_far of
          None \<Rightarrow> canonical_loop links sawlinks components result
        | Some newpath \<Rightarrow>
            if isAbsolutePath newpath
            then canonical_loop links (insert so_far sawlinks) (tl (split slash newpath) @ components) [[]]
            else canonical_loop links (insert so_far sawlinks) (split slash newpath @ components)
                   (butlast result)
      else canonical_loop links sawlinks components result)"
  by pat_completeness auto
termination
proof (relation "measures
    [\<lambda>(links, saw, cs, r). card (fst ` set links - saw), \<lambda>(links, saw, cs, r). length cs]", goal_cases)
  case 1
  then show ?case by simp
next
  case (2 links saw c cs r x so_far)
  then show ?case by simp
next
  case (3 links saw c cs r x so_far newpath)
  then have "so_far \<in> fst ` set links - saw" by (force dest: map_of_SomeD)
  then have "card (fst ` set links - insert so_far saw) < card (fst ` set links - saw)"
    by (intro psubset_card_mono) auto
  then show ?case by simp
next
  case (4 links saw c cs r x so_far newpath)
  then have "so_far \<in> fst ` set links - saw" by (force dest: map_of_SomeD)
  then have "card (fst ` set links - insert so_far saw) < card (fst ` set links - saw)"
    by (intro psubset_card_mono) auto
  then show ?case by simp
next
  case (5 links saw c cs r x so_far)
  then show ?case by simp
qed

declare canonical_loop.simps(2) [simp del]

definition canonicalizePath :: "os \<Rightarrow> string \<Rightarrow> string res" where
  "canonicalizePath sys path =
     assert_res (path \<noteq> []) ''! path.empty()''
     (let path = normalizePathSeparators path;
          path = (if isAbsolutePath path then path else getCurrentDirectory sys @ ''/'' @ path);
          result = canonical_loop (os_links sys) {} (split slash path) [];
          canonical = join ''/'' result
      in Inr (if length result = 1 then canonical @ ''/'' else canonical))"

section \<open>Relative paths\<close>

text \<open>The items that the two lists have in common at their front are removed.\<close>

fun drop_common :: "string list \<Rightarrow> string list \<Rightarrow> string list \<times> string list" where
  "drop_common (p # pitems) (l # litems) =
     (if p = l then drop_common pitems litems else (p # pitems, l # litems))"
| "drop_common pitems litems = (pitems, litems)"

definition absToRel :: "os \<Rightarrow> string \<Rightarrow> string \<Rightarrow> string res" where
  "absToRel sys path container =
     (let container = (if container = [] then getCurrentDirectory sys else container) in
      assert_res (isAbsolutePath path) ''isAbsolutePath(path)''
      (assert_res (isAbsolutePath container) ''isAbsolutePath(container)''
      (let (pitems, litems) = drop_common (split slash path) (split slash container);
           result = concat (replicate (length litems) ''../'');
           result = (if pitems \<noteq> [] then result @ join ''/'' pitems else result)
       in Inr (if result = [] then ''.''
               else if last result = slash then butlast result else result))))"

definition isDirUnder :: "os \<Rightarrow> string \<Rightarrow> string \<Rightarrow> bool res" where
  "isDirUnder sys dir topdir =
     bind_res (absToRel sys dir topdir) (\<lambda>rel.
       Inr (\<not> (rel = ''..'' \<or> length rel > 2 \<and> take 3 rel = ''../'')))"

section \<open>Directory and file names\<close>

definition is_separator :: "char \<Rightarrow> bool" where
  "is_separator c \<longleftrightarrow> c = slash \<or> c = backslash"

text \<open>\<open>find_last_of\<close>: what is before and behind the last separator, if there is one.\<close>

definition find_last_separator :: "string \<Rightarrow> (string \<times> string) option" where
  "find_last_separator path =
     (if \<exists>c \<in> set path. is_separator c
      then Some (rev (tl (dropWhile (\<lambda>c. \<not> is_separator c) (rev path))),
                 rev (takeWhile (\<lambda>c. \<not> is_separator c) (rev path)))
      else None)"

definition dirname :: "string \<Rightarrow> string" where
  "dirname path = (case find_last_separator path of
       None \<Rightarrow> ''.'' | Some (result, _) \<Rightarrow> if result = [] then ''/'' else result)"

definition basename :: "string \<Rightarrow> string" where
  "basename path = (case find_last_separator path of None \<Rightarrow> path | Some (_, result) \<Rightarrow> result)"

definition getExtension :: "string \<Rightarrow> string" where
  "getExtension path = []"

definition appendExe :: "string \<Rightarrow> string" where
  "appendExe progname = progname"

definition removeExe :: "string \<Rightarrow> string" where
  "removeExe arg = arg"

section \<open>Programs\<close>

fun program_loop :: "os \<Rightarrow> string \<Rightarrow> string list \<Rightarrow> string list res" where
  "program_loop sys progname [] = Inr []"
| "program_loop sys progname (dir # dirs) =
     bind_res (canonicalizePath sys (dir @ ''/'' @ progname)) (\<lambda>file.
     bind_res (program_loop sys progname dirs) (\<lambda>rest.
       let file = appendExe file in
       Inr (if os_file sys file \<and> os_executable sys file then file # rest else rest)))"

definition findProgramInPath :: "os \<Rightarrow> string \<Rightarrow> string list res" where
  "findProgramInPath sys progname =
     (case os_env sys ''PATH'' of None \<Rightarrow> Inr [] | Some path \<Rightarrow> program_loop sys progname (split (CHR '':'') path))"

definition getProgramFullPath :: "os \<Rightarrow> string \<Rightarrow> string option res" where
  "getProgramFullPath sys progname =
     (if \<exists>c \<in> set progname. is_separator c
      then bind_res (canonicalizePath sys progname) (\<lambda>p. Inr (Some (removeExe p)))
      else bind_res (findProgramInPath sys progname) (\<lambda>candidates.
        Inr (case candidates of [] \<Rightarrow> None | p # _ \<Rightarrow> Some p)))"

definition pathSeparator :: string where
  "pathSeparator = '':''"

end
