(* ===== verification/Item_Config.thy ===== *)
theory Item_Config
  imports Key_Val Platform_Data Util_Paths
begin

text \<open>
  The class \<open>ItemConfig\<close> (\<open>src/src/ItemConfig.cc\<close>): the validated contents of an \<open>Abuild.conf\<close> file.
  The compatibility level is the answer of \<open>allow_1_0\<close>. What the class asks the file system is a
  record that extends \<open>os\<close>; reading a file gives its content or throws.

  All objects share one error object; while a file is validated it is the field \<open>ic_error\<close> of the
  configuration, before and after that \<open>cs_error\<close> of the state. A check is a function from the
  configuration to the configuration. Iterating over a list while erasing elements is a recursion
  that returns the remaining list.
\<close>

record file_system = os +
  fs_exists :: "string \<Rightarrow> bool"
  fs_symlink :: "string \<Rightarrow> bool"
  fs_read :: "string \<Rightarrow> string res"

section \<open>Names\<close>

definition FILE_CONF :: string where "FILE_CONF = ''Abuild.conf''"
definition FILE_MK :: string where "FILE_MK = ''Abuild.mk''"
definition FILE_INTERFACE :: string where "FILE_INTERFACE = ''Abuild.interface''"
definition FILE_ANT :: string where "FILE_ANT = ''Abuild-ant.properties''"
definition FILE_GROOVY :: string where "FILE_GROOVY = ''Abuild.groovy''"
definition FILE_ANT_BUILD :: string where "FILE_ANT_BUILD = ''Abuild-ant.xml''"
definition FILE_BACKING :: string where "FILE_BACKING = ''Abuild.backing''"

definition k_THIS :: string where "k_THIS = ''this''"
definition k_PARENT :: string where "k_PARENT = ''parent-dir''"
definition k_EXTERNAL :: string where "k_EXTERNAL = ''external-dirs''"
definition k_DELETED :: string where "k_DELETED = ''deleted''"
definition k_NAME :: string where "k_NAME = ''name''"
definition k_TREENAME :: string where "k_TREENAME = ''tree-name''"
definition k_DESCRIPTION :: string where "k_DESCRIPTION = ''description''"
definition k_CHILDREN :: string where "k_CHILDREN = ''child-dirs''"
definition k_VISIBLE_TO :: string where "k_VISIBLE_TO = ''visible-to''"
definition k_BUILD_ALSO :: string where "k_BUILD_ALSO = ''build-also''"
definition k_DEPS :: string where "k_DEPS = ''deps''"
definition k_TREEDEPS :: string where "k_TREEDEPS = ''tree-deps''"
definition k_PLATFORM :: string where "k_PLATFORM = ''platform-types''"
definition k_SUPPORTED_FLAGS :: string where "k_SUPPORTED_FLAGS = ''supported-flags''"
definition k_SUPPORTED_TRAITS :: string where "k_SUPPORTED_TRAITS = ''supported-traits''"
definition k_TRAITS :: string where "k_TRAITS = ''traits''"
definition k_PLUGINS :: string where "k_PLUGINS = ''plugins''"
definition k_ATTRIBUTES :: string where "k_ATTRIBUTES = ''attributes''"

text \<open>\<open>ITEM_NAME_RE\<close>: components separated by dots; the first does not start with a dash.\<close>

definition isNameValid :: "string \<Rightarrow> bool" where
  "isNameValid s \<longleftrightarrow> list_all name_word (split (CHR ''.'') s) \<and> hd s \<noteq> CHR ''-''"

text \<open>\<open>BUILD_ALSO_RE\<close>: whether it is a tree, and the name. A name contains no colon.\<close>

definition build_also_groups :: "string \<Rightarrow> (bool \<times> string) option" where
  "build_also_groups s =
     (if starts_with ''item:'' s \<and> isNameValid (drop 5 s) then Some (False, drop 5 s)
      else if starts_with ''tree:'' s \<and> isNameValid (drop 5 s) then Some (True, drop 5 s)
      else if isNameValid s then Some (False, s) else None)"

text \<open>\<open>PARENT_RE\<close>.\<close>

definition parent_path :: "string \<Rightarrow> bool" where
  "parent_path s \<longleftrightarrow> list_all (\<lambda>c. c = ''..'') (split slash s)"

section \<open>BuildAlso\<close>

datatype build_also = BuildAlso (ba_name: string) (isTree: bool) (ba_desc: bool) (ba_with_tree_deps: bool)

definition new_build_also :: "string \<Rightarrow> bool \<Rightarrow> build_also" where
  "new_build_also name is_tree = BuildAlso name is_tree False False"

definition setDesc :: "build_also \<Rightarrow> build_also" where
  "setDesc b = BuildAlso (ba_name b) (isTree b) True (ba_with_tree_deps b)"

definition setWithTreeDeps :: "build_also \<Rightarrow> build_also" where
  "setWithTreeDeps b = BuildAlso (ba_name b) (isTree b) (ba_desc b) True"

definition getOrderNum :: "build_also \<Rightarrow> nat" where
  "getOrderNum b = (if isTree b then 1 else 0) + (if ba_desc b then 2 else 0) +
     (if ba_with_tree_deps b then 4 else 0)"

definition build_also_less :: "build_also \<Rightarrow> build_also \<Rightarrow> bool" where
  "build_also_less a b =
     (if getOrderNum a < getOrderNum b then True
      else if getOrderNum a > getOrderNum b then False
      else ba_name a < ba_name b)"

text \<open>\<open>operator<\<close> is a total order.\<close>

lemma getOrderNum_inject:
  "getOrderNum a = getOrderNum b \<Longrightarrow> ba_name a = ba_name b \<Longrightarrow> a = b"
  by (cases a; cases b) (auto simp: getOrderNum_def split: if_splits)

instantiation build_also :: linorder
begin

definition less_build_also :: "build_also \<Rightarrow> build_also \<Rightarrow> bool" where
  "less_build_also a b = build_also_less a b"

definition less_eq_build_also :: "build_also \<Rightarrow> build_also \<Rightarrow> bool" where
  "less_eq_build_also a b = (build_also_less a b \<or> a = b)"

instance
proof
  fix a b c :: build_also
  show "a < b \<longleftrightarrow> a \<le> b \<and> \<not> b \<le> a"
    by (auto simp: less_build_also_def less_eq_build_also_def build_also_less_def)
  show "a \<le> a" by (simp add: less_eq_build_also_def)
  show "a \<le> b \<Longrightarrow> b \<le> c \<Longrightarrow> a \<le> c"
    by (auto simp: less_eq_build_also_def build_also_less_def split: if_splits)
  show "a \<le> b \<Longrightarrow> b \<le> a \<Longrightarrow> a = b"
    by (auto simp: less_eq_build_also_def build_also_less_def split: if_splits)
  show "a \<le> b \<or> b \<le> a"
    using getOrderNum_inject [of a b] linorder_less_linear [of "ba_name a" "ba_name b"]
    by (auto simp: less_eq_build_also_def build_also_less_def)
qed

end

section \<open>State\<close>

datatype backend = B_none | B_make | B_groovy | B_ant

record item_config =
  ic_error :: error
  ic_allow_1_0 :: bool
  ic_location :: file_location
  ic_kv :: keyval
  ic_dir :: string
  ic_parent_dir :: string
  ic_is_root :: bool
  ic_is_forest_root :: bool
  ic_is_child_only :: bool
  ic_deprecated :: bool
  ic_external_symlinks :: bool
  ic_buildfile :: string
  ic_name :: string
  ic_children :: "string list"
  ic_build_also :: "build_also list"
  ic_deps :: "string list"
  ic_tree_deps :: "string list"
  ic_flag_data :: flag_data
  ic_visible_to :: string
  ic_platform_types :: "string set"
  ic_tree_name :: string
  ic_externals :: "string list"
  ic_supported_flags :: "string set"
  ic_supported_traits :: "string set"
  ic_trait_data :: trait_data
  ic_deleted :: "string set"
  ic_description :: string
  ic_plugins :: "string list"
  ic_dep_platform_types :: "(string, string) omap"
  ic_dep_platform_selectors :: "(string, platform_selector) omap"
  ic_optional_deps :: "string set"
  ic_optional_tree_deps :: "string set"
  ic_optional_children :: "string set"
  ic_global_plugins :: "string set"
  ic_serial :: bool

definition ItemConfig ::
    "error \<Rightarrow> bool \<Rightarrow> file_location \<Rightarrow> keyval \<Rightarrow> string \<Rightarrow> string \<Rightarrow> item_config" where
  "ItemConfig e allow location kv dir parent_dir =
     \<lparr>ic_error = e, ic_allow_1_0 = allow, ic_location = location, ic_kv = kv, ic_dir = dir,
      ic_parent_dir = parent_dir, ic_is_root = False, ic_is_forest_root = False,
      ic_is_child_only = False, ic_deprecated = False, ic_external_symlinks = False,
      ic_buildfile = [], ic_name = [], ic_children = [], ic_build_also = [], ic_deps = [],
      ic_tree_deps = [], ic_flag_data = [], ic_visible_to = [], ic_platform_types = {},
      ic_tree_name = [], ic_externals = [], ic_supported_flags = {}, ic_supported_traits = {},
      ic_trait_data = [], ic_deleted = {}, ic_description = [], ic_plugins = [],
      ic_dep_platform_types = [], ic_dep_platform_selectors = [], ic_optional_deps = {},
      ic_optional_tree_deps = {}, ic_optional_children = {}, ic_global_plugins = {},
      ic_serial = False\<rparr>"

definition ic_report :: "string \<Rightarrow> item_config \<Rightarrow> item_config" where
  "ic_report msg ic = ic\<lparr>ic_error := report (ic_location ic) msg (ic_error ic)\<rparr>"

definition ic_warning :: "string \<Rightarrow> item_config \<Rightarrow> item_config" where
  "ic_warning msg ic = ic\<lparr>ic_error := warning (ic_location ic) msg (ic_error ic)\<rparr>"

definition ic_deprecate :: "string \<Rightarrow> item_config \<Rightarrow> item_config" where
  "ic_deprecate msg ic = ic\<lparr>ic_error := deprecate ''1.1'' (ic_location ic) msg NO_JOB (ic_error ic)\<rparr>"

definition explicit :: "item_config \<Rightarrow> string \<Rightarrow> bool" where
  "explicit ic key \<longleftrightarrow> key \<in> getExplicitKeys (ic_kv ic)"

text \<open>The value of a key, and its words.\<close>

definition with_value :: "string \<Rightarrow> (string \<Rightarrow> item_config \<Rightarrow> item_config res) \<Rightarrow> item_config \<Rightarrow> item_config res" where
  "with_value key f ic = bind_res (getVal (ic_kv ic) key) (\<lambda>v. f v ic)"

definition with_words :: "string \<Rightarrow> (string list \<Rightarrow> item_config \<Rightarrow> item_config res) \<Rightarrow> item_config \<Rightarrow> item_config res" where
  "with_words key f = with_value key (\<lambda>v. f (splitBySpace v))"

section \<open>Helpers of the checks\<close>

definition validName :: "string \<Rightarrow> string \<Rightarrow> item_config \<Rightarrow> item_config \<times> bool" where
  "validName val description ic =
     (if isNameValid val then (ic, True)
      else (ic_report (description @ '' may contain only alphanumeric'' @
              '' characters, underscores, periods, and dashes'') ic, False))"

text \<open>The names that remain, in the order of the set.\<close>

fun filterInvalidNames :: "string list \<Rightarrow> string \<Rightarrow> item_config \<Rightarrow> item_config \<times> string set" where
  "filterInvalidNames [] description ic = (ic, {})"
| "filterInvalidNames (n # ns) description ic =
     (case validName n description ic of (ic, okay) \<Rightarrow>
        (case filterInvalidNames ns description ic of (ic, rest) \<Rightarrow>
           (ic, if okay then insert n rest else rest)))"

definition checkKeyPresent :: "string \<Rightarrow> string \<Rightarrow> item_config \<Rightarrow> item_config" where
  "checkKeyPresent key msg ic =
     (if explicit ic key then ic_report (''\"'' @ key @ ''\" '' @ msg) ic else ic)"

fun checkDuplicates :: "string list \<Rightarrow> string set \<Rightarrow> string \<Rightarrow> item_config \<Rightarrow> item_config \<times> string set" where
  "checkDuplicates [] filtered thing ic = (ic, filtered)"
| "checkDuplicates (d # ds) filtered thing ic =
     (if d \<in> filtered
      then checkDuplicates ds filtered thing (ic_report (thing @ '' \"'' @ d @ ''\" listed more than once'') ic)
      else checkDuplicates ds (insert d filtered) thing ic)"

fun checkRelativePaths :: "string list \<Rightarrow> string \<Rightarrow> item_config \<Rightarrow> item_config \<times> string list" where
  "checkRelativePaths [] description ic = (ic, [])"
| "checkRelativePaths (p # ps) description ic =
     (if isAbsolutePath p
      then checkRelativePaths ps description (ic_report (description @ '' must be relative paths'') ic)
      else (case checkRelativePaths ps description ic of (ic, rest) \<Rightarrow> (ic, p # rest)))"

fun crosses_symlink :: "'a file_system_scheme \<Rightarrow> string \<Rightarrow> string list \<Rightarrow> bool" where
  "crosses_symlink sys path [] = False"
| "crosses_symlink sys path (e # es) =
     (fs_symlink sys (path @ ''/'' @ e) \<or> crosses_symlink sys (path @ ''/'' @ e) es)"

definition hasSymlinks :: "'a file_system_scheme \<Rightarrow> item_config \<Rightarrow> string \<Rightarrow> bool" where
  "hasSymlinks sys ic to_check = crosses_symlink sys (ic_dir ic) (split slash to_check)"

text \<open>The paths of the shortened lists of elements: those between the directory and the last element.\<close>

function between_paths :: "string list \<Rightarrow> string list" where
  "between_paths elements = (if elements = [] then [] else join ''/'' elements # between_paths (butlast elements))"
  by pat_completeness auto
termination
  by (relation "measure length") auto

declare between_paths.simps [simp del]

end
