(* ===== verification/Item_Config_Check.thy ===== *)
theory Item_Config_Check
  imports Item_Config
begin

text \<open>
  The checks of \<open>ItemConfig\<close> (\<open>src/src/ItemConfig.cc\<close>) in the order in which \<open>validate\<close> calls them,
  after the search for the parent directory.
\<close>

section \<open>Kind of item, deprecated keys\<close>

definition detectRoot :: "item_config \<Rightarrow> item_config" where
  "detectRoot ic =
     (let ic = ic\<lparr>ic_is_root :=
            (if explicit ic k_TREENAME then True
             else if ic_allow_1_0 ic then
               (if explicit ic k_PARENT then False
                else if ic_parent_dir ic \<noteq> [] then False
                else if explicit ic k_NAME then False
                else True)
             else False)\<rparr>;
          ic = ic\<lparr>ic_is_child_only :=
            (card (getExplicitKeys (ic_kv ic)) = 1 \<and> explicit ic k_CHILDREN)\<rparr>
      in if ic_parent_dir ic = [] \<and> (ic_is_root ic \<or> ic_is_child_only ic)
         then ic\<lparr>ic_is_forest_root := True\<rparr> else ic)"

definition set_deprecated :: "bool \<Rightarrow> item_config \<Rightarrow> item_config" where
  "set_deprecated b ic = (if b then ic\<lparr>ic_deprecated := True\<rparr> else ic)"

definition checkDeprecated :: "item_config \<Rightarrow> item_config res" where
  "checkDeprecated ic =
     (let ic = set_deprecated (ic_is_root ic \<and> \<not> (ic_is_child_only ic \<and> ic_is_forest_root ic)
                               \<and> \<not> explicit ic k_TREENAME) ic;
          ic = set_deprecated (explicit ic k_THIS) ic;
          ic = set_deprecated (explicit ic k_PARENT) ic;
          ic = set_deprecated (explicit ic k_DELETED) ic
      in if ic_deprecated ic \<and> \<not> ic_allow_1_0 ic
         then Inl (Qexc_Internal (location_string (ic_location ic) @
                ''deprecated is true but we're not in 1.0-compatibility mode''))
         else Inr ic)"

section \<open>Names\<close>

definition checkUnnamed :: "item_config \<Rightarrow> item_config" where
  "checkUnnamed ic =
     fold (\<lambda>key. checkKeyPresent key ''is not permitted for unnamed build items'')
       [k_BUILD_ALSO, k_DEPS, k_PLATFORM, k_SUPPORTED_FLAGS, k_TRAITS, k_DESCRIPTION] ic"

definition name_or_this :: "item_config \<Rightarrow> item_config res" where
  "name_or_this ic =
     (if ic_allow_1_0 ic \<and> explicit ic k_THIS
      then with_value k_THIS (\<lambda>v ic. Inr (ic\<lparr>ic_name := v\<rparr>))
             (if explicit ic k_NAME
              then ic_report (''\"'' @ k_THIS @ ''\" and \"'' @ k_NAME @
                     ''\" may not appear in the same '' @ FILE_CONF @ '' file'') ic
              else ic)
      else Inr ic)"

definition checkName :: "item_config \<Rightarrow> item_config res" where
  "checkName ic =
     bind_res (with_value k_NAME (\<lambda>v ic. Inr (ic\<lparr>ic_name := v\<rparr>)) ic) (\<lambda>ic.
     bind_res (name_or_this ic) (\<lambda>ic.
       Inr (if ic_name ic = [] then checkUnnamed ic
            else fst (validName (ic_name ic) ''build item names'' ic))))"

definition checkTreeName :: "item_config \<Rightarrow> item_config res" where
  "checkTreeName =
     with_value k_TREENAME (\<lambda>v ic.
       let ic = ic\<lparr>ic_tree_name := v\<rparr>
       in Inr (if v \<noteq> [] then fst (validName v ''build tree names'' ic) else ic))"

section \<open>Position in the forest\<close>

definition checkRoot :: "'a file_system_scheme \<Rightarrow> item_config \<Rightarrow> item_config" where
  "checkRoot sys ic =
     (let has_backing_file = os_file sys (ic_dir ic @ ''/'' @ FILE_BACKING);
          ic = (if has_backing_file \<and> \<not> ic_is_forest_root ic
                then ic\<lparr>ic_error := report (FileLocation (ic_dir ic @ ''/'' @ FILE_BACKING) 0 0)
                       (FILE_BACKING @ '' file ignored for non forest-root build item'') (ic_error ic)\<rparr>
                else ic);
          ic = (if ic_allow_1_0 ic then
                  (if ic_is_root ic \<and> ic_is_forest_root ic \<and> ic_tree_name ic = [] \<and> has_backing_file
                   then ic
                   else checkKeyPresent k_DELETED (''is ignored except in deprecated'' @
                          '' 1.0 build tree roots with backing areas'') ic)
                else ic);
          msg = ''may only appear in a root build item''
      in if \<not> ic_is_root ic
         then checkKeyPresent k_PLUGINS msg
                (checkKeyPresent k_SUPPORTED_TRAITS msg
                (checkKeyPresent k_TREEDEPS msg
                (if ic_allow_1_0 ic then checkKeyPresent k_EXTERNAL msg ic else ic)))
         else ic)"

definition interleaved :: "'a file_system_scheme \<Rightarrow> string \<Rightarrow> string \<Rightarrow> item_config \<Rightarrow> item_config" where
  "interleaved sys what path ic =
     (if os_file sys (ic_dir ic @ ''/'' @ path @ ''/'' @ FILE_CONF)
      then ic_report (''relative to this item, directory \"'' @ path @ ''\",'' @
             '' which is between this item and '' @ what @ FILE_CONF @
             ''; interleaved '' @ FILE_CONF @ '' files are not permitted'') ic
      else ic)"

definition checkParent :: "'a file_system_scheme \<Rightarrow> item_config \<Rightarrow> item_config res" where
  "checkParent sys ic =
     (if \<not> ic_allow_1_0 ic then Inr ic
      else with_value k_PARENT (\<lambda>parent_key ic.
        if parent_key = [] then Inr ic
        else let parent_key = stripTrailingSlash parent_key in
          Inr (if \<not> parent_path parent_key
               then ic_report (''\"'' @ k_PARENT @ ''\" must point up in the file system'') ic
               else if \<not> os_file sys (ic_dir ic @ ''/'' @ parent_key @ ''/'' @ FILE_CONF)
               then ic_report (''\"'' @ k_PARENT @
                      ''\" points to a directory that does not contain '' @ FILE_CONF) ic
               else fold (interleaved sys ''its parent, contains '')
                      (between_paths (butlast (split slash parent_key))) ic)) ic)"

text \<open>
  The loop of \<open>checkChildren\<close>: the children that remain. The third argument is \<open>last_child\<close>, which is
  the child as it was written, while the list gets it without a trailing slash.
\<close>

fun children_loop ::
    "'a file_system_scheme \<Rightarrow> string list \<Rightarrow> string \<Rightarrow> item_config \<Rightarrow> item_config \<times> string list" where
  "children_loop sys [] last_child ic = (ic, [])"
| "children_loop sys (c # cs) last_child ic =
     (if c = ''-optional'' then
        children_loop sys cs last_child
          (if last_child = [] then ic_report ''-optional is not preceded by a child directory'' ic
           else ic\<lparr>ic_optional_children := insert last_child (ic_optional_children ic)\<rparr>)
      else
        let child = stripTrailingSlash c; elements = split slash child in
        if ''..'' \<in> set elements
        then children_loop sys cs c (ic_report (k_CHILDREN @ '' entries may not include \"..\"'') ic)
        else
          let ic = (if hasSymlinks sys ic child
                    then ic_report (''child directory \"'' @ child @ ''\" is a'' @
                           '' symbolic link or crosses a symbolic link'') ic
                    else ic);
              ic = fold (interleaved sys (''child \"'' @ child @ ''\" contains ''))
                     (between_paths (butlast elements)) ic
          in case children_loop sys cs c ic of (ic, rest) \<Rightarrow> (ic, child # rest))"

definition checkChildren :: "'a file_system_scheme \<Rightarrow> item_config \<Rightarrow> item_config res" where
  "checkChildren sys =
     with_words k_CHILDREN (\<lambda>ws ic.
       case checkRelativePaths ws (k_CHILDREN @ '' entries'') ic of (ic, ws) \<Rightarrow>
         (case children_loop sys ws [] ic of (ic, ws) \<Rightarrow> Inr (ic\<lparr>ic_children := ws\<rparr>)))"

section \<open>build-also\<close>

definition build_also_option :: "string \<Rightarrow> item_config \<Rightarrow> item_config" where
  "build_also_option arg ic =
     (let ba = last (ic_build_also ic);
          set_last = (\<lambda>b. ic\<lparr>ic_build_also := butlast (ic_build_also ic) @ [b]\<rparr>)
      in if arg = ''-desc'' then set_last (setDesc ba)
         else if arg = ''-with-tree-deps'' then
           (if isTree ba then set_last (setWithTreeDeps ba)
            else ic_report (''-with-tree-deps is valid only for non-tree'' @ '' build-also items'') ic)
         else ic_report (''invalid build_also option \"'' @ arg @ ''\"'') ic)"

definition build_also_step :: "string \<Rightarrow> item_config \<Rightarrow> item_config res" where
  "build_also_step arg ic =
     assert_res (arg \<noteq> []) ''! arg.empty()''
     (Inr (if hd arg = CHR ''-'' then
             (if ic_build_also ic = []
              then ic_report (''build also option must follow a build'' @
                     '' also item or tree specification'') ic
              else build_also_option arg ic)
           else case build_also_groups arg of
             Some (is_tree, name) \<Rightarrow>
               ic\<lparr>ic_build_also := ic_build_also ic @ [new_build_also name is_tree]\<rparr>
           | None \<Rightarrow> ic_report (''invalid '' @ k_BUILD_ALSO @ '' build item name '' @ arg) ic))"

fun build_also_loop :: "string list \<Rightarrow> item_config \<Rightarrow> item_config res" where
  "build_also_loop [] ic = Inr ic"
| "build_also_loop (arg # args) ic = bind_res (build_also_step arg ic) (build_also_loop args)"

definition checkBuildAlso :: "item_config \<Rightarrow> item_config res" where
  "checkBuildAlso = with_words k_BUILD_ALSO build_also_loop"

section \<open>Dependencies\<close>

text \<open>A word with a platform, which applies to \<open>last_dep\<close>.\<close>

definition set_platform_type :: "string \<Rightarrow> string \<Rightarrow> item_config \<Rightarrow> item_config" where
  "set_platform_type dep pt ic =
     ic\<lparr>ic_dep_platform_types := om_put dep pt (ic_dep_platform_types ic)\<rparr>"

definition platform_word :: "string \<Rightarrow> string set \<Rightarrow> string \<Rightarrow> item_config \<Rightarrow> item_config res" where
  "platform_word last_dep duplicated_deps pt ic =
     (let ic = (if om_has (ic_dep_platform_types ic) last_dep
                then ic_report (''a platform has already been declared for dependency \"'' @
                       last_dep @ ''\"'') ic
                else if last_dep \<in> duplicated_deps
                then ic_report (''platform specification applies to a dependency (\"'' @
                       last_dep @ ''\") that had been previously declared'') ic
                else ic)
      in if CHR '':'' \<in> set pt
         then bind_res (initialize pt new_selector) (\<lambda>(p, okay).
           Inr (set_platform_type last_dep pt
             (if okay \<and> \<not> isSkip p \<and> getPlatformType p \<noteq> ANY
              then ic\<lparr>ic_dep_platform_selectors := om_put last_dep p (ic_dep_platform_selectors ic)\<rparr>
              else ic_report (''invalid platform selector '' @ pt) ic)))
         else Inr (set_platform_type last_dep pt ic))"

text \<open>A word that is not an item name.\<close>

definition dep_option :: "string \<Rightarrow> string set \<Rightarrow> string \<Rightarrow> item_config \<Rightarrow> item_config res" where
  "dep_option last_dep duplicated_deps word ic =
     (case after_prefix ''-flag='' word of
        Some flag \<Rightarrow>
          Inr (if last_dep = []
               then ic_report (''flag '' @ word @ '' is not preceded by a build item name'') ic
               else ic\<lparr>ic_flag_data := addFlag last_dep flag (ic_flag_data ic)\<rparr>)
      | None \<Rightarrow>
          (case after_prefix ''-platform='' word of
             Some pt \<Rightarrow>
               (if last_dep = []
                then Inr (ic_report (''platform declaration '' @ word @
                            '' is not preceded by a build item name'') ic)
                else platform_word last_dep duplicated_deps pt ic)
           | None \<Rightarrow>
               Inr (if word = ''-optional'' then
                      (if last_dep = []
                       then ic_report ''-optional is not preceded by a build item name'' ic
                       else ic\<lparr>ic_optional_deps := insert last_dep (ic_optional_deps ic)\<rparr>)
                    else ic_report (''invalid dependency '' @ word) ic)))"

definition repeated_dep :: "string \<Rightarrow> item_config \<Rightarrow> item_config" where
  "repeated_dep dep ic =
     (let ic = ic_warning (''dependency \"'' @ dep @ ''\" appears more than once'') ic
      in if om_has (ic_dep_platform_types ic) dep
         then ic_report (''a previous declaration of this dependency (\"'' @ dep @
                ''\") included a platform specification'') ic
         else ic)"

fun deps_loop ::
    "string list \<Rightarrow> string set \<Rightarrow> string set \<Rightarrow> string \<Rightarrow> item_config \<Rightarrow> (item_config \<times> string list) res" where
  "deps_loop [] deps_seen duplicated_deps last_dep ic = Inr (ic, [])"
| "deps_loop (word # ws) deps_seen duplicated_deps last_dep ic =
     (if isNameValid word then
        (if word \<in> deps_seen
         then deps_loop ws deps_seen (insert word duplicated_deps) word (repeated_dep word ic)
         else bind_res (deps_loop ws (insert word deps_seen) duplicated_deps word ic) (\<lambda>(ic, rest).
                Inr (ic, word # rest)))
      else bind_res (dep_option last_dep duplicated_deps word ic) (\<lambda>ic.
             deps_loop ws deps_seen duplicated_deps last_dep ic))"

definition checkDeps :: "item_config \<Rightarrow> item_config res" where
  "checkDeps =
     with_words k_DEPS (\<lambda>ws ic.
       bind_res (deps_loop ws {} {} [] ic) (\<lambda>(ic, ds). Inr (ic\<lparr>ic_deps := ds\<rparr>)))"

fun tree_deps_loop :: "string list \<Rightarrow> string set \<Rightarrow> string \<Rightarrow> item_config \<Rightarrow> item_config \<times> string list" where
  "tree_deps_loop [] deps_seen last_dep ic = (ic, [])"
| "tree_deps_loop (word # ws) deps_seen last_dep ic =
     (if isNameValid word then
        (if word \<in> deps_seen
         then tree_deps_loop ws deps_seen word
                (ic_warning (''tree dependency \"'' @ word @ ''\" appears more than once'') ic)
         else (case tree_deps_loop ws (insert word deps_seen) word ic of (ic, rest) \<Rightarrow> (ic, word # rest)))
      else
        tree_deps_loop ws deps_seen last_dep
          (if word = ''-optional'' then
             (if last_dep = [] then ic_report ''-optional is not preceded by a build tree name'' ic
              else ic\<lparr>ic_optional_tree_deps := insert last_dep (ic_optional_tree_deps ic)\<rparr>)
           else ic_report (''invalid tree dependency '' @ word) ic))"

definition checkTreeDeps :: "item_config \<Rightarrow> item_config res" where
  "checkTreeDeps =
     with_words k_TREEDEPS (\<lambda>ws ic.
       case tree_deps_loop ws {} [] ic of (ic, ds) \<Rightarrow> Inr (ic\<lparr>ic_tree_deps := ds\<rparr>))"

section \<open>Visibility\<close>

text \<open>
  Whether the scope (without its last component, which is a star) is an ancestor scope of the name.
  This is the inner variable \<open>okay\<close> of the code; the outer one stays true.
\<close>

definition scope_okay :: "string list \<Rightarrow> string list \<Rightarrow> string \<Rightarrow> bool" where
  "scope_okay scope_components name_components name \<longleftrightarrow>
     (if length scope_components > length name_components - 2 then False
      else if scope_components \<noteq> []
      then (let scope = join ''.'' scope_components @ ''.'' in scope = take (length scope) name)
      else True)"

definition checkVisibleTo :: "item_config \<Rightarrow> item_config res" where
  "checkVisibleTo =
     with_value k_VISIBLE_TO (\<lambda>v ic.
       let ic = ic\<lparr>ic_visible_to := v\<rparr> in
       if v = [] then Inr ic
       else
         let name_components = split (CHR ''.'') (ic_name ic);
             visible_to_components = split (CHR ''.'') v;
             (ic, okay) =
               (if length name_components > 1 then
                  (if last visible_to_components \<noteq> ''*''
                   then (ic_report (k_VISIBLE_TO @ '' value must be * or end with .*'') ic, False)
                   else
                     ((if \<not> scope_okay (butlast visible_to_components) name_components (ic_name ic)
                       then ic_report (k_VISIBLE_TO @ '' value must be * or an ancestor scope '' @
                              ''higher than this item's default scope'') ic
                       else ic), True))
                else (ic_report (k_VISIBLE_TO @ '' not permitted for public build items'') ic, False))
         in Inr (if \<not> okay then ic\<lparr>ic_visible_to := []\<rparr> else ic))"

section \<open>Files and platform types\<close>

definition maybeSetBuildFile ::
    "'a file_system_scheme \<Rightarrow> string \<Rightarrow> item_config \<times> nat \<Rightarrow> item_config \<times> nat" where
  "maybeSetBuildFile sys file = (\<lambda>(ic, n).
     (if fs_exists sys (ic_dir ic @ ''/'' @ file)
      then ((if ic_buildfile ic = [] then ic\<lparr>ic_buildfile := file\<rparr> else ic), n + 1)
      else (ic, n)))"

definition checkBuildfile :: "'a file_system_scheme \<Rightarrow> item_config \<Rightarrow> item_config" where
  "checkBuildfile sys ic =
     (let (ic, n) = fold (maybeSetBuildFile sys) [FILE_MK, FILE_ANT, FILE_ANT_BUILD, FILE_GROOVY] (ic, 0)
      in if n > 1 then ic_report ''more than one build file exists'' ic else ic)"

definition checkPlatforms :: "'a file_system_scheme \<Rightarrow> item_config \<Rightarrow> item_config res" where
  "checkPlatforms sys =
     with_words k_PLATFORM (\<lambda>o_platform_types ic.
       let any_platform_files = (fs_exists sys (ic_dir ic @ ''/'' @ FILE_INTERFACE) \<or> ic_buildfile ic \<noteq> []);
           ic = (if any_platform_files then
                   (if ic_name ic = []
                    then ic_report (''build and interface files are not '' @
                           ''permitted for unnamed build items'') ic
                    else if o_platform_types = []
                    then ic_report (''\"'' @ k_PLATFORM @
                           ''\" is mandatory if build or interfaces files are present'') ic
                    else ic)
                 else if o_platform_types \<noteq> []
                 then ic_report (''\"'' @ k_PLATFORM @
                        ''\" may not appear if there are no build or interface files'') ic
                 else ic)
       in case checkDuplicates o_platform_types (ic_platform_types ic) ''platform type'' ic of
            (ic, pts) \<Rightarrow> Inr (ic\<lparr>ic_platform_types := pts\<rparr>))"

section \<open>Externals, flags, traits\<close>

definition external_word :: "'a file_system_scheme \<Rightarrow> string \<Rightarrow> item_config \<Rightarrow> item_config" where
  "external_word sys word ic =
     (if word = ''-ro'' then
        (if ic_externals ic = []
         then ic_report (''-ro is not preceded by'' @ '' external directory'') ic
         else ic_deprecate (''the read-only flag for externals is now ignored;'' @
                '' use --ro-path and --rw-path from the command-line instead'') ic)
      else if after_prefix ''-winpath='' word \<noteq> None
      then ic_report ''-winpath is no longer supported'' ic
      else if isAbsolutePath word
      then ic_report ''absolute path externals are no longer supported'' ic
      else
        let ic = (if hasSymlinks sys ic word
                  then (ic_deprecate (''external directory \"'' @ word @ ''\" is a symbolic link or'' @
                          '' crosses a symbolic link; this is not supported outside of'' @
                          '' 1.0-compatibility mode'') ic)\<lparr>ic_external_symlinks := True\<rparr>
                  else ic)
        in ic\<lparr>ic_externals := ic_externals ic @ [word]\<rparr>)"

definition checkExternals :: "'a file_system_scheme \<Rightarrow> item_config \<Rightarrow> item_config res" where
  "checkExternals sys ic =
     (if \<not> ic_allow_1_0 ic then Inr ic
      else with_words k_EXTERNAL (\<lambda>ws ic. Inr (fold (external_word sys) ws ic)) ic)"

definition checkSupportedFlags :: "item_config \<Rightarrow> item_config res" where
  "checkSupportedFlags =
     with_words k_SUPPORTED_FLAGS (\<lambda>ws ic.
       case checkDuplicates ws (ic_supported_flags ic) ''flag'' ic of (ic, flags) \<Rightarrow>
         (case filterInvalidNames (sorted_list_of_set flags) ''flag names'' ic of (ic, flags) \<Rightarrow>
            Inr (ic\<lparr>ic_supported_flags := flags,
                    ic_flag_data := fold (addFlag (ic_name ic)) (sorted_list_of_set flags) (ic_flag_data ic)\<rparr>)))"

definition checkSupportedTraits :: "item_config \<Rightarrow> item_config res" where
  "checkSupportedTraits =
     with_words k_SUPPORTED_TRAITS (\<lambda>ws ic.
       case checkDuplicates ws (ic_supported_traits ic) ''trait'' ic of (ic, traits) \<Rightarrow>
         (case filterInvalidNames (sorted_list_of_set traits) ''trait names'' ic of (ic, traits) \<Rightarrow>
            Inr (ic\<lparr>ic_supported_traits := traits\<rparr>)))"

definition trait_word :: "string \<Rightarrow> string \<times> item_config \<Rightarrow> string \<times> item_config" where
  "trait_word word = (\<lambda>(last_trait, ic).
     (if isNameValid word
      then (word, ic\<lparr>ic_trait_data := addTrait word (ic_trait_data ic)\<rparr>)
      else case after_prefix ''-item='' word of
        Some item \<Rightarrow>
          (last_trait,
           if last_trait = []
           then ic_report (''item '' @ word @ '' is not preceded by a trait name'') ic
           else ic\<lparr>ic_trait_data := addTraitItem last_trait item (ic_trait_data ic)\<rparr>)
      | None \<Rightarrow> (last_trait, ic_report (''invalid trait '' @ word) ic)))"

definition checkTraits :: "item_config \<Rightarrow> item_config res" where
  "checkTraits = with_words k_TRAITS (\<lambda>ws ic. Inr (snd (fold trait_word ws ([], ic))))"

definition checkDeleted :: "item_config \<Rightarrow> item_config res" where
  "checkDeleted ic =
     (if \<not> ic_allow_1_0 ic then Inr ic
      else with_words k_DELETED (\<lambda>ws ic.
        case checkDuplicates ws (ic_deleted ic) ''deleted item'' ic of
          (ic, d) \<Rightarrow> Inr (ic\<lparr>ic_deleted := d\<rparr>)) ic)"

section \<open>Plugins and attributes\<close>

text \<open>A \<open>-global\<close> without a plugin before it stays in the list.\<close>

fun plugins_loop :: "string list \<Rightarrow> string \<Rightarrow> item_config \<Rightarrow> item_config \<times> string list" where
  "plugins_loop [] last_plugin ic = (ic, [])"
| "plugins_loop (word # ws) last_plugin ic =
     (if word = ''-global'' then
        (if last_plugin = []
         then (case plugins_loop ws last_plugin (ic_report ''-global is not preceded by a plugin'' ic) of
                 (ic, rest) \<Rightarrow> (ic, word # rest))
         else plugins_loop ws last_plugin
                (ic\<lparr>ic_global_plugins := insert last_plugin (ic_global_plugins ic)\<rparr>))
      else (case plugins_loop ws word ic of (ic, rest) \<Rightarrow> (ic, word # rest)))"

definition checkPlugins :: "item_config \<Rightarrow> item_config res" where
  "checkPlugins =
     with_words k_PLUGINS (\<lambda>ws ic.
       case plugins_loop ws [] ic of (ic, ps) \<Rightarrow>
         Inr (fst (checkDuplicates ps {} ''plugin'' (ic\<lparr>ic_plugins := ps\<rparr>))))"

definition getBackend :: "item_config \<Rightarrow> backend" where
  "getBackend ic =
     (if ic_buildfile ic = [] then B_none
      else if ic_buildfile ic = FILE_MK then B_make
      else if ic_buildfile ic = FILE_GROOVY then B_groovy
      else B_ant)"

definition attribute_word :: "string \<Rightarrow> item_config \<Rightarrow> item_config" where
  "attribute_word attr ic =
     (if attr = ''serial'' then
        (if getBackend ic \<noteq> B_make
         then ic_report (''the \"serial\" attribute may only'' @
                '' be applied to items built with make'') ic
         else ic\<lparr>ic_serial := True\<rparr>)
      else ic_report (''unknown attribute \"'' @ attr @ ''\"'') ic)"

definition checkAttributes :: "item_config \<Rightarrow> item_config res" where
  "checkAttributes = with_words k_ATTRIBUTES (\<lambda>ws ic. Inr (fold attribute_word ws ic))"

definition set_description :: "item_config \<Rightarrow> item_config res" where
  "set_description = with_value k_DESCRIPTION (\<lambda>v ic. Inr (ic\<lparr>ic_description := v\<rparr>))"

section \<open>All checks\<close>

definition all_checks :: "'a file_system_scheme \<Rightarrow> (item_config \<Rightarrow> item_config res) list" where
  "all_checks sys =
     [\<lambda>ic. Inr (detectRoot ic), checkDeprecated, checkName, checkTreeName,
      \<lambda>ic. Inr (checkRoot sys ic), checkParent sys, checkChildren sys, checkBuildAlso, checkDeps,
      checkTreeDeps, checkVisibleTo, \<lambda>ic. Inr (checkBuildfile sys ic), checkPlatforms sys,
      checkExternals sys, checkSupportedFlags, checkSupportedTraits, checkTraits, checkDeleted,
      checkPlugins, checkAttributes, set_description]"

fun run_checks :: "(item_config \<Rightarrow> item_config res) list \<Rightarrow> item_config \<Rightarrow> item_config res" where
  "run_checks [] ic = Inr ic"
| "run_checks (f # fs) ic = bind_res (f ic) (run_checks fs)"

end
