(* ===== verification/Item_Config_Read.thy ===== *)
theory Item_Config_Read
  imports Item_Config_Check
begin

text \<open>
  Reading, caching and upgrading an \<open>Abuild.conf\<close> file (\<open>src/src/ItemConfig.cc\<close>). The static
  members of the class and the error object that all its objects refer to are the record
  \<open>config_state\<close>. The objects in the caches carry the error object as it was when they were cached;
  nothing reads that copy.
\<close>

record config_state =
  cs_error :: error
  cs_kv_cache :: "(string, keyval) omap"
  cs_ic_cache :: "(string, item_config) omap"
  cs_valid_keys :: "(string, string) omap"
  cs_statics_initialized :: bool

definition new_config_state :: "error \<Rightarrow> config_state" where
  "new_config_state e = \<lparr>cs_error = e, cs_kv_cache = [], cs_ic_cache = [], cs_valid_keys = [],
     cs_statics_initialized = False\<rparr>"

section \<open>The keys\<close>

definition keys_1_0 :: "string list" where
  "keys_1_0 = [k_THIS, k_PARENT, k_EXTERNAL, k_DELETED]"

definition keys_1_1 :: "string list" where
  "keys_1_1 = [k_NAME, k_TREENAME, k_DESCRIPTION, k_CHILDREN, k_BUILD_ALSO, k_DEPS, k_TREEDEPS,
     k_VISIBLE_TO, k_PLATFORM, k_SUPPORTED_FLAGS, k_SUPPORTED_TRAITS, k_TRAITS, k_PLUGINS, k_ATTRIBUTES]"

definition initializeStatics :: "bool \<Rightarrow> config_state \<Rightarrow> config_state" where
  "initializeStatics allow_1_0 st =
     (if cs_statics_initialized st then st
      else st\<lparr>cs_valid_keys := fold (\<lambda>k. om_put k []) ((if allow_1_0 then keys_1_0 else []) @ keys_1_1)
                               (cs_valid_keys st),
              cs_statics_initialized := True\<rparr>)"

section \<open>Reading\<close>

definition conf_file :: "string \<Rightarrow> string" where
  "conf_file dir = dir @ ''/'' @ FILE_CONF"

definition readKeyVal ::
    "'a file_system_scheme \<Rightarrow> bool \<Rightarrow> string \<Rightarrow> config_state \<Rightarrow> (keyval \<times> config_state) res" where
  "readKeyVal sys allow_1_0 dir st =
     (case om_get (cs_kv_cache st) dir of
        Some kv \<Rightarrow> Inr (kv, st)
      | None \<Rightarrow>
          let st = initializeStatics allow_1_0 st in
          bind_res (KeyVal (cs_error st) (conf_file dir) {} (cs_valid_keys st)) (\<lambda>kv.
          bind_res (fs_read sys (conf_file dir)) (\<lambda>content.
          bind_res (readFile content kv) (\<lambda>(kv, okay).
            Inr (kv, st\<lparr>cs_error := kv_error kv, cs_kv_cache := om_put dir kv (cs_kv_cache st)\<rparr>)))))"

section \<open>The parent directory\<close>

text \<open>
  The loop of \<open>findParentDir\<close>: the nearest directory above that has a configuration file, or the empty
  path. \<open>dirname\<close> makes a path shorter, or replaces a path without a separator by a dot.
\<close>

lemma dirname_shorter:
  "dirname p = p \<or> 2 * length (dirname p) + (if dirname p \<in> {''/'', ''.''} then 0 else 1)
                     < 2 * length p + (if p \<in> {''/'', ''.''} then 0 else (1 :: nat)) \<or> p = []"
proof (cases "find_last_separator p")
  case None
  moreover have "find_last_separator ''/'' \<noteq> None" by (simp add: find_last_separator_def is_separator_def)
  ultimately show ?thesis by (cases p) (auto simp: dirname_def)
next
  case (Some r)
  obtain a b where r: "r = (a, b)" by (cases r)
  have sep: "\<exists>c \<in> set p. is_separator c" using Some by (auto simp: find_last_separator_def split: if_splits)
  then have "p \<noteq> []" by auto
  then have "length (tl (dropWhile (\<lambda>c. \<not> is_separator c) (rev p))) < length p"
    using length_dropWhile_le [of "\<lambda>c. \<not> is_separator c" "rev p"] by (cases p) auto
  then have "length a < length p"
    using Some r sep by (auto simp: find_last_separator_def)
  moreover have "find_last_separator ''.'' = None" by (simp add: find_last_separator_def is_separator_def)
  ultimately show ?thesis using Some r
    by (cases "a = []"; cases p) (auto simp: dirname_def split: if_splits)
qed

function parent_search :: "'a file_system_scheme \<Rightarrow> string \<Rightarrow> string" where
  "parent_search sys parent_candidate =
     (if parent_candidate = [] then []
      else let tmp = dirname parent_candidate in
        if tmp = parent_candidate then []
        else if fs_exists sys (conf_file tmp) then tmp
        else parent_search sys tmp)"
  by pat_completeness auto
termination
proof (relation "measure (\<lambda>(sys, p). 2 * length p + (if p \<in> {''/'', ''.''} then 0 else 1))", goal_cases)
  case 1
  then show ?case by simp
next
  case (2 sys p tmp)
  then show ?case using dirname_shorter [of p] by simp
qed

declare parent_search.simps [simp del]

fun has_child :: "'a file_system_scheme \<Rightarrow> string \<Rightarrow> string \<Rightarrow> string list \<Rightarrow> bool res" where
  "has_child sys candidate dir [] = Inr False"
| "has_child sys candidate dir (child # children) =
     bind_res (canonicalizePath (os.truncate sys) (candidate @ ''/'' @ child)) (\<lambda>path.
       if path = dir then Inr True else has_child sys candidate dir children)"

definition findParentDir ::
    "'a file_system_scheme \<Rightarrow> item_config \<Rightarrow> config_state \<Rightarrow> (item_config \<times> config_state) res" where
  "findParentDir sys ic st =
     (let parent_candidate = parent_search sys (ic_dir ic) in
      if ic_parent_dir ic \<noteq> [] \<or> parent_candidate = [] then Inr (ic, st)
      else
        bind_res (readKeyVal sys (ic_allow_1_0 ic) parent_candidate st) (\<lambda>(kv, st).
        bind_res (getVal kv k_CHILDREN) (\<lambda>children.
        bind_res (has_child sys parent_candidate (ic_dir ic) (splitBySpace children)) (\<lambda>parent_has_child.
          Inr (if parent_has_child then ic\<lparr>ic_parent_dir := parent_candidate\<rparr> else ic, st)))))"

definition validate ::
    "'a file_system_scheme \<Rightarrow> item_config \<Rightarrow> config_state \<Rightarrow> (item_config \<times> config_state) res" where
  "validate sys ic st =
     bind_res (findParentDir sys ic st) (\<lambda>(ic, st).
     bind_res (run_checks (all_checks sys) (ic\<lparr>ic_error := cs_error st\<rparr>)) (\<lambda>ic.
       Inr (ic, st\<lparr>cs_error := ic_error ic\<rparr>)))"

definition new_item ::
    "'a file_system_scheme \<Rightarrow> bool \<Rightarrow> string \<Rightarrow> string \<Rightarrow> config_state \<Rightarrow> (item_config \<times> config_state) res" where
  "new_item sys allow_1_0 dir parent_dir st =
     bind_res (readKeyVal sys allow_1_0 dir (initializeStatics allow_1_0 st)) (\<lambda>(kv, st).
     bind_res (validate sys (ItemConfig (cs_error st) allow_1_0 (FileLocation (conf_file dir) 0 0) kv dir
                                        parent_dir) st) (\<lambda>(item, st).
       Inr (item, st\<lparr>cs_ic_cache := om_put dir item (cs_ic_cache st)\<rparr>)))"

definition readConfig ::
    "'a file_system_scheme \<Rightarrow> bool \<Rightarrow> string \<Rightarrow> string \<Rightarrow> config_state \<Rightarrow> (item_config \<times> config_state) res" where
  "readConfig sys allow_1_0 odir parent_dir st =
     bind_res (canonicalizePath (os.truncate sys) odir) (\<lambda>dir.
       case om_get (cs_ic_cache st) dir of
         Some item \<Rightarrow> Inr (item, st)
       | None \<Rightarrow> new_item sys allow_1_0 dir parent_dir st)"

section \<open>Queries\<close>

definition isTreeRoot :: "item_config \<Rightarrow> bool" where "isTreeRoot ic = ic_is_root ic"
definition isForestRoot :: "item_config \<Rightarrow> bool" where "isForestRoot ic = ic_is_forest_root ic"
definition isChildOnly :: "item_config \<Rightarrow> bool" where "isChildOnly ic = ic_is_child_only ic"
definition usesDeprecatedFeatures :: "item_config \<Rightarrow> bool" where "usesDeprecatedFeatures ic = ic_deprecated ic"

definition hasBuildFile :: "item_config \<Rightarrow> bool" where
  "hasBuildFile ic \<longleftrightarrow> ic_buildfile ic \<noteq> []"

definition hasAntBuild :: "item_config \<Rightarrow> bool" where
  "hasAntBuild ic \<longleftrightarrow> ic_buildfile ic = FILE_ANT_BUILD"

definition supportsFlag :: "item_config \<Rightarrow> string \<Rightarrow> bool" where
  "supportsFlag ic flag \<longleftrightarrow> flag \<in> ic_supported_flags ic"

definition childIsOptional :: "item_config \<Rightarrow> string \<Rightarrow> bool" where
  "childIsOptional ic child \<longleftrightarrow> child \<in> ic_optional_children ic"

definition hasGlobalPlugins :: "item_config \<Rightarrow> bool" where
  "hasGlobalPlugins ic \<longleftrightarrow> ic_global_plugins ic \<noteq> {}"

text \<open>The platform type or selector declared for a dependency; no text when there is none.\<close>

definition getDepPlatformType :: "item_config \<Rightarrow> string \<Rightarrow> string \<times> platform_selector option" where
  "getDepPlatformType ic dep =
     (case om_get (ic_dep_platform_types ic) dep of
        Some pt \<Rightarrow> (pt, om_get (ic_dep_platform_selectors ic) dep)
      | None \<Rightarrow> ([], None))"

section \<open>Upgrading\<close>

text \<open>What \<open>upgradeConfig\<close> collects before it writes the file.\<close>

record upgrade =
  up_deletions :: "string set"
  up_additions :: "string list"
  up_replacements :: "(string, string) omap"
  up_key_changes :: "(string, string) omap"

definition no_upgrade :: upgrade where
  "no_upgrade = \<lparr>up_deletions = {}, up_additions = [], up_replacements = [], up_key_changes = []\<rparr>"

definition delete_key :: "item_config \<Rightarrow> string \<Rightarrow> upgrade \<Rightarrow> upgrade" where
  "delete_key ic key u = (if explicit ic key then u\<lparr>up_deletions := insert key (up_deletions u)\<rparr> else u)"

text \<open>The text for a key with the values it has and the values to add to them.\<close>

definition extended_value :: "string \<Rightarrow> string \<Rightarrow> string list \<Rightarrow> string list \<Rightarrow> string" where
  "extended_value sep key present to_add =
     key @ '':'' @ sep @ (if present \<noteq> [] then join sep present @ sep else []) @ join sep to_add"

definition add_values :: "item_config \<Rightarrow> string \<Rightarrow> string \<Rightarrow> string list \<Rightarrow> string list \<Rightarrow> upgrade \<Rightarrow> upgrade" where
  "add_values ic sep key present to_add u =
     (if to_add = [] then u
      else let value = extended_value sep key present to_add in
        if explicit ic key
        then u\<lparr>up_replacements := om_put key value (up_replacements u)\<rparr>
        else u\<lparr>up_additions := up_additions u @ [value]\<rparr>)"

fun canonical_children :: "os \<Rightarrow> string \<Rightarrow> string list \<Rightarrow> string list res" where
  "canonical_children sys dir [] = Inr []"
| "canonical_children sys dir (c # cs) =
     bind_res (canonicalizePath sys (dir @ ''/'' @ c)) (\<lambda>p.
     bind_res (canonical_children sys dir cs) (\<lambda>ps. Inr (p # ps)))"

definition upgrade_keys :: "item_config \<Rightarrow> upgrade \<Rightarrow> upgrade" where
  "upgrade_keys ic u =
     delete_key ic k_DELETED (delete_key ic k_PARENT
       (if explicit ic k_THIS
        then u\<lparr>up_key_changes := om_put k_THIS k_NAME (up_key_changes u)\<rparr> else u))"

definition upgrade_tree_name :: "item_config \<Rightarrow> string \<Rightarrow> upgrade \<Rightarrow> upgrade res" where
  "upgrade_tree_name ic tree_name u =
     (if \<not> explicit ic k_TREENAME \<and> tree_name \<noteq> []
      then Inr (u\<lparr>up_additions := up_additions u @ [k_TREENAME @ '': '' @ tree_name]\<rparr>)
      else assert_res (ic_tree_name ic = tree_name) ''this->tree_name == tree_name'' (Inr u))"

definition upgrade_externals ::
    "item_config \<Rightarrow> string \<Rightarrow> string list \<Rightarrow> string list \<Rightarrow> upgrade \<Rightarrow> upgrade res" where
  "upgrade_externals ic sep externals new_tree_deps u =
     (if externals = [] then Inr (delete_key ic k_EXTERNAL u)
      else assert_res (ic_externals ic \<noteq> []) ''! this->externals.empty()''
        (Inr (if new_tree_deps = [] then u
              else u\<lparr>up_replacements := om_put k_EXTERNAL (k_EXTERNAL @ '':'' @ sep @ join sep externals)
                                                (up_replacements u)\<rparr>)))"

definition upgrade_children ::
    "os \<Rightarrow> item_config \<Rightarrow> string \<Rightarrow> string list \<Rightarrow> upgrade \<Rightarrow> upgrade res" where
  "upgrade_children sys ic sep new_children u =
     bind_res (canonical_children sys (ic_dir ic) (ic_children ic)) (\<lambda>seen.
     bind_res (canonical_children sys (ic_dir ic) new_children) (\<lambda>new_paths.
       Inr (add_values ic sep k_CHILDREN (ic_children ic)
              (map fst (filter (\<lambda>(c, p). p \<notin> set seen) (zip new_children new_paths))) u)))"

definition collect_upgrade ::
    "os \<Rightarrow> item_config \<Rightarrow> string set \<Rightarrow> string \<Rightarrow> string list \<Rightarrow> string list \<Rightarrow> upgrade res" where
  "collect_upgrade sys ic new_children tree_name externals new_tree_deps =
     (let sep = '' '' @ [backslash] @ getPreferredEOL (ic_kv ic) @ ''    '' in
      bind_res (upgrade_tree_name ic tree_name (upgrade_keys ic no_upgrade)) (\<lambda>u.
      bind_res (upgrade_children sys ic sep (sorted_list_of_set new_children)
                 (add_values ic sep k_TREEDEPS (ic_tree_deps ic)
                   (filter (\<lambda>d. d \<notin> set (ic_tree_deps ic)) new_tree_deps) u))
        (upgrade_externals ic sep externals new_tree_deps)))"

definition must_upgrade :: "upgrade \<Rightarrow> bool" where
  "must_upgrade u \<longleftrightarrow> \<not> (up_key_changes u = [] \<and> up_additions u = [] \<and> up_replacements u = []
     \<and> up_deletions u = {})"

text \<open>The content that is written, if the file has to be upgraded.\<close>

definition upgradeConfig ::
    "os \<Rightarrow> item_config \<Rightarrow> string set \<Rightarrow> string \<Rightarrow> string list \<Rightarrow> string list \<Rightarrow> string option res" where
  "upgradeConfig sys ic new_children tree_name externals new_tree_deps =
     bind_res (collect_upgrade sys ic new_children tree_name externals new_tree_deps) (\<lambda>u.
       Inr (if must_upgrade u
            then Some (writeFile (up_key_changes u) (up_replacements u) (up_deletions u)
                                 (up_additions u) (ic_kv ic))
            else None))"

end
