(* ===== verification/Interface.thy ===== *)
theory Interface
  imports Basic_Data Util_Paths
begin

text \<open>
  The class \<open>Interface\<close> (\<open>src/src/Interface.cc\<close>): the variables of a build item's interface, with
  the history of their assignments and resets. A method that reports errors takes the error object
  and returns the changed one; the first component of the result is what the method returns.
\<close>

section \<open>State\<close>

datatype type_e = t_boolean | t_string | t_filename
datatype list_e = l_scalar | l_append | l_prepend
datatype assign_e = a_normal | a_override | a_fallback
datatype scope_e = s_recursive | s_nonrecursive | s_local

record assignment =
  a_location :: file_location
  assignment_type :: assign_e
  a_flag :: string
  a_item_name :: string
  a_item_platform :: string
  a_value :: "string list"

record reset_entry =
  r_location :: file_location
  r_item_name :: string
  r_item_platform :: string

record variable =
  v_name :: string
  declare_location :: file_location
  v_target_type :: target_type_e
  v_scope :: scope_e
  v_type :: type_e
  v_list_type :: list_e
  reset_history :: "reset_entry list"
  assignment_history :: "assignment list"

record variable_info =
  i_target_type :: target_type_e
  i_type :: type_e
  i_list_type :: list_e
  i_scope :: scope_e
  initialized :: bool
  i_value :: "string list"

record interface =
  item_name :: string
  item_platform :: string
  symbol_table :: "(string, variable) omap"
  local_directory :: string
  target_type :: target_type_e

section \<open>The local directory\<close>

definition setLocalDirectory :: "string \<Rightarrow> interface \<Rightarrow> interface res" where
  "setLocalDirectory local_dir i =
     assert_res (isAbsolutePath local_dir) ''Util::isAbsolutePath(this->local_directory)''
       (Inr (i\<lparr>local_directory := normalizePathSeparators local_dir\<rparr>))"

definition new_interface :: "string \<Rightarrow> string \<Rightarrow> string \<Rightarrow> interface res" where
  "new_interface name platform local_dir =
     setLocalDirectory local_dir
       \<lparr>item_name = name, item_platform = platform, symbol_table = [], local_directory = [],
        target_type = tt_all\<rparr>"

definition setTargetType :: "target_type_e \<Rightarrow> interface \<Rightarrow> interface" where
  "setTargetType t i = i\<lparr>target_type := t\<rparr>"

definition normalizeFilename :: "os \<Rightarrow> interface \<Rightarrow> string \<Rightarrow> string res" where
  "normalizeFilename sys i filename =
     (let filename = normalizePathSeparators filename in
      assert_res (filename \<noteq> []) ''! filename.empty()''
      (let filename =
         (if isAbsolutePath filename then filename
          else if filename = ''.'' then local_directory i
          else local_directory i @ ''/'' @ filename)
       in canonicalizePath sys filename))"

section \<open>Declarations\<close>

definition declareVariable_in ::
    "error \<Rightarrow> file_location \<Rightarrow> target_type_e \<Rightarrow> string \<Rightarrow> scope_e \<Rightarrow> type_e \<Rightarrow> list_e \<Rightarrow> interface
      \<Rightarrow> bool \<times> interface \<times> error" where
  "declareVariable_in e location tt name scope type list_type i =
     (case om_get (symbol_table i) name of
        Some var \<Rightarrow>
          if declare_location var = location then (True, i, e)
          else (False, i,
                report (declare_location var) ''here is the previous declaration''
                  (report location (''variable '' @ name @ '' has already been declared'') e))
      | None \<Rightarrow>
          (True, i\<lparr>symbol_table := om_put name
                     \<lparr>v_name = name, declare_location = location, v_target_type = tt, v_scope = scope,
                      v_type = type, v_list_type = list_type, reset_history = [],
                      assignment_history = []\<rparr> (symbol_table i)\<rparr>, e))"

definition declareVariable ::
    "error \<Rightarrow> file_location \<Rightarrow> string \<Rightarrow> scope_e \<Rightarrow> type_e \<Rightarrow> list_e \<Rightarrow> interface
      \<Rightarrow> bool \<times> interface \<times> error" where
  "declareVariable e location name scope type list_type i =
     declareVariable_in e location (target_type i) name scope type list_type i"

section \<open>Assignments\<close>

text \<open>
  An assignment counts as seen before if it has the same location and the same platform; the loop
  stops at the first one.
\<close>

definition find_assignment :: "file_location \<Rightarrow> string \<Rightarrow> assignment list \<Rightarrow> assignment option" where
  "find_assignment location platform history =
     List.find (\<lambda>a. a_location a = location \<and> a_item_platform a = platform) history"

text \<open>One value is checked and adjusted for the type of the variable.\<close>

definition check_value ::
    "os \<Rightarrow> interface \<Rightarrow> variable \<Rightarrow> file_location \<Rightarrow> string \<Rightarrow> string \<Rightarrow> bool \<times> error
      \<Rightarrow> (string \<times> bool \<times> error) res" where
  "check_value sys i var location name val se =
     (case v_type var of
        t_boolean \<Rightarrow>
          if val = ''1'' \<or> val = ''0'' then Inr (val, se)
          else if val = ''true'' then Inr (''1'', se)
          else if val = ''false'' then Inr (''0'', se)
          else Inr (val, False, report location (''value '' @ val @ '' is invalid for boolean variable ''
                      @ name) (snd se))
      | t_filename \<Rightarrow>
          if val = [] then Inr (val, False, report location
                 (''the empty string may not be used as a value for filename variable '' @ name) (snd se))
          else bind_res (normalizeFilename sys i val) (\<lambda>val. Inr (val, se))
      | t_string \<Rightarrow> Inr (val, se))"

fun check_values ::
    "os \<Rightarrow> interface \<Rightarrow> variable \<Rightarrow> file_location \<Rightarrow> string \<Rightarrow> string list \<Rightarrow> bool \<times> error
      \<Rightarrow> (string list \<times> bool \<times> error) res" where
  "check_values sys i var location name [] se = Inr ([], se)"
| "check_values sys i var location name (val # vals) se =
     bind_res (check_value sys i var location name val se) (\<lambda>(val, se).
     bind_res (check_values sys i var location name vals se) (\<lambda>(vals, se). Inr (val # vals, se)))"

text \<open>A scalar takes one word; no word counts as the empty one.\<close>

definition scalar_values ::
    "variable \<Rightarrow> file_location \<Rightarrow> string \<Rightarrow> string list \<Rightarrow> error \<Rightarrow> string list \<times> bool \<times> error" where
  "scalar_values var location name vals e =
     (if v_list_type var = l_scalar then
        let vals = (if vals = [] then [[]] else vals) in
        if length vals \<noteq> 1
        then (vals, False, report location (''multiple words may not be assigned to scalar variable ''
                                            @ name) e)
        else (vals, True, e)
      else (vals, True, e))"

text \<open>The loop over the history has its \<open>break\<close> behind the test, so that it reads one element.\<close>

fun previous_normal_assignment :: "assignment list \<Rightarrow> assignment option" where
  "previous_normal_assignment [] = None"
| "previous_normal_assignment (a # history) = (if assignment_type a = a_normal then Some a else None)"

definition conflict_text :: "string \<Rightarrow> string" where
  "conflict_text platform =
     ''conflicting assignment was made by this build item's instance on platform '' @ platform @
     ''; see \"Interface Errors\" subsection of the \"Explicit Cross-Platform Dependencies\" '' @
     ''section of the manual for an explanation and list of remedies''"

text \<open>The checks of the assignment type: the new status and the errors.\<close>

definition check_assignment_type ::
    "variable \<Rightarrow> file_location \<Rightarrow> string \<Rightarrow> string list \<Rightarrow> assign_e \<Rightarrow> bool \<times> error \<Rightarrow> bool \<times> error" where
  "check_assignment_type var location name vals atype se =
     (if v_list_type var = l_scalar then
        if atype = a_normal then
          case previous_normal_assignment (assignment_history var) of
            None \<Rightarrow> se
          | Some previous \<Rightarrow>
              if a_location previous = location \<and> vals = a_value previous then se
              else
                let e = report location (''variable '' @ name @ '' already has a value'') (snd se) in
                (False,
                 if a_location previous = location
                 then report location (conflict_text (a_item_platform previous)) e
                 else report (a_location previous) ''here is the previous assignment'' e)
        else se
      else if atype \<noteq> a_normal
      then (False, report location
              ''fallback and override assignments are not valid for list variables'' (snd se))
      else se)"

definition add_assignment :: "assignment \<Rightarrow> variable \<Rightarrow> variable" where
  "add_assignment a var =
     var\<lparr>assignment_history :=
           (if v_list_type var = l_scalar \<and> assignment_type a = a_fallback
            then a # assignment_history var else assignment_history var @ [a])\<rparr>"

definition assignVariable_as ::
    "os \<Rightarrow> error \<Rightarrow> file_location \<Rightarrow> string \<Rightarrow> string list \<Rightarrow> assign_e \<Rightarrow> string \<Rightarrow> string \<Rightarrow> string
      \<Rightarrow> interface \<Rightarrow> (bool \<times> interface \<times> error) res" where
  "assignVariable_as sys e location name ovalues atype flag iname iplatform i =
     (case om_get (symbol_table i) name of
        None \<Rightarrow> Inr (False, i, report location (''assigning to unknown variable '' @ name) e)
      | Some var \<Rightarrow>
          let old = find_assignment location iplatform (assignment_history var);
              (vals, se) = scalar_values var location name ovalues e in
          bind_res (check_values sys i var location name vals se) (\<lambda>(vals, se).
            let a = \<lparr>a_location = location, assignment_type = atype, a_flag = flag, a_item_name = iname,
                     a_item_platform = iplatform, a_value = vals\<rparr> in
            case old of
              Some old \<Rightarrow> assert_res (a_value old = vals) ''old_assignment->value == values''
                            (Inr (True, i, snd se))
            | None \<Rightarrow>
                let (status, e) = check_assignment_type var location name vals atype se in
                Inr (status,
                     i\<lparr>symbol_table := om_put name (add_assignment a var) (symbol_table i)\<rparr>, e)))"

definition assignVariable ::
    "os \<Rightarrow> error \<Rightarrow> file_location \<Rightarrow> string \<Rightarrow> string list \<Rightarrow> assign_e \<Rightarrow> string \<Rightarrow> interface
      \<Rightarrow> (bool \<times> interface \<times> error) res" where
  "assignVariable sys e location name vals atype flag i =
     assignVariable_as sys e location name vals atype flag (item_name i) (item_platform i) i"

definition assignVariable_scalar ::
    "os \<Rightarrow> error \<Rightarrow> file_location \<Rightarrow> string \<Rightarrow> string \<Rightarrow> assign_e \<Rightarrow> interface
      \<Rightarrow> (bool \<times> interface \<times> error) res" where
  "assignVariable_scalar sys e location name val atype i =
     assignVariable_as sys e location name [val] atype [] (item_name i) (item_platform i) i"

section \<open>Resets\<close>

definition add_reset :: "reset_entry \<Rightarrow> variable \<Rightarrow> variable" where
  "add_reset r var =
     (if r \<in> set (reset_history var) then var else var\<lparr>reset_history := reset_history var @ [r]\<rparr>)"

definition resetVariable_as ::
    "error \<Rightarrow> file_location \<Rightarrow> string \<Rightarrow> string \<Rightarrow> string \<Rightarrow> bool \<Rightarrow> interface
      \<Rightarrow> bool \<times> interface \<times> error" where
  "resetVariable_as e location name iname iplatform clear_assignment_history i =
     (case om_get (symbol_table i) name of
        None \<Rightarrow> (False, i, report location (''resetting unknown variable '' @ name) e)
      | Some var \<Rightarrow>
          let var = (if clear_assignment_history then var\<lparr>assignment_history := []\<rparr> else var);
              var = add_reset \<lparr>r_location = location, r_item_name = iname, r_item_platform = iplatform\<rparr> var
          in (True, i\<lparr>symbol_table := om_put name var (symbol_table i)\<rparr>, e))"

definition resetVariable ::
    "error \<Rightarrow> file_location \<Rightarrow> string \<Rightarrow> interface \<Rightarrow> bool \<times> interface \<times> error" where
  "resetVariable e location name i =
     resetVariable_as e location name (item_name i) (item_platform i) True i"

section \<open>Importing an interface\<close>

fun import_resets ::
    "string \<Rightarrow> reset_entry list \<Rightarrow> bool \<times> interface \<times> error \<Rightarrow> bool \<times> interface \<times> error" where
  "import_resets name [] s = s"
| "import_resets name (r # rs) (status, i, e) =
     (let (ok, i, e) = resetVariable_as e (r_location r) name (r_item_name r) (r_item_platform r) False i
      in import_resets name rs (status \<and> ok, i, e))"

fun import_assignments ::
    "os \<Rightarrow> string \<Rightarrow> variable \<Rightarrow> assignment list \<Rightarrow> bool \<times> interface \<times> error
      \<Rightarrow> (bool \<times> interface \<times> error) res" where
  "import_assignments sys other_name var [] s = Inr s"
| "import_assignments sys other_name var (a # as) (status, i, e) =
     (if v_scope var = s_recursive \<or> a_item_name a = other_name then
        bind_res (assignVariable_as sys e (a_location a) (v_name var) (a_value a) (assignment_type a)
                    (a_flag a) (a_item_name a) (a_item_platform a) i) (\<lambda>(ok, i, e).
          import_assignments sys other_name var as (status \<and> ok, i, e))
      else import_assignments sys other_name var as (status, i, e))"

definition import_variable ::
    "os \<Rightarrow> string \<Rightarrow> variable \<Rightarrow> bool \<times> interface \<times> error \<Rightarrow> (bool \<times> interface \<times> error) res" where
  "import_variable sys other_name var s =
     (if v_scope var = s_local then Inr s
      else
        let (status, i, e) = s;
            (ok, i, e) = declareVariable_in e (declare_location var) (v_target_type var) (v_name var)
                           (v_scope var) (v_type var) (v_list_type var) i in
        if ok then import_assignments sys other_name var (assignment_history var)
                     (import_resets (v_name var) (reset_history var) (status, i, e))
        else Inr (False, i, e))"

fun import_variables ::
    "os \<Rightarrow> string \<Rightarrow> variable list \<Rightarrow> bool \<times> interface \<times> error \<Rightarrow> (bool \<times> interface \<times> error) res" where
  "import_variables sys other_name [] s = Inr s"
| "import_variables sys other_name (var # vars) s =
     bind_res (import_variable sys other_name var s) (import_variables sys other_name vars)"

definition importInterface ::
    "os \<Rightarrow> error \<Rightarrow> interface \<Rightarrow> interface \<Rightarrow> (bool \<times> interface \<times> error) res" where
  "importInterface sys e other i =
     import_variables sys (item_name other) (map snd (symbol_table other)) (True, i, e)"

section \<open>Reading variables\<close>

definition visible :: "flag_data \<Rightarrow> assignment \<Rightarrow> bool" where
  "visible flags a \<longleftrightarrow> a_flag a = [] \<or> isSet flags (a_item_name a) (a_flag a)"

text \<open>\<open>push_front\<close> of the values of an assignment, the last one first.\<close>

definition prepend_values :: "assignment \<Rightarrow> string list \<Rightarrow> string list" where
  "prepend_values a vals = fold (\<lambda>v vals. v # vals) (rev (a_value a)) vals"

definition append_values :: "assignment \<Rightarrow> string list \<Rightarrow> string list" where
  "append_values a vals = fold (\<lambda>v vals. vals @ [v]) (a_value a) vals"

definition history_value :: "list_e \<Rightarrow> assignment list \<Rightarrow> string list" where
  "history_value list_type history =
     (case list_type of
        l_scalar \<Rightarrow> a_value (last history)
      | l_append \<Rightarrow> fold append_values history []
      | l_prepend \<Rightarrow> fold prepend_values history [])"

definition getVariable :: "interface \<Rightarrow> string \<Rightarrow> flag_data \<Rightarrow> variable_info option" where
  "getVariable i name flags =
     (case om_get (symbol_table i) name of
        None \<Rightarrow> None
      | Some var \<Rightarrow>
          let history = filter (visible flags) (assignment_history var) in
          Some \<lparr>i_target_type = v_target_type var, i_type = v_type var, i_list_type = v_list_type var,
                i_scope = v_scope var, initialized = (history \<noteq> []),
                i_value = (if history = [] then [] else history_value (v_list_type var) history)\<rparr>)"

definition getVariable_no_flags :: "interface \<Rightarrow> string \<Rightarrow> variable_info option" where
  "getVariable_no_flags i name = getVariable i name []"

definition getVariableNames :: "interface \<Rightarrow> string list" where
  "getVariableNames i = om_keys (symbol_table i)"

fun variables_loop ::
    "interface \<Rightarrow> target_type_e \<Rightarrow> flag_data \<Rightarrow> string list \<Rightarrow> (string, variable_info) omap
      \<Rightarrow> (string, variable_info) omap res" where
  "variables_loop i tt flags [] m = Inr m"
| "variables_loop i tt flags (name # names) m =
     (case getVariable i name flags of
        None \<Rightarrow> Inl (Assertion ''getVariable(name, flag_data, info)'')
      | Some info \<Rightarrow>
          variables_loop i tt flags names
            (if i_target_type info = tt_all \<or> i_target_type info = tt then om_put name info m else m))"

definition getVariablesForTargetType ::
    "interface \<Rightarrow> target_type_e \<Rightarrow> flag_data \<Rightarrow> (string, variable_info) omap res" where
  "getVariablesForTargetType i tt flags = variables_loop i tt flags (getVariableNames i) []"

section \<open>Printing\<close>

definition unparse_type :: "scope_e \<Rightarrow> type_e \<Rightarrow> list_e \<Rightarrow> string" where
  "unparse_type scope type list_type =
     (case scope of s_recursive \<Rightarrow> [] | s_nonrecursive \<Rightarrow> ''non-recursive '' | s_local \<Rightarrow> ''local '') @
     (if list_type \<noteq> l_scalar then ''list '' else []) @
     (case type of t_string \<Rightarrow> ''string'' | t_boolean \<Rightarrow> ''boolean'' | t_filename \<Rightarrow> ''filename'') @
     (case list_type of l_scalar \<Rightarrow> [] | l_append \<Rightarrow> '' append'' | l_prepend \<Rightarrow> '' prepend'')"

definition unparse_assignment_type :: "assign_e \<Rightarrow> string" where
  "unparse_assignment_type t =
     (case t of a_normal \<Rightarrow> ''normal'' | a_override \<Rightarrow> ''override'' | a_fallback \<Rightarrow> ''fallback'')"

definition attr :: "string \<Rightarrow> string \<Rightarrow> string" where
  "attr name text = name @ ''=\"'' @ XMLify text True @ ''\"''"

definition dump_reset :: "reset_entry \<Rightarrow> string" where
  "dump_reset r = ''   <reset '' @ attr ''item-name'' (r_item_name r) @ '' '' @
     attr ''item-platform'' (r_item_platform r) @ '' location=\"'' @
     XMLify (location_string (r_location r)) True @ ''/>'' @ [newline]"

definition dump_assignment :: "assignment \<Rightarrow> string" where
  "dump_assignment a = ''   <assignment assignment-type=\"'' @ unparse_assignment_type (assignment_type a) @
     ''\" '' @ attr ''item-name'' (a_item_name a) @ '' '' @ attr ''item-platform'' (a_item_platform a) @
     '' '' @ attr ''location'' (location_string (a_location a)) @
     (if a_flag a \<noteq> [] then '' '' @ attr ''flag'' (a_flag a) else []) @ ''>'' @ [newline] @
     concat (map (\<lambda>v. ''    <value '' @ attr ''value'' v @ ''/>'' @ [newline]) (a_value a)) @
     ''   </assignment>'' @ [newline]"

definition dump_variable :: "string \<times> variable \<Rightarrow> string res" where
  "dump_variable nv = (case nv of (name, var) \<Rightarrow>
     bind_res (getName (v_target_type var)) (\<lambda>tt. Inr (
       '' <variable '' @ attr ''name'' name @ '' type=\"'' @
       unparse_type (v_scope var) (v_type var) (v_list_type var) @ ''\" target-type=\"'' @ tt @ ''\" '' @
       attr ''declaration-location'' (location_string (declare_location var)) @ ''>'' @ [newline] @
       (if reset_history var \<noteq> []
        then ''  <reset-history>'' @ [newline] @ concat (map dump_reset (reset_history var)) @
             ''  </reset-history>'' @ [newline]
        else []) @
       (if assignment_history var \<noteq> []
        then ''  <assignment-history>'' @ [newline] @ concat (map dump_assignment (assignment_history var)) @
             ''  </assignment-history>'' @ [newline]
        else []) @
       '' </variable>'' @ [newline])))"

fun dump_variables :: "(string, variable) omap \<Rightarrow> string res" where
  "dump_variables [] = Inr []"
| "dump_variables (nv # rest) =
     bind_res (dump_variable nv) (\<lambda>a. bind_res (dump_variables rest) (\<lambda>b. Inr (a @ b)))"

definition dump :: "interface \<Rightarrow> string res" where
  "dump i = bind_res (dump_variables (symbol_table i)) (\<lambda>body. Inr (
     ''<?xml version=\"1.0\"?>'' @ [newline] @ ''<interface version=\"1\" '' @
     attr ''item-name'' (item_name i) @ '' '' @ attr ''item-platform'' (item_platform i) @ ''>'' @
     [newline] @ body @ ''</interface>'' @ [newline]))"

end
