(* ===== verification/Build_Item.thy ===== *)
theory Build_Item
  imports Item_Config_Read Interface
begin

text \<open>
  The classes \<open>BuildItem\<close>, \<open>BuildTree\<close> and \<open>BuildForest\<close> (the files of these names under \<open>src/src\<close>):
  what the program keeps for every build item, build tree and forest while it validates a forest and
  constructs the build graph. Accessors that return a member, or that ask the configuration of the
  item for one, are the fields of the records.
\<close>

section \<open>BuildItem\<close>

record build_item =
  bi_item_name :: string
  bi_config :: item_config
  bi_deps :: "string list"
  bi_flag_data :: flag_data
  bi_trait_data :: trait_data
  bi_optional_dep_presence :: "(string, bool) omap"
  bi_tree_name :: string
  bi_forest_root :: string
  bi_backing_depth :: nat
  bi_platform_types :: "(string, string list) omap"
  bi_platform_to_type :: "(string, string) omap"
  bi_build_platforms :: "string set"
  bi_platform_data :: "platform_data option"
  bi_expanded_dependencies :: "string list"
  bi_shadowed_references :: "string set"
  bi_interfaces :: "(string, interface) omap"
  bi_target_type :: target_type_e
  bi_plugins :: "string list"

definition bi_isLocal :: "build_item \<Rightarrow> bool" where
  "bi_isLocal i \<longleftrightarrow> bi_backing_depth i = 0"

definition assertLocal :: "build_item \<Rightarrow> 'a res \<Rightarrow> 'a res" where
  "assertLocal i k =
     (if bi_isLocal i then k
      else Inl (Qexc_Internal ''attempt to perform disallowed operation on non-local build item''))"

definition bi_setPlatformTypes :: "string set \<Rightarrow> build_item \<Rightarrow> build_item res" where
  "bi_setPlatformTypes types i =
     assertLocal i
       (Inr (i\<lparr>bi_platform_types := fold (\<lambda>t. om_put t []) (sorted_list_of_set types) (bi_platform_types i)\<rparr>))"

definition BuildItem :: "string \<Rightarrow> string \<Rightarrow> item_config \<Rightarrow> build_item res" where
  "BuildItem name tree_name config =
     bi_setPlatformTypes (ic_platform_types config)
       \<lparr>bi_item_name = name, bi_config = config, bi_deps = ic_deps config,
        bi_flag_data = ic_flag_data config, bi_trait_data = ic_trait_data config,
        bi_optional_dep_presence = [], bi_tree_name = tree_name, bi_forest_root = [],
        bi_backing_depth = 0, bi_platform_types = [], bi_platform_to_type = [],
        bi_build_platforms = {}, bi_platform_data = None, bi_expanded_dependencies = [],
        bi_shadowed_references = {}, bi_interfaces = [], bi_target_type = tt_unknown, bi_plugins = []\<rparr>"

section \<open>Queries\<close>

definition bi_location :: "build_item \<Rightarrow> file_location" where
  "bi_location i = ic_location (bi_config i)"

definition bi_name :: "build_item \<Rightarrow> string" where
  "bi_name i = ic_name (bi_config i)"

definition bi_path :: "build_item \<Rightarrow> string" where
  "bi_path i = ic_dir (bi_config i)"

definition bi_isInTree :: "build_item \<Rightarrow> string \<Rightarrow> bool" where
  "bi_isInTree i tree \<longleftrightarrow> bi_tree_name i = tree"

definition isInTrees :: "build_item \<Rightarrow> string set \<Rightarrow> bool" where
  "isInTrees i trees \<longleftrightarrow> bi_tree_name i \<in> trees"

definition isAtOrBelowPath :: "os \<Rightarrow> build_item \<Rightarrow> string \<Rightarrow> bool res" where
  "isAtOrBelowPath sys i path = isDirUnder sys (bi_path i) path"

definition isInTreesAndAtOrBelowPath :: "os \<Rightarrow> build_item \<Rightarrow> string set \<Rightarrow> string \<Rightarrow> bool res" where
  "isInTreesAndAtOrBelowPath sys i trees path =
     (if isInTrees i trees then isAtOrBelowPath sys i path else Inr False)"

definition bi_getTargetType :: "build_item \<Rightarrow> target_type_e res" where
  "bi_getTargetType i =
     (if bi_target_type i = tt_unknown
      then Inl (Qexc_Internal ''attempt to retrieve build item target type before it was set'')
      else Inr (bi_target_type i))"

definition bi_getPlatformTypes :: "build_item \<Rightarrow> string set" where
  "bi_getPlatformTypes i = set (om_keys (bi_platform_types i))"

definition bi_getPlatformType :: "build_item \<Rightarrow> string \<Rightarrow> string res" where
  "bi_getPlatformType i platform =
     (if bi_target_type i = tt_object_code
      then (case om_get (bi_platform_to_type i) platform of
              None \<Rightarrow> Inl (Assertion ''this->platform_to_type.count(platform) != 0'')
            | Some t \<Rightarrow> Inr t)
      else Inr platform)"

definition getBuildablePlatforms :: "build_item \<Rightarrow> string set" where
  "getBuildablePlatforms i = (\<Union>(t, ps) \<in> set (bi_platform_types i). set ps)"

text \<open>
  \<open>getBestPlatformForType\<close>. The selector that applies: the one of the dependency, or else a general
  one that is not \<open>skip\<close>.
\<close>

definition effective_selector ::
    "string \<Rightarrow> platform_selector option \<Rightarrow> (string, platform_selector) omap \<Rightarrow> platform_selector option" where
  "effective_selector platform_type ps selectors =
     (case ps of
        Some p \<Rightarrow> Some p
      | None \<Rightarrow>
          (case (case om_get selectors platform_type of
                   Some p \<Rightarrow> Some p
                 | None \<Rightarrow> om_get selectors ANY) of
             Some p \<Rightarrow> if isSkip p then None else Some p
           | None \<Rightarrow> None))"

fun first_match :: "matcher \<Rightarrow> string list \<Rightarrow> string option res" where
  "first_match m [] = Inr None"
| "first_match m (p # ps) = bind_res (matches m p) (\<lambda>b. if b then Inr (Some p) else first_match m ps)"

definition best_of :: "target_type_e \<Rightarrow> platform_selector option \<Rightarrow> string list \<Rightarrow> string res" where
  "best_of tt ps platforms =
     (if platforms = [] then Inr []
      else bind_res
        (case ps of
           Some p \<Rightarrow>
             if tt = tt_object_code \<and> \<not> isDefault p
             then bind_res (new_matcher (hd platforms) p) (\<lambda>m. first_match m platforms)
             else Inr None
         | None \<Rightarrow> Inr None)
        (\<lambda>result. Inr (case result of Some r \<Rightarrow> if r = [] then hd platforms else r | None \<Rightarrow> hd platforms)))"

definition getBestPlatformForType ::
    "build_item \<Rightarrow> string \<Rightarrow> platform_selector option \<Rightarrow> (string, platform_selector) omap \<Rightarrow> string res" where
  "getBestPlatformForType i platform_type ps selectors =
     (let ps = effective_selector platform_type ps selectors;
          platform_type = (case ps of
            Some p \<Rightarrow> if getPlatformType p \<noteq> ANY then getPlatformType p else platform_type
          | None \<Rightarrow> platform_type)
      in case om_get (bi_platform_types i) platform_type of
           Some platforms \<Rightarrow> best_of (bi_target_type i) ps platforms
         | None \<Rightarrow> Inr [])"

text \<open>The argument \<open>item\<close> is the one that needs the platform.\<close>

definition getBestPlatformForPlatform ::
    "build_item \<Rightarrow> build_item \<Rightarrow> string \<Rightarrow> (string, platform_selector) omap \<Rightarrow> string res" where
  "getBestPlatformForPlatform i item platform selectors =
     (if bi_target_type i = tt_all \<or> platform \<in> getBuildablePlatforms i then Inr platform
      else case bi_platform_data item of
        None \<Rightarrow> Inl (Assertion ''item.platform_data.get()'')
      | Some pd \<Rightarrow>
          bind_res (getCompatiblePlatformTypes pd platform) (\<lambda>compatible_types.
            case find (om_has (bi_platform_types i)) compatible_types of
              Some t \<Rightarrow> getBestPlatformForType i t None selectors
            | None \<Rightarrow> Inr []))"

text \<open>Whether the item is one of the names, and the names that are left.\<close>

definition isNamed :: "build_item \<Rightarrow> string set \<Rightarrow> bool \<times> string set" where
  "isNamed i names =
     (if bi_item_name i \<in> names then (True, names - {bi_item_name i}) else (False, names))"

definition hasShadowedReferences :: "build_item \<Rightarrow> bool" where
  "hasShadowedReferences i \<longleftrightarrow> bi_shadowed_references i \<noteq> {}"

definition getInterface :: "build_item \<Rightarrow> string \<Rightarrow> interface res" where
  "getInterface i platform =
     (case om_get (bi_interfaces i) platform of
        None \<Rightarrow> Inl (Undefined ''*this->interfaces.end()'') | Some iface \<Rightarrow> Inr iface)"

definition hasTraits :: "build_item \<Rightarrow> string list \<Rightarrow> bool" where
  "hasTraits i traits \<longleftrightarrow> list_all (hasTrait (bi_trait_data i)) traits"

definition getReferences :: "build_item \<Rightarrow> string set" where
  "getReferences i = set (bi_expanded_dependencies i) \<union> set (bi_plugins i) \<union> {bi_item_name i}"

section \<open>Changes\<close>

definition incrementBackingDepth :: "build_item \<Rightarrow> build_item" where
  "incrementBackingDepth i = i\<lparr>bi_backing_depth := bi_backing_depth i + 1\<rparr>"

definition setOptionalDependencyPresence :: "string \<Rightarrow> bool \<Rightarrow> build_item \<Rightarrow> build_item res" where
  "setOptionalDependencyPresence item present i =
     (let i = i\<lparr>bi_optional_dep_presence := om_put item present (bi_optional_dep_presence i)\<rparr> in
      if present then Inr i
      else assert_res (bi_expanded_dependencies i = []) ''this->expanded_dependencies.empty()''
        (Inr (i\<lparr>bi_deps := filter (\<lambda>d. d \<noteq> item) (bi_deps i),
                bi_flag_data := removeItem item (bi_flag_data i),
                bi_trait_data := removeTraitItem item (bi_trait_data i)\<rparr>)))"

definition bi_setTargetType :: "target_type_e \<Rightarrow> build_item \<Rightarrow> build_item res" where
  "bi_setTargetType t i = assertLocal i (Inr (i\<lparr>bi_target_type := t\<rparr>))"

definition setBuildablePlatforms :: "string \<Rightarrow> string list \<Rightarrow> build_item \<Rightarrow> build_item res" where
  "setBuildablePlatforms platform_type platforms i =
     assertLocal i
     (assert_res (om_has (bi_platform_types i) platform_type) ''this->platform_types.count(platform_type) != 0''
     (Inr (i\<lparr>bi_platform_types := om_put platform_type platforms (bi_platform_types i),
             bi_platform_to_type := fold (\<lambda>p. om_put p platform_type) platforms (bi_platform_to_type i)\<rparr>)))"

definition setBuildPlatforms :: "string set \<Rightarrow> build_item \<Rightarrow> build_item" where
  "setBuildPlatforms platforms i = i\<lparr>bi_build_platforms := platforms\<rparr>"

definition addBuildPlatform :: "string \<Rightarrow> build_item \<Rightarrow> build_item" where
  "addBuildPlatform platform i = i\<lparr>bi_build_platforms := insert platform (bi_build_platforms i)\<rparr>"

text \<open>\<open>back()\<close> of an empty list is undefined.\<close>

definition drop_own :: "string \<Rightarrow> string list \<Rightarrow> string list res" where
  "drop_own name xs =
     (if xs = [] then Inl (Undefined ''back() of an empty list'')
      else Inr (if last xs = name then butlast xs else xs))"

definition setExpandedDependencies :: "string list \<Rightarrow> build_item \<Rightarrow> build_item res" where
  "setExpandedDependencies xs i =
     bind_res (drop_own (bi_item_name i) xs) (\<lambda>ys. Inr (i\<lparr>bi_expanded_dependencies := ys\<rparr>))"

definition setInterface :: "string \<Rightarrow> interface \<Rightarrow> build_item \<Rightarrow> build_item" where
  "setInterface platform iface i = i\<lparr>bi_interfaces := om_put platform iface (bi_interfaces i)\<rparr>"

definition setPlugins :: "string list \<Rightarrow> build_item \<Rightarrow> build_item res" where
  "setPlugins ps i = assertLocal i (Inr (i\<lparr>bi_plugins := ps\<rparr>))"

section \<open>BuildTree\<close>

record build_tree =
  bt_name :: string
  bt_root_path :: string
  bt_forest_root :: string
  bt_location :: file_location
  bt_tree_deps :: "string list"
  bt_expanded_tree_deps :: "string list"
  bt_expanded_tree_deps_and_local :: "string set"
  bt_optional_tree_deps :: "string set"
  bt_omitted_tree_deps :: "string set"
  bt_supported_traits :: "string set"
  bt_plugins :: "string list"
  bt_platform_data :: platform_data
  bt_backing_depth :: int

definition BuildTree ::
    "string \<Rightarrow> string \<Rightarrow> string list \<Rightarrow> string set \<Rightarrow> string set \<Rightarrow> string list \<Rightarrow> platform_data \<Rightarrow> build_tree" where
  "BuildTree name root_path tree_deps optional_tree_deps declared_traits plugins pd =
     \<lparr>bt_name = name, bt_root_path = root_path, bt_forest_root = [],
      bt_location = FileLocation (root_path @ ''/'' @ FILE_CONF) 0 0, bt_tree_deps = tree_deps,
      bt_expanded_tree_deps = [], bt_expanded_tree_deps_and_local = {},
      bt_optional_tree_deps = optional_tree_deps, bt_omitted_tree_deps = {},
      bt_supported_traits = declared_traits, bt_plugins = plugins, bt_platform_data = pd,
      bt_backing_depth = 0\<rparr>"

definition bt_isLocal :: "build_tree \<Rightarrow> bool" where
  "bt_isLocal t \<longleftrightarrow> bt_backing_depth t = 0"

definition addTraits :: "string set \<Rightarrow> build_tree \<Rightarrow> build_tree" where
  "addTraits traits t = t\<lparr>bt_supported_traits := bt_supported_traits t \<union> traits\<rparr>"

definition bt_incrementBackingDepth :: "build_tree \<Rightarrow> build_tree" where
  "bt_incrementBackingDepth t = t\<lparr>bt_backing_depth := bt_backing_depth t + 1\<rparr>"

definition setExpandedTreeDeps :: "string list \<Rightarrow> build_tree \<Rightarrow> build_tree res" where
  "setExpandedTreeDeps xs t =
     bind_res (drop_own (bt_name t) xs) (\<lambda>ys.
       Inr (t\<lparr>bt_expanded_tree_deps := ys,
              bt_expanded_tree_deps_and_local :=
                bt_expanded_tree_deps_and_local t \<union> set ys \<union> {bt_name t}\<rparr>))"

definition removeTreeDep :: "string \<Rightarrow> build_tree \<Rightarrow> build_tree res" where
  "removeTreeDep item t =
     assert_res (bt_expanded_tree_deps t = []) ''this->expanded_tree_deps.empty()''
       (Inr (t\<lparr>bt_tree_deps := filter (\<lambda>d. d \<noteq> item) (bt_tree_deps t),
               bt_omitted_tree_deps := insert item (bt_omitted_tree_deps t)\<rparr>))"

definition addTreeDeps :: "string set \<Rightarrow> build_tree \<Rightarrow> build_tree" where
  "addTreeDeps extra t =
     t\<lparr>bt_tree_deps := appendNonMembers (bt_tree_deps t) (sorted_list_of_set (extra - {bt_name t}))\<rparr>"

definition addPlugins :: "string set \<Rightarrow> build_tree \<Rightarrow> build_tree" where
  "addPlugins extra t = t\<lparr>bt_plugins := appendNonMembers (bt_plugins t) (sorted_list_of_set extra)\<rparr>"

section \<open>BuildForest\<close>

record forest =
  bf_root_path :: string
  bf_has_externals :: bool
  bf_items :: "(string, build_item) omap"
  bf_trees :: "(string, build_tree) omap"
  bf_backing_areas :: "string list"
  bf_deleted_trees :: "string set"
  bf_deleted_items :: "string set"
  bf_tree_access_table :: "(string, string set) omap"
  bf_sorted_tree_names :: "string list"
  bf_sorted_item_names :: "string list"
  bf_global_plugins :: "string set"

definition BuildForest :: "string \<Rightarrow> forest" where
  "BuildForest root_path =
     \<lparr>bf_root_path = root_path, bf_has_externals = False, bf_items = [], bf_trees = [],
      bf_backing_areas = [], bf_deleted_trees = {}, bf_deleted_items = {},
      bf_tree_access_table = [], bf_sorted_tree_names = [], bf_sorted_item_names = [],
      bf_global_plugins = {}\<rparr>"

definition propagateGlobals :: "forest \<Rightarrow> forest" where
  "propagateGlobals f = f\<lparr>bf_trees := map (\<lambda>(n, t). (n, addPlugins (bf_global_plugins f) t)) (bf_trees f)\<rparr>"

end
