(* ===== verification/Platform_Load.thy ===== *)
theory Platform_Load
  imports Platform_Data
begin

text \<open>
  How \<open>src/src/Abuild-init.cc\<close> uses platforms: \<open>loadPlatformData\<close> reads the platform types of a
  directory from the file \<open>platform-types\<close> and its platforms from the output of \<open>list_platforms\<close>,
  and the platform selectors given by the user are stored under their platform type.

  The contents of the files and what running the program gives are arguments.
\<close>

section \<open>Lines\<close>

text \<open>\<open>ignore_re\<close>, \<open>\s*(?:#.*)?\<close>.\<close>

definition ignored_line :: "string \<Rightarrow> bool" where
  "ignored_line s \<longleftrightarrow> (let rest = dropWhile isspace s in rest = [] \<or> hd rest = CHR ''#'')"

text \<open>\<open>platform_type_re\<close>: the type and its parent, empty if there is none.\<close>

definition platform_type_line :: "string \<Rightarrow> (string \<times> string) option" where
  "platform_type_line s =
     (case split (CHR '' '') s of
        [k, t] \<Rightarrow> if k = ''platform-type'' \<and> name_word t then Some (t, []) else None
      | [k, t, o', p] \<Rightarrow>
          if k = ''platform-type'' \<and> name_word t \<and> o' = ''-parent'' \<and> name_word p then Some (t, p) else None
      | _ \<Rightarrow> None)"

text \<open>\<open>platform_re\<close>: whether the priority is low, the platform and its type.\<close>

definition platform_line :: "string \<Rightarrow> (bool \<times> string \<times> string) option" where
  "platform_line s =
     (case split (CHR '' '') s of
        [k, p, o', t] \<Rightarrow>
          if k = ''platform'' \<and> dotted name_word 4 p \<and> o' = ''-type'' \<and> name_word t
          then Some (False, p, t) else None
      | [k, l, p, o', t] \<Rightarrow>
          if k = ''platform'' \<and> l = ''-lowpri'' \<and> dotted name_word 4 p \<and> o' = ''-type'' \<and> name_word t
          then Some (True, p, t) else None
      | _ \<Rightarrow> None)"

text \<open>\<open>native_compiler_re\<close>.\<close>

definition native_compiler_line :: "string \<Rightarrow> (bool \<times> string) option" where
  "native_compiler_line s =
     (case split (CHR '' '') s of
        [k, c] \<Rightarrow> if k = ''native-compiler'' \<and> dotted name_word 1 c then Some (False, c) else None
      | [k, l, c] \<Rightarrow>
          if k = ''native-compiler'' \<and> l = ''-lowpri'' \<and> dotted name_word 1 c then Some (True, c) else None
      | _ \<Rightarrow> None)"

section \<open>loadPlatformData\<close>

type_synonym load_state = "platform_data \<times> error"

text \<open>\<open>catch (QEXC::General& e)\<close> reports the message at the location; the object stays as it is.\<close>

definition catch_general ::
    "file_location \<Rightarrow> error \<Rightarrow> platform_data \<times> unit res \<Rightarrow> load_state \<times> unit res" where
  "catch_general location e r =
     (case r of
        (pd, Inl (Qexc_General msg)) \<Rightarrow> ((pd, report location msg e), Inr ())
      | (pd, Inl a) \<Rightarrow> ((pd, e), Inl a)
      | (pd, Inr u) \<Rightarrow> ((pd, e), Inr u))"

definition load_type_line :: "string \<Rightarrow> nat \<Rightarrow> string \<Rightarrow> load_state \<Rightarrow> load_state \<times> unit res" where
  "load_type_line filename lineno line = (\<lambda>(pd, e).
     (let location = FileLocation filename (int lineno) 0 in
      if ignored_line line then ((pd, e), Inr ())
      else case platform_type_line line of
        Some (t, parent) \<Rightarrow> catch_general location e (addPlatformType t tt_object_code parent pd)
      | None \<Rightarrow> ((pd, report location ''invalid platform type specification'' e), Inr ())))"

fun load_types :: "string \<Rightarrow> nat \<Rightarrow> string list \<Rightarrow> load_state \<Rightarrow> load_state \<times> unit res" where
  "load_types filename lineno [] s = (s, Inr ())"
| "load_types filename lineno (line # lines) s =
     and_then (load_type_line filename (lineno + 1) line s) (load_types filename (lineno + 1) lines)"

definition load_platform_line ::
    "string \<times> string \<times> string \<Rightarrow> file_location \<Rightarrow> string \<Rightarrow> load_state \<Rightarrow> load_state \<times> unit res" where
  "load_platform_line = (\<lambda>(os, cpu, toolset) location line (pd, e).
     (if ignored_line line then ((pd, e), Inr ())
      else case platform_line line of
        Some (lowpri, platform, t) \<Rightarrow> catch_general location e (addPlatform platform t lowpri pd)
      | None \<Rightarrow>
          (case native_compiler_line line of
             Some (lowpri, compiler) \<Rightarrow>
               (let platform = os @ ''.'' @ cpu @ ''.'' @ toolset @ ''.'' @ compiler
                in catch_general location e (addPlatform platform pt_NATIVE lowpri pd))
           | None \<Rightarrow>
               ((pd, report location ''invalid syntax in list_platforms output'' e), Inr ()))))"

fun load_platforms ::
    "string \<times> string \<times> string \<Rightarrow> file_location \<Rightarrow> string list \<Rightarrow> load_state \<Rightarrow> load_state \<times> unit res" where
  "load_platforms native location [] s = (s, Inr ())"
| "load_platforms native location (line # lines) s =
     and_then (load_platform_line native location line s) (load_platforms native location lines)"

text \<open>
  The files are None if they do not exist. \<open>list_platforms\<close> is its text and what \<open>getProgramOutput\<close>
  returns or throws.
\<close>

definition load_list_platforms ::
    "string \<times> string \<times> string \<Rightarrow> string \<Rightarrow> (string \<times> string res) option \<Rightarrow> load_state \<Rightarrow> load_state \<times> unit res" where
  "load_list_platforms native filename program = (\<lambda>(pd, e).
     (case program of
        None \<Rightarrow> ((pd, e), Inr ())
      | Some (script, output) \<Rightarrow>
          (let location = FileLocation filename 0 0 in
           case output of
             Inr text \<Rightarrow> load_platforms native location (readLinesFromFile text True) (pd, e)
           | Inl a \<Rightarrow>
               (case a of
                  Qexc_General msg \<Rightarrow>
                    (let lines = readLinesFromFile script False
                     in ((pd, if lines \<noteq> [] \<and> carriage_return \<in> set (hd lines)
                              then report location (''Windows-style line endings found;'' @
                                     '' please ensure this file uses UNIX line endings'') e
                              else e), Inl a))
                | _ \<Rightarrow> ((pd, e), Inl a)))))"

definition loadPlatformData ::
    "string \<Rightarrow> string \<times> string \<times> string \<Rightarrow> string \<Rightarrow> string option \<Rightarrow> (string \<times> string res) option \<Rightarrow>
     (string, platform_selector) omap \<Rightarrow> (string, string) omap \<Rightarrow> load_state \<Rightarrow>
     (platform_data \<times> (string, string) omap \<times> error) res" where
  "loadPlatformData whoami native dir types_file program selectors unused s =
     (case and_then
             (case types_file of
                None \<Rightarrow> (s, Inr ())
              | Some text \<Rightarrow> load_types (dir @ ''/platform-types'') 0 (readLinesFromFile text True) s)
             (load_list_platforms native (dir @ ''/list_platforms'') program)
      of (_, Inl a) \<Rightarrow> Inl a
       | ((pd, e), Inr _) \<Rightarrow>
          (case check_platforms selectors unused pd of
             Inr (pd, unused) \<Rightarrow> Inr (pd, unused, e)
           | Inl (Qexc_General msg) \<Rightarrow>
               Inl (Qexc_General (whoami @ '': ERROR: errors detected loading platforms:'' @ [newline] @ msg))
           | Inl a \<Rightarrow> Inl a))"

section \<open>Platform selectors of the user\<close>

definition store_selector ::
    "string \<Rightarrow> ((string, platform_selector) omap \<times> (string, string) omap) \<times> error \<Rightarrow>
     (((string, platform_selector) omap \<times> (string, string) omap) \<times> error) res" where
  "store_selector str = (\<lambda>((selectors, unused), e).
     bind_res (initialize str new_selector) (\<lambda>(p, okay).
       if okay
       then (let t = getPlatformType p in Inr ((om_put t p selectors, om_put t str unused), e))
       else Inr ((selectors, unused), report no_location (''invalid platform selector '' @ str) e)))"

fun store_selectors ::
    "string list \<Rightarrow> ((string, platform_selector) omap \<times> (string, string) omap) \<times> error \<Rightarrow>
     (((string, platform_selector) omap \<times> (string, string) omap) \<times> error) res" where
  "store_selectors [] s = Inr s"
| "store_selectors (str # strs) s = bind_res (store_selector str s) (store_selectors strs)"

end
