(* ===== verification/Forest_Check.thy ===== *)
theory Forest_Check
  imports Build_Item Platform_Load
begin

text \<open>
  The validation of a forest, first part (\<open>src/src/Abuild-traverse.cc\<close>): the checks that look at one
  forest only. The record \<open>validation\<close> holds what they change: the forest, the error object, the
  items known as plugins and the platform selectors that are unused so far. The record
  \<open>abuild_env\<close> holds what they only read. A null pointer that would be dereferenced is \<open>Undefined\<close>.
\<close>

section \<open>State\<close>

record abuild_env =
  ae_whoami :: string
  ae_allow_1_0 :: bool
  ae_native :: "string \<times> string \<times> string"
  ae_platform_files :: "string \<Rightarrow> string option \<times> (string \<times> string res) option"
  ae_selectors :: "(string, platform_selector) omap"

record validation =
  va_forest :: forest
  va_error :: error
  va_plugins :: "string set"
  va_unused :: "(string, string) omap"

type_synonym item_table = "(string, build_item) omap"
type_synonym tree_table = "(string, build_tree) omap"

definition the_ptr :: "('k, 'v) omap \<Rightarrow> 'k \<Rightarrow> 'v res" where
  "the_ptr m k = (case om_get m k of None \<Rightarrow> Inl (Undefined ''null pointer'') | Some v \<Rightarrow> Inr v)"

text \<open>A loop over a map that changes the value it is at and a state.\<close>

fun map_loop :: "('k \<Rightarrow> 'v \<Rightarrow> 's \<Rightarrow> ('v \<times> 's) res) \<Rightarrow> ('k, 'v) omap \<Rightarrow> 's \<Rightarrow> (('k, 'v) omap \<times> 's) res" where
  "map_loop f [] s = Inr ([], s)"
| "map_loop f ((k, v) # m) s =
     bind_res (f k v s) (\<lambda>(v, s). bind_res (map_loop f m s) (\<lambda>(m, s). Inr ((k, v) # m, s)))"

section \<open>Errors of a dependency graph\<close>

text \<open>
  \<open>checkTreeDependencies\<close> and \<open>checkItemDependencies\<close> report the errors of their graph in the same
  way: the unknown dependencies at the location of the item, then every cycle, then the items of
  all cycles.
\<close>

definition report_unknowns ::
    "(string \<Rightarrow> file_location res) \<Rightarrow> (string \<Rightarrow> string \<Rightarrow> string) \<Rightarrow> item_map \<Rightarrow> error \<Rightarrow> error res" where
  "report_unknowns loc msg us =
     each (\<lambda>(node, items). each (\<lambda>u e. bind_res (loc node) (\<lambda>l. Inr (report l (msg node u) e))) items) us"

definition report_cycles :: "string \<Rightarrow> item list list \<Rightarrow> error \<Rightarrow> error res" where
  "report_cycles msg =
     each (\<lambda>c e. if c = [] then Inl (Undefined ''front() of an empty list'')
                 else Inr (report no_location (msg @ join '' -> '' c @ '' -> '' @ hd c) e))"

definition report_participants ::
    "(string \<Rightarrow> file_location res) \<Rightarrow> string \<Rightarrow> item list list \<Rightarrow> error \<Rightarrow> error res" where
  "report_participants loc msg cs =
     each (\<lambda>i e. bind_res (loc i) (\<lambda>l. Inr (report l (i @ msg) e)))
       (sorted_list_of_set (set (concat cs)))"

definition report_graph_errors ::
    "(string \<Rightarrow> file_location res) \<Rightarrow> (string \<Rightarrow> string \<Rightarrow> string) \<Rightarrow> string \<Rightarrow> string \<Rightarrow> dgraph \<Rightarrow> error \<Rightarrow> error res" where
  "report_graph_errors loc unknown_msg cycle_msg participant_msg g e =
     bind_res (getErrors g) (\<lambda>(us, cs).
     bind_res (report_unknowns loc unknown_msg us e) (\<lambda>e.
     bind_res (report_cycles cycle_msg cs e)
       (report_participants loc participant_msg cs)))"

section \<open>Tree dependencies\<close>

fun tree_deps_to_graph ::
    "string set \<Rightarrow> string \<Rightarrow> string list \<Rightarrow> build_tree \<times> dgraph \<Rightarrow> (build_tree \<times> dgraph) res" where
  "tree_deps_to_graph known name [] s = Inr s"
| "tree_deps_to_graph known name (dep # deps) (t, g) =
     (if dep \<in> bt_optional_tree_deps t \<and> dep \<notin> known
      then bind_res (removeTreeDep dep t) (\<lambda>t. tree_deps_to_graph known name deps (t, g))
      else bind_res (addDependency name dep g) (\<lambda>g. tree_deps_to_graph known name deps (t, g)))"

definition add_tree_node :: "string set \<Rightarrow> string \<Rightarrow> build_tree \<Rightarrow> dgraph \<Rightarrow> (build_tree \<times> dgraph) res" where
  "add_tree_node known name t g =
     bind_res (addItem name g) (\<lambda>g. tree_deps_to_graph known name (bt_tree_deps t) (t, g))"

definition expand_tree ::
    "dgraph \<Rightarrow> string \<Rightarrow> build_tree \<Rightarrow> (string, string set) omap \<Rightarrow> (build_tree \<times> (string, string set) omap) res" where
  "expand_tree g name t table =
     bind_res (getSortedDependencies g name) (\<lambda>sdeps.
     bind_res (setExpandedTreeDeps sdeps t) (\<lambda>t.
       Inr (t, if sdeps = [] then table
               else om_put name (om_get_default {} table name \<union> set sdeps) table)))"

definition tree_location :: "tree_table \<Rightarrow> string \<Rightarrow> file_location res" where
  "tree_location trees n = bind_res (the_ptr trees n) (\<lambda>t. Inr (bt_location t))"

definition item_location :: "item_table \<Rightarrow> string \<Rightarrow> file_location res" where
  "item_location items n = bind_res (the_ptr items n) (\<lambda>i. Inr (bi_location i))"

definition with_trees :: "tree_table \<Rightarrow> forest \<Rightarrow> forest" where
  "with_trees trees f = f\<lparr>bf_trees := trees\<rparr>"

definition with_items :: "item_table \<Rightarrow> forest \<Rightarrow> forest" where
  "with_items items f = f\<lparr>bf_items := items\<rparr>"

definition checkTreeDependencies :: "validation \<Rightarrow> validation res" where
  "checkTreeDependencies va =
     (let f = va_forest va in
      bind_res (map_loop (add_tree_node (set (om_keys (bf_trees f)))) (bf_trees f) new_graph) (\<lambda>(trees, g).
      bind_res (check g) (\<lambda>(g, check_okay).
      bind_res (map_loop (expand_tree g) trees (bf_tree_access_table f)) (\<lambda>(trees, table).
      bind_res (getSortedGraph g) (\<lambda>sorted.
      bind_res (if check_okay then Inr (va_error va)
                else report_graph_errors (tree_location trees)
                       (\<lambda>node unknown. ''tree '' @ node @ '' depends on unknown build tree '' @ unknown)
                       ''circular dependency detected among build trees: ''
                       '' participates in a circular tree dependency'' g (va_error va)) (\<lambda>e.
        Inr (va\<lparr>va_forest := f\<lparr>bf_trees := trees, bf_tree_access_table := table,
                              bf_sorted_tree_names := sorted\<rparr>,
                va_error := e\<rparr>)))))))"

section \<open>Item dependencies\<close>

fun item_deps_to_graph ::
    "string set \<Rightarrow> string \<Rightarrow> string list \<Rightarrow> build_item \<times> dgraph \<Rightarrow> (build_item \<times> dgraph) res" where
  "item_deps_to_graph known name [] s = Inr s"
| "item_deps_to_graph known name (dep # deps) (i, g) =
     bind_res (if dep \<in> ic_optional_deps (bi_config i)
               then setOptionalDependencyPresence dep (dep \<in> known) i else Inr i) (\<lambda>i'.
       if dep \<in> ic_optional_deps (bi_config i) \<and> dep \<notin> known
       then item_deps_to_graph known name deps (i', g)
       else bind_res (addDependency name dep g) (\<lambda>g. item_deps_to_graph known name deps (i', g)))"

definition add_item_node :: "string set \<Rightarrow> string \<Rightarrow> build_item \<Rightarrow> dgraph \<Rightarrow> (build_item \<times> dgraph) res" where
  "add_item_node known name i g =
     bind_res (addItem name g) (\<lambda>g. item_deps_to_graph known name (bi_deps i) (i, g))"

definition expand_item :: "dgraph \<Rightarrow> string \<Rightarrow> build_item \<Rightarrow> unit \<Rightarrow> (build_item \<times> unit) res" where
  "expand_item g name i u =
     bind_res (getSortedDependencies g name) (\<lambda>sdeps.
     bind_res (setExpandedDependencies sdeps i) (\<lambda>i. Inr (i, u)))"

definition checkItemDependencies :: "validation \<Rightarrow> validation res" where
  "checkItemDependencies va =
     (let f = va_forest va in
      bind_res (map_loop (add_item_node (set (om_keys (bf_items f)))) (bf_items f) new_graph) (\<lambda>(items, g).
      bind_res (check g) (\<lambda>(g, check_okay).
      bind_res (map_loop (expand_item g) items ()) (\<lambda>(items, u).
      bind_res (getSortedGraph g) (\<lambda>sorted.
      bind_res (if check_okay then Inr (va_error va)
                else report_graph_errors (item_location items)
                       (\<lambda>node unknown. node @ '' depends on unknown build item '' @ unknown)
                       ''circular dependency detected: ''
                       '' participates in a circular dependency'' g (va_error va)) (\<lambda>e.
        Inr (va\<lparr>va_forest := f\<lparr>bf_items := items, bf_sorted_item_names := sorted\<rparr>,
                va_error := e\<rparr>)))))))"

section \<open>Access to trees\<close>

definition access_error :: "build_item \<Rightarrow> string \<Rightarrow> build_item \<Rightarrow> string" where
  "access_error referrer action referent =
     ''build item \"'' @ bi_name referrer @ ''\" may not '' @ action @ '' build item \"'' @ bi_name referent @
     ''\" because \"'' @ bi_name referrer @ ''\"'s tree (\"'' @ bi_tree_name referrer @
     ''\") does not depend on \"'' @ bi_name referent @ ''\"'s tree (\"'' @ bi_tree_name referent @ ''\")''"

text \<open>Whether the reference is allowed; the error is the one after a report.\<close>

definition checkAllowedTreeItem ::
    "(string, string set) omap \<Rightarrow> build_item \<Rightarrow> build_item \<Rightarrow> string \<Rightarrow> error \<Rightarrow> (bool \<times> error) res" where
  "checkAllowedTreeItem table referrer referent action e =
     bind_res (the_ptr table (bi_tree_name referrer)) (\<lambda>allowed_trees.
       Inr (if bi_tree_name referent \<in> allowed_trees then (True, e)
            else (False, report (bi_location referrer) (access_error referrer action referent) e)))"

definition checkAllowedTreeTree ::
    "(string, string set) omap \<Rightarrow> build_item \<Rightarrow> string \<Rightarrow> string \<Rightarrow> error \<Rightarrow> (bool \<times> error) res" where
  "checkAllowedTreeTree table referrer referent_tree action e =
     bind_res (the_ptr table (bi_tree_name referrer)) (\<lambda>allowed_trees.
       Inr (if referent_tree \<in> allowed_trees then (True, e)
            else (False, report (bi_location referrer)
              (''build item \"'' @ bi_name referrer @ ''\" may not '' @ action @ '' build tree \"'' @
               referent_tree @ ''\" because \"'' @ bi_name referrer @ ''\"'s tree (\"'' @
               bi_tree_name referrer @ ''\") does not depend on it'') e)))"

definition only_error :: "(bool \<times> error) res \<Rightarrow> error res" where
  "only_error r = bind_res r (\<lambda>(okay, e). Inr e)"

definition check_dep_access ::
    "(string, string set) omap \<Rightarrow> item_table \<Rightarrow> build_item \<Rightarrow> string \<Rightarrow> error \<Rightarrow> error res" where
  "check_dep_access table items i dep e =
     (case om_get items dep of
        None \<Rightarrow> Inr e
      | Some d \<Rightarrow> only_error (checkAllowedTreeItem table i d ''depend on'' e))"

definition on_error :: "(forest \<Rightarrow> error \<Rightarrow> error res) \<Rightarrow> validation \<Rightarrow> validation res" where
  "on_error f va = bind_res (f (va_forest va) (va_error va)) (\<lambda>e. Inr (va\<lparr>va_error := e\<rparr>))"

definition checkDepTreeAccess :: "validation \<Rightarrow> validation res" where
  "checkDepTreeAccess = on_error (\<lambda>f.
     each (\<lambda>(name, i) e.
        if \<not> bi_isLocal i then Inr e
        else each (check_dep_access (bf_tree_access_table f) (bf_items f) i) (bi_expanded_dependencies i) e)
      (bf_items f))"

section \<open>Traits of trees\<close>

definition add_dep_traits :: "tree_table \<Rightarrow> build_tree \<Rightarrow> string \<Rightarrow> build_tree \<Rightarrow> build_tree" where
  "add_dep_traits trees t dep acc =
     (case om_get trees dep of None \<Rightarrow> acc | Some d \<Rightarrow> addTraits (bt_supported_traits d) acc)"

fun resolve_traits_loop :: "string list \<Rightarrow> tree_table \<Rightarrow> tree_table res" where
  "resolve_traits_loop [] trees = Inr trees"
| "resolve_traits_loop (name # names) trees =
     bind_res (the_ptr trees name) (\<lambda>t.
       resolve_traits_loop names
         (om_put name (fold (add_dep_traits trees t) (bt_expanded_tree_deps t) t) trees))"

definition resolveTraits :: "validation \<Rightarrow> validation res" where
  "resolveTraits va =
     bind_res (resolve_traits_loop (bf_sorted_tree_names (va_forest va)) (bf_trees (va_forest va)))
       (\<lambda>trees. Inr (va\<lparr>va_forest := with_trees trees (va_forest va)\<rparr>))"

section \<open>Names\<close>

text \<open>\<open>scope_re\<close>: the scope with its trailing dot, of a name that is not public.\<close>

definition scope_of :: "string \<Rightarrow> string option" where
  "scope_of name =
     (let components = split (CHR ''.'') name
      in if length components > 1 \<and> last components \<noteq> []
         then Some (join ''.'' (butlast components) @ ''.'') else None)"

definition scope_from_visibility :: "string \<Rightarrow> string \<Rightarrow> string res" where
  "scope_from_visibility visibility scope =
     (if visibility = ''*'' then Inr []
      else if visibility \<noteq> []
      then assert_res (last visibility = CHR ''*'') ''*(visibility.rbegin()) == '*' '' (Inr (butlast visibility))
      else Inr scope)"

definition accessibleFrom :: "item_table \<Rightarrow> string \<Rightarrow> string \<Rightarrow> bool res" where
  "accessibleFrom items accessor_name accessee_name =
     (case scope_of accessee_name of
        None \<Rightarrow> Inr True
      | Some scope \<Rightarrow>
          let visibility = (case om_get items accessee_name of
                              None \<Rightarrow> [] | Some i \<Rightarrow> ic_visible_to (bi_config i))
          in bind_res (scope_from_visibility visibility scope) (\<lambda>scope.
               Inr (take (length scope) accessor_name = scope \<or> scope = accessor_name @ ''.'')))"

definition check_dep_name :: "item_table \<Rightarrow> string \<Rightarrow> build_item \<Rightarrow> string \<Rightarrow> error \<Rightarrow> error res" where
  "check_dep_name items name i dep e =
     bind_res (accessibleFrom items name dep) (\<lambda>b.
       Inr (if b then e
            else report (bi_location i) (name @ '' may not depend on '' @ dep @
                   '' because it is private to another scope'') e))"

definition checkItemNames :: "validation \<Rightarrow> validation res" where
  "checkItemNames = on_error (\<lambda>f.
     each (\<lambda>(name, i). each (check_dep_name (bf_items f) name i) (bi_deps i)) (bf_items f))"

section \<open>build-also\<close>

definition check_build_also ::
    "forest \<Rightarrow> string \<Rightarrow> build_item \<Rightarrow> build_also \<Rightarrow> error \<Rightarrow> error res" where
  "check_build_also f name i ba e =
     (let other = ba_name ba; table = bf_tree_access_table f in
      if isTree ba then
        (if \<not> om_has (bf_trees f) other
         then Inr (report (bi_location i) (name @ '' requests build of unknown build tree \"'' @ other @ ''\"'') e)
         else only_error (checkAllowedTreeTree table i other ''request build of'' e))
      else
        (case om_get (bf_items f) other of
           None \<Rightarrow> Inr (report (bi_location i) (name @ '' requests building of unknown build item \"'' @
                     other @ ''\"'') e)
         | Some o_item \<Rightarrow> only_error (checkAllowedTreeItem table i o_item ''request build of'' e)))"

definition forest_checkBuildAlso :: "validation \<Rightarrow> validation res" where
  "forest_checkBuildAlso = on_error (\<lambda>f.
     each (\<lambda>(name, i) e.
        if \<not> bi_isLocal i then Inr e else each (check_build_also f name i) (ic_build_also (bi_config i)) e)
      (bf_items f))"

section \<open>Flags and traits of items\<close>

definition check_flags_for :: "item_table \<Rightarrow> string \<Rightarrow> build_item \<Rightarrow> string \<Rightarrow> error \<Rightarrow> error res" where
  "check_flags_for items name i dep e =
     (case om_get items dep of
        None \<Rightarrow> Inr e
      | Some d \<Rightarrow>
          bind_res (getFlags (bi_flag_data i) dep) (\<lambda>flags.
            each (\<lambda>flag e. Inr (if supportsFlag (bi_config d) flag then e
                 else report (bi_location i) (name @ '' may not specify flag '' @ flag @ '' for dependency '' @
                        dep @ '' because '' @ dep @ '' does not support that flag'') e))
              (sorted_list_of_set flags) e))"

definition checkFlags :: "validation \<Rightarrow> validation res" where
  "checkFlags = on_error (\<lambda>f.
     each (\<lambda>(name, i). each (check_flags_for (bf_items f) name i)
                            (sorted_list_of_set (getNames (bi_flag_data i)))) (bf_items f))"

definition check_trait_referent ::
    "forest \<Rightarrow> string \<Rightarrow> build_item \<Rightarrow> string \<Rightarrow> string \<Rightarrow> error \<Rightarrow> error res" where
  "check_trait_referent f name i trait referent e =
     bind_res (accessibleFrom (bf_items f) name referent) (\<lambda>b.
       let e = (if b then e
                else report (bi_location i) (''trait '' @ trait @ '' refers to item '' @ referent @
                       '' which is private to another scope'') e)
       in case om_get (bf_items f) referent of
            None \<Rightarrow> Inr (report (bi_location i) (''trait '' @ trait @ '' refers to item '' @ referent @
                           '' which does not exist'') e)
          | Some r \<Rightarrow> only_error (checkAllowedTreeItem (bf_tree_access_table f) i r ''refer by trait to'' e))"

definition check_item_trait ::
    "forest \<Rightarrow> string set \<Rightarrow> string \<Rightarrow> build_item \<Rightarrow> string \<times> string set \<Rightarrow> error \<Rightarrow> error res" where
  "check_item_trait f supported name i = (\<lambda>(trait, items) e.
     each (check_trait_referent f name i trait) (sorted_list_of_set items)
       (if trait \<in> supported then e
        else report (bi_location i) (''trait '' @ trait @ '' is not supported in this item's build tree'') e))"

definition forest_checkTraits :: "validation \<Rightarrow> validation res" where
  "forest_checkTraits = on_error (\<lambda>f.
     each (\<lambda>(name, i) e.
        if \<not> bi_isLocal i then Inr e
        else bind_res (the_ptr (bf_trees f) (bi_tree_name i)) (\<lambda>t.
               each (check_item_trait f (bt_supported_traits t) name i) (bi_trait_data i) e))
      (bf_items f))"

end
