(* ===== verification/Forest_Platforms.thy ===== *)
theory Forest_Platforms
  imports Forest_Check
begin

text \<open>
  The validation of a forest, second part (\<open>src/src/Abuild-traverse.cc\<close>): plugins, platform types and
  the platforms on which the items can be built.
\<close>

section \<open>Platform types\<close>

text \<open>
  The platform data of a local tree is extended by the files of its plugins. What
  \<open>loadPlatformData\<close> finds in a directory is the field \<open>ae_platform_files\<close> of the environment.
\<close>

type_synonym load_context = "error \<times> (string, string) omap"

definition load_plugin ::
    "abuild_env \<Rightarrow> item_table \<Rightarrow> string \<Rightarrow> platform_data \<times> load_context \<Rightarrow> (platform_data \<times> load_context) res" where
  "load_plugin env items plugin_name = (\<lambda>(pd, e, unused).
     (case om_get items plugin_name of
        None \<Rightarrow> Inr (pd, e, unused)
      | Some plugin \<Rightarrow>
          (case ae_platform_files env (bi_path plugin) of (types_file, program) \<Rightarrow>
             bind_res (loadPlatformData (ae_whoami env) (ae_native env) (bi_path plugin) types_file program
                         (ae_selectors env) unused (pd, e)) (\<lambda>(pd, unused, e). Inr (pd, e, unused)))))"

definition load_tree_platforms ::
    "abuild_env \<Rightarrow> item_table \<Rightarrow> string \<Rightarrow> build_tree \<Rightarrow> load_context \<Rightarrow> (build_tree \<times> load_context) res" where
  "load_tree_platforms env items name t s =
     (if \<not> bt_isLocal t then Inr (t, s)
      else bind_res (each (load_plugin env items) (bt_plugins t) (bt_platform_data t, s)) (\<lambda>(pd, s).
             Inr (t\<lparr>bt_platform_data := pd\<rparr>, s)))"

text \<open>The target types of the valid platform types, and the reports for the others.\<close>

fun target_types_of ::
    "platform_data \<Rightarrow> file_location \<Rightarrow> string list \<Rightarrow> error \<Rightarrow> (target_type_e list \<times> error) res" where
  "target_types_of pd location [] e = Inr ([], e)"
| "target_types_of pd location (t # ts) e =
     bind_res (isPlatformTypeValid pd t) (\<lambda>valid.
       if valid
       then bind_res (getTargetType pd t) (\<lambda>tt.
            bind_res (target_types_of pd location ts e) (\<lambda>(tts, e). Inr (tt # tts, e)))
       else target_types_of pd location ts (report location (''unknown platform type \"'' @ t @ ''\"'') e))"

definition common_target_type :: "file_location \<Rightarrow> target_type_e list \<Rightarrow> error \<Rightarrow> target_type_e \<times> error" where
  "common_target_type location tts e =
     (case remdups tts of
        [tt] \<Rightarrow> (tt, e)
      | [] \<Rightarrow> (tt_all, e)
      | _ \<Rightarrow> (tt_all, report location ''platforms in different target types may not be mixed'' e))"

definition set_item_target ::
    "tree_table \<Rightarrow> string \<Rightarrow> build_item \<Rightarrow> error \<Rightarrow> (build_item \<times> error) res" where
  "set_item_target trees name i e =
     (if \<not> bi_isLocal i then Inr (i, e)
      else
        bind_res (the_ptr trees (bi_tree_name i)) (\<lambda>t.
        bind_res (target_types_of (bt_platform_data t) (bi_location i)
                    (sorted_list_of_set (bi_getPlatformTypes i)) e) (\<lambda>(tts, e).
          case common_target_type (bi_location i) tts e of (tt, e) \<Rightarrow>
            bind_res (bi_setTargetType tt i) (\<lambda>i. Inr (i, e)))))"

definition checkPlatformTypes :: "abuild_env \<Rightarrow> validation \<Rightarrow> validation res" where
  "checkPlatformTypes env va =
     (let f = va_forest va in
      bind_res (map_loop (load_tree_platforms env (bf_items f)) (bf_trees f) (va_error va, va_unused va))
        (\<lambda>(trees, e, unused).
      bind_res (map_loop (set_item_target trees) (bf_items f) e) (\<lambda>(items, e).
        Inr (va\<lparr>va_forest := with_items items (with_trees trees f), va_error := e, va_unused := unused\<rparr>))))"

section \<open>Plugins\<close>

definition plugin_faults :: "build_item \<Rightarrow> string \<Rightarrow> (string list) res" where
  "plugin_faults i name =
     bind_res (bi_getTargetType i) (\<lambda>tt.
       let msg = ''item \"'' @ name @ ''\" is declared as a plugin,'' in
       Inr ((if bi_deps i \<noteq> [] then [msg @ '' but it has dependencies''] else []) @
            (if ic_build_also (bi_config i) \<noteq> [] then [msg @ '' but it specifies other items to build''] else []) @
            (if tt \<noteq> tt_all then [msg @ '' but it has a build or non-plugin interface file''] else [])))"

definition global_plugin_note :: string where
  "global_plugin_note = ''NOTE: this item declares itself as a global plugin,'' @
     '' so some of the above error messages may be'' @
     '' repeated for every tree, including those'' @
     '' that do not explicitly declare the item'' @
     '' to be a plugin''"

definition report_plugin_faults ::
    "string set \<Rightarrow> build_tree \<Rightarrow> build_item \<Rightarrow> string \<Rightarrow> string list \<Rightarrow> error \<Rightarrow> error" where
  "report_plugin_faults globals t i name faults e =
     (let e = fold (report (bt_location t)) faults e in
      if faults = [] then e
      else let e = report (bi_location i) (''here is \"'' @ name @ ''\"'s '' @ FILE_CONF) e
        in if name \<in> globals then report (bi_location i) global_plugin_note e else e)"

text \<open>
  One plugin of a tree. The state has the names of all plugins, those accepted for this tree, and the
  error.
\<close>

definition check_plugin ::
    "string set \<Rightarrow> item_table \<Rightarrow> string set \<Rightarrow> build_tree \<Rightarrow> string \<Rightarrow>
     string set \<times> string set \<times> error \<Rightarrow> (string set \<times> string set \<times> error) res" where
  "check_plugin globals items allowed_trees t name = (\<lambda>(plugins, accepted, e).
     (case om_get items name of
        None \<Rightarrow> Inr (plugins, accepted,
                  report (bt_location t) (''plugin \"'' @ name @ ''\" does not exist'') e)
      | Some i \<Rightarrow>
          if name \<notin> globals \<and> bi_tree_name i \<notin> allowed_trees
          then Inr (plugins, accepted, report (bt_location t)
                 (''this tree may not declare item \"'' @ name @ ''\" as a plugin because because its'' @
                  '' tree does not depend on \"'' @ name @ ''\"'s tree (\"'' @ bi_tree_name i @ ''\")'') e)
          else bind_res (plugin_faults i name) (\<lambda>faults.
                 Inr (insert name plugins, insert name accepted,
                      report_plugin_faults globals t i name faults e))))"

type_synonym plugin_data = "(string, string set) omap"

definition check_tree_plugins ::
    "forest \<Rightarrow> string \<times> build_tree \<Rightarrow> plugin_data \<times> string set \<times> error \<Rightarrow>
     (plugin_data \<times> string set \<times> error) res" where
  "check_tree_plugins f = (\<lambda>(name, t) (pdata, plugins, e).
     if \<not> bt_isLocal t then Inr (om_put name (om_get_default {} pdata name) pdata, plugins, e)
     else
       bind_res (the_ptr (bf_tree_access_table f) name) (\<lambda>allowed_trees.
       bind_res (each (check_plugin (bf_global_plugins f) (bf_items f) allowed_trees t) (bt_plugins t)
                   (plugins, om_get_default {} pdata name, e)) (\<lambda>(plugins, accepted, e).
         Inr (om_put name accepted pdata, plugins, e))))"

definition check_plugin_dep ::
    "forest \<Rightarrow> string set \<Rightarrow> build_tree \<Rightarrow> build_item \<Rightarrow> string \<Rightarrow> error \<Rightarrow> error" where
  "check_plugin_dep f accepted t i dep e =
     (case om_get (bf_items f) dep of
        None \<Rightarrow> e
      | Some d \<Rightarrow>
          if dep \<in> accepted
          then
            let e = report (bi_location i) (''this item depends on \"'' @ dep @ ''\",'' @
                      '' which is declared as a plugin'') e
            in if dep \<in> bf_global_plugins f
               then report (bi_location d) ''the dependency is declared as a global plugin'' e
               else report (bt_location t) ''the dependency is declared as a plugin here'' e
          else e)"

definition set_item_plugins ::
    "forest \<Rightarrow> plugin_data \<Rightarrow> string \<Rightarrow> build_item \<Rightarrow> error \<Rightarrow> (build_item \<times> error) res" where
  "set_item_plugins f pdata name i e =
     (if \<not> bi_isLocal i then Inr (i, e)
      else
        bind_res (the_ptr (bf_trees f) (bi_tree_name i)) (\<lambda>t.
        bind_res (setPlugins (bt_plugins t) i) (\<lambda>i.
          Inr (i, fold (check_plugin_dep f (om_get_default {} pdata (bi_tree_name i)) t i) (bi_deps i) e))))"

definition check_global_plugins :: "abuild_env \<Rightarrow> forest \<Rightarrow> error \<Rightarrow> error" where
  "check_global_plugins env f e =
     (if ae_allow_1_0 env \<and> bf_global_plugins f \<noteq> {} \<and> bf_has_externals f
      then report no_location
        (''at least one build tree in the forest rooted at '' @ bf_root_path f @
         '' uses external-dirs, and '' @ '' global plugins are in use; global plugins may not'' @
         '' be used until all tree dependencies are converted to'' @ '' named tree dependencies'') e
      else e)"

definition forest_checkPlugins :: "abuild_env \<Rightarrow> validation \<Rightarrow> validation res" where
  "forest_checkPlugins env va =
     (let f = va_forest va in
      bind_res (each (check_tree_plugins f) (bf_trees f)
                  ([], va_plugins va, check_global_plugins env f (va_error va))) (\<lambda>(pdata, plugins, e).
      bind_res (map_loop (set_item_plugins f pdata) (bf_items f) e) (\<lambda>(items, e).
        Inr (va\<lparr>va_forest := with_items items f, va_plugins := plugins, va_error := e\<rparr>))))"

section \<open>Inherited platform types\<close>

text \<open>
  Whether all dependencies exist, have a target type other than \<open>all\<close> and the same platform types;
  the text of these types, if there is a dependency.
\<close>

fun same_platform_types :: "item_table \<Rightarrow> string list \<Rightarrow> string option \<Rightarrow> (bool \<times> string option) res" where
  "same_platform_types items [] first = Inr (True, first)"
| "same_platform_types items (dep # deps) first =
     (case om_get items dep of
        None \<Rightarrow> Inr (False, first)
      | Some d \<Rightarrow>
          bind_res (bi_getTargetType d) (\<lambda>tt.
            if tt = tt_all then Inr (False, first)
            else
              let types = join '' '' (sorted_list_of_set (bi_getPlatformTypes d)) in
              if first = None \<or> first = Some types then same_platform_types items deps (Some types)
              else Inr (False, first)))"

definition inherit_types :: "item_table \<Rightarrow> build_item \<Rightarrow> build_item res" where
  "inherit_types items i =
     bind_res (the_ptr items (hd (bi_deps i))) (\<lambda>first_dep.
     bind_res (bi_setPlatformTypes (bi_getPlatformTypes first_dep) i) (\<lambda>i.
     bind_res (bi_getTargetType first_dep) (\<lambda>tt. bi_setTargetType tt i)))"

definition update_item :: "item_table \<Rightarrow> build_item \<Rightarrow> build_item res" where
  "update_item items i =
     (if \<not> bi_isLocal i then Inr i
      else
        bind_res (bi_getTargetType i) (\<lambda>tt.
          if tt \<noteq> tt_all then Inr i
          else
            bind_res (same_platform_types items (bi_deps i) None) (\<lambda>(candidate, first).
              if first = None \<or> \<not> candidate then Inr i else inherit_types items i)))"

fun update_loop :: "string list \<Rightarrow> item_table \<Rightarrow> item_table res" where
  "update_loop [] items = Inr items"
| "update_loop (name # names) items =
     bind_res (the_ptr items name) (\<lambda>i.
     bind_res (update_item items i) (\<lambda>i. update_loop names (om_put name i items)))"

definition updatePlatformTypes :: "validation \<Rightarrow> validation res" where
  "updatePlatformTypes va =
     bind_res (update_loop (bf_sorted_item_names (va_forest va)) (bf_items (va_forest va))) (\<lambda>items.
       Inr (va\<lparr>va_forest := with_items items (va_forest va)\<rparr>))"

section \<open>Platform types of dependencies\<close>

text \<open>The second component of the state says whether a platform type was declared.\<close>

definition check_dep_type ::
    "item_table \<Rightarrow> build_item \<Rightarrow> string \<Rightarrow> error \<times> bool \<Rightarrow> (error \<times> bool) res" where
  "check_dep_type items i dep = (\<lambda>(e, any_types).
     (case om_get items dep of
        None \<Rightarrow> Inr (e, any_types)
      | Some d \<Rightarrow>
          (case getDepPlatformType (bi_config i) dep of (declared, ps) \<Rightarrow>
             if declared = [] then Inr (e, any_types)
             else
               let t = (case ps of Some p \<Rightarrow> getPlatformType p | None \<Rightarrow> declared) in
               assert_res (ps = None \<or> t \<noteq> ANY) ''dep_platform_type != PlatformSelector::ANY''
               (Inr (if t = pt_INDEP
                     then report (bi_location i) (''dependencies may not be declared'' @
                            '' with platform type \"'' @ t @ ''\"'') e
                     else if t \<notin> bi_getPlatformTypes d
                     then report (bi_location i) (''dependency \"'' @ dep @ ''\" declared'' @
                            '' with platform type \"'' @ t @ ''\" '' @ '', which dependency does not have'') e
                     else e, True)))))"

definition check_item_dep_types :: "item_table \<Rightarrow> build_item \<Rightarrow> error \<Rightarrow> error res" where
  "check_item_dep_types items i e =
     bind_res (each (check_dep_type items i) (bi_deps i) (e, False)) (\<lambda>(e, any_types).
       if \<not> any_types then Inr e
       else bind_res (bi_getTargetType i) (\<lambda>tt.
              Inr (if tt = tt_all
                   then report (bi_location i) (''this item has no platform types, so it may'' @
                          '' not declare platform types on its dependencies'') e
                   else e)))"

definition checkDependencyPlatformTypes :: "validation \<Rightarrow> validation res" where
  "checkDependencyPlatformTypes = on_error (\<lambda>f.
     each (\<lambda>(name, i). check_item_dep_types (bf_items f) i) (bf_items f))"

section \<open>Platforms to build on\<close>

definition add_type_platforms ::
    "platform_data \<Rightarrow> string \<Rightarrow> build_item \<times> string set \<Rightarrow> (build_item \<times> string set) res" where
  "add_type_platforms pd t = (\<lambda>(i, build).
     bind_res (isPlatformTypeValid pd t) (\<lambda>valid.
       if valid
       then bind_res (getPlatformsByType pd t) (\<lambda>platforms.
            bind_res (setBuildablePlatforms t (map fst platforms) i) (\<lambda>i.
              Inr (i, build \<union> set (map fst (filter snd platforms)))))
       else Inr (i, build)))"

definition compute_platforms ::
    "tree_table \<Rightarrow> string \<Rightarrow> build_item \<Rightarrow> unit \<Rightarrow> (build_item \<times> unit) res" where
  "compute_platforms trees name i u =
     (if \<not> bi_isLocal i then Inr (i, u)
      else
        bind_res (the_ptr trees (bi_tree_name i)) (\<lambda>t.
        bind_res (each (add_type_platforms (bt_platform_data t)) (sorted_list_of_set (bi_getPlatformTypes i))
                    (i\<lparr>bi_platform_data := Some (bt_platform_data t)\<rparr>, {})) (\<lambda>(i, build).
          Inr (setBuildPlatforms build i, u))))"

definition computeBuildablePlatforms :: "validation \<Rightarrow> validation res" where
  "computeBuildablePlatforms va =
     (let f = va_forest va in
      bind_res (map_loop (compute_platforms (bf_trees f)) (bf_items f) ()) (\<lambda>(items, u).
        Inr (va\<lparr>va_forest := with_items items f\<rparr>)))"

end
