(* ===== verification/Forest_Merge.thy ===== *)
theory Forest_Merge
  imports Forest_Platforms
begin

text \<open>
  What combines forests (\<open>src/src/Abuild-traverse.cc\<close>): the graph of the backing areas, the trees and
  items a forest takes from its backing areas, the integrity checks, the validation of one forest in
  the order of the code, and the validation of all forests from the backing areas up. The map
  \<open>forests\<close> has a pointer for every forest root; the state \<open>validation\<close> holds the forest that is being
  validated and is written back by \<open>store\<close>.
\<close>

type_synonym forest_table = "(string, forest) omap"

definition forest_fatal :: "abuild_env \<Rightarrow> string \<Rightarrow> 'a res" where
  "forest_fatal env msg = Inl (Qexc_General (ae_whoami env @ '': ERROR: '' @ msg))"

section \<open>The graph of the backing areas\<close>

definition reportDirectoryGraphErrors :: "dgraph \<Rightarrow> string \<Rightarrow> error \<Rightarrow> error res" where
  "reportDirectoryGraphErrors g description e =
     bind_res (getErrors g) (\<lambda>(us, cs).
       Inr (fold (\<lambda>c e. fold (\<lambda>d. report no_location (''  '' @ d)) c
                    (report no_location (''the following trees are involved in'' @
                       '' a cycle ('' @ description @ ''):'') e)) cs
             (fold (\<lambda>(dir, ds). fold (\<lambda>d. report no_location (''directory \"'' @ dir @
                       ''\" references unknown '' @ description @ '' \"'' @ d @ ''\"'')) ds) us e)))"

definition add_forest_node :: "string \<times> forest \<Rightarrow> dgraph \<Rightarrow> dgraph res" where
  "add_forest_node = (\<lambda>(path, f) g.
     bind_res (addItem path g) (each (addDependency path) (bf_backing_areas f)))"

definition computeBackingGraph :: "abuild_env \<Rightarrow> forest_table \<Rightarrow> error \<Rightarrow> dgraph res" where
  "computeBackingGraph env forests e =
     bind_res (each add_forest_node forests new_graph) (\<lambda>g.
     bind_res (check g) (\<lambda>(g, okay).
       if okay then Inr g
       else bind_res (reportDirectoryGraphErrors g ''backing area'' e) (\<lambda>e.
              forest_fatal env ''unable to continue after backing area error'')))"

section \<open>Trees and items of the backing areas\<close>

text \<open>The backing areas of the backing areas.\<close>

fun covered_areas :: "dgraph \<Rightarrow> string list \<Rightarrow> string set res" where
  "covered_areas g [] = Inr {}"
| "covered_areas g (area # areas) =
     bind_res (getSortedDependencies g area) (\<lambda>ds.
       if ds = [] then Inl (Undefined ''back() of an empty list'')
       else assert_res (last ds = area) ''deps.back() == *iter''
         (bind_res (covered_areas g areas) (\<lambda>covered. Inr (set (butlast ds) \<union> covered))))"

text \<open>The names that are to be deleted and have not been seen, the table, and the error object.\<close>

definition copy_tree ::
    "string set \<Rightarrow> string \<times> build_tree \<Rightarrow> tree_table \<times> string set \<times> error \<Rightarrow>
     (tree_table \<times> string set \<times> error) res" where
  "copy_tree trees_to_delete = (\<lambda>(name, t) (trees, not_deleted, e).
     if name \<in> trees_to_delete then Inr (trees, not_deleted - {name}, e)
     else
       (case om_get trees name of
          None \<Rightarrow> Inr (om_put name (bt_incrementBackingDepth t) trees, not_deleted, e)
        | Some other \<Rightarrow>
            if bt_isLocal other then Inr (trees, not_deleted, e)
            else assert_res (bt_location t \<noteq> bt_location other) ''! (loc == other_loc)''
              (Inr (trees, not_deleted,
                    report (bt_location other) ''here is another location for this tree''
                    (report (bt_location t) ''this tree appears in multiple backing areas'' e)))))"

definition copy_item ::
    "string set \<Rightarrow> string set \<Rightarrow> file_location \<Rightarrow> string \<times> build_item \<Rightarrow> item_table \<times> string set \<times> error \<Rightarrow>
     (item_table \<times> string set \<times> error) res" where
  "copy_item trees_to_delete items_to_delete location = (\<lambda>(name, i) (items, not_deleted, e).
     if bi_tree_name i \<in> trees_to_delete then Inr (items, not_deleted, e)
     else if name \<in> items_to_delete
     then Inr (items, not_deleted - {name},
            (case om_get items name of
               None \<Rightarrow> e
             | Some other \<Rightarrow>
                 report (bi_location other) (''here is the location of the item in'' @ '' this forest'')
                 (report location (''item \"'' @ name @ ''\" is marked for'' @
                    '' deletion, but it appears locally in this'' @ '' forest'') e)))
     else
       (case om_get items name of
          None \<Rightarrow> Inr (om_put name (incrementBackingDepth i) items, not_deleted, e)
        | Some other \<Rightarrow>
            if bi_isLocal other then Inr (items, not_deleted, e)
            else assert_res (bi_location i \<noteq> bi_location other) ''! (loc == other_loc)''
              (Inr (items, not_deleted,
                    report (bi_location other) ''here is another location for this item''
                    (report (bi_location i) ''this item appears in multiple backing areas'' e)))))"

record resolving =
  rs_trees :: tree_table
  rs_items :: item_table
  rs_trees_not_deleted :: "string set"
  rs_items_not_deleted :: "string set"
  rs_error :: error

definition copy_area ::
    "forest_table \<Rightarrow> string set \<Rightarrow> string set \<Rightarrow> file_location \<Rightarrow> string \<Rightarrow> resolving \<Rightarrow> resolving res" where
  "copy_area forests trees_to_delete items_to_delete location area rs =
     bind_res (the_ptr forests area) (\<lambda>b.
     bind_res (each (copy_tree trees_to_delete) (bf_trees b)
                 (rs_trees rs, rs_trees_not_deleted rs, rs_error rs)) (\<lambda>(trees, tnd, e).
     bind_res (each (copy_item trees_to_delete items_to_delete location) (bf_items b)
                 (rs_items rs, rs_items_not_deleted rs, e)) (\<lambda>(items, ind, e).
       Inr \<lparr>rs_trees = trees, rs_items = items, rs_trees_not_deleted = tnd,
            rs_items_not_deleted = ind, rs_error = e\<rparr>)))"

definition report_not_deleted :: "string \<Rightarrow> file_location \<Rightarrow> string set \<Rightarrow> error \<Rightarrow> error" where
  "report_not_deleted what location names =
     fold (\<lambda>n. report location (what @ '' \"'' @ n @ ''\" was marked for deletion'' @
                 '' but was not seen in a backing area'')) (sorted_list_of_set names)"

definition resolveFromBackingAreas ::
    "abuild_env \<Rightarrow> forest_table \<Rightarrow> string \<Rightarrow> validation \<Rightarrow> validation res" where
  "resolveFromBackingAreas env forests top_path va =
     (let f = va_forest va;
          location = FileLocation (top_path @ ''/'' @ FILE_BACKING) 0 0
      in
      bind_res (computeBackingGraph env forests (va_error va)) (\<lambda>g.
      bind_res (covered_areas g (bf_backing_areas f)) (\<lambda>covered.
      let areas = filter (\<lambda>a. a \<notin> covered) (bf_backing_areas f) in
      bind_res (each (copy_area forests (bf_deleted_trees f) (bf_deleted_items f) location) areas
                  \<lparr>rs_trees = bf_trees f, rs_items = bf_items f, rs_trees_not_deleted = bf_deleted_trees f,
                   rs_items_not_deleted = bf_deleted_items f, rs_error = va_error va\<rparr>) (\<lambda>rs.
        Inr (va\<lparr>va_forest := f\<lparr>bf_trees := rs_trees rs, bf_items := rs_items rs, bf_backing_areas := areas\<rparr>,
                va_error := report_not_deleted ''item'' location (rs_items_not_deleted rs)
                  (report_not_deleted ''tree'' location (rs_trees_not_deleted rs) (rs_error rs))\<rparr>)))))"

section \<open>Integrity\<close>

definition setShadowedReferences :: "string set \<Rightarrow> build_item \<Rightarrow> build_item" where
  "setShadowedReferences refs i = i\<lparr>bi_shadowed_references := refs\<rparr>"

text \<open>The reference has another path in the forest the item comes from.\<close>

definition is_shadowed :: "item_table \<Rightarrow> item_table \<Rightarrow> string \<Rightarrow> bool" where
  "is_shadowed items item_forest_items name =
     (case (om_get items name, om_get item_forest_items name) of
        (Some i, Some j) \<Rightarrow> bi_path i \<noteq> bi_path j
      | _ \<Rightarrow> False)"

definition shadow_item ::
    "forest_table \<Rightarrow> item_table \<Rightarrow> string \<Rightarrow> build_item \<Rightarrow> unit \<Rightarrow> (build_item \<times> unit) res" where
  "shadow_item forests items name i u =
     (if bi_isLocal i then Inr (i, u)
      else bind_res (the_ptr forests (bi_forest_root i)) (\<lambda>f.
             Inr (setShadowedReferences (Set.filter (is_shadowed items (bf_items f)) (getReferences i)) i, u)))"

definition checkIntegrity :: "forest_table \<Rightarrow> validation \<Rightarrow> validation res" where
  "checkIntegrity forests va =
     (let f = va_forest va in
      bind_res (map_loop (shadow_item forests (bf_items f)) (bf_items f) ()) (\<lambda>(items, u).
        Inr (va\<lparr>va_forest := with_items items f\<rparr>)))"

definition report_shadowed :: "item_table \<Rightarrow> string \<Rightarrow> build_item \<Rightarrow> string \<Rightarrow> error \<Rightarrow> error res" where
  "report_shadowed items name i ref_name e =
     bind_res (the_ptr items ref_name) (\<lambda>r.
       Inr (report (bi_location r) (''here is the location of \"'' @ ref_name @ ''\"'')
             (report (bi_location i)
                (if ref_name \<in> set (bi_plugins i)
                 then ''build item \"'' @ name @ ''\" in tree \"'' @ bi_tree_name i @ ''\" uses plugin \"'' @
                      ref_name @ ''\", which is shadowed''
                 else ''build item \"'' @ name @ ''\" depends on \"'' @ ref_name @ ''\", which is shadowed'')
                e)))"

definition reportIntegrityErrors :: "item_table \<Rightarrow> error \<Rightarrow> error res" where
  "reportIntegrityErrors items =
     each (\<lambda>(name, i). each (report_shadowed items name i) (sorted_list_of_set (bi_shadowed_references i)))
       (filter (\<lambda>(name, i). hasShadowedReferences i) items)"

section \<open>Validation of all forests\<close>

definition store :: "string \<Rightarrow> validation \<Rightarrow> forest_table \<Rightarrow> forest_table" where
  "store top_path va forests = om_put top_path (va_forest va) forests"

definition validation_steps ::
    "abuild_env \<Rightarrow> bool \<Rightarrow> forest_table \<Rightarrow> string \<Rightarrow> (validation \<Rightarrow> validation res) list" where
  "validation_steps env full_integrity forests top_path =
     [\<lambda>va. Inr (va\<lparr>va_forest := propagateGlobals (va_forest va)\<rparr>),
      \<lambda>va. resolveFromBackingAreas env (store top_path va forests) top_path va,
      checkTreeDependencies, resolveTraits, checkPlatformTypes env, forest_checkPlugins env,
      checkItemNames, checkItemDependencies, forest_checkBuildAlso, checkDepTreeAccess,
      updatePlatformTypes, checkDependencyPlatformTypes, checkFlags, forest_checkTraits,
      \<lambda>va. checkIntegrity (store top_path va forests) va,
      \<lambda>va. if full_integrity then on_error (\<lambda>f. reportIntegrityErrors (bf_items f)) va else Inr va,
      computeBuildablePlatforms]"

text \<open>\<open>run_steps\<close> is the sequence of statements.\<close>

fun run_steps :: "('s \<Rightarrow> 's res) list \<Rightarrow> 's \<Rightarrow> 's res" where
  "run_steps [] s = Inr s"
| "run_steps (f # fs) s = bind_res (f s) (run_steps fs)"

type_synonym forest_state = "forest_table \<times> error \<times> string set \<times> (string, string) omap"

definition validateForest :: "abuild_env \<Rightarrow> bool \<Rightarrow> string \<Rightarrow> forest_state \<Rightarrow> forest_state res" where
  "validateForest env full_integrity top_path = (\<lambda>(forests, e, plugins, unused).
     bind_res (the_ptr forests top_path) (\<lambda>f.
     bind_res (run_steps (validation_steps env full_integrity forests top_path)
                 \<lparr>va_forest = f, va_error = e, va_plugins = plugins, va_unused = unused\<rparr>) (\<lambda>va.
       Inr (store top_path va forests, va_error va, va_plugins va, va_unused va))))"

definition validate_forests :: "abuild_env \<Rightarrow> bool \<Rightarrow> forest_state \<Rightarrow> forest_state res" where
  "validate_forests env full_integrity s =
     bind_res (computeBackingGraph env (fst s) (fst (snd s))) (\<lambda>g.
     bind_res (getSortedGraph g) (\<lambda>all_forests. each (validateForest env full_integrity) all_forests s))"

definition computeValidTraits ::
    "forest_table \<Rightarrow> string list \<Rightarrow> string list \<Rightarrow> string set \<times> error \<Rightarrow> string set \<times> error" where
  "computeValidTraits forests only_with_traits related_by_traits = (\<lambda>(valid, e).
     let valid = valid \<union> (\<Union>(p, f) \<in> set forests. \<Union>(n, t) \<in> set (bf_trees f). bt_supported_traits t)
     in (valid, fold (\<lambda>t e. if t \<in> valid then e
                 else report no_location (''trait '' @ t @ '' is unknown'') e)
               (only_with_traits @ related_by_traits) e))"

section \<open>Prefixes\<close>

text \<open>
  A fixed number of digits, so that the texts sort as the numbers do. None stands for a call of
  \<open>digitsIn\<close> that does not return.
\<close>

fun number_prefixes :: "(int \<Rightarrow> string) \<Rightarrow> int \<Rightarrow> string list \<Rightarrow> (string, string) omap \<Rightarrow> (string, string) omap" where
  "number_prefixes show_number count [] prefixes = prefixes"
| "number_prefixes show_number count (n # ns) prefixes =
     number_prefixes show_number (count + 1) ns (om_put n (show_number (count + 1)) prefixes)"

definition computeTreePrefixes ::
    "string list \<Rightarrow> (string, string) omap \<Rightarrow> (string, string) omap option" where
  "computeTreePrefixes tree_names prefixes =
     map_option (\<lambda>ndigits. number_prefixes (\<lambda>n. intToString n ndigits) 0 tree_names prefixes)
       (digitsIn (of_nat (length tree_names)))"

definition computeItemPrefixes ::
    "dgraph \<Rightarrow> (string, string) omap \<Rightarrow> (string, string) omap option res" where
  "computeItemPrefixes build_graph prefixes =
     bind_res (getSortedGraph build_graph) (\<lambda>items.
       Inr (map_option (\<lambda>ndigits. number_prefixes (\<lambda>n. ''['' @ intToString n ndigits @ '']'') 0 items prefixes)
              (digitsIn (of_nat (length items)))))"

section \<open>Writable items\<close>

text \<open>
  \<open>isBuildItemWritable\<close> (\<open>src/src/Abuild-misc.cc\<close>). The loop over the parent directories ends because
  \<open>Util::dirname\<close> makes a path shorter until it is its own parent.
\<close>

function writable_loop :: "string set \<Rightarrow> string set \<Rightarrow> bool \<Rightarrow> string \<Rightarrow> bool" where
  "writable_loop ro_paths rw_paths default_writable path =
     (if path \<in> ro_paths then False
      else if path \<in> rw_paths then True
      else let next_path = dirname path in
        if path = next_path then default_writable
        else writable_loop ro_paths rw_paths default_writable next_path)"
  by pat_completeness auto
termination
proof (relation "measure (\<lambda>(ro, rw, d, p). if p = [] then 3
    else 2 * length p + (if p \<in> {''/'', ''.''} then 0 else 1))", goal_cases)
  case 1
  show ?case by simp
next
  case (2 ro rw d p next_path)
  have "dirname [] = ''.''" by (simp add: dirname_def find_last_separator_def)
  moreover have "dirname p \<noteq> []" by (auto simp: dirname_def split: option.split)
  ultimately show ?case using 2 dirname_shorter [of p] by (cases "p = []") auto
qed

declare writable_loop.simps [simp del]

definition isBuildItemWritable :: "string set \<Rightarrow> string set \<Rightarrow> bool \<Rightarrow> build_item \<Rightarrow> bool" where
  "isBuildItemWritable ro_paths rw_paths default_writable item =
     (if bi_backing_depth item > 0 then False
      else writable_loop ro_paths rw_paths default_writable (bi_path item))"

end
