(* ===== verification/Build_Set.thy ===== *)
theory Build_Set
  imports Forest_Merge
begin

text \<open>
  The construction of the build set (\<open>src/src/Abuild-buildset.cc\<close>): the items named by the options,
  and what has to be added to them. The record \<open>build_options\<close> holds the members of \<open>Abuild\<close> that are
  read; its field \<open>bo_matches\<close> is \<open>boost::regex_match\<close> for the pattern of the user. A map that would
  get a null pointer for an unknown name is \<open>Undefined\<close>.
\<close>

section \<open>Names and options\<close>

definition b_ALL :: string where "b_ALL = ''all''"
definition b_DEPTREES :: string where "b_DEPTREES = ''deptrees''"
definition b_DESCDEPTREES :: string where "b_DESCDEPTREES = ''descdeptrees''"
definition b_LOCAL :: string where "b_LOCAL = ''local''"
definition b_DESC :: string where "b_DESC = ''desc''"
definition b_DEPS :: string where "b_DEPS = ''deps''"
definition b_CURRENT :: string where "b_CURRENT = ''current''"
definition s_CLEAN :: string where "s_CLEAN = ''clean''"

record build_options =
  bo_whoami :: string
  bo_os :: os
  bo_this_name :: string
  bo_local_tree :: string
  bo_current_directory :: string
  bo_buildset_name :: string
  bo_cleanset_name :: string
  bo_named_items :: "string set"
  bo_pattern :: string
  bo_matches :: "string \<Rightarrow> string \<Rightarrow> bool"
  bo_only_with_traits :: "string list"
  bo_related_by_traits :: "string list"
  bo_apply_targets_to_deps :: bool
  bo_with_rdeps :: bool
  bo_repeat_expansion :: bool
  bo_special_target :: string

definition bo_fatal :: "build_options \<Rightarrow> string \<Rightarrow> 'a res" where
  "bo_fatal opts msg = Inl (Qexc_General (bo_whoami opts @ '': ERROR: '' @ msg))"

section \<open>Adding items by a condition\<close>

text \<open>The condition may change a state, as \<open>isNamed\<close> does. The flag says whether an item was added.\<close>

primrec populateBuildset ::
    "string list \<Rightarrow> (build_item \<Rightarrow> 's \<Rightarrow> (bool \<times> 's) res) \<Rightarrow> item_table \<Rightarrow> item_table \<Rightarrow> 's \<Rightarrow>
     (item_table \<times> 's \<times> bool) res" where
  "populateBuildset traits pred [] bs s = Inr (bs, s, False)"
| "populateBuildset traits pred (p # items) bs s =
     (if om_has bs (fst p) then populateBuildset traits pred items bs s
      else bind_res (pred (snd p) s) (\<lambda>(b, s).
             if b \<and> bi_isLocal (snd p) \<and> hasTraits (snd p) traits
             then bind_res (populateBuildset traits pred items (om_put (fst p) (snd p) bs) s)
                    (\<lambda>(bs, s, added). Inr (bs, s, True))
             else populateBuildset traits pred items bs s))"

definition only_if :: "(build_item \<Rightarrow> bool) \<Rightarrow> build_item \<Rightarrow> unit \<Rightarrow> (bool \<times> unit) res" where
  "only_if P i u = Inr (P i, u)"

definition only_if_res :: "(build_item \<Rightarrow> bool res) \<Rightarrow> build_item \<Rightarrow> unit \<Rightarrow> (bool \<times> unit) res" where
  "only_if_res P i u = bind_res (P i) (\<lambda>b. Inr (b, u))"

definition populate :: "build_options \<Rightarrow> (build_item \<Rightarrow> unit \<Rightarrow> (bool \<times> unit) res) \<Rightarrow> item_table \<Rightarrow> item_table \<Rightarrow>
    (item_table \<times> bool) res" where
  "populate opts pred items bs =
     bind_res (populateBuildset (bo_only_with_traits opts) pred items bs ()) (\<lambda>(bs, u, added). Inr (bs, added))"

definition matchesPattern :: "(string \<Rightarrow> string \<Rightarrow> bool) \<Rightarrow> string \<Rightarrow> build_item \<Rightarrow> bool" where
  "matchesPattern regex_match pattern i = regex_match (bi_item_name i) pattern"

section \<open>build-also\<close>

definition matches_build_also ::
    "os \<Rightarrow> tree_table \<Rightarrow> item_table \<Rightarrow> build_item \<Rightarrow> build_also \<Rightarrow> bool res" where
  "matches_build_also sys trees items i ba =
     (if isTree ba then
        bind_res (the_ptr trees (ba_name ba)) (\<lambda>t.
          if ba_with_tree_deps ba
          then (if ba_desc ba
                then isInTreesAndAtOrBelowPath sys i (bt_expanded_tree_deps_and_local t) (bt_root_path t)
                else Inr (isInTrees i (bt_expanded_tree_deps_and_local t)))
          else if ba_desc ba then isAtOrBelowPath sys i (bt_root_path t)
          else Inr (bi_isInTree i (ba_name ba)))
      else
        assert_res (\<not> ba_with_tree_deps ba) ''! with_tree_deps''
          (bind_res (the_ptr items (ba_name ba)) (\<lambda>b.
             if ba_desc ba then isAtOrBelowPath sys i (bi_path b)
             else Inr (bi_name i = ba_name ba))))"

fun itemIsInBuildAlso ::
    "os \<Rightarrow> tree_table \<Rightarrow> item_table \<Rightarrow> build_also list \<Rightarrow> build_item \<Rightarrow> bool res" where
  "itemIsInBuildAlso sys trees items [] i = Inr False"
| "itemIsInBuildAlso sys trees items (ba # bas) i =
     bind_res (matches_build_also sys trees items i ba) (\<lambda>b.
       if b then Inr True else itemIsInBuildAlso sys trees items bas i)"

definition all_build_also :: "item_table \<Rightarrow> build_also list" where
  "all_build_also bs =
     sorted_list_of_set (set (concat (map (\<lambda>(n, i). ic_build_also (bi_config i)) bs)))"

definition build_also_pass ::
    "build_options \<Rightarrow> tree_table \<Rightarrow> item_table \<Rightarrow> item_table \<Rightarrow> (item_table \<times> bool) res" where
  "build_also_pass opts trees items bs =
     populate opts (only_if_res (itemIsInBuildAlso (bo_os opts) trees items (all_build_also bs))) items bs"

text \<open>
  Every pass that adds an item leaves fewer items outside of the build set, so the loops end:
  \<open>unbuilt\<close> counts them, and \<open>extends\<close> is what a pass does to the build set.
\<close>

definition unbuilt :: "item_table \<Rightarrow> item_table \<Rightarrow> nat" where
  "unbuilt items bs = card (set (om_keys items) - set (om_keys bs))"

definition extends :: "item_table \<Rightarrow> item_table \<Rightarrow> item_table \<Rightarrow> bool \<Rightarrow> bool" where
  "extends items bs bs' added \<longleftrightarrow>
     (\<forall>n i. om_get bs n = Some i \<longrightarrow> om_get bs' n = Some i) \<and>
     (\<forall>n i. om_get bs' n = Some i \<longrightarrow> om_get bs n = Some i \<or> (n, i) \<in> set items) \<and>
     (added \<longleftrightarrow> set (om_keys bs) \<noteq> set (om_keys bs')) \<and> (added \<or> bs' = bs) \<and>
     (om_ok bs \<longrightarrow> om_ok bs')"

lemma extends_ok: "extends items bs bs' added \<Longrightarrow> om_ok bs \<Longrightarrow> om_ok bs'"
  by (simp add: extends_def)

lemma extends_same: "extends items bs bs' False \<Longrightarrow> bs' = bs"
  by (simp add: extends_def)

lemma extends_refl [simp]: "extends items bs bs False"
  by (simp add: extends_def)

lemma extends_keys: "extends items bs bs' added \<Longrightarrow> set (om_keys bs) \<subseteq> set (om_keys bs')"
  by (auto simp: extends_def set_om_keys)

lemma om_keys_mem: "(n, i) \<in> set m \<Longrightarrow> n \<in> set (om_keys m)"
  by (force simp: om_keys_def)

lemma extends_keys_le:
  assumes "extends items bs bs' added"
  shows "set (om_keys bs') \<subseteq> set (om_keys bs) \<union> set (om_keys items)"
proof
  fix n assume "n \<in> set (om_keys bs')"
  then obtain i where "om_get bs' n = Some i" by (auto simp: set_om_keys)
  then consider "om_get bs n = Some i" | "(n, i) \<in> set items"
    using assms unfolding extends_def by blast
  then show "n \<in> set (om_keys bs) \<union> set (om_keys items)"
    by cases (auto simp: set_om_keys dest: om_keys_mem)
qed

lemma extends_keeps: "extends items bs bs' added \<Longrightarrow> om_get bs n = Some i \<Longrightarrow> om_get bs' n = Some i"
  by (simp add: extends_def)

lemma extends_new:
  "extends items bs bs' added \<Longrightarrow> om_get bs' n = Some i \<Longrightarrow> om_get bs n = Some i \<or> (n, i) \<in> set items"
  by (simp add: extends_def)

lemma extends_trans:
  assumes "extends items a b x" and "extends items b c y"
  shows "extends items a c (x \<or> y)"
proof -
  have "set (om_keys a) \<subseteq> set (om_keys b)" "set (om_keys b) \<subseteq> set (om_keys c)"
    using assms by (auto dest: extends_keys)
  moreover have "x \<longleftrightarrow> set (om_keys a) \<noteq> set (om_keys b)" "y \<longleftrightarrow> set (om_keys b) \<noteq> set (om_keys c)"
    using assms by (simp_all add: extends_def)
  ultimately have flag: "(x \<or> y) \<longleftrightarrow> set (om_keys a) \<noteq> set (om_keys c)" by blast
  have keep: "om_get c n = Some i" if "om_get a n = Some i" for n i
    using that assms by (blast intro: extends_keeps)
  have new: "om_get a n = Some i \<or> (n, i) \<in> set items" if "om_get c n = Some i" for n i
    using extends_new [OF assms(2) that] extends_new [OF assms(1)] by blast
  have same: "(x \<or> y) \<or> c = a"
    using assms by (auto simp: extends_def)
  have ok: "om_ok a \<longrightarrow> om_ok c"
    using assms by (blast intro: extends_ok)
  show ?thesis
    unfolding extends_def using flag keep new same ok by simp
qed

lemma extends_put: "(n, i) \<in> set items \<Longrightarrow> \<not> om_has bs n \<Longrightarrow> extends items bs (om_put n i bs) True"
  by (auto simp: extends_def om_has_def set_om_keys)

lemma extends_unbuilt:
  assumes "extends items bs bs' True"
  shows "unbuilt items bs' < unbuilt items bs"
proof -
  have "set (om_keys bs) \<noteq> set (om_keys bs')" using assms by (simp add: extends_def)
  then have "set (om_keys items) - set (om_keys bs') \<subset> set (om_keys items) - set (om_keys bs)"
    using extends_keys [OF assms] extends_keys_le [OF assms] by blast
  then show ?thesis unfolding unbuilt_def by (intro psubset_card_mono) simp_all
qed

lemma populateBuildset_extends:
  assumes "populateBuildset traits pred its bs s = Inr (bs', s', added)" and "set its \<subseteq> set items"
  shows "extends items bs bs' added"
  using assms
proof (induction its arbitrary: bs s added)
  case Nil
  then show ?case by simp
next
  case (Cons p its)
  obtain n i where p: "p = (n, i)" by force
  show ?case
  proof (cases "om_has bs n")
    case True
    then show ?thesis using Cons p by simp
  next
    case False
    then obtain b s2 where b: "pred i s = Inr (b, s2)"
      using Cons.prems(1) p by (auto simp: res_simps)
    show ?thesis
    proof (cases "b \<and> bi_isLocal i \<and> hasTraits i traits")
      case True
      then obtain added2 where
        *: "populateBuildset traits pred its (om_put n i bs) s2 = Inr (bs', s', added2)" "added"
        using Cons.prems(1) p b \<open>\<not> om_has bs n\<close> by (auto simp: res_simps)
      then have "extends items (om_put n i bs) bs' added2"
        using Cons.IH Cons.prems(2) by simp
      moreover have "extends items bs (om_put n i bs) True"
        using Cons.prems(2) p False by (intro extends_put) auto
      ultimately show ?thesis using extends_trans *(2) by fastforce
    next
      case False
      then show ?thesis using Cons p b \<open>\<not> om_has bs n\<close> by auto
    qed
  qed
qed

lemma populate_extends: "populate opts pred items bs = Inr (bs', added) \<Longrightarrow> extends items bs bs' added"
  unfolding populate_def bind_res_eq_Inr
  by (elim exE conjE) (simp add: populateBuildset_extends split: prod.splits)

lemma bind_res_cong [fundef_cong]:
  "m = m' \<Longrightarrow> (\<And>x. m' = Inr x \<Longrightarrow> f x = f' x) \<Longrightarrow> bind_res m f = bind_res m' f'"
  by (cases m') auto

function addBuildAlsoToBuildset ::
    "build_options \<Rightarrow> tree_table \<Rightarrow> item_table \<Rightarrow> item_table \<Rightarrow> (item_table \<times> bool) res" where
  "addBuildAlsoToBuildset opts trees items bs =
     bind_res (build_also_pass opts trees items bs) (\<lambda>(bs', adding).
       if adding
       then bind_res (addBuildAlsoToBuildset opts trees items bs') (\<lambda>(bs'', added). Inr (bs'', True))
       else Inr (bs', False))"
  by pat_completeness auto
termination
proof (relation "measure (\<lambda>(opts, trees, items, bs). unbuilt items bs)", goal_cases)
  case 1
  show ?case by simp
next
  case (2 opts trees items bs p bs' adding)
  then have "extends items bs bs' True"
    by (simp add: build_also_pass_def populate_extends)
  then show ?case by (simp add: extends_unbuilt)
qed

declare addBuildAlsoToBuildset.simps [simp del]

lemma addBuildAlso_extends:
  "addBuildAlsoToBuildset opts trees items bs = Inr (bs', added) \<Longrightarrow> extends items bs bs' added"
proof (induction opts trees items bs arbitrary: bs' added rule: addBuildAlsoToBuildset.induct)
  case (1 opts trees items bs)
  note eq = 1(2) [unfolded addBuildAlsoToBuildset.simps [of opts trees items bs]]
  obtain b1 adding where p: "build_also_pass opts trees items bs = Inr (b1, adding)"
    using eq by (cases "build_also_pass opts trees items bs") auto
  then have e: "extends items bs b1 adding"
    by (simp add: build_also_pass_def populate_extends)
  show ?case
  proof (cases adding)
    case True
    then obtain a where a: "addBuildAlsoToBuildset opts trees items b1 = Inr (bs', a)" "added"
      using eq p by (cases "addBuildAlsoToBuildset opts trees items b1") auto
    then have "extends items b1 bs' a" using 1(1) [OF p refl True] by simp
    then have "extends items bs bs' (adding \<or> a)" by (rule extends_trans [OF e])
    then show ?thesis using True a(2) by simp
  next
    case False
    then show ?thesis using eq p e by simp
  qed
qed

section \<open>Adding items by name\<close>

primrec add_missing :: "item_table \<Rightarrow> string list \<Rightarrow> item_table \<Rightarrow> (item_table \<times> bool) res" where
  "add_missing items [] bs = Inr (bs, False)"
| "add_missing items (n # ns) bs =
     (if om_has bs n then add_missing items ns bs
      else bind_res (the_ptr items n) (\<lambda>i.
             bind_res (add_missing items ns (om_put n i bs)) (\<lambda>(bs, added). Inr (bs, True))))"

lemma the_ptr_Inr: "the_ptr m k = Inr v \<longleftrightarrow> om_get m k = Some v"
  by (auto simp: the_ptr_def split: option.splits)

lemma add_missing_extends: "add_missing items ns bs = Inr (bs', added) \<Longrightarrow> extends items bs bs' added"
proof (induction ns arbitrary: bs added)
  case Nil
  then show ?case by simp
next
  case (Cons n ns)
  show ?case
  proof (cases "om_has bs n")
    case True
    then show ?thesis using Cons by simp
  next
    case False
    obtain i where i: "the_ptr items n = Inr i"
      using Cons.prems False by (cases "the_ptr items n") auto
    obtain a where a: "add_missing items ns (om_put n i bs) = Inr (bs', a)" "added"
      using Cons.prems False i by (cases "add_missing items ns (om_put n i bs)") auto
    have "extends items bs (om_put n i bs) True"
      using i False by (intro extends_put) (auto simp: the_ptr_Inr dest: map_of_SomeD)
    then have "extends items bs bs' (True \<or> a)"
      using Cons.IH [OF a(1)] by (rule extends_trans)
    then show ?thesis using a(2) by simp
  qed
qed

text \<open>The dependencies of all items.\<close>

definition expanded_deps :: "item_table \<Rightarrow> string set" where
  "expanded_deps bs = (\<Union>(n, i) \<in> set bs. set (bi_expanded_dependencies i))"

definition add_deps_pass :: "bool \<Rightarrow> item_table \<Rightarrow> item_table \<Rightarrow> (item_table \<times> bool) res" where
  "add_deps_pass add_dependencies items bs =
     (if add_dependencies then add_missing items (sorted_list_of_set (expanded_deps bs)) bs
      else Inr (bs, False))"

text \<open>The items that depend on an item of the build set.\<close>

definition reverse_items :: "item_table \<Rightarrow> item_table \<Rightarrow> string set" where
  "reverse_items items bs =
     set (map fst (filter (\<lambda>(n, i). list_ex (om_has bs) (bi_deps i)) items))"

definition rdeps_pass :: "item_table \<Rightarrow> item_table \<Rightarrow> (item_table \<times> bool) res" where
  "rdeps_pass items bs = add_missing items (sorted_list_of_set (reverse_items items bs)) bs"

function rdeps_loop :: "item_table \<Rightarrow> item_table \<Rightarrow> (item_table \<times> bool) res" where
  "rdeps_loop items bs =
     bind_res (rdeps_pass items bs) (\<lambda>(bs', adding_rdeps).
       if adding_rdeps then bind_res (rdeps_loop items bs') (\<lambda>(bs'', added). Inr (bs'', True))
       else Inr (bs', False))"
  by pat_completeness auto
termination
proof (relation "measure (\<lambda>(items, bs). unbuilt items bs)", goal_cases)
  case 1
  show ?case by simp
next
  case (2 items bs p bs' adding)
  then have "extends items bs bs' True"
    by (simp add: rdeps_pass_def add_missing_extends)
  then show ?case by (simp add: extends_unbuilt)
qed

declare rdeps_loop.simps [simp del]

lemma rdeps_loop_extends: "rdeps_loop items bs = Inr (bs', added) \<Longrightarrow> extends items bs bs' added"
proof (induction items bs arbitrary: bs' added rule: rdeps_loop.induct)
  case (1 items bs)
  note eq = 1(2) [unfolded rdeps_loop.simps [of items bs]]
  obtain b1 adding where p: "rdeps_pass items bs = Inr (b1, adding)"
    using eq by (cases "rdeps_pass items bs") auto
  then have e: "extends items bs b1 adding"
    by (simp add: rdeps_pass_def add_missing_extends)
  show ?case
  proof (cases adding)
    case True
    then obtain a where a: "rdeps_loop items b1 = Inr (bs', a)" "added"
      using eq p by (cases "rdeps_loop items b1") auto
    then have "extends items b1 bs' a" using 1(1) [OF p refl True] by simp
    then have "extends items bs bs' (adding \<or> a)" by (rule extends_trans [OF e])
    then show ?thesis using True a(2) by simp
  next
    case False
    then show ?thesis using eq p e by simp
  qed
qed

text \<open>The items that refer, by every one of the traits, to an item of the build set.\<close>

definition refers_by_trait :: "item_table \<Rightarrow> build_item \<Rightarrow> string \<Rightarrow> bool" where
  "refers_by_trait bs i t =
     (case om_get (bi_trait_data i) t of
        None \<Rightarrow> False
      | Some referents \<Rightarrow> list_ex (om_has bs) (sorted_list_of_set referents))"

definition related_items :: "string list \<Rightarrow> item_table \<Rightarrow> item_table \<Rightarrow> string set" where
  "related_items related_by_traits items bs =
     set (map fst (filter (\<lambda>(n, i). list_all (refers_by_trait bs i) related_by_traits) items))"

definition related_pass ::
    "build_options \<Rightarrow> item_table \<Rightarrow> item_table \<times> string set \<Rightarrow> ((item_table \<times> string set) \<times> bool) res" where
  "related_pass opts items = (\<lambda>(bs, targets).
     let to_add = related_items (bo_related_by_traits opts) items bs in
     if bo_related_by_traits opts = [] then Inr ((bs, targets), False)
     else bind_res (add_missing items (sorted_list_of_set to_add) bs) (\<lambda>(bs, added).
            Inr ((bs, if bo_apply_targets_to_deps opts then targets else targets \<union> to_add), added)))"

section \<open>Expansion\<close>

text \<open>One pass of the main loop: the dependencies, the build-also items, and unless this is a later pass
  without \<open>repeat_expansion\<close> the reverse dependencies and the items related by traits.\<close>

definition expand_pass ::
    "build_options \<Rightarrow> bool \<Rightarrow> tree_table \<Rightarrow> item_table \<Rightarrow> bool \<Rightarrow> item_table \<times> string set \<Rightarrow>
     ((item_table \<times> string set) \<times> bool) res" where
  "expand_pass opts add_dependencies trees items first_pass = (\<lambda>(bs, targets).
     bind_res (add_deps_pass add_dependencies items bs) (\<lambda>(bs, a1).
     bind_res (addBuildAlsoToBuildset opts trees items bs) (\<lambda>(bs, a2).
       if \<not> (bo_repeat_expansion opts \<or> first_pass) then Inr ((bs, targets), a1 \<or> a2)
       else
         bind_res (if bo_with_rdeps opts then rdeps_loop items bs else Inr (bs, False)) (\<lambda>(bs, a3).
         bind_res (related_pass opts items (bs, targets)) (\<lambda>(r, a4).
           Inr (r, (a1 \<or> a2) \<or> (a3 \<or> a4)))))))"

lemma bind_res_pair:
  assumes "bind_res m (\<lambda>(a, b). f a b) = Inr y"
  obtains a b where "m = Inr (a, b)" and "f a b = Inr y"
  using assms by (cases m) auto

lemma expand_pass_extends:
  assumes "expand_pass opts ad trees items first_pass (bs, targets) = Inr ((bs', targets'), expanding)"
  shows "extends items bs bs' expanding"
proof -
  note eq = assms [unfolded expand_pass_def split_conv]
  from eq obtain b1 a1 where 1: "add_deps_pass ad items bs = Inr (b1, a1)"
    by (rule bind_res_pair) blast
  note eq = eq [unfolded 1 bind_res_Inr split_conv]
  from eq obtain b2 a2 where 2: "addBuildAlsoToBuildset opts trees items b1 = Inr (b2, a2)"
    by (rule bind_res_pair) blast
  note eq = eq [unfolded 2 bind_res_Inr split_conv]
  have "extends items bs b1 a1"
    using 1 by (auto simp: add_deps_pass_def add_missing_extends split: if_splits)
  then have e: "extends items bs b2 (a1 \<or> a2)"
    using addBuildAlso_extends [OF 2] by (rule extends_trans)
  show ?thesis
  proof (cases "bo_repeat_expansion opts \<or> first_pass")
    case False
    then show ?thesis using eq e by simp
  next
    case True
    then have eq: "bind_res (if bo_with_rdeps opts then rdeps_loop items b2 else Inr (b2, False)) (\<lambda>(bs, a3).
         bind_res (related_pass opts items (bs, targets)) (\<lambda>(r, a4). Inr (r, (a1 \<or> a2) \<or> (a3 \<or> a4)))) =
         Inr ((bs', targets'), expanding)"
      using eq by simp
    from eq obtain b3 a3 where 3: "(if bo_with_rdeps opts then rdeps_loop items b2 else Inr (b2, False)) = Inr (b3, a3)"
      by (rule bind_res_pair) blast
    have e3: "extends items b2 b3 a3"
      using 3 by (auto simp: rdeps_loop_extends split: if_splits)
    from eq [unfolded 3 bind_res_Inr split_conv] obtain r a4 where 4: "related_pass opts items (b3, targets) = Inr (r, a4)"
      "Inr (r, (a1 \<or> a2) \<or> (a3 \<or> a4)) = (Inr ((bs', targets'), expanding) :: ((item_table \<times> string set) \<times> bool) res)"
      by (rule bind_res_pair) blast
    then have r: "r = (bs', targets')" "expanding = ((a1 \<or> a2) \<or> (a3 \<or> a4))" by simp_all
    have "extends items b3 bs' a4"
      using 4(1) r(1) by (cases "add_missing items (sorted_list_of_set (related_items (bo_related_by_traits opts) items b3)) b3")
        (auto simp: related_pass_def Let_def add_missing_extends split: if_splits)
    then show ?thesis unfolding r(2) by (rule extends_trans [OF e extends_trans [OF e3]])
  qed
qed

function expand_loop ::
    "build_options \<Rightarrow> bool \<Rightarrow> tree_table \<Rightarrow> item_table \<Rightarrow> bool \<Rightarrow> item_table \<Rightarrow> string set \<Rightarrow>
     (item_table \<times> string set) res" where
  "expand_loop opts add_dependencies trees items first_pass bs targets =
     bind_res (expand_pass opts add_dependencies trees items first_pass (bs, targets)) (\<lambda>(r, expanding).
       if expanding then expand_loop opts add_dependencies trees items False (fst r) (snd r) else Inr r)"
  by pat_completeness auto
termination
proof (relation "measure (\<lambda>(opts, ad, trees, items, fp, bs, ex). unbuilt items bs)", goal_cases)
  case 1
  show ?case by simp
next
  case (2 opts ad trees items fp bs ex p r expanding)
  then have "expand_pass opts ad trees items fp (bs, ex) = Inr ((fst r, snd r), True)" by simp
  then have "extends items bs (fst r) True" by (rule expand_pass_extends)
  then show ?case by (cases r) (simp add: extends_unbuilt)
qed

declare expand_loop.simps [simp del]


section \<open>The build set\<close>

text \<open>Whether the set is being cleaned, what was selected, and the error object.\<close>

definition select_named :: "build_options \<Rightarrow> item_table \<Rightarrow> error \<Rightarrow> (item_table \<times> error) res" where
  "select_named opts items e =
     bind_res (populateBuildset (bo_only_with_traits opts) (\<lambda>i names. Inr (isNamed i names)) items [] (bo_named_items opts))
       (\<lambda>(bs, named_items, added).
         Inr (bs, if named_items = {} then e
                  else report no_location (''unable to add unknown build items to build set: '' @
                         join '', '' (sorted_list_of_set named_items)) e))"

definition select_trees :: "build_options \<Rightarrow> tree_table \<Rightarrow> item_table \<Rightarrow> (string set \<Rightarrow> build_item \<Rightarrow> bool res) \<Rightarrow> item_table res" where
  "select_trees opts trees items P =
     bind_res (the_ptr trees (bo_local_tree opts)) (\<lambda>t.
     bind_res (populate opts (only_if_res (P (bt_expanded_tree_deps_and_local t))) items []) (\<lambda>(bs, added). Inr bs))"

definition select_if :: "build_options \<Rightarrow> item_table \<Rightarrow> (build_item \<Rightarrow> bool res) \<Rightarrow> item_table res" where
  "select_if opts items P = bind_res (populate opts (only_if_res P) items []) (\<lambda>(bs, added). Inr bs)"

definition select_deps :: "item_table \<Rightarrow> build_item option \<Rightarrow> item_table res" where
  "select_deps items this =
     (case this of
        None \<Rightarrow> Inr []
      | Some i \<Rightarrow> bind_res (add_missing items (bi_expanded_dependencies i) []) (\<lambda>(bs, added). Inr bs))"

definition select_this :: "build_options \<Rightarrow> build_item option \<Rightarrow> item_table" where
  "select_this opts this = (case this of None \<Rightarrow> [] | Some i \<Rightarrow> [(bo_this_name opts, i)])"

definition select_set :: "build_options \<Rightarrow> tree_table \<Rightarrow> item_table \<Rightarrow> build_item option \<Rightarrow> string \<Rightarrow> item_table res" where
  "select_set opts trees items this set_name =
     (if set_name = b_ALL then select_if opts items (\<lambda>i. Inr (bi_isLocal i))
      else if set_name = b_DEPTREES then select_trees opts trees items (\<lambda>ts i. Inr (isInTrees i ts))
      else if set_name = b_DESCDEPTREES
      then select_trees opts trees items (\<lambda>ts i. isInTreesAndAtOrBelowPath (bo_os opts) i ts (bo_current_directory opts))
      else if set_name = b_LOCAL then select_if opts items (\<lambda>i. Inr (bi_isInTree i (bo_local_tree opts)))
      else if set_name = b_DESC then select_if opts items (\<lambda>i. isAtOrBelowPath (bo_os opts) i (bo_current_directory opts))
      else if set_name = b_DEPS then select_deps items this
      else if set_name = b_CURRENT then Inr (select_this opts this)
      else bo_fatal opts (''INTERNAL ERROR: unknown build/clean set '' @ set_name))"

definition bad_tree_set :: "build_options \<Rightarrow> string \<Rightarrow> bool" where
  "bad_tree_set opts set_name \<longleftrightarrow>
     bo_local_tree opts = [] \<and> (set_name = b_DEPTREES \<or> set_name = b_LOCAL \<or> set_name = b_DESCDEPTREES)"

definition select_items ::
    "build_options \<Rightarrow> tree_table \<Rightarrow> item_table \<Rightarrow> build_item option \<Rightarrow> string \<Rightarrow> error \<Rightarrow> (item_table \<times> error) res" where
  "select_items opts trees items this set_name e =
     (if bad_tree_set opts set_name
      then Inr ([], report no_location (''build set \"'' @ set_name @ ''\" is invalid when'' @
                      '' the current build item is not part of any tree'') e)
      else if bo_named_items opts \<noteq> {} then select_named opts items e
      else bind_res
        (if bo_pattern opts \<noteq> []
         then select_if opts items (\<lambda>i. Inr (matchesPattern (bo_matches opts) (bo_pattern opts) i))
         else select_set opts trees items this set_name) (\<lambda>bs. Inr (bs, e)))"

definition set_name_of :: "build_options \<Rightarrow> string" where
  "set_name_of opts = (if bo_buildset_name opts = [] then bo_cleanset_name opts else bo_buildset_name opts)"

definition initial_set ::
    "build_options \<Rightarrow> tree_table \<Rightarrow> item_table \<Rightarrow> build_item option \<Rightarrow> error \<Rightarrow> (item_table \<times> bool \<times> error) res" where
  "initial_set opts trees items this e =
     (if set_name_of opts \<noteq> []
      then bind_res (select_items opts trees items this (set_name_of opts) e) (\<lambda>(bs, e).
             Inr (bs, bo_cleanset_name opts \<noteq> [], e))
      else Inr (select_this opts this, this \<noteq> None \<and> bo_special_target opts = s_CLEAN, e))"

definition find_current :: "build_options \<Rightarrow> tree_table \<Rightarrow> item_table \<Rightarrow> build_item option res" where
  "find_current opts trees items =
     (if bo_local_tree opts \<noteq> [] \<and> \<not> om_has trees (bo_local_tree opts)
      then bo_fatal opts ''INTERNAL ERROR: the current build tree is not known''
      else if bo_this_name opts = [] then Inr None
      else case om_get items (bo_this_name opts) of
             None \<Rightarrow> bo_fatal opts ''INTERNAL ERROR: the current build item is not known''
           | Some i \<Rightarrow> Inr (Some i))"

text \<open>The plugins of all items are added without a check for the key: their entry is replaced.\<close>

definition all_plugins :: "item_table \<Rightarrow> string set" where
  "all_plugins bs = (\<Union>(n, i) \<in> set bs. set (bi_plugins i))"

primrec add_plugin_items :: "item_table \<Rightarrow> string list \<Rightarrow> item_table \<Rightarrow> item_table res" where
  "add_plugin_items items [] bs = Inr bs"
| "add_plugin_items items (n # ns) bs =
     bind_res (the_ptr items n) (\<lambda>i. add_plugin_items items ns (om_put n i bs))"

definition explicit_targets :: "build_options \<Rightarrow> item_table \<Rightarrow> string set" where
  "explicit_targets opts bs =
     (if \<not> bo_apply_targets_to_deps opts \<and> bo_related_by_traits opts = [] then set (om_keys bs) else {})"

definition add_dependencies :: "build_options \<Rightarrow> bool \<Rightarrow> bool" where
  "add_dependencies opts cleaning \<longleftrightarrow> \<not> cleaning \<or> bo_apply_targets_to_deps opts \<or> bo_with_rdeps opts"

text \<open>The build set, the items with explicit targets, and the error object.\<close>

definition computeBuildset ::
    "build_options \<Rightarrow> tree_table \<Rightarrow> item_table \<Rightarrow> error \<Rightarrow> (item_table \<times> string set \<times> error) res" where
  "computeBuildset opts trees items e =
     bind_res (find_current opts trees items) (\<lambda>this.
     bind_res (initial_set opts trees items this e) (\<lambda>(bs, cleaning, e).
     bind_res (addBuildAlsoToBuildset opts trees items bs) (\<lambda>(bs, added).
     bind_res (expand_loop opts (add_dependencies opts cleaning) trees items True bs (explicit_targets opts bs)) (\<lambda>(bs, targets).
     bind_res (if add_dependencies opts cleaning
               then add_plugin_items items (sorted_list_of_set (all_plugins bs)) bs else Inr bs) (\<lambda>bs.
       Inr (bs, if bo_apply_targets_to_deps opts then targets \<union> set (om_keys bs) else targets, e))))))"

text \<open>The order in which \<open>readConfigs\<close> hands the items to the build graph: dependent items first.\<close>

definition buildset_reverse_order :: "string list \<Rightarrow> item_table \<Rightarrow> string list" where
  "buildset_reverse_order sorted_items bs = filter (om_has bs) (rev sorted_items)"

end
