(* ===== verification/Build_Graph.thy ===== *)
theory Build_Graph
  imports Build_Set
begin

text \<open>
  The construction of the build graph (\<open>src/src/Abuild-build.cc\<close>): its nodes are pairs of an item and
  a platform, written as one string. The items of the build set are in the field \<open>gs_buildset\<close>,
  whose build platforms grow while the graph is built.
\<close>

section \<open>Nodes\<close>

definition node_name :: "string \<Rightarrow> string \<Rightarrow> string \<Rightarrow> string" where
  "node_name prefix name platform = prefix @ ''!'' @ name @ ''!'' @ platform"

definition createBuildGraphNode ::
    "item_table \<Rightarrow> (string, string) omap \<Rightarrow> string \<Rightarrow> string \<Rightarrow> string res" where
  "createBuildGraphNode buildset prefixes name platform =
     (case om_get buildset name of
        None \<Rightarrow> Inl (Assertion ''this->buildset.count(item_name)'')
      | Some i \<Rightarrow>
          (case om_get prefixes (bi_tree_name i) of
             None \<Rightarrow> Inl (Assertion ''this->buildgraph_tree_prefixes.count(item_tree)'')
           | Some prefix \<Rightarrow> Inr (node_name prefix name platform)))"

text \<open>\<open>builder_re\<close>: three parts without an exclamation mark, none of them empty.\<close>

definition parseBuildGraphNode :: "string \<Rightarrow> (string \<times> string) res" where
  "parseBuildGraphNode node =
     (case split (CHR ''!'') node of
        [prefix, name, platform] \<Rightarrow>
          if prefix \<noteq> [] \<and> name \<noteq> [] \<and> platform \<noteq> [] then Inr (name, platform)
          else Inl (Assertion ''boost::regex_match(node, match, builder_re)'')
      | _ \<Rightarrow> Inl (Assertion ''boost::regex_match(node, match, builder_re)''))"

section \<open>One dependency\<close>

record graph_env =
  ge_whoami :: string
  ge_prefixes :: "(string, string) omap"
  ge_selectors :: "(string, platform_selector) omap"
  ge_keep_going :: bool

record build_graph_state =
  gs_buildset :: item_table
  gs_graph :: dgraph
  gs_error :: error
  gs_forced_failures :: "string set"

definition gs_report :: "file_location \<Rightarrow> string \<Rightarrow> build_graph_state \<Rightarrow> build_graph_state" where
  "gs_report l msg st = st\<lparr>gs_error := report l msg (gs_error st)\<rparr>"

definition graph_node :: "graph_env \<Rightarrow> build_graph_state \<Rightarrow> string \<Rightarrow> string \<Rightarrow> string res" where
  "graph_node ge st = createBuildGraphNode (gs_buildset st) (ge_prefixes ge)"

text \<open>The platform a declared platform type asks for: None if there is none, and then it is an error.\<close>

definition override_platform ::
    "graph_env \<Rightarrow> string \<Rightarrow> build_item \<Rightarrow> string \<Rightarrow> build_item \<Rightarrow> build_graph_state \<Rightarrow> (string option \<times> build_graph_state) res" where
  "override_platform ge name i dep d st =
     (case getDepPlatformType (bi_config i) dep of (declared, ps) \<Rightarrow>
        if declared = [] then Inr (Some [], st)
        else bind_res (getBestPlatformForType d declared ps (ge_selectors ge)) (\<lambda>p.
               if p \<noteq> [] then Inr (Some p, st)
               else Inr (None, gs_report (bi_location d) (''here is the location of \"'' @ dep @ ''\"'')
                      (gs_report (bi_location i)
                        (''\"'' @ name @ ''\" wants dependency \"'' @ dep @ ''\" on platform type \"'' @ declared @
                         ''\", but the dependency has no platforms belonging to'' @ '' that type'') st))))"

definition unmatched_platform ::
    "graph_env \<Rightarrow> string \<Rightarrow> build_item \<Rightarrow> string \<Rightarrow> build_item \<Rightarrow> string \<Rightarrow> string \<Rightarrow> build_graph_state \<Rightarrow> build_graph_state" where
  "unmatched_platform ge name i dep d platform platform_item st =
     (let count_as_error = \<not> ge_keep_going ge;
          st = (if ge_keep_going ge then st\<lparr>gs_forced_failures := insert platform_item (gs_forced_failures st)\<rparr> else st)
      in st\<lparr>gs_error :=
           error_at (bi_location d) (''here is the location of \"'' @ dep @ ''\"'') NO_JOB count_as_error
           (error_at (bi_location i)
              (''\"'' @ name @ ''\" is being built on platform \"'' @ platform @
               ''\", but its dependency \"'' @ dep @ ''\" is not being built on a suitable platform'')
              NO_JOB count_as_error (gs_error st))\<rparr>)"

definition target_platform ::
    "graph_env \<Rightarrow> build_item \<Rightarrow> build_item \<Rightarrow> string \<Rightarrow> string \<Rightarrow> string res" where
  "target_platform ge i d override platform =
     (if override \<noteq> [] then Inr override
      else getBestPlatformForPlatform d i platform (ge_selectors ge))"

text \<open>As-needed platform selection.\<close>

definition select_as_needed :: "string \<Rightarrow> build_item \<Rightarrow> string \<Rightarrow> string \<Rightarrow> item_table \<Rightarrow> item_table" where
  "select_as_needed dep d platform dep_platform buildset =
     (if platform \<notin> bi_build_platforms d then om_put dep (addBuildPlatform dep_platform d) buildset
      else buildset)"

definition connect_platform ::
    "graph_env \<Rightarrow> string \<Rightarrow> build_item \<Rightarrow> string \<Rightarrow> string \<Rightarrow> string \<Rightarrow> build_graph_state \<Rightarrow> build_graph_state res" where
  "connect_platform ge name i dep override platform st =
     bind_res (graph_node ge st name platform) (\<lambda>platform_item.
     bind_res (the_ptr (gs_buildset st) dep) (\<lambda>d.
     bind_res (target_platform ge i d override platform) (\<lambda>dep_platform.
       if dep_platform \<noteq> []
       then
         let st = st\<lparr>gs_buildset := select_as_needed dep d platform dep_platform (gs_buildset st)\<rparr> in
         bind_res (graph_node ge st dep dep_platform) (\<lambda>dep_node.
         bind_res (addDependency platform_item dep_node (gs_graph st)) (\<lambda>g. Inr (st\<lparr>gs_graph := g\<rparr>)))
       else
         bind_res (bi_getTargetType i) (\<lambda>item_type.
           Inr (if item_type = tt_all then st
                else unmatched_platform ge name i dep d platform platform_item st)))))"

definition connect_dependency :: "graph_env \<Rightarrow> string \<Rightarrow> build_item \<Rightarrow> string \<Rightarrow> build_graph_state \<Rightarrow> build_graph_state res" where
  "connect_dependency ge name i dep st =
     bind_res (the_ptr (gs_buildset st) dep) (\<lambda>d.
     bind_res (override_platform ge name i dep d st) (\<lambda>(override, st).
       case override of
         None \<Rightarrow> Inr st
       | Some p \<Rightarrow>
           each (connect_platform ge name i dep p) (sorted_list_of_set (bi_build_platforms i)) st))"

section \<open>Items\<close>

definition add_platform_node :: "graph_env \<Rightarrow> string \<Rightarrow> string \<Rightarrow> build_graph_state \<Rightarrow> build_graph_state res" where
  "add_platform_node ge name platform st =
     bind_res (graph_node ge st name platform) (\<lambda>n.
     bind_res (addItem n (gs_graph st)) (\<lambda>g. Inr (st\<lparr>gs_graph := g\<rparr>)))"

text \<open>The target type is read first, as the code does.\<close>

definition addItemToBuildGraph :: "graph_env \<Rightarrow> string \<Rightarrow> build_item \<Rightarrow> build_graph_state \<Rightarrow> (bool \<times> build_graph_state) res" where
  "addItemToBuildGraph ge name i st =
     bind_res (bi_getTargetType i) (\<lambda>item_type.
       if bi_build_platforms i = {} then Inr (False, st)
       else
         bind_res (each (add_platform_node ge name) (sorted_list_of_set (bi_build_platforms i)) st) (\<lambda>st.
         bind_res (each (connect_dependency ge name i) (bi_deps i) st) (\<lambda>st. Inr (True, st))))"

record backends_needed =
  need_gmake :: bool
  need_java :: bool
  some_native_items_skipped :: bool

definition needs :: "bool \<Rightarrow> build_item \<Rightarrow> backends_needed \<Rightarrow> backends_needed" where
  "needs added i b =
     (if added then
        (case getBackend (bi_config i) of
           B_make \<Rightarrow> b\<lparr>need_gmake := True\<rparr>
         | B_ant \<Rightarrow> b\<lparr>need_java := True\<rparr>
         | B_groovy \<Rightarrow> b\<lparr>need_java := True\<rparr>
         | B_none \<Rightarrow> b)
      else if ''native'' \<in> bi_getPlatformTypes i then b\<lparr>some_native_items_skipped := True\<rparr> else b)"

definition graph_step ::
    "graph_env \<Rightarrow> string \<Rightarrow> backends_needed \<times> build_graph_state \<Rightarrow> (backends_needed \<times> build_graph_state) res" where
  "graph_step ge name = (\<lambda>(b, st).
     bind_res (the_ptr (gs_buildset st) name) (\<lambda>i.
     bind_res (addItemToBuildGraph ge name i st) (\<lambda>(added, st). Inr (needs added i b, st))))"

text \<open>
  The first part of \<open>buildBuildset\<close>: every item of the build set, dependent items first, then the
  check of the graph, which ends the program if there is an error.
\<close>

definition ge_fatal :: "graph_env \<Rightarrow> string \<Rightarrow> 'a res" where
  "ge_fatal ge msg = Inl (Qexc_General (ge_whoami ge @ '': ERROR: '' @ msg))"

definition finish_graph :: "graph_env \<Rightarrow> build_graph_state \<Rightarrow> build_graph_state res" where
  "finish_graph ge st =
     (if any_errors (error_shared (gs_error st)) then ge_fatal ge ''errors detected; exiting''
      else bind_res (check (gs_graph st)) (\<lambda>(g, okay).
        if okay then Inr (st\<lparr>gs_graph := g\<rparr>)
        else ge_fatal ge (''INTERNAL ERROR: graph traversal errors while sorting'' @
               '' final platform-aware dependency graph'')))"

definition construct_build_graph ::
    "graph_env \<Rightarrow> string list \<Rightarrow> build_graph_state \<Rightarrow> (backends_needed \<times> build_graph_state) res" where
  "construct_build_graph ge item_names st =
     bind_res (each (graph_step ge) item_names
                 (\<lparr>need_gmake = False, need_java = False, some_native_items_skipped = False\<rparr>, st)) (\<lambda>(b, st).
     bind_res (finish_graph ge st) (\<lambda>st. Inr (b, st)))"

end
