(* ===== verification/Dependency_Graph_Correct.thy ===== *)
theory Dependency_Graph_Correct
  imports Dependency_Graph
begin

text \<open>
  What \<open>DependencyGraph::check\<close> guarantees. The abstract view of a dependency map is the relation
  \<open>edge\<close>; the lemmas on \<open>traverseInternal\<close> are proved by one induction rule with the four cases of
  the C++ function (unknown item, visited item, cycle, descent).
\<close>

section \<open>The graph as a relation\<close>

abbreviation succs :: "item_map \<Rightarrow> item \<Rightarrow> item list" where
  "succs deps \<equiv> om_get_default [] deps"

definition edge :: "item_map \<Rightarrow> item \<Rightarrow> item \<Rightarrow> bool" where
  "edge deps x y \<longleftrightarrow> y \<in> set (succs deps x)"

definition closed_deps :: "item_map \<Rightarrow> bool" where
  "closed_deps deps \<longleftrightarrow> (\<forall>x y. edge deps x y \<longrightarrow> om_has deps y)"

definition acyclic_deps :: "item_map \<Rightarrow> bool" where
  "acyclic_deps deps \<longleftrightarrow> (\<forall>x. \<not> (edge deps)\<^sup>+\<^sup>+ x x)"

definition is_cycle :: "item_map \<Rightarrow> item list \<Rightarrow> bool" where
  "is_cycle deps c \<longleftrightarrow> c \<noteq> [] \<and> successively (edge deps) c \<and> edge deps (last c) (hd c)"

definition clean :: "tstate \<Rightarrow> bool" where
  "clean st \<longleftrightarrow> t_unknowns st = [] \<and> t_cycles st = []"

definition seen_ok :: "tstate \<Rightarrow> bool" where
  "seen_ok st \<longleftrightarrow> (unknowns_seen st \<noteq> {} \<longrightarrow> t_unknowns st \<noteq> [])
                \<and> (cycles_seen st \<noteq> {} \<longrightarrow> t_cycles st \<noteq> [])"

lemma edge_has: "edge deps x y \<Longrightarrow> om_has deps x"
  by (cases "om_get deps x") (simp_all add: edge_def om_get_default_def om_has_def)

lemma succs_Some: "om_get deps i = Some ns \<Longrightarrow> succs deps i = ns"
  by (simp add: om_get_default_def)

section \<open>Induction over the traversal\<close>

lemma traverse_induct [case_names unknown seen cycle descend]:
  assumes unknown: "\<And>visiting path i st. om_get deps i = None \<Longrightarrow>
      P visiting path i st (record_unknown path i st)"
    and seen: "\<And>visiting path i st. om_has deps i \<Longrightarrow> i \<in> visited st \<Longrightarrow> P visiting path i st st"
    and cycle: "\<And>visiting path i st. om_has deps i \<Longrightarrow> i \<notin> visited st \<Longrightarrow> i \<in> visiting \<Longrightarrow>
      P visiting path i st (record_cycle path i st)"
    and descend: "\<And>visiting path i st ns st'. om_get deps i = Some ns \<Longrightarrow> i \<notin> visited st \<Longrightarrow>
      i \<notin> visiting \<Longrightarrow>
      (\<And>n s. n \<in> set ns \<Longrightarrow>
         P (insert i visiting) (path @ [i]) n s
           (traverseInternal deps (insert i visiting) (path @ [i]) n s)) \<Longrightarrow>
      st' = fold (\<lambda>n s. traverseInternal deps (insert i visiting) (path @ [i]) n s) ns st \<Longrightarrow>
      P visiting path i st (st'\<lparr>visited := insert i (visited st'), result := result st' @ [i]\<rparr>)"
  shows "P visiting path i st (traverseInternal deps visiting path i st)"
proof (induction deps visiting path i st rule: traverseInternal.induct [where
    P = "\<lambda>d visiting path i st. d = deps \<longrightarrow> P visiting path i st (traverseInternal d visiting path i st)",
    THEN mp])
  case (1 d visiting path i st)
  show ?case
  proof
    assume d: "d = deps"
    show "P visiting path i st (traverseInternal d visiting path i st)"
    proof (cases "om_get deps i")
      case None
      then show ?thesis using unknown d by (subst traverseInternal.simps) simp
    next
      case (Some ns)
      then have has: "om_has deps i" by (simp add: om_has_def)
      consider "i \<in> visited st" | "i \<notin> visited st" "i \<in> visiting" | "i \<notin> visited st" "i \<notin> visiting"
        by blast
      then show ?thesis
      proof cases
        case 1
        then show ?thesis using seen has Some d by (subst traverseInternal.simps) simp
      next
        case 2
        then show ?thesis using cycle has Some d by (subst traverseInternal.simps) simp
      next
        case 3
        then have "P visiting path i st
          (let st' = fold (\<lambda>n s. traverseInternal deps (insert i visiting) (path @ [i]) n s) ns st
           in st'\<lparr>visited := insert i (visited st'), result := result st' @ [i]\<rparr>)"
          using descend [OF Some] "1.IH" Some d by (simp add: Let_def)
        with 3 show ?thesis using Some d by (subst traverseInternal.simps) simp
      qed
    qed
  qed
qed simp

section \<open>Growth of the result\<close>

definition grows :: "item_map \<Rightarrow> item \<Rightarrow> tstate \<Rightarrow> tstate \<Rightarrow> bool" where
  "grows deps i st st' \<longleftrightarrow> (\<exists>new. result st' = result st @ new \<and> visited st' = visited st \<union> set new
      \<and> (\<forall>x \<in> set new. om_has deps x \<and> (edge deps)\<^sup>*\<^sup>* i x))"

lemma record_unknown_frame [simp]:
  "result (record_unknown path i st) = result st" "visited (record_unknown path i st) = visited st"
  "t_cycles (record_unknown path i st) = t_cycles st"
  "cycles_seen (record_unknown path i st) = cycles_seen st"
  by (simp_all add: record_unknown_def Let_def)

lemma record_cycle_frame [simp]:
  "result (record_cycle path i st) = result st" "visited (record_cycle path i st) = visited st"
  "t_unknowns (record_cycle path i st) = t_unknowns st"
  "unknowns_seen (record_cycle path i st) = unknowns_seen st"
  by (simp_all add: record_cycle_def Let_def)

lemma grows_fold:
  assumes "\<And>n s. n \<in> set ns \<Longrightarrow> grows deps n s (f n s)" and "\<forall>n \<in> set ns. edge deps i n"
  shows "\<exists>new. result (fold f ns st) = result st @ new \<and> visited (fold f ns st) = visited st \<union> set new
     \<and> (\<forall>x \<in> set new. om_has deps x \<and> (edge deps)\<^sup>*\<^sup>* i x)"
  using assms
proof (induction ns arbitrary: st)
  case Nil
  then show ?case by simp
next
  case (Cons n ns)
  obtain new1 where 1: "result (f n st) = result st @ new1" "visited (f n st) = visited st \<union> set new1"
      "\<forall>x \<in> set new1. om_has deps x \<and> (edge deps)\<^sup>*\<^sup>* n x"
    using Cons.prems(1) [of n st] by (auto simp: grows_def)
  obtain new2 where 2: "result (fold f ns (f n st)) = result (f n st) @ new2"
      "visited (fold f ns (f n st)) = visited (f n st) \<union> set new2" 
      "\<forall>x \<in> set new2. om_has deps x \<and> (edge deps)\<^sup>*\<^sup>* i x"
    using Cons.IH [of "f n st"] Cons.prems by auto
  have "\<forall>x \<in> set new1. om_has deps x \<and> (edge deps)\<^sup>*\<^sup>* i x"
    using 1(3) Cons.prems(2) by (auto intro: converse_rtranclp_into_rtranclp)
  then show ?case using 1 2 by (intro exI [of _ "new1 @ new2"]) auto
qed

lemma traverse_grows: "grows deps i st (traverseInternal deps visiting path i st)"
proof (rule traverse_induct [where P = "\<lambda>_ _ i st st'. grows deps i st st'"])
  fix visiting path i st ns st'
  assume get: "om_get deps i = Some ns"
    and IH: "\<And>n s. n \<in> set ns \<Longrightarrow>
      grows deps n s (traverseInternal deps (insert i visiting) (path @ [i]) n s)"
    and st': "st' = fold (traverseInternal deps (insert i visiting) (path @ [i])) ns st"
  have "\<forall>n \<in> set ns. edge deps i n" using succs_Some [OF get] by (simp add: edge_def)
  then obtain new where "result st' = result st @ new" "visited st' = visited st \<union> set new"
      "\<forall>x \<in> set new. om_has deps x \<and> (edge deps)\<^sup>*\<^sup>* i x"
    using grows_fold [of ns deps _ i st, OF IH] st' by blast
  then show "grows deps i st (st'\<lparr>visited := insert i (visited st'), result := result st' @ [i]\<rparr>)"
    unfolding grows_def using get by (intro exI [of _ "new @ [i]"]) (auto simp: om_has_def)
qed (auto simp: grows_def)

lemma traverse_visited:
  "visited st = set (result st) \<Longrightarrow>
   visited (traverseInternal deps visiting path i st)
     = set (result (traverseInternal deps visiting path i st))"
  using traverse_grows [of deps i st visiting path] by (auto simp: grows_def)

definition fresh_from :: "item set \<Rightarrow> tstate \<Rightarrow> bool" where
  "fresh_from visiting st \<longleftrightarrow>
     visited st = set (result st) \<and> distinct (result st) \<and> visiting \<inter> visited st = {}"

lemma traverse_fresh:
  "fresh_from visiting st \<Longrightarrow> fresh_from visiting (traverseInternal deps visiting path i st)"
proof (rule traverse_induct [where P = "\<lambda>visiting _ i st st'. fresh_from visiting st \<longrightarrow> fresh_from visiting st'",
      THEN mp])
  fix visiting path i st ns st'
  assume "i \<notin> visited st" "i \<notin> visiting"
    and IH: "\<And>n s. n \<in> set ns \<Longrightarrow> fresh_from (insert i visiting) s \<longrightarrow>
      fresh_from (insert i visiting) (traverseInternal deps (insert i visiting) (path @ [i]) n s)"
    and st': "st' = fold (traverseInternal deps (insert i visiting) (path @ [i])) ns st"
  show "fresh_from visiting st \<longrightarrow>
    fresh_from visiting (st'\<lparr>visited := insert i (visited st'), result := result st' @ [i]\<rparr>)"
  proof
    assume "fresh_from visiting st"
    then have "fresh_from (insert i visiting) st" using \<open>i \<notin> visited st\<close> by (auto simp: fresh_from_def)
    then have "fresh_from (insert i visiting) st'"
      unfolding st' by (rule fold_invariant) (use IH in auto)
    then show "fresh_from visiting (st'\<lparr>visited := insert i (visited st'), result := result st' @ [i]\<rparr>)"
      using \<open>i \<notin> visiting\<close> by (auto simp: fresh_from_def)
  qed
qed (auto simp: fresh_from_def)

section \<open>Cycles\<close>

lemma rotate_to_split:
  "m \<notin> set ys \<Longrightarrow> rotate_to m (ys @ m # zs) = m # zs @ ys"
proof (induction ys arbitrary: zs)
  case Nil
  then show ?case by (simp add: rotate_to_def while_unfold)
next
  case (Cons y ys)
  have "rotate_to m ((y # ys) @ m # zs) = rotate_to m (ys @ m # (zs @ [y]))"
    using Cons.prems unfolding rotate_to_def by (subst while_unfold) auto
  also have "\<dots> = m # zs @ y # ys" using Cons by simp
  finally show ?case by simp
qed

lemma cycle_of_split: "i \<notin> set xs \<Longrightarrow> cycle_of (xs @ i # ys) i = i # ys"
  by (induction xs) (auto simp: cycle_of_def)

lemma is_cycle_rotate: "is_cycle deps (xs @ ys) \<Longrightarrow> is_cycle deps (ys @ xs)"
  by (cases "xs = []"; cases "ys = []") (auto simp: is_cycle_def successively_append_iff)

lemma foldl_min: "foldl (\<lambda>m x. if x < m then x else m) (a::'a::linorder) xs = Min (insert a (set xs))"
proof (induction xs arbitrary: a)
  case Nil
  then show ?case by simp
next
  case (Cons x xs)
  have "(if x < a then x else a) = min a x" by (auto simp: min_def)
  then show ?case using Cons
    by (cases "xs = []") (simp_all add: min.assoc insert_commute del: if_split)
qed

lemma min_item_Min: "c \<noteq> [] \<Longrightarrow> min_item c = Min (set c)"
  by (cases c) (auto simp: min_item_def foldl_min)

lemma canonical_cycle:
  assumes "is_cycle deps c"
  shows "is_cycle deps (rotate_to (min_item c) c) \<and> hd (rotate_to (min_item c) c) = Min (set c)
       \<and> set (rotate_to (min_item c) c) = set c"
proof -
  have ne: "c \<noteq> []" using assms by (simp add: is_cycle_def)
  then have "Min (set c) \<in> set c" by simp
  then obtain xs ys where c: "c = xs @ Min (set c) # ys" and m: "Min (set c) \<notin> set xs"
    using split_list_first by metis
  have "rotate_to (min_item c) c = rotate_to (Min (set c)) (xs @ Min (set c) # ys)"
    using min_item_Min [OF ne] c by simp
  also have "\<dots> = Min (set c) # ys @ xs" using m by (rule rotate_to_split)
  finally have rot: "rotate_to (min_item c) c = Min (set c) # ys @ xs" .
  have "is_cycle deps ((Min (set c) # ys) @ xs)"
    using is_cycle_rotate assms c by metis
  moreover have "set (Min (set c) # ys @ xs) = set c" using arg_cong [OF c, of set] by auto
  ultimately show ?thesis by (simp only: rot) simp
qed

section \<open>What is reported\<close>

definition path_to :: "item_map \<Rightarrow> item set \<Rightarrow> item list \<Rightarrow> item \<Rightarrow> bool" where
  "path_to deps visiting path i \<longleftrightarrow> visiting = set path \<and> successively (edge deps) (path @ [i])
     \<and> (path = [] \<longrightarrow> om_has deps i)"

lemma path_to_step:
  "path_to deps visiting path i \<Longrightarrow> om_get deps i = Some ns \<Longrightarrow> n \<in> set ns \<Longrightarrow>
   path_to deps (insert i visiting) (path @ [i]) n"
  using succs_Some [of deps i ns]
  by (auto simp: path_to_def successively_append_iff edge_def)

lemma path_to_edge: "path_to deps visiting path i \<Longrightarrow> path \<noteq> [] \<Longrightarrow> edge deps (last path) i"
  by (auto simp: path_to_def successively_append_iff)

lemma path_to_cycle:
  assumes "path_to deps visiting path i" and "i \<in> visiting"
  shows "is_cycle deps (cycle_of path i)"
proof -
  have "i \<in> set path" using assms by (simp add: path_to_def)
  then obtain xs ys where path: "path = xs @ i # ys" and i: "i \<notin> set xs"
    using split_list_first by metis
  have "edge deps (last path) i" using path_to_edge [OF assms(1)] path by simp
  moreover have "successively (edge deps) (xs @ (i # ys) @ [i])"
    using assms(1) path by (simp add: path_to_def)
  then have "successively (edge deps) (i # ys)"
    by (simp only: successively_append_iff)
  ultimately show ?thesis using cycle_of_split [OF i] path by (simp add: is_cycle_def)
qed

definition real_reports :: "item_map \<Rightarrow> tstate \<Rightarrow> bool" where
  "real_reports deps st \<longleftrightarrow>
     (\<forall>x. om_has (t_unknowns st) x \<longrightarrow> succs (t_unknowns st) x \<noteq> [])
   \<and> (\<forall>x. \<forall>u \<in> set (succs (t_unknowns st) x). edge deps x u \<and> \<not> om_has deps u)
   \<and> (\<forall>c \<in> set (t_cycles st). is_cycle deps c \<and> hd c = Min (set c))"

lemma traverse_reports:
  "path_to deps visiting path i \<Longrightarrow> real_reports deps st \<Longrightarrow>
   real_reports deps (traverseInternal deps visiting path i st)"
proof (rule traverse_induct [where P = "\<lambda>visiting path i st st'. path_to deps visiting path i \<longrightarrow>
      real_reports deps st \<longrightarrow> real_reports deps st'", THEN mp, THEN mp])
  fix visiting path i st
  assume none: "om_get deps i = None"
  show "path_to deps visiting path i \<longrightarrow> real_reports deps st \<longrightarrow>
      real_reports deps (record_unknown path i st)"
  proof (intro impI)
    assume path: "path_to deps visiting path i" and "real_reports deps st"
    moreover have "\<not> om_has deps i" using none by (simp add: om_has_def)
    moreover then have "edge deps (last path) i"
      using path path_to_edge [OF path] by (cases "path = []") (auto simp: path_to_def)
    ultimately show "real_reports deps (record_unknown path i st)"
      by (auto simp: real_reports_def record_unknown_def Let_def)
  qed
next
  fix visiting :: "item set" and path i st
  assume "i \<in> visiting"
  show "path_to deps visiting path i \<longrightarrow> real_reports deps st \<longrightarrow>
      real_reports deps (record_cycle path i st)"
  proof (intro impI)
    assume "path_to deps visiting path i" and "real_reports deps st"
    moreover have "is_cycle deps (cycle_of path i)"
      using calculation(1) \<open>i \<in> visiting\<close> by (rule path_to_cycle)
    ultimately show "real_reports deps (record_cycle path i st)"
      using canonical_cycle [of deps "cycle_of path i"]
      by (auto simp: real_reports_def record_cycle_def Let_def)
  qed
next
  fix visiting path i st ns st'
  assume get: "om_get deps i = Some ns"
    and IH: "\<And>n s. n \<in> set ns \<Longrightarrow> path_to deps (insert i visiting) (path @ [i]) n \<longrightarrow>
      real_reports deps s \<longrightarrow>
      real_reports deps (traverseInternal deps (insert i visiting) (path @ [i]) n s)"
    and st': "st' = fold (traverseInternal deps (insert i visiting) (path @ [i])) ns st"
  show "path_to deps visiting path i \<longrightarrow> real_reports deps st \<longrightarrow>
      real_reports deps (st'\<lparr>visited := insert i (visited st'), result := result st' @ [i]\<rparr>)"
  proof (intro impI)
    assume path: "path_to deps visiting path i" and start: "real_reports deps st"
    have "\<And>n s. n \<in> set ns \<Longrightarrow> real_reports deps s \<Longrightarrow>
        real_reports deps (traverseInternal deps (insert i visiting) (path @ [i]) n s)"
      using IH path_to_step [OF path get] by blast
    with start have "real_reports deps st'"
      unfolding st' by (rule fold_invariant)
    then show "real_reports deps (st'\<lparr>visited := insert i (visited st'), result := result st' @ [i]\<rparr>)"
      by (simp add: real_reports_def)
  qed
qed auto

section \<open>A traversal without errors sorts\<close>

definition sorts :: "item_map \<Rightarrow> item \<Rightarrow> tstate \<Rightarrow> tstate \<Rightarrow> bool" where
  "sorts deps i st st' \<longleftrightarrow> (seen_ok st \<longrightarrow> seen_ok st' \<and> (clean st' \<longrightarrow>
     clean st \<and> i \<in> visited st' \<and>
     (visited st = set (result st) \<and> deps_first (result st) (succs deps) \<longrightarrow>
      visited st' = set (result st') \<and> deps_first (result st') (succs deps))))"

lemma sorts_fold:
  assumes "\<And>n s. n \<in> set ns \<Longrightarrow> sorts deps n s (f n s)"
    and "\<And>n s. n \<in> set ns \<Longrightarrow> visited s \<subseteq> visited (f n s)"
    and "seen_ok st"
  shows "seen_ok (fold f ns st) \<and> visited st \<subseteq> visited (fold f ns st)
     \<and> (clean (fold f ns st) \<longrightarrow> clean st \<and> set ns \<subseteq> visited (fold f ns st)
          \<and> (visited st = set (result st) \<and> deps_first (result st) (succs deps) \<longrightarrow>
             visited (fold f ns st) = set (result (fold f ns st))
             \<and> deps_first (result (fold f ns st)) (succs deps)))"
  using assms
proof (induction ns arbitrary: st)
  case Nil
  then show ?case by simp
next
  case (Cons n ns)
  have head: "sorts deps n st (f n st)" "visited st \<subseteq> visited (f n st)"
    using Cons.prems by simp_all
  then have "seen_ok (f n st)" using Cons.prems(3) by (simp add: sorts_def)
  note tail = Cons.IH [OF _ _ this] Cons.prems(1,2)
  show ?case using head tail Cons.prems(3) unfolding sorts_def fold_simps comp_def
    by simp blast
qed

lemma traverse_sorts: "sorts deps i st (traverseInternal deps visiting path i st)"
proof (rule traverse_induct [where P = "\<lambda>_ _ i st st'. sorts deps i st st'"])
  fix visiting path i st ns st'
  assume get: "om_get deps i = Some ns"
    and IH: "\<And>n s. n \<in> set ns \<Longrightarrow>
      sorts deps n s (traverseInternal deps (insert i visiting) (path @ [i]) n s)"
    and st': "st' = fold (traverseInternal deps (insert i visiting) (path @ [i])) ns st"
  have mono: "visited s \<subseteq> visited (traverseInternal deps (insert i visiting) (path @ [i]) n s)" for n s
    using traverse_grows [of deps n s] by (auto simp: grows_def)
  show "sorts deps i st (st'\<lparr>visited := insert i (visited st'), result := result st' @ [i]\<rparr>)"
    unfolding sorts_def
  proof (rule impI)
    assume "seen_ok st"
    note f = sorts_fold [of ns deps "traverseInternal deps (insert i visiting) (path @ [i])" st,
        OF IH mono this, folded st']
    show "seen_ok (st'\<lparr>visited := insert i (visited st'), result := result st' @ [i]\<rparr>) \<and>
       (clean (st'\<lparr>visited := insert i (visited st'), result := result st' @ [i]\<rparr>) \<longrightarrow>
        clean st \<and> i \<in> visited (st'\<lparr>visited := insert i (visited st'), result := result st' @ [i]\<rparr>) \<and>
        (visited st = set (result st) \<and> deps_first (result st) (succs deps) \<longrightarrow>
         visited (st'\<lparr>visited := insert i (visited st'), result := result st' @ [i]\<rparr>) =
           set (result (st'\<lparr>visited := insert i (visited st'), result := result st' @ [i]\<rparr>)) \<and>
         deps_first (result (st'\<lparr>visited := insert i (visited st'), result := result st' @ [i]\<rparr>))
           (succs deps)))"
      using f succs_Some [OF get] by (auto simp: seen_ok_def clean_def deps_first_snoc)
  qed
qed (auto simp: sorts_def seen_ok_def clean_def record_unknown_def record_cycle_def Let_def)

text \<open>An item of the map that is not being visited is visited, whatever the errors.\<close>

lemma traverse_visits:
  assumes "om_has deps i" and "i \<notin> visiting"
  shows "i \<in> visited (traverseInternal deps visiting path i st)"
  using assms by (cases "om_get deps i") (simp_all add: om_has_def traverseInternal.simps Let_def)

lemma traverse_last:
  assumes "om_has deps i" and "i \<notin> visiting" and "i \<notin> visited st"
  shows "result (traverseInternal deps visiting path i st) \<noteq> []
       \<and> last (result (traverseInternal deps visiting path i st)) = i"
  using assms by (cases "om_get deps i") (simp_all add: om_has_def traverseInternal.simps Let_def)

section \<open>Reports and the graph\<close>

lemma successively_rtranclp: "successively R c \<Longrightarrow> c \<noteq> [] \<Longrightarrow> R\<^sup>*\<^sup>* (hd c) (last c)"
proof (induction R c rule: successively.induct)
  case (3 R x y xs)
  then show ?case by (auto intro: converse_rtranclp_into_rtranclp)
qed simp_all

lemma is_cycle_tranclp: "is_cycle deps c \<Longrightarrow> (edge deps)\<^sup>+\<^sup>+ (hd c) (hd c)"
  using successively_rtranclp [of "edge deps" c]
  by (auto simp: is_cycle_def intro: rtranclp_into_tranclp1)

lemma no_reports:
  assumes "closed_deps deps" and "acyclic_deps deps" and "real_reports deps st"
  shows "clean st"
proof -
  have "\<not> om_has (t_unknowns st) x" for x
  proof
    assume "om_has (t_unknowns st) x"
    then have "succs (t_unknowns st) x \<noteq> []" using assms(3) by (simp add: real_reports_def)
    then obtain u where "u \<in> set (succs (t_unknowns st) x)" using hd_in_set by blast
    then have "edge deps x u \<and> \<not> om_has deps u" using assms(3) by (auto simp: real_reports_def)
    then show False using assms(1) by (auto simp: closed_deps_def)
  qed
  then have "t_unknowns st = []" using om_no_keys by blast
  moreover have "t_cycles st = []"
    using assms(2,3) is_cycle_tranclp
    by (cases "t_cycles st") (auto simp: real_reports_def acyclic_deps_def)
  ultimately show ?thesis by (simp add: clean_def)
qed

lemma deps_first_decreases:
  assumes "deps_first xs (succs deps)" and "(edge deps)\<^sup>+\<^sup>+ x y" and "x \<in> set xs"
  shows "y \<in> set xs \<and> index_of xs y < index_of xs x"
  using assms(2,3)
proof (induction rule: tranclp_induct)
  case (base y)
  then show ?case using deps_first_index [OF assms(1)] deps_first_closed [OF assms(1)]
    by (auto simp: edge_def)
next
  case (step y z)
  then show ?case using deps_first_index [OF assms(1)] deps_first_closed [OF assms(1)]
    by (force simp: edge_def)
qed

lemma deps_first_sound:
  assumes "deps_first xs (succs deps)" and "set xs = set (om_keys deps)"
  shows "closed_deps deps \<and> acyclic_deps deps"
  using assms deps_first_closed [OF assms(1)] deps_first_decreases [OF assms(1)] edge_has [of deps]
  by (metis acyclic_deps_def closed_deps_def edge_def less_irrefl om_has_iff subsetD tranclpD)

section \<open>The sort from every item\<close>

text \<open>What the sorted list of an item holds, in every case and when there are no errors.\<close>

definition sorted_entry :: "item_map \<Rightarrow> item \<Rightarrow> item list \<Rightarrow> bool" where
  "sorted_entry deps i xs \<longleftrightarrow> distinct xs \<and> xs \<noteq> [] \<and> last xs = i
     \<and> (\<forall>x \<in> set xs. om_has deps x \<and> (edge deps)\<^sup>*\<^sup>* i x)
     \<and> set (filter (om_has deps) (succs deps i)) \<subseteq> set xs"

lemma sort_item_entry:
  assumes "om_has deps i"
  shows "sorted_entry deps i (result (fst (sort_item deps i s)))"
proof -
  let ?st = "(fst s)\<lparr>visited := {}, result := []\<rparr>"
  let ?st' = "traverseInternal deps {} [] i ?st"
  have fresh: "fresh_from {} ?st'" by (rule traverse_fresh) (simp add: fresh_from_def)
  have last: "result ?st' \<noteq> [] \<and> last (result ?st') = i"
    using assms by (intro traverse_last) auto
  have "grows deps i ?st ?st'" by (rule traverse_grows)
  then have reach: "\<forall>x \<in> set (result ?st'). om_has deps x \<and> (edge deps)\<^sup>*\<^sup>* i x"
    by (auto simp: grows_def)
  obtain ns where ns: "om_get deps i = Some ns" using assms by (auto simp: om_has_def)
  have "n \<in> visited ?st'" if n: "n \<in> set ns" "om_has deps n" for n
  proof -
    have "\<forall>s. m \<in> set ns \<longrightarrow> visited s \<subseteq> visited (traverseInternal deps {i} [i] m s)" for m
      using traverse_grows [of deps m] by (auto simp: grows_def)
    then have "n \<in> visited (fold (traverseInternal deps {i} [i]) ns s) \<or> n = i" for s
      using n
    proof (induction ns arbitrary: s)
      case (Cons m ms)
      show ?case
      proof (cases "n = m")
        case True
        have "n = i \<or> n \<in> visited (traverseInternal deps {i} [i] m s)"
          using traverse_visits [of deps n "{i}"] Cons.prems True by auto
        moreover have "visited s' \<subseteq> visited (fold (traverseInternal deps {i} [i]) ms s')" for s'
          by (rule fold_invariant [where P = "\<lambda>t. visited s' \<subseteq> visited t"])
             (use Cons.prems(1) in \<open>auto intro: subset_trans\<close>)
        ultimately show ?thesis by auto
      next
        case False
        then show ?thesis using Cons by auto
      qed
    qed simp
    then show ?thesis using ns by (subst traverseInternal.simps) (auto simp: Let_def)
  qed
  then have "set (filter (om_has deps) (succs deps i)) \<subseteq> set (result ?st')"
    using fresh succs_Some [OF ns] by (auto simp: fresh_from_def)
  then show ?thesis using fresh last reach
    by (simp add: sorted_entry_def sort_item_def traverse_def fresh_from_def Let_def)
qed

lemma sort_item_errors:
  assumes "seen_ok (fst s)"
  shows "seen_ok (fst (sort_item deps i s))"
    and "clean (fst (sort_item deps i s)) \<Longrightarrow> clean (fst s)
       \<and> deps_first (result (fst (sort_item deps i s))) (succs deps)"
  using assms traverse_sorts [of deps i "(fst s)\<lparr>visited := {}, result := []\<rparr>" "{}" "[]"]
  by (auto simp: sort_item_def traverse_def sorts_def seen_ok_def clean_def Let_def)

lemma sort_item_reports:
  "om_has deps i \<Longrightarrow> real_reports deps (fst s) \<Longrightarrow> real_reports deps (fst (sort_item deps i s))"
  using traverse_reports [of deps "{}" "[]" i "(fst s)\<lparr>visited := {}, result := []\<rparr>"]
  by (simp add: sort_item_def traverse_def path_to_def real_reports_def Let_def)

lemma sort_fold:
  assumes "\<forall>k \<in> set ks. om_has deps k" and "seen_ok (fst s)" and "real_reports deps (fst s)"
  shows "let s' = fold (sort_item deps) ks s in
     seen_ok (fst s') \<and> real_reports deps (fst s') \<and> (clean (fst s') \<longrightarrow> clean (fst s))
     \<and> (\<forall>k. k \<notin> set ks \<longrightarrow> om_get (snd s') k = om_get (snd s) k)
     \<and> (\<forall>k \<in> set ks. \<exists>xs. om_get (snd s') k = Some xs \<and> sorted_entry deps k xs
           \<and> (clean (fst s') \<longrightarrow> deps_first xs (succs deps)))"
  using assms
proof (induction ks arbitrary: s)
  case Nil
  then show ?case by (simp add: Let_def)
next
  case (Cons k ks)
  let ?s = "sort_item deps k s"
  have k: "om_has deps k" using Cons.prems by simp
  have prems: "seen_ok (fst ?s)" "real_reports deps (fst ?s)"
    using sort_item_errors [OF Cons.prems(2)] sort_item_reports [OF k Cons.prems(3)] by auto
  have put: "snd ?s = om_put k (result (fst ?s)) (snd s)" by (simp add: sort_item_def Let_def)
  from Cons.IH [OF _ prems] Cons.prems(1) sort_item_entry [OF k, of s]
    sort_item_errors [OF Cons.prems(2), of deps k] put
  show ?case by (auto simp: Let_def)
qed

end
