(* ===== verification/Dependency_Graph_Check.thy ===== *)
theory Dependency_Graph_Check
  imports Dependency_Graph_Correct
begin

text \<open>
  Graphs as their users build them, and what \<open>check\<close> returns for them: it fails no assertion,
  answers True exactly when no dependency is unknown and there is no cycle, and leaves a sorted
  graph. The last part states this as the interface \<open>graph_contract\<close> that \<open>DependencyEvaluator\<close>
  relies on.
\<close>

section \<open>Graphs built by their interface\<close>

inductive built :: "dgraph \<Rightarrow> bool" where
  built_new: "built new_graph"
| built_item: "built g \<Longrightarrow> addItem i g = Inr g' \<Longrightarrow> built g'"
| built_dep: "built g \<Longrightarrow> addDependency i d g = Inr g' \<Longrightarrow> built g'"

definition fresh_graph :: "dgraph \<Rightarrow> bool" where
  "fresh_graph g \<longleftrightarrow> graph_state g = GS_INIT \<and> unknowns g = [] \<and> cycles g = []
     \<and> sorted_dependencies g = [] \<and> item_order g = [] \<and> independent_sets g = []
     \<and> om_ok (dependencies g) \<and> \<not> om_has (dependencies g) []
     \<and> (\<forall>x. [] \<notin> set (succs (dependencies g) x))
     \<and> om_ok (reverse_dependencies g)
     \<and> om_has (reverse_dependencies g) = om_has (dependencies g)
     \<and> (\<forall>x. succs (reverse_dependencies g) x = [])"

lemma built_fresh: "built g \<Longrightarrow> fresh_graph g"
proof (induction rule: built.induct)
  case built_new
  then show ?case by (simp add: fresh_graph_def new_graph_def)
next
  case (built_item g i g')
  then show ?case
    by (auto simp: fresh_graph_def addItem_def res_simps Let_def fun_eq_iff split: if_splits)
next
  case (built_dep g i d g')
  then show ?case
    by (auto simp: fresh_graph_def addDependency_def res_simps Let_def fun_eq_iff split: if_splits)
qed

section \<open>The artificial root\<close>

text \<open>\<open>check\<close> adds the item with the empty name, which depends on all others.\<close>

definition with_root :: "item_map \<Rightarrow> item_map" where
  "with_root deps = om_put [] (filter (\<lambda>k. k \<noteq> []) (om_keys deps)) deps"

lemma with_root_simps [simp]:
  "om_has (with_root deps) x \<longleftrightarrow> x = [] \<or> om_has deps x"
  "succs (with_root deps) x = (if x = [] then filter (\<lambda>k. k \<noteq> []) (om_keys deps) else succs deps x)"
  by (simp_all add: with_root_def)

lemma keys_with_root [simp]: "set (om_keys (with_root deps)) = insert [] (set (om_keys deps))"
  by (simp add: with_root_def set_om_keys_put)

definition rootless :: "item_map \<Rightarrow> bool" where
  "rootless deps \<longleftrightarrow> \<not> om_has deps [] \<and> (\<forall>x. [] \<notin> set (succs deps x))"

lemma edge_with_root: "x \<noteq> [] \<Longrightarrow> edge (with_root deps) x y \<longleftrightarrow> edge deps x y"
  by (simp add: edge_def)

lemma edge_to_root: "rootless deps \<Longrightarrow> edge (with_root deps) x y \<Longrightarrow> y \<noteq> []"
  by (auto simp: edge_def rootless_def split: if_splits)

lemma tranclp_to_root: "rootless deps \<Longrightarrow> (edge (with_root deps))\<^sup>+\<^sup>+ x y \<Longrightarrow> y \<noteq> []"
  by (metis edge_to_root tranclp.cases)

lemma tranclp_with_root:
  assumes "rootless deps" and "(edge (with_root deps))\<^sup>+\<^sup>+ x y" and "x \<noteq> []"
  shows "(edge deps)\<^sup>+\<^sup>+ x y"
  using assms(2)
proof (induction rule: tranclp_induct)
  case (base y)
  then show ?case using assms(3) edge_with_root by blast
next
  case (step y z)
  then have "y \<noteq> []" using tranclp_to_root [OF assms(1)] by blast
  then show ?case using step edge_with_root by (metis tranclp.trancl_into_trancl)
qed

lemma edge_in_root: "rootless deps \<Longrightarrow> edge deps x y \<Longrightarrow> edge (with_root deps) x y"
  by (metis edge_has edge_with_root rootless_def)

lemma tranclp_without_root:
  assumes "rootless deps" and "(edge deps)\<^sup>+\<^sup>+ x y"
  shows "(edge (with_root deps))\<^sup>+\<^sup>+ x y"
  using assms(2)
  by (induction rule: tranclp_induct)
     (auto intro: edge_in_root [OF assms(1)] tranclp.trancl_into_trancl)

lemma acyclic_with_root: "rootless deps \<Longrightarrow> acyclic_deps (with_root deps) \<longleftrightarrow> acyclic_deps deps"
  unfolding acyclic_deps_def
  by (metis tranclp_to_root tranclp_with_root tranclp_without_root)

lemma closed_with_root:
  assumes "rootless deps"
  shows "closed_deps (with_root deps) \<longleftrightarrow> closed_deps deps"
proof
  assume "closed_deps (with_root deps)"
  then show "closed_deps deps"
    using edge_in_root [OF assms] edge_to_root [OF assms]
    by (metis closed_deps_def with_root_simps(1))
next
  assume "closed_deps deps"
  moreover have "edge (with_root deps) [] y \<Longrightarrow> om_has deps y" for y
    by (simp add: edge_def om_has_iff)
  ultimately show "closed_deps (with_root deps)"
    by (metis closed_deps_def edge_with_root with_root_simps(1))
qed

section \<open>Reverse dependencies and positions\<close>

definition dep_pairs :: "item_map \<Rightarrow> (item \<times> item) list" where
  "dep_pairs deps = concat (map (\<lambda>(i, ds). map (\<lambda>d. (d, i)) ds) deps)"

lemma add_reverse_pairs:
  "add_reverse deps rdeps = fold (\<lambda>(k, v). om_push_back k v) (dep_pairs deps) rdeps"
proof (induction deps arbitrary: rdeps)
  case Nil
  then show ?case by (simp add: add_reverse_def dep_pairs_def)
next
  case (Cons e deps)
  obtain i ds where e: "e = (i, ds)" by (cases e)
  have "fold (\<lambda>d. om_push_back d i) ds r
      = fold (\<lambda>(k, v). om_push_back k v) (map (\<lambda>d. (d, i)) ds) r" for r
    by (induction ds arbitrary: r) auto
  then show ?case using Cons by (simp add: add_reverse_def dep_pairs_def e)
qed

lemma set_dep_pairs: "set (dep_pairs deps) = {(d, i). \<exists>ds. (i, ds) \<in> set deps \<and> d \<in> set ds}"
  by (auto simp: dep_pairs_def)

lemma succs_mem: "om_ok deps \<Longrightarrow> (\<exists>ds. (i, ds) \<in> set deps \<and> d \<in> set ds) \<longleftrightarrow> edge deps i d"
  using om_ok_distinct [of deps]
  by (auto simp: edge_def om_get_default_def om_keys_def dest: map_of_SomeD split: option.splits)

lemma succs_add_reverse:
  assumes "om_ok deps" and "\<forall>x. succs rdeps x = []"
  shows "x \<in> set (succs (add_reverse deps rdeps) y) \<longleftrightarrow> edge deps x y"
proof -
  have "set (succs (add_reverse deps rdeps) y) = snd ` {p \<in> set (dep_pairs deps). fst p = y}"
    using assms(2) by (simp add: add_reverse_pairs om_get_default_fold_push)
  also have "\<dots> = {i. edge deps i y}"
    using succs_mem [OF assms(1)] by (force simp: set_dep_pairs)
  finally show ?thesis by simp
qed

lemma has_add_reverse:
  "om_has (add_reverse deps rdeps) x \<longleftrightarrow> om_has rdeps x \<or> (\<exists>i ds. (i, ds) \<in> set deps \<and> x \<in> set ds)"
  by (auto simp: om_has_iff add_reverse_pairs om_keys_fold_push set_dep_pairs image_iff)

lemma number_items_get:
  assumes "distinct xs" and "x \<in> set xs"
  shows "om_get (number_items xs ord) x = Some (Suc (index_of xs x))"
proof -
  have "om_get (fold (\<lambda>(p, i) o'. om_put i p o') (enumerate n xs) ord) x = Some (n + index_of xs x)" for n
    using assms
  proof (induction xs arbitrary: n ord)
    case Nil
    then show ?case by simp
  next
    case (Cons y ys)
    show ?case
    proof (cases "x = y")
      case True
      have "om_get (fold (\<lambda>(p, i) o'. om_put i p o') (enumerate m zs) ord') x = om_get ord' x"
        if "x \<notin> set zs" for m zs ord'
        using that by (induction zs arbitrary: m ord') auto
      then show ?thesis using True Cons.prems(1) by simp
    next
      case False
      then show ?thesis using Cons by simp
    qed
  qed
  then show ?thesis by (simp add: number_items_def)
qed

section \<open>Checked graphs\<close>

definition checked :: "dgraph \<Rightarrow> bool" where
  "checked g \<longleftrightarrow> graph_state g \<noteq> GS_INIT
     \<and> om_ok (dependencies g) \<and> rootless (dependencies g)
     \<and> distinct (in_order g) \<and> set (in_order g) = set (om_keys (dependencies g))
     \<and> (\<forall>x \<in> set (in_order g). om_get (item_order g) x = Some (Suc (index_of (in_order g) x)))
     \<and> (\<forall>x. om_has (dependencies g) x \<longrightarrow> om_has (reverse_dependencies g) x)
     \<and> (\<forall>x y. x \<in> set (succs (reverse_dependencies g) y) \<longleftrightarrow> edge (dependencies g) x y)
     \<and> (\<forall>x \<in> set (in_order g). \<exists>xs. om_get (sorted_dependencies g) x = Some xs
           \<and> sorted_entry (dependencies g) x xs
           \<and> (graph_state g = GS_READY \<longrightarrow> deps_first xs (succs (dependencies g))))
     \<and> (graph_state g = GS_READY \<longleftrightarrow>
           closed_deps (dependencies g) \<and> acyclic_deps (dependencies g))
     \<and> (graph_state g = GS_READY \<longrightarrow> deps_first (in_order g) (succs (dependencies g)))"

lemma sorted_entry_without_root:
  assumes "rootless deps" and "sorted_entry (with_root deps) x xs" and "x \<noteq> []"
  shows "sorted_entry deps x xs \<and> [] \<notin> set xs"
proof -
  have reach: "y \<noteq> [] \<and> (edge deps)\<^sup>*\<^sup>* x y" if "(edge (with_root deps))\<^sup>*\<^sup>* x y" for y
    using that tranclp_with_root [OF assms(1) _ assms(3)] tranclp_to_root [OF assms(1)] assms(3)
    by (metis rtranclp.rtrancl_refl rtranclpD tranclp_into_rtranclp)
  then have "[] \<notin> set xs" using assms(2) by (auto simp: sorted_entry_def)
  moreover have "set (filter (om_has deps) (succs deps x)) \<subseteq> set xs"
    using assms(2,3) by (auto simp: sorted_entry_def)
  ultimately show ?thesis using assms(2) reach by (auto simp: sorted_entry_def)
qed

lemma butlast_entry:
  assumes "sorted_entry (with_root deps) [] xs" and "rootless deps"
  shows "xs = butlast xs @ [[]]" and "distinct (butlast xs)"
    and "set (butlast xs) = set (om_keys deps)" and "set xs = set (om_keys (with_root deps))"
proof -
  show xs: "xs = butlast xs @ [[]]"
    using assms(1) by (metis append_butlast_last_id sorted_entry_def)
  have "distinct xs" using assms(1) by (simp add: sorted_entry_def)
  then have d: "distinct (butlast xs) \<and> [] \<notin> set (butlast xs)" by (subst (asm) xs) auto
  then show "distinct (butlast xs)" by simp
  have "set (butlast xs @ [[]]) = insert [] (set (butlast xs))" by simp
  then have but: "set xs = insert [] (set (butlast xs))" by (simp only: xs [symmetric])
  have all: "set xs = insert [] (set (om_keys deps))"
  proof
    show "set xs \<subseteq> insert [] (set (om_keys deps))"
      using assms(1) unfolding sorted_entry_def with_root_simps(1) by (auto simp flip: om_has_iff)
    have "set (filter (om_has (with_root deps)) (filter (\<lambda>k. k \<noteq> []) (om_keys deps))) \<subseteq> set xs"
      using assms(1) unfolding sorted_entry_def by simp
    moreover have "[] \<in> set xs" by (subst xs) simp
    ultimately show "insert [] (set (om_keys deps)) \<subseteq> set xs"
      by (auto simp: om_has_iff)
  qed
  have "[] \<notin> set (om_keys deps)" using assms(2) by (simp add: rootless_def om_has_iff)
  with d show "set (butlast xs) = set (om_keys deps)" using insert_ident but all by metis
  show "set xs = set (om_keys (with_root deps))" using all by simp
qed

text \<open>The sort that \<open>check\<close> runs on a fresh graph.\<close>

definition sort_all :: "item_map \<Rightarrow> tstate \<times> item_map" where
  "sort_all deps = fold (sort_item deps) (om_keys deps)
     (\<lparr>visited = {}, unknowns_seen = {}, cycles_seen = {}, result = [],
       t_unknowns = [], t_cycles = []\<rparr>, [])"

lemma sort_all_correct:
  "(\<forall>k. om_has deps k \<longrightarrow> (\<exists>xs. om_get (snd (sort_all deps)) k = Some xs \<and> sorted_entry deps k xs
       \<and> (clean (fst (sort_all deps)) \<longrightarrow> deps_first xs (succs deps))))
   \<and> real_reports deps (fst (sort_all deps))"
proof -
  have "\<forall>k \<in> set (om_keys deps). om_has deps k" by (simp add: om_has_iff)
  from sort_fold [OF this, of "(\<lparr>visited = {}, unknowns_seen = {}, cycles_seen = {}, result = [],
       t_unknowns = [], t_cycles = []\<rparr>, [])"]
  show ?thesis unfolding sort_all_def om_has_iff
    by (simp add: Let_def seen_ok_def real_reports_def)
qed

lemma sort_all_clean:
  assumes "rootless deps"
  shows "clean (fst (sort_all (with_root deps))) \<longleftrightarrow> closed_deps deps \<and> acyclic_deps deps"
proof
  assume c: "clean (fst (sort_all (with_root deps)))"
  from sort_all_correct [of "with_root deps"] c obtain xs
    where "sorted_entry (with_root deps) [] xs" "deps_first xs (succs (with_root deps))" by auto
  moreover from this have "set xs = set (om_keys (with_root deps))"
    using butlast_entry(4) [OF _ assms] by blast
  ultimately have "closed_deps (with_root deps) \<and> acyclic_deps (with_root deps)"
    by (intro deps_first_sound)
  then show "closed_deps deps \<and> acyclic_deps deps"
    using closed_with_root acyclic_with_root assms by blast
next
  assume "closed_deps deps \<and> acyclic_deps deps"
  then show "clean (fst (sort_all (with_root deps)))"
    using no_reports sort_all_correct closed_with_root acyclic_with_root assms by blast
qed

section \<open>The result of check\<close>

definition check_success :: "dgraph \<Rightarrow> dgraph" where
  "check_success g =
     (let s = sort_all (with_root (dependencies g));
          order = butlast (om_get_default [] (snd s) [])
      in g\<lparr>unknowns := t_unknowns (fst s), cycles := t_cycles (fst s),
           sorted_dependencies := om_erase [] (snd s), in_order := order,
           item_order := number_items order [],
           reverse_dependencies := add_reverse (dependencies g) (reverse_dependencies g),
           graph_state := (if clean (fst s) then GS_READY else GS_ERROR)\<rparr>)"

lemma fresh_rootless: "fresh_graph g \<Longrightarrow> rootless (dependencies g)"
  by (simp add: fresh_graph_def rootless_def)

lemma check_fresh:
  assumes "fresh_graph g"
  shows "check g = Inr (check_success g, graph_state (check_success g) = GS_READY)"
proof -
  let ?d = "dependencies g"
  let ?s = "sort_all (with_root ?d)"
  obtain xs where xs: "om_get (snd ?s) [] = Some xs" "sorted_entry (with_root ?d) [] xs"
    using sort_all_correct [of "with_root ?d"] by auto
  have g: "graph_state g = GS_INIT" "\<not> om_has ?d []" "unknowns g = []" "cycles g = []"
      "sorted_dependencies g = []" "item_order g = []"
    using assms by (simp_all add: fresh_graph_def)
  have topo: "topologicalSort (g\<lparr>dependencies := with_root ?d\<rparr>) =
      g\<lparr>dependencies := with_root ?d, unknowns := t_unknowns (fst ?s), cycles := t_cycles (fst ?s),
        sorted_dependencies := snd ?s\<rparr>"
    using g by (simp add: topologicalSort_def sort_all_def Let_def)
  have erase: "om_erase [] (with_root ?d) = ?d"
    using g(2) by (simp add: with_root_def om_erase_put om_erase_id)
  have order: "om_get_default [] (snd ?s) [] = xs" "xs \<noteq> []" "last xs = []"
    using xs by (simp_all add: om_get_default_def sorted_entry_def)
  have same: "(g\<lparr>dependencies := ?d\<rparr>) = g" by simp
  show ?thesis
    using g order erase topo
    by (simp add: check_def check_success_def with_root_def [symmetric] Let_def clean_def)
qed

lemma deps_first_with_root:
  "[] \<notin> set xs \<Longrightarrow> deps_first xs (succs (with_root deps)) \<longleftrightarrow> deps_first xs (succs deps)"
  by (rule deps_first_cong) auto

lemma check_success_checked:
  assumes "fresh_graph g"
  shows "checked (check_success g)"
proof -
  let ?d = "dependencies g"
  let ?s = "sort_all (with_root ?d)"
  have root: "rootless ?d" using assms by (rule fresh_rootless)
  then have noroot: "[] \<notin> set (om_keys ?d)" by (simp add: rootless_def om_has_iff)
  note all = sort_all_correct [of "with_root ?d"]
  obtain xs where xs: "om_get (snd ?s) [] = Some xs" "sorted_entry (with_root ?d) [] xs"
      "clean (fst ?s) \<Longrightarrow> deps_first xs (succs (with_root ?d))"
    using all by auto
  have order: "in_order (check_success g) = butlast xs"
    using xs(1) by (simp add: check_success_def om_get_default_def Let_def)
  note but = butlast_entry [OF xs(2) root]
  have sorted: "clean (fst ?s) \<Longrightarrow> deps_first (butlast xs) (succs ?d)"
    using xs(3) deps_first_snoc [of "butlast xs" "[]"] but(1,3) noroot deps_first_with_root
    by metis
  have entries: "\<exists>ys. om_get (om_erase [] (snd ?s)) x = Some ys \<and> sorted_entry ?d x ys
      \<and> (clean (fst ?s) \<longrightarrow> deps_first ys (succs ?d))" if x: "x \<in> set (om_keys ?d)" for x
  proof -
    have "x \<noteq> []" and "om_has (with_root ?d) x" using x noroot by (auto simp: om_has_iff)
    with all obtain ys where ys: "om_get (snd ?s) x = Some ys" "sorted_entry (with_root ?d) x ys"
        "clean (fst ?s) \<longrightarrow> deps_first ys (succs (with_root ?d))" by blast
    with sorted_entry_without_root [OF root ys(2)] \<open>x \<noteq> []\<close> show ?thesis
      using deps_first_with_root by auto
  qed
  have rdeps: "x \<in> set (succs (add_reverse ?d (reverse_dependencies g)) y) \<longleftrightarrow> edge ?d x y" for x y
    using assms by (intro succs_add_reverse) (auto simp: fresh_graph_def)
  have has: "om_has ?d x \<Longrightarrow> om_has (add_reverse ?d (reverse_dependencies g)) x" for x
    using assms by (simp add: has_add_reverse fresh_graph_def)
  have ready: "graph_state (check_success g) = (if clean (fst ?s) then GS_READY else GS_ERROR)"
      and deps: "dependencies (check_success g) = ?d"
      and rev: "reverse_dependencies (check_success g) = add_reverse ?d (reverse_dependencies g)"
      and sd: "sorted_dependencies (check_success g) = om_erase [] (snd ?s)"
      and io: "item_order (check_success g) = number_items (butlast xs) []"
    using xs(1) by (simp_all add: check_success_def om_get_default_def Let_def)
  have states: "(if b then GS_READY else GS_ERROR) \<noteq> GS_INIT"
      "(if b then GS_READY else GS_ERROR) = GS_READY \<longleftrightarrow> b" for b
    by simp_all
  have "om_ok ?d" using assms by (simp add: fresh_graph_def)
  then show ?thesis
    unfolding checked_def deps rev sd io order ready states
    using root but(2,3) sorted entries rdeps has number_items_get [OF but(2)] sort_all_clean [OF root]
    by (simp del: map_of_om_erase)
qed

section \<open>Real errors\<close>

lemma successively_without_root:
  assumes "rootless deps"
  shows "successively (edge (with_root deps)) c \<Longrightarrow> c \<noteq> [] \<Longrightarrow> hd c \<noteq> [] \<Longrightarrow>
     successively (edge deps) c \<and> last c \<noteq> []"
proof (induction "edge (with_root deps)" c rule: successively.induct)
  case (3 x y xs)
  then have "edge (with_root deps) x y" by simp
  moreover from this have "y \<noteq> []" by (rule edge_to_root [OF assms])
  ultimately show ?case using 3 edge_with_root [of x deps y] by auto
qed simp_all

lemma is_cycle_without_root:
  "rootless deps \<Longrightarrow> is_cycle (with_root deps) c \<Longrightarrow> is_cycle deps c"
  using successively_without_root [of deps c] edge_to_root [of deps "last c" "hd c"]
  by (auto simp: is_cycle_def edge_with_root)

lemma check_success_errors:
  assumes "fresh_graph g"
  shows "(\<forall>c \<in> set (cycles (check_success g)). is_cycle (dependencies g) c \<and> hd c = Min (set c))
     \<and> (\<forall>x. \<forall>u \<in> set (succs (unknowns (check_success g)) x).
          edge (dependencies g) x u \<and> \<not> om_has (dependencies g) u)"
proof -
  let ?d = "dependencies g"
  have root: "rootless ?d" using assms by (rule fresh_rootless)
  have rep: "real_reports (with_root ?d) (fst (sort_all (with_root ?d)))"
    using sort_all_correct by blast
  have "edge ?d x u \<and> \<not> om_has ?d u" if "edge (with_root ?d) x u" "\<not> om_has (with_root ?d) u" for x u
    using that edge_with_root [of x ?d u] by (cases "x = []") (auto simp: edge_def om_has_iff)
  then show ?thesis
    using rep is_cycle_without_root [OF root]
    by (auto simp: check_success_def real_reports_def Let_def)
qed

lemma check_success_unknowns:
  assumes "fresh_graph g" and "om_has (unknowns (check_success g)) x"
  shows "succs (unknowns (check_success g)) x \<noteq> []"
proof -
  have "real_reports (with_root (dependencies g)) (fst (sort_all (with_root (dependencies g))))"
    using sort_all_correct by blast
  then show ?thesis using assms(2) by (simp add: check_success_def real_reports_def Let_def)
qed

lemma dependencies_check_success [simp]: "dependencies (check_success g) = dependencies g"
  by (simp add: check_success_def Let_def)

lemma check_built:
  assumes "built g"
  shows "\<exists>g' b. check g = Inr (g', b) \<and> checked g' \<and> dependencies g' = dependencies g
     \<and> (b \<longleftrightarrow> graph_state g' = GS_READY)
     \<and> (b \<longleftrightarrow> closed_deps (dependencies g) \<and> acyclic_deps (dependencies g))"
proof -
  have f: "fresh_graph g" using assms by (rule built_fresh)
  have "checked (check_success g)" using f by (rule check_success_checked)
  then show ?thesis using check_fresh [OF f] by (auto simp: checked_def)
qed

section \<open>The interface of a checked graph\<close>

text \<open>
  What a client of an error-free graph relies on: the sorted list enumerates the items once, in
  dependency order, and direct and reverse dependencies are inverse to each other.
\<close>

locale graph_contract =
  fixes ready :: "'g \<Rightarrow> bool"
    and order :: "'g \<Rightarrow> item list"
    and deps :: "'g \<Rightarrow> item \<Rightarrow> item list"
    and rdeps :: "'g \<Rightarrow> item \<Rightarrow> item list"
  assumes order_distinct: "ready g \<Longrightarrow> distinct (order g)"
    and order_deps: "ready g \<Longrightarrow> deps_first (order g) (deps g)"
    and rdeps_iff: "ready g \<Longrightarrow> x \<in> set (rdeps g y) \<longleftrightarrow> y \<in> set (deps g x)"
    and deps_known: "ready g \<Longrightarrow> y \<in> set (deps g x) \<Longrightarrow> x \<in> set (order g)"
begin

lemma dep_in_order: "ready g \<Longrightarrow> y \<in> set (deps g x) \<Longrightarrow> y \<in> set (order g)"
  using deps_first_closed [OF order_deps] deps_known by blast

lemma dep_earlier:
  "ready g \<Longrightarrow> y \<in> set (deps g x) \<Longrightarrow> index_of (order g) y < index_of (order g) x"
  using deps_first_index [OF order_deps] deps_known by blast

lemma rdep_in_order: "ready g \<Longrightarrow> x \<in> set (rdeps g y) \<Longrightarrow> x \<in> set (order g)"
  using rdeps_iff deps_known by blast

text \<open>Induction along the dependencies.\<close>

lemma dep_induct:
  assumes "ready g" and "\<And>x. (\<And>y. y \<in> set (deps g x) \<Longrightarrow> P y) \<Longrightarrow> P x"
  shows "P x"
proof (induction "index_of (order g) x" arbitrary: x rule: less_induct)
  case less
  then show ?case using assms(2) dep_earlier [OF assms(1)] by blast
qed

text \<open>A non-empty set of items has one that depends on no other of the set.\<close>

lemma minimal_item:
  assumes "ready g" and "x \<in> S"
  shows "\<exists>m \<in> S. \<forall>y \<in> set (deps g m). y \<notin> S"
proof (rule ccontr)
  assume "\<not> ?thesis"
  then have "z \<notin> S" for z using dep_induct [OF assms(1), of "\<lambda>z. z \<notin> S" z] by blast
  then show False using assms(2) by blast
qed

end

definition graph_ready :: "dgraph \<Rightarrow> bool" where
  "graph_ready g \<longleftrightarrow> checked g \<and> graph_state g = GS_READY"

definition direct_deps :: "dgraph \<Rightarrow> item \<Rightarrow> item list" where
  "direct_deps g i = om_get_default [] (dependencies g) i"

definition reverse_deps :: "dgraph \<Rightarrow> item \<Rightarrow> item list" where
  "reverse_deps g i = om_get_default [] (reverse_dependencies g) i"

interpretation dg: graph_contract graph_ready in_order direct_deps reverse_deps
proof (unfold_locales, goal_cases)
  case (2 g)
  then have "deps_first (in_order g) (succs (dependencies g))" by (simp add: graph_ready_def checked_def)
  then show ?case by (simp add: deps_first_def direct_deps_def)
next
  case (4 g y x)
  then have "edge (dependencies g) x y" by (simp add: edge_def direct_deps_def)
  with 4 show ?case using edge_has by (auto simp: graph_ready_def checked_def om_has_iff [symmetric])
qed (auto simp: graph_ready_def checked_def direct_deps_def reverse_deps_def edge_def)

text \<open>For the items of such a graph the queries fail no assertion.\<close>

lemma queries_ready:
  assumes "graph_ready g" and "i \<in> set (in_order g)"
  shows "getDirectDependencies g i = Inr (direct_deps g i)"
    and "getReverseDependencies g i = Inr (reverse_deps g i)"
    and "getSortedGraph g = Inr (in_order g)" and "check_const g = Inr True"
proof -
  have has: "om_has (dependencies g) i" "om_has (reverse_dependencies g) i"
    using assms by (auto simp: graph_ready_def checked_def om_has_iff)
  then show "getDirectDependencies g i = Inr (direct_deps g i)"
    and "getReverseDependencies g i = Inr (reverse_deps g i)"
    using assms by (auto simp: getDirectDependencies_def getReverseDependencies_def assertChecked_def
        lookup_item_def om_has_def direct_deps_def reverse_deps_def om_get_default_def graph_ready_def)
  show "getSortedGraph g = Inr (in_order g)" and "check_const g = Inr True"
    using assms by (simp_all add: getSortedGraph_def check_const_def assertChecked_def graph_ready_def)
qed

text \<open>The sorted dependencies of an item are its closure.\<close>

lemma ready_closure:
  assumes "graph_ready g" and "om_has (dependencies g) i"
  shows "\<exists>xs. getSortedDependencies g i = Inr xs \<and> distinct xs \<and> xs \<noteq> [] \<and> last xs = i
     \<and> set xs = {x. (edge (dependencies g))\<^sup>*\<^sup>* i x} \<and> deps_first xs (succs (dependencies g))"
proof -
  have "i \<in> set (in_order g)" using assms by (auto simp: graph_ready_def checked_def om_has_iff)
  then obtain xs where xs: "om_get (sorted_dependencies g) i = Some xs"
      "sorted_entry (dependencies g) i xs" "deps_first xs (succs (dependencies g))"
    using assms(1) unfolding graph_ready_def checked_def by metis
  have "x \<in> set xs" if "(edge (dependencies g))\<^sup>*\<^sup>* i x" for x
    using that
  proof (induction rule: rtranclp_induct)
    case base
    then show ?case using xs(2) by (metis last_in_set sorted_entry_def)
  next
    case (step y z)
    then show ?case using deps_first_closed [OF xs(3)] by (auto simp: edge_def)
  qed
  then have "set xs = {x. (edge (dependencies g))\<^sup>*\<^sup>* i x}" using xs(2) by (auto simp: sorted_entry_def)
  then show ?thesis
    using xs assms(1) by (auto simp: getSortedDependencies_def assertChecked_def lookup_item_def
        graph_ready_def sorted_entry_def)
qed

text \<open>A checked graph has sorted dependencies for every item, also if there are errors.\<close>

lemma checked_entry:
  assumes "checked g" and "om_has (dependencies g) i"
  shows "\<exists>xs. getSortedDependencies g i = Inr xs \<and> xs \<noteq> [] \<and> last xs = i"
proof -
  have "i \<in> set (in_order g)" using assms by (auto simp: checked_def om_has_iff)
  then obtain xs where "om_get (sorted_dependencies g) i = Some xs" "sorted_entry (dependencies g) i xs"
    using assms(1) unfolding checked_def by metis
  then show ?thesis using assms(1)
    by (auto simp: getSortedDependencies_def assertChecked_def lookup_item_def checked_def sorted_entry_def)
qed

end
