(* ===== verification/Build_Graph_Correct.thy ===== *)
theory Build_Graph_Correct
  imports Build_Graph Dependency_Graph_Check
begin

text \<open>
  Why the build graph is consistent: the platform a dependency needs is selected for it before the
  dependency itself is added to the graph. The invariant \<open>graph_inv\<close> relates the nodes and edges to
  the items that have been added so far.
\<close>

section \<open>Nodes\<close>

definition plain :: "string \<Rightarrow> bool" where
  "plain s \<longleftrightarrow> s \<noteq> [] \<and> CHR ''!'' \<notin> set s"

lemma parse_node_name:
  assumes "plain prefix" and "plain name" and "plain platform"
  shows "parseBuildGraphNode (node_name prefix name platform) = Inr (name, platform)"
proof -
  have "split (CHR ''!'') (node_name prefix name platform) = [prefix, name, platform]"
    using assms by (simp add: node_name_def plain_def)
  then show ?thesis using assms by (simp add: parseBuildGraphNode_def plain_def)
qed

definition plain_prefixes :: "(string, string) omap \<Rightarrow> bool" where
  "plain_prefixes prefixes \<longleftrightarrow> (\<forall>t p. om_get prefixes t = Some p \<longrightarrow> plain p)"

lemma parse_created_node:
  assumes "createBuildGraphNode bs prefixes name platform = Inr node"
    and "plain_prefixes prefixes" and "plain name" and "plain platform"
  shows "parseBuildGraphNode node = Inr (name, platform)"
  using assms parse_node_name
  by (auto simp: createBuildGraphNode_def plain_prefixes_def split: option.splits)

lemma created_node_neq_Nil: "createBuildGraphNode bs prefixes name platform = Inr node \<Longrightarrow> node \<noteq> []"
  by (auto simp: createBuildGraphNode_def node_name_def split: option.splits)

definition node_item :: "string \<Rightarrow> string" where
  "node_item node = (case parseBuildGraphNode node of Inr (name, platform) \<Rightarrow> name | Inl a \<Rightarrow> [])"

section \<open>Items that differ in their build platforms\<close>

definition strip :: "build_item \<Rightarrow> build_item" where
  "strip i = i\<lparr>bi_build_platforms := {}\<rparr>"

definition same_items :: "item_table \<Rightarrow> item_table \<Rightarrow> bool" where
  "same_items bs bs' \<longleftrightarrow> (\<forall>n. map_option strip (om_get bs n) = map_option strip (om_get bs' n))"

lemma same_items_refl [simp]: "same_items bs bs"
  by (simp add: same_items_def)

lemma same_items_trans: "same_items a b \<Longrightarrow> same_items b c \<Longrightarrow> same_items a c"
  by (simp add: same_items_def)

lemma strip_fields:
  assumes "strip i = strip j"
  shows "bi_tree_name i = bi_tree_name j" "bi_deps i = bi_deps j" "bi_config i = bi_config j"
    "bi_platform_types i = bi_platform_types j" "bi_target_type i = bi_target_type j"
proof -
  show "bi_tree_name i = bi_tree_name j" using arg_cong [OF assms, of bi_tree_name] by (simp add: strip_def)
  show "bi_deps i = bi_deps j" using arg_cong [OF assms, of bi_deps] by (simp add: strip_def)
  show "bi_config i = bi_config j" using arg_cong [OF assms, of bi_config] by (simp add: strip_def)
  show "bi_platform_types i = bi_platform_types j" using arg_cong [OF assms, of bi_platform_types] by (simp add: strip_def)
  show "bi_target_type i = bi_target_type j" using arg_cong [OF assms, of bi_target_type] by (simp add: strip_def)
qed

lemma same_items_get:
  assumes "same_items bs bs'" and "om_get bs n = Some i"
  shows "\<exists>j. om_get bs' n = Some j \<and> strip j = strip i"
  using assms(1) [unfolded same_items_def, rule_format, of n] assms(2) by (cases "om_get bs' n") auto

lemma same_items_sym: "same_items a b \<Longrightarrow> same_items b a"
  by (simp add: same_items_def)

lemma created_node_same:
  assumes "same_items bs bs'"
  shows "createBuildGraphNode bs prefixes = createBuildGraphNode bs' prefixes"
proof (intro ext)
  fix n p
  show "createBuildGraphNode bs prefixes n p = createBuildGraphNode bs' prefixes n p"
  proof (cases "om_get bs n")
    case None
    then have "om_get bs' n = None" using assms [unfolded same_items_def, rule_format, of n] by simp
    then show ?thesis using None by (simp add: createBuildGraphNode_def)
  next
    case (Some i)
    then obtain j where j: "om_get bs' n = Some j" "strip j = strip i" using same_items_get [OF assms] by blast
    show ?thesis using Some j(1) strip_fields(1) [OF j(2)] by (simp add: createBuildGraphNode_def)
  qed
qed

section \<open>The platform of a dependency\<close>

definition graph_item_ok :: "build_item \<Rightarrow> bool" where
  "graph_item_ok i \<longleftrightarrow>
     (bi_target_type i = tt_all \<or> bi_build_platforms i \<subseteq> getBuildablePlatforms i) \<and>
     finite (bi_build_platforms i) \<and>
     (\<forall>p \<in> bi_build_platforms i \<union> getBuildablePlatforms i. plain p)"

definition no_declared_platforms :: "build_item \<Rightarrow> bool" where
  "no_declared_platforms i \<longleftrightarrow> ic_dep_platform_types (bi_config i) = []"

lemma first_match_mem: "first_match m ps = Inr (Some p) \<Longrightarrow> p \<in> set ps"
  by (induction ps) (auto simp: res_simps split: if_splits)

lemma best_of_mem:
  assumes "best_of tt ps platforms = Inr p" and "p \<noteq> []"
  shows "p \<in> set platforms"
proof (cases "platforms = []")
  case True
  then show ?thesis using assms by (simp add: best_of_def)
next
  case False
  let ?m = "case ps of
      Some q \<Rightarrow> if tt = tt_object_code \<and> \<not> isDefault q
                then bind_res (new_matcher (hd platforms) q) (\<lambda>m. first_match m platforms) else Inr None
    | None \<Rightarrow> Inr None"
  have "bind_res ?m (\<lambda>result. Inr (case result of Some r \<Rightarrow> if r = [] then hd platforms else r | None \<Rightarrow> hd platforms)) = Inr p"
    using assms(1) False by (simp add: best_of_def)
  then obtain result where result: "?m = Inr result"
      and p: "p = (case result of Some r \<Rightarrow> if r = [] then hd platforms else r | None \<Rightarrow> hd platforms)"
    by (cases ?m) simp_all
  have "result = None \<or> (\<exists>m. first_match m platforms = Inr result)"
    using result by (auto simp: res_simps split: option.splits if_splits)
  with p have r: "p = (case result of Some r \<Rightarrow> if r = [] then hd platforms else r | None \<Rightarrow> hd platforms)"
      "result = None \<or> (\<exists>m. first_match m platforms = Inr result)" .
  then show ?thesis
    using False first_match_mem by (auto split: option.splits if_splits)
qed

lemma getBestPlatformForType_mem:
  assumes "getBestPlatformForType i t ps selectors = Inr p" and "p \<noteq> []"
  shows "p \<in> getBuildablePlatforms i"
proof -
  obtain t' qs ps' where "om_get (bi_platform_types i) t' = Some qs" "best_of (bi_target_type i) ps' qs = Inr p"
    using assms by (auto simp: getBestPlatformForType_def Let_def split: option.splits)
  then have "(t', qs) \<in> set (bi_platform_types i)" "p \<in> set qs"
    using best_of_mem [OF _ assms(2)] by (auto dest: map_of_SomeD)
  then show ?thesis unfolding getBuildablePlatforms_def by blast
qed

lemma getBestPlatformForPlatform_cases:
  assumes "getBestPlatformForPlatform d i platform selectors = Inr p" and "p \<noteq> []"
  shows "bi_target_type d = tt_all \<and> p = platform \<or> p \<in> getBuildablePlatforms d"
    and "bi_target_type d = tt_all \<or> platform \<in> getBuildablePlatforms d \<Longrightarrow> p = platform"
  using assms getBestPlatformForType_mem
  by (auto simp: getBestPlatformForPlatform_def res_simps split: if_splits option.splits)

text \<open>Without a declared platform type the platform is selected, whichever it is.\<close>

lemma target_selected:
  assumes "getBestPlatformForPlatform d i platform selectors = Inr p" and "p \<noteq> []"
    and "om_get bs dep = Some d" and "graph_item_ok d" and "plain platform"
  shows "\<exists>j. om_get (select_as_needed dep d platform p bs) dep = Some j \<and> strip j = strip d \<and>
             p \<in> bi_build_platforms j \<and> graph_item_ok j"
proof -
  note c = getBestPlatformForPlatform_cases [OF assms(1, 2)]
  show ?thesis
  proof (cases "platform \<in> bi_build_platforms d")
    case True
    then have "p = platform" using c(2) assms(4) by (auto simp: graph_item_ok_def)
    then show ?thesis using True assms(3, 4) by (simp add: select_as_needed_def)
  next
    case False
    have b: "getBuildablePlatforms (addBuildPlatform p d) = getBuildablePlatforms d"
      by (simp add: getBuildablePlatforms_def addBuildPlatform_def)
    have "bi_target_type d = tt_all \<or> insert p (bi_build_platforms d) \<subseteq> getBuildablePlatforms d"
      using c(1) assms(4) by (auto simp: graph_item_ok_def)
    moreover have "plain p" using c(1) assms(4, 5) by (auto simp: graph_item_ok_def)
    ultimately have "graph_item_ok (addBuildPlatform p d)"
      using assms(4) unfolding graph_item_ok_def b by (simp add: addBuildPlatform_def)
    then show ?thesis
      using False by (simp add: select_as_needed_def strip_def addBuildPlatform_def)
  qed
qed

lemma select_as_needed_frame:
  assumes "om_get bs dep = Some d"
  shows "same_items bs (select_as_needed dep d platform p bs)"
    and "n \<noteq> dep \<Longrightarrow> om_get (select_as_needed dep d platform p bs) n = om_get bs n"
    and "om_get (select_as_needed dep d platform p bs) dep = Some j \<Longrightarrow> bi_build_platforms d \<subseteq> bi_build_platforms j"
  using assms by (auto simp: select_as_needed_def same_items_def strip_def addBuildPlatform_def split: if_splits)

section \<open>The nodes of an item\<close>

lemma addItem_effect:
  assumes "addItem n g = Inr g'"
  shows "om_has (dependencies g') x \<longleftrightarrow> x = n \<or> om_has (dependencies g) x"
    and "edge (dependencies g') x y \<longleftrightarrow> edge (dependencies g) x y" and "built g \<Longrightarrow> built g'"
proof -
  have n: "\<not> om_has (dependencies g) n" and d: "dependencies g' = om_put n [] (dependencies g)"
    using assms by (auto simp: addItem_def Let_def res_simps)
  show "om_has (dependencies g') x \<longleftrightarrow> x = n \<or> om_has (dependencies g) x" by (simp add: d)
  show "edge (dependencies g') x y \<longleftrightarrow> edge (dependencies g) x y"
  proof -
    have "succs (dependencies g) n = []" using n by (simp add: om_has_def om_get_default_def)
    then show ?thesis unfolding d edge_def om_get_default_put by (cases "x = n") simp_all
  qed
  show "built g \<Longrightarrow> built g'" by (rule built_item [OF _ assms])
qed

lemma addDependency_effect:
  assumes "addDependency n d g = Inr g'"
  shows "om_has (dependencies g') x \<longleftrightarrow> om_has (dependencies g) x"
    and "edge (dependencies g') x y \<longleftrightarrow> edge (dependencies g) x y \<or> x = n \<and> y = d"
    and "built g \<Longrightarrow> built g'"
proof -
  have n: "om_has (dependencies g) n" and e: "dependencies g' = om_push_back n d (dependencies g)"
    using assms by (auto simp: addDependency_def Let_def res_simps)
  show "om_has (dependencies g') x \<longleftrightarrow> om_has (dependencies g) x" using n by (auto simp: e)
  show "edge (dependencies g') x y \<longleftrightarrow> edge (dependencies g) x y \<or> x = n \<and> y = d"
    by (auto simp: e edge_def)
  show "built g \<Longrightarrow> built g'" by (rule built_dep [OF _ assms])
qed

lemma add_nodes_effect:
  assumes "each (add_platform_node ge name) ps st = Inr st'"
  shows "gs_buildset st' = gs_buildset st" and "built (gs_graph st) \<Longrightarrow> built (gs_graph st')"
    and "edge (dependencies (gs_graph st')) = edge (dependencies (gs_graph st))"
    and "om_has (dependencies (gs_graph st)) x \<Longrightarrow> om_has (dependencies (gs_graph st')) x"
    and "p \<in> set ps \<Longrightarrow> \<exists>x. graph_node ge st name p = Inr x \<and> om_has (dependencies (gs_graph st')) x"
proof -
  have "gs_buildset st' = gs_buildset st \<and> (built (gs_graph st) \<longrightarrow> built (gs_graph st')) \<and>
      edge (dependencies (gs_graph st')) = edge (dependencies (gs_graph st)) \<and>
      (\<forall>x. om_has (dependencies (gs_graph st)) x \<longrightarrow> om_has (dependencies (gs_graph st')) x) \<and>
      (\<forall>p \<in> set ps. \<exists>x. graph_node ge st name p = Inr x \<and> om_has (dependencies (gs_graph st')) x)"
    using assms
  proof (induction ps arbitrary: st)
    case Nil
    then show ?case by simp
  next
    case (Cons p ps)
    obtain n where n: "graph_node ge st name p = Inr n"
      using Cons.prems by (cases "graph_node ge st name p") (auto simp: add_platform_node_def)
    obtain g where g: "addItem n (gs_graph st) = Inr g"
      using Cons.prems n by (cases "addItem n (gs_graph st)") (auto simp: add_platform_node_def)
    let ?st = "st\<lparr>gs_graph := g\<rparr>"
    have "add_platform_node ge name p st = Inr ?st" using n g by (simp add: add_platform_node_def)
    then have r: "each (add_platform_node ge name) ps ?st = Inr st'" using Cons.prems by simp
    have same: "graph_node ge ?st = graph_node ge st" by (intro ext) (simp add: graph_node_def)
    have e: "edge (dependencies g) = edge (dependencies (gs_graph st))"
      by (intro ext) (simp add: addItem_effect(2) [OF g])
    from Cons.IH [OF r] same e n addItem_effect(1, 3) [OF g] show ?case by auto
  qed
  then show "gs_buildset st' = gs_buildset st" and "built (gs_graph st) \<Longrightarrow> built (gs_graph st')"
    and "edge (dependencies (gs_graph st')) = edge (dependencies (gs_graph st))"
    and "om_has (dependencies (gs_graph st)) x \<Longrightarrow> om_has (dependencies (gs_graph st')) x"
    and "p \<in> set ps \<Longrightarrow> \<exists>x. graph_node ge st name p = Inr x \<and> om_has (dependencies (gs_graph st')) x"
    by blast+
qed

section \<open>The edges of an item\<close>

text \<open>The target of every edge is a platform that has been selected for a dependency of its source.\<close>

definition edges_selected :: "graph_env \<Rightarrow> string set \<Rightarrow> build_graph_state \<Rightarrow> bool" where
  "edges_selected ge names st \<longleftrightarrow>
     (\<forall>x y. edge (dependencies (gs_graph st)) x y \<longrightarrow>
        (\<exists>i d j q. node_item x \<in> names \<and> om_get (gs_buildset st) (node_item x) = Some i \<and> d \<in> set (bi_deps i) \<and>
           om_get (gs_buildset st) d = Some j \<and> q \<in> bi_build_platforms j \<and> graph_node ge st d q = Inr y))"

definition items_ok :: "build_graph_state \<Rightarrow> bool" where
  "items_ok st \<longleftrightarrow> (\<forall>n i. om_get (gs_buildset st) n = Some i \<longrightarrow>
     plain n \<and> graph_item_ok i \<and> no_declared_platforms i)"

text \<open>What one step may change.\<close>

definition step_frame :: "graph_env \<Rightarrow> string set \<Rightarrow> build_graph_state \<Rightarrow> build_graph_state \<Rightarrow> bool" where
  "step_frame ge later st st' \<longleftrightarrow>
     same_items (gs_buildset st) (gs_buildset st') \<and>
     (\<forall>n. n \<notin> later \<longrightarrow> om_get (gs_buildset st') n = om_get (gs_buildset st) n) \<and>
     (\<forall>n i. om_get (gs_buildset st) n = Some i \<longrightarrow>
        (\<exists>j. om_get (gs_buildset st') n = Some j \<and> bi_build_platforms i \<subseteq> bi_build_platforms j)) \<and>
     (\<forall>x. om_has (dependencies (gs_graph st)) x \<longrightarrow> om_has (dependencies (gs_graph st')) x) \<and>
     (built (gs_graph st) \<longrightarrow> built (gs_graph st')) \<and> (items_ok st \<longrightarrow> items_ok st')"

lemma step_frame_refl [simp]: "step_frame ge later st st"
  by (auto simp: step_frame_def)

lemma step_frame_trans:
  assumes "step_frame ge later a b" and "step_frame ge later b c"
  shows "step_frame ge later a c"
proof -
  have "\<exists>k. om_get (gs_buildset c) n = Some k \<and> bi_build_platforms i \<subseteq> bi_build_platforms k"
    if "om_get (gs_buildset a) n = Some i" for n i
  proof -
    obtain j where "om_get (gs_buildset b) n = Some j" "bi_build_platforms i \<subseteq> bi_build_platforms j"
      using assms(1) \<open>om_get (gs_buildset a) n = Some i\<close> unfolding step_frame_def by blast
    moreover obtain k where "om_get (gs_buildset c) n = Some k" "bi_build_platforms j \<subseteq> bi_build_platforms k"
      using assms(2) calculation(1) unfolding step_frame_def by blast
    ultimately show ?thesis by blast
  qed
  moreover have "same_items (gs_buildset a) (gs_buildset c)"
    using assms same_items_trans unfolding step_frame_def by blast
  ultimately show ?thesis
    using assms unfolding step_frame_def by simp
qed

lemma graph_node_frame: "same_items (gs_buildset st) (gs_buildset st') \<Longrightarrow> graph_node ge st' = graph_node ge st"
  by (intro ext) (simp add: graph_node_def created_node_same)

lemma step_frame_edges:
  assumes "step_frame ge later st st'" and "edges_selected ge names st"
    and "\<And>x y. edge (dependencies (gs_graph st')) x y \<Longrightarrow> edge (dependencies (gs_graph st)) x y"
  shows "edges_selected ge names st'"
  unfolding edges_selected_def
proof (intro allI impI)
  fix x y
  assume "edge (dependencies (gs_graph st')) x y"
  then obtain i d j q where s: "node_item x \<in> names" "om_get (gs_buildset st) (node_item x) = Some i"
      "d \<in> set (bi_deps i)" "om_get (gs_buildset st) d = Some j" "q \<in> bi_build_platforms j"
      "graph_node ge st d q = Inr y"
    using assms(2,3) unfolding edges_selected_def by blast
  have same: "same_items (gs_buildset st) (gs_buildset st')" using assms(1) by (simp add: step_frame_def)
  obtain i' where i': "om_get (gs_buildset st') (node_item x) = Some i'" "strip i' = strip i"
    using same_items_get [OF same s(2)] by blast
  obtain j' where j': "om_get (gs_buildset st') d = Some j'" "bi_build_platforms j \<subseteq> bi_build_platforms j'"
    using assms(1) s(4) unfolding step_frame_def by blast
  have "d \<in> set (bi_deps i')" using s(3) strip_fields(2) [OF i'(2)] by simp
  moreover have "graph_node ge st' d q = Inr y" using s(6) graph_node_frame [OF same] by simp
  ultimately show "\<exists>i d j q. node_item x \<in> names \<and> om_get (gs_buildset st') (node_item x) = Some i \<and> d \<in> set (bi_deps i) \<and>
      om_get (gs_buildset st') d = Some j \<and> q \<in> bi_build_platforms j \<and> graph_node ge st' d q = Inr y"
    using s(1, 5) i'(1) j' by blast
qed


lemma node_item_created:
  "graph_node ge st name platform = Inr x \<Longrightarrow> plain_prefixes (ge_prefixes ge) \<Longrightarrow> plain name \<Longrightarrow> plain platform \<Longrightarrow>
   node_item x = name"
  unfolding graph_node_def node_item_def by (drule parse_created_node) simp_all

lemma as_needed_frame:
  assumes "getBestPlatformForPlatform d i platform selectors = Inr p" and "p \<noteq> []"
    and "om_get (gs_buildset st) dep = Some d" and "plain platform" and "items_ok st" and "dep \<in> later"
  shows "step_frame ge later st (st\<lparr>gs_buildset := select_as_needed dep d platform p (gs_buildset st)\<rparr>)"
    (is "step_frame ge later st ?st")
proof -
  have d: "graph_item_ok d" "plain dep" "no_declared_platforms d"
    using assms(3,5) by (auto simp: items_ok_def)
  obtain j where j: "om_get (gs_buildset ?st) dep = Some j" "strip j = strip d" "graph_item_ok j"
    using target_selected [OF assms(1,2,3) d(1) assms(4)] by auto
  note frame = select_as_needed_frame [OF assms(3), where platform = platform and p = p]
  have "no_declared_platforms j" using d(3) strip_fields(3) [OF j(2)] by (simp add: no_declared_platforms_def)
  have "items_ok ?st"
    unfolding items_ok_def
  proof (intro allI impI)
    fix n k
    assume k: "om_get (gs_buildset ?st) n = Some k"
    show "plain n \<and> graph_item_ok k \<and> no_declared_platforms k"
    proof (cases "n = dep")
      case True
      then show ?thesis using k j \<open>no_declared_platforms j\<close> d(2) by simp
    next
      case False
      then have "om_get (gs_buildset st) n = Some k" using k frame(2) by simp
      then show ?thesis using assms(5) by (simp add: items_ok_def)
    qed
  qed
  moreover have "\<exists>k. om_get (gs_buildset ?st) n = Some k \<and> bi_build_platforms l \<subseteq> bi_build_platforms k"
    if "om_get (gs_buildset st) n = Some l" for n l
  proof (cases "n = dep")
    case True
    then show ?thesis using that assms(3) j(1) frame(3) by auto
  next
    case False
    then show ?thesis using that frame(2) by auto
  qed
  moreover have "om_get (gs_buildset ?st) n = om_get (gs_buildset st) n" if "n \<notin> later" for n
  proof -
    have "n \<noteq> dep" using that assms(6) by blast
    from frame(2) [OF this] show ?thesis by simp
  qed
  ultimately show ?thesis
    using frame(1) unfolding step_frame_def by simp
qed

lemma edges_selected_cong:
  "gs_graph st' = gs_graph st \<Longrightarrow> gs_buildset st' = gs_buildset st \<Longrightarrow> edges_selected ge names st' = edges_selected ge names st"
  by (simp add: edges_selected_def graph_node_def)

lemma step_frame_cong:
  "gs_graph st' = gs_graph st \<Longrightarrow> gs_buildset st' = gs_buildset st \<Longrightarrow> step_frame ge later st st'"
  by (auto simp: step_frame_def items_ok_def)

lemma connect_platform_step:
  assumes run: "connect_platform ge name i dep [] platform st = Inr st'"
    and ok: "items_ok st" "plain_prefixes (ge_prefixes ge)" "plain platform" "plain name"
    and own: "name \<in> names" "om_get (gs_buildset st) name = Some i0" "dep \<in> set (bi_deps i0)"
    and later: "dep \<in> later" "name \<notin> later"
    and edges: "edges_selected ge names st"
  shows "step_frame ge later st st' \<and> edges_selected ge names st'"
proof -
  obtain x where x: "graph_node ge st name platform = Inr x"
    using run by (cases "graph_node ge st name platform") (auto simp: connect_platform_def)
  obtain d where d: "the_ptr (gs_buildset st) dep = Inr d"
    using run x by (cases "the_ptr (gs_buildset st) dep") (auto simp: connect_platform_def)
  obtain p where p: "getBestPlatformForPlatform d i platform (ge_selectors ge) = Inr p"
    using run x d by (cases "getBestPlatformForPlatform d i platform (ge_selectors ge)")
      (auto simp: connect_platform_def target_platform_def)
  show ?thesis
  proof (cases "p = []")
    case True
    then obtain t where "bi_getTargetType i = Inr t"
      using run x d p by (cases "bi_getTargetType i") (auto simp: connect_platform_def target_platform_def)
    then have "gs_graph st' = gs_graph st \<and> gs_buildset st' = gs_buildset st"
      using run x d p True
      by (auto simp: connect_platform_def target_platform_def unmatched_platform_def Let_def split: if_splits)
    then show ?thesis using edges edges_selected_cong step_frame_cong by blast
  next
    case False
    let ?bs = "select_as_needed dep d platform p (gs_buildset st)"
    let ?st = "st\<lparr>gs_buildset := ?bs\<rparr>"
    obtain y where y: "graph_node ge ?st dep p = Inr y"
      using run x d p False
      by (cases "graph_node ge ?st dep p") (auto simp: connect_platform_def target_platform_def Let_def)
    obtain g where g: "addDependency x y (gs_graph st) = Inr g"
      using run x d p False y
      by (cases "addDependency x y (gs_graph st)") (auto simp: connect_platform_def target_platform_def Let_def)
    have st': "st' = ?st\<lparr>gs_graph := g\<rparr>"
      using run x d p False y g by (simp add: connect_platform_def target_platform_def Let_def)
    have dep: "om_get (gs_buildset st) dep = Some d" using d by (simp add: the_ptr_Inr)
    have f1: "step_frame ge later st ?st"
      by (rule as_needed_frame [OF p False dep ok(3) ok(1) later(1)])
    have f2: "step_frame ge later ?st st'"
      using addDependency_effect(1, 3) [OF g] by (auto simp: step_frame_def st' items_ok_def)
    have e1: "edges_selected ge names ?st"
      by (rule step_frame_edges [OF f1 edges]) simp
    have "graph_item_ok d" using ok(1) dep by (auto simp: items_ok_def)
    then obtain j where j: "om_get ?bs dep = Some j" "p \<in> bi_build_platforms j"
      using target_selected [OF p False dep _ ok(3)] by blast
    have "node_item x = name" by (rule node_item_created [OF x ok(2,4,3)])
    moreover have "om_get ?bs name = Some i0"
      using own(2) later select_as_needed_frame(2) [OF dep, where n = name] by auto
    moreover have same: "graph_node ge st' = graph_node ge ?st"
      by (intro ext) (simp add: graph_node_def st')
    ultimately have "edges_selected ge names st'"
      using e1 j y own unfolding edges_selected_def same by (auto simp: st' addDependency_effect(2) [OF g])
    then show ?thesis using step_frame_trans [OF f1 f2] by blast
  qed
qed

lemma connect_dependency_step:
  assumes run: "connect_dependency ge name i dep st = Inr st'"
    and ok: "items_ok st" "plain_prefixes (ge_prefixes ge)" "plain name" "no_declared_platforms i" "graph_item_ok i"
    and own: "name \<in> names" "om_get (gs_buildset st) name = Some i0" "dep \<in> set (bi_deps i0)"
    and later: "dep \<in> later" "name \<notin> later"
    and edges: "edges_selected ge names st"
  shows "step_frame ge later st st' \<and> edges_selected ge names st'"
proof -
  obtain d where d: "the_ptr (gs_buildset st) dep = Inr d"
    using run by (cases "the_ptr (gs_buildset st) dep") (auto simp: connect_dependency_def)
  have "override_platform ge name i dep d st = Inr (Some [], st)"
    using ok(4) by (simp add: override_platform_def getDepPlatformType_def no_declared_platforms_def)
  then have loop: "each (connect_platform ge name i dep []) (sorted_list_of_set (bi_build_platforms i)) st = Inr st'"
    using run d by (simp add: connect_dependency_def)
  have "step_frame ge later st st' \<and> edges_selected ge names st'"
  proof (rule each_invariant [OF loop, where P = "\<lambda>s. step_frame ge later st s \<and> edges_selected ge names s"])
    show "step_frame ge later st st \<and> edges_selected ge names st" using edges by simp
    fix platform s s'
    assume mem: "platform \<in> set (sorted_list_of_set (bi_build_platforms i))"
      and s: "step_frame ge later st s \<and> edges_selected ge names s"
      and step: "connect_platform ge name i dep [] platform s = Inr s'"
    have "plain platform" using mem ok(5) by (auto simp: graph_item_ok_def)
    moreover have "items_ok s" using s ok(1) by (simp add: step_frame_def)
    moreover have "om_get (gs_buildset s) name = Some i0"
      using s own(2) later(2) by (simp add: step_frame_def)
    ultimately have "step_frame ge later s s' \<and> edges_selected ge names s'"
      using connect_platform_step [OF step] ok(2,3) own(1,3) later s by blast
    then show "step_frame ge later st s' \<and> edges_selected ge names s'"
      using s step_frame_trans by blast
  qed
  then show ?thesis .
qed


section \<open>Adding the items\<close>

definition nodes_complete :: "graph_env \<Rightarrow> string set \<Rightarrow> build_graph_state \<Rightarrow> bool" where
  "nodes_complete ge names st \<longleftrightarrow>
     (\<forall>n \<in> names. \<forall>i p. om_get (gs_buildset st) n = Some i \<and> p \<in> bi_build_platforms i \<longrightarrow>
        (\<exists>x. graph_node ge st n p = Inr x \<and> om_has (dependencies (gs_graph st)) x))"

lemma nodes_complete_frame:
  assumes "nodes_complete ge names st" and "step_frame ge later st st'" and "names \<inter> later = {}"
  shows "nodes_complete ge names st'"
proof -
  have "graph_node ge st' = graph_node ge st"
    using assms(2) graph_node_frame unfolding step_frame_def by blast
  moreover have "om_get (gs_buildset st') n = om_get (gs_buildset st) n" if "n \<in> names" for n
    using assms(2,3) that unfolding step_frame_def by blast
  ultimately show ?thesis
    using assms(1,2) unfolding nodes_complete_def step_frame_def by metis
qed

lemma edges_selected_mono: "edges_selected ge names st \<Longrightarrow> names \<subseteq> names' \<Longrightarrow> edges_selected ge names' st"
  unfolding edges_selected_def by blast

lemma step_frame_mono: "step_frame ge later st st' \<Longrightarrow> later \<subseteq> later' \<Longrightarrow> step_frame ge later' st st'"
  unfolding step_frame_def by blast

definition graph_inv :: "graph_env \<Rightarrow> string set \<Rightarrow> build_graph_state \<Rightarrow> bool" where
  "graph_inv ge names st \<longleftrightarrow> items_ok st \<and> built (gs_graph st) \<and> edges_selected ge names st \<and> nodes_complete ge names st"

lemma add_nodes_step:
  assumes run: "each (add_platform_node ge name) (sorted_list_of_set (bi_build_platforms i)) st = Inr st'"
    and inv: "graph_inv ge names st" and own: "om_get (gs_buildset st) name = Some i"
  shows "step_frame ge later st st' \<and> edges_selected ge (insert name names) st' \<and> nodes_complete ge (insert name names) st'"
proof -
  note eff = add_nodes_effect [OF run]
  have fin: "finite (bi_build_platforms i)" using inv own by (auto simp: graph_inv_def items_ok_def graph_item_ok_def)
  have frame: "step_frame ge later st st'"
    using eff(1,2,4) by (auto simp: step_frame_def items_ok_def)
  have node: "graph_node ge st' = graph_node ge st" by (intro ext) (simp add: graph_node_def eff(1))
  have "edges_selected ge names st'"
    by (rule step_frame_edges [OF frame]) (use inv in \<open>simp_all add: graph_inv_def eff(3)\<close>)
  then have "edges_selected ge (insert name names) st'" by (rule edges_selected_mono) blast
  moreover have "nodes_complete ge (insert name names) st'"
    unfolding nodes_complete_def
  proof (intro ballI allI impI)
    fix n k p
    assume n: "n \<in> insert name names" and k: "om_get (gs_buildset st') n = Some k \<and> p \<in> bi_build_platforms k"
    show "\<exists>x. graph_node ge st' n p = Inr x \<and> om_has (dependencies (gs_graph st')) x"
    proof (cases "n = name")
      case True
      then have "p \<in> set (sorted_list_of_set (bi_build_platforms i))" using k own fin eff(1) by simp
      from eff(5) [OF this] show ?thesis using True node by simp
    next
      case False
      then have "\<exists>x. graph_node ge st n p = Inr x \<and> om_has (dependencies (gs_graph st)) x"
        using n k inv eff(1) unfolding graph_inv_def nodes_complete_def by auto
      then show ?thesis using node eff(4) by auto
    qed
  qed
  ultimately show ?thesis using frame by blast
qed

lemma graph_step_inv:
  assumes run: "graph_step ge name (b, st) = Inr (b', st')"
    and inv: "graph_inv ge names st" and prefixes: "plain_prefixes (ge_prefixes ge)"
    and deps: "\<And>i. om_get (gs_buildset st) name = Some i \<Longrightarrow> set (bi_deps i) \<subseteq> later"
    and later: "later \<inter> insert name names = {}"
  shows "step_frame ge later st st' \<and> graph_inv ge (insert name names) st'"
proof -
  obtain i where ptr: "the_ptr (gs_buildset st) name = Inr i"
    using run by (cases "the_ptr (gs_buildset st) name") (auto simp: graph_step_def)
  then have own: "om_get (gs_buildset st) name = Some i" by (simp add: the_ptr_Inr)
  have ok: "plain name" "graph_item_ok i" "no_declared_platforms i"
    using inv own by (auto simp: graph_inv_def items_ok_def)
  obtain added where add: "addItemToBuildGraph ge name i st = Inr (added, st')"
    using run ptr by (cases "addItemToBuildGraph ge name i st") (auto simp: graph_step_def)
  obtain t where t: "bi_getTargetType i = Inr t"
    using add by (cases "bi_getTargetType i") (auto simp: addItemToBuildGraph_def)
  show ?thesis
  proof (cases "bi_build_platforms i = {}")
    case True
    then have "st' = st" using add t by (simp add: addItemToBuildGraph_def)
    moreover have "nodes_complete ge (insert name names) st"
      using inv own True unfolding graph_inv_def nodes_complete_def by auto
    moreover have "edges_selected ge (insert name names) st"
      using inv edges_selected_mono unfolding graph_inv_def by blast
    ultimately show ?thesis using inv by (simp add: graph_inv_def)
  next
    case False
    obtain st1 where st1: "each (add_platform_node ge name) (sorted_list_of_set (bi_build_platforms i)) st = Inr st1"
      using add t False
      by (cases "each (add_platform_node ge name) (sorted_list_of_set (bi_build_platforms i)) st")
        (auto simp: addItemToBuildGraph_def)
    have loop: "each (connect_dependency ge name i) (bi_deps i) st1 = Inr st'"
      using add t False st1
      by (cases "each (connect_dependency ge name i) (bi_deps i) st1") (auto simp: addItemToBuildGraph_def)
    have n1: "step_frame ge later st st1" "edges_selected ge (insert name names) st1"
        "nodes_complete ge (insert name names) st1"
      using add_nodes_step [OF st1 inv own] by blast+
    have bs1: "gs_buildset st1 = gs_buildset st" by (rule add_nodes_effect(1) [OF st1])
    have ok1: "items_ok st1" using n1(1) inv by (simp add: step_frame_def graph_inv_def)
    have "step_frame ge later st1 st' \<and> edges_selected ge (insert name names) st'"
    proof (rule each_invariant [OF loop,
          where P = "\<lambda>s. step_frame ge later st1 s \<and> edges_selected ge (insert name names) s"])
      show "step_frame ge later st1 st1 \<and> edges_selected ge (insert name names) st1" using n1 by simp
      fix dep s s'
      assume mem: "dep \<in> set (bi_deps i)"
        and s: "step_frame ge later st1 s \<and> edges_selected ge (insert name names) s"
        and step: "connect_dependency ge name i dep s = Inr s'"
      have "items_ok s" using s ok1 by (simp add: step_frame_def)
      moreover have "name \<notin> later" using later by blast
      moreover have "om_get (gs_buildset s) name = Some i"
        using s own bs1 \<open>name \<notin> later\<close> by (simp add: step_frame_def)
      moreover have "dep \<in> later" using deps [OF own] mem by blast
      ultimately have "step_frame ge later s s' \<and> edges_selected ge (insert name names) s'"
        by (intro connect_dependency_step [OF step _ prefixes ok(1,3,2), where ?i0.0 = i]) (use mem s in simp_all)
      then show "step_frame ge later st1 s' \<and> edges_selected ge (insert name names) s'"
        using s step_frame_trans by blast
    qed
    moreover from this have "nodes_complete ge (insert name names) st'"
      using nodes_complete_frame [OF n1(3)] later by blast
    moreover have "step_frame ge later st st'" using n1(1) calculation(1) step_frame_trans by blast
    ultimately show ?thesis
      using inv unfolding graph_inv_def step_frame_def by blast
  qed
qed

text \<open>The dependencies of an item come after it.\<close>

definition deps_later :: "item_table \<Rightarrow> string list \<Rightarrow> bool" where
  "deps_later bs names \<longleftrightarrow>
     (\<forall>xs n ys i. names = xs @ n # ys \<longrightarrow> om_get bs n = Some i \<longrightarrow> set (bi_deps i) \<subseteq> set ys)"

lemma deps_later_Cons:
  assumes "deps_later bs (n # names)"
  shows "om_get bs n = Some i \<Longrightarrow> set (bi_deps i) \<subseteq> set names" and "deps_later bs names"
proof -
  show "om_get bs n = Some i \<Longrightarrow> set (bi_deps i) \<subseteq> set names"
    using assms unfolding deps_later_def by (metis append_Nil)
  show "deps_later bs names"
    using assms unfolding deps_later_def by (metis append_Cons)
qed

lemma deps_later_same:
  assumes "deps_later bs names" and "same_items bs bs'"
  shows "deps_later bs' names"
  unfolding deps_later_def
proof (intro allI impI)
  fix xs n ys i
  assume split: "names = xs @ n # ys" and i: "om_get bs' n = Some i"
  obtain j where j: "om_get bs n = Some j" "strip j = strip i"
    using same_items_get [OF same_items_sym [OF assms(2)] i] by blast
  have "set (bi_deps j) \<subseteq> set ys"
    by (rule assms(1) [unfolded deps_later_def, rule_format, OF split j(1)])
  then show "set (bi_deps i) \<subseteq> set ys" by (simp add: strip_fields(2) [OF j(2)])
qed

lemma graph_steps_inv:
  assumes "each (graph_step ge) names (b, st) = Inr (b', st')"
    and "graph_inv ge before st" and "plain_prefixes (ge_prefixes ge)"
    and "deps_later (gs_buildset st) names" and "distinct names" and "set names \<inter> before = {}"
  shows "same_items (gs_buildset st) (gs_buildset st') \<and> graph_inv ge (before \<union> set names) st'"
  using assms
proof (induction names arbitrary: b st before)
  case Nil
  then show ?case by simp
next
  case (Cons name names)
  obtain b1 st1 where step: "graph_step ge name (b, st) = Inr (b1, st1)"
    using Cons.prems(1) by (cases "graph_step ge name (b, st)") auto
  have rest: "each (graph_step ge) names (b1, st1) = Inr (b', st')" using Cons.prems(1) step by simp
  have "set names \<inter> insert name before = {}" using Cons.prems(5,6) by auto
  then have s: "step_frame ge (set names) st st1 \<and> graph_inv ge (insert name before) st1"
    using graph_step_inv [OF step Cons.prems(2,3)] deps_later_Cons(1) [OF Cons.prems(4)] by blast
  then have same: "same_items (gs_buildset st) (gs_buildset st1)" by (simp add: step_frame_def)
  have "deps_later (gs_buildset st1) names"
    using deps_later_same [OF deps_later_Cons(2) [OF Cons.prems(4)] same] .
  then have "same_items (gs_buildset st1) (gs_buildset st') \<and> graph_inv ge (insert name before \<union> set names) st'"
    using Cons.IH [OF rest, of "insert name before"] s Cons.prems(3,5,6) by auto
  then show ?case using same same_items_trans by simp
qed

section \<open>The finished graph\<close>

lemma ranked_acyclic:
  assumes "\<And>x y. edge deps x y \<Longrightarrow> rank x < (rank y :: nat)"
  shows "acyclic_deps deps"
proof -
  have "rank x < rank y" if "(edge deps)\<^sup>+\<^sup>+ x y" for x y
    using that by (induction rule: tranclp_induct) (use assms in \<open>auto intro: less_trans\<close>)
  then show ?thesis unfolding acyclic_deps_def by blast
qed

lemma index_of_nth: "distinct xs \<Longrightarrow> i < length xs \<Longrightarrow> index_of xs (xs ! i) = i"
  using nth_eq_iff_index_eq [of xs "index_of xs (xs ! i)" i] by simp

lemma graph_inv_check:
  assumes inv: "graph_inv ge (set names) st" and prefixes: "plain_prefixes (ge_prefixes ge)"
    and ordered: "deps_later (gs_buildset st) names" and distinct: "distinct names"
  shows "\<exists>g. check (gs_graph st) = Inr (g, True) \<and> graph_ready g \<and> dependencies g = dependencies (gs_graph st)"
proof -
  have target: "\<exists>d j q. d \<in> set (drop (Suc (index_of names (node_item x))) names) \<and> node_item x \<in> set names \<and>
      om_get (gs_buildset st) d = Some j \<and> q \<in> bi_build_platforms j \<and> graph_node ge st d q = Inr y"
    if edge: "edge (dependencies (gs_graph st)) x y" for x y
  proof -
    obtain i d j q where e: "node_item x \<in> set names" "om_get (gs_buildset st) (node_item x) = Some i"
        "d \<in> set (bi_deps i)" "om_get (gs_buildset st) d = Some j" "q \<in> bi_build_platforms j"
        "graph_node ge st d q = Inr y"
      using inv edge unfolding graph_inv_def edges_selected_def by blast
    obtain xs ys where split: "names = xs @ node_item x # ys" using e(1) by (meson split_list)
    have "d \<in> set ys" using ordered split e(2,3) unfolding deps_later_def by blast
    moreover have "node_item x \<notin> set xs" using distinct split by auto
    then have "index_of names (node_item x) = length xs" by (simp add: split index_of_append)
    then have "drop (Suc (index_of names (node_item x))) names = ys" by (simp add: split)
    ultimately show ?thesis using e by auto
  qed
  have closed: "closed_deps (dependencies (gs_graph st))"
    unfolding closed_deps_def
  proof (intro allI impI)
    fix x y
    assume "edge (dependencies (gs_graph st)) x y"
    then obtain d j q where t: "d \<in> set names" "om_get (gs_buildset st) d = Some j" "q \<in> bi_build_platforms j"
        "graph_node ge st d q = Inr y"
      using target by (meson in_set_dropD)
    then show "om_has (dependencies (gs_graph st)) y"
      using inv unfolding graph_inv_def nodes_complete_def by fastforce
  qed
  have "acyclic_deps (dependencies (gs_graph st))"
  proof (rule ranked_acyclic [where rank = "\<lambda>x. index_of names (node_item x)"])
    fix x y
    assume "edge (dependencies (gs_graph st)) x y"
    then obtain d j q where t: "d \<in> set (drop (Suc (index_of names (node_item x))) names)"
        "om_get (gs_buildset st) d = Some j" "q \<in> bi_build_platforms j" "graph_node ge st d q = Inr y"
      using target by blast
    have "plain d \<and> plain q" using inv t(2,3) by (auto simp: graph_inv_def items_ok_def graph_item_ok_def)
    then have "node_item y = d" using node_item_created [OF t(4) prefixes] by blast
    moreover obtain i where i: "i < length (drop (Suc (index_of names (node_item x))) names)"
        "drop (Suc (index_of names (node_item x))) names ! i = d"
      using t(1) unfolding in_set_conv_nth by blast
    then have "Suc (index_of names (node_item x)) + i < length names" "d = names ! (Suc (index_of names (node_item x)) + i)"
      by simp_all
    then have "index_of names d = Suc (index_of names (node_item x)) + i"
      using index_of_nth [OF distinct] by blast
    ultimately show "index_of names (node_item x) < index_of names (node_item y)" by simp
  qed
  with closed show ?thesis
    using check_built [of "gs_graph st"] inv by (auto simp: graph_inv_def graph_ready_def)
qed


lemma graph_inv_start:
  assumes "items_ok st" and "gs_graph st = new_graph"
  shows "graph_inv ge {} st"
  using assms built_new
  by (simp add: graph_inv_def edges_selected_def nodes_complete_def edge_def new_graph_def om_get_default_def)

end
