(* ===== verification/Build_Set_Properties.thy ===== *)
theory Build_Set_Properties
  imports Build_Set
begin

text \<open>
  Properties of the build set: it is taken from the items of the forest and closed under what has to
  be built with it.
\<close>

section \<open>Passes that add nothing\<close>

lemma add_missing_closed: "add_missing items ns bs = Inr (bs', added) \<Longrightarrow> set ns \<subseteq> set (om_keys bs')"
proof (induction ns arbitrary: bs added)
  case Nil
  then show ?case by simp
next
  case (Cons n ns)
  show ?case
  proof (cases "om_has bs n")
    case True
    have r: "add_missing items ns bs = Inr (bs', added)" using Cons.prems True by simp
    have "n \<in> set (om_keys bs)" using True by (simp add: om_has_iff)
    then have "n \<in> set (om_keys bs')" using extends_keys [OF add_missing_extends [OF r]] by blast
    then show ?thesis using Cons.IH [OF r] by simp
  next
    case False
    obtain i where i: "the_ptr items n = Inr i"
      using Cons.prems False by (cases "the_ptr items n") auto
    obtain a where r: "add_missing items ns (om_put n i bs) = Inr (bs', a)"
      using Cons.prems False i by (cases "add_missing items ns (om_put n i bs)") auto
    have "n \<in> set (om_keys bs')"
      using extends_keys [OF add_missing_extends [OF r]] by (auto simp: set_om_keys_put)
    then show ?thesis using Cons.IH [OF r] by simp
  qed
qed

lemma populate_nothing:
  assumes "populateBuildset traits (only_if_res P) its bs () = Inr (bs', u, False)"
    and "(n, i) \<in> set its" and "\<not> om_has bs n"
  shows "\<exists>b. P i = Inr b \<and> \<not> (b \<and> bi_isLocal i \<and> hasTraits i traits)"
  using assms(1, 2)
proof (induction its)
  case Nil
  then show ?case by simp
next
  case (Cons p its)
  show ?case
  proof (cases "om_has bs (fst p)")
    case True
    then have "(n, i) \<noteq> p" using assms(3) by auto
    then show ?thesis using Cons True by simp
  next
    case False
    then obtain b where b: "P (snd p) = Inr b"
      using Cons.prems(1) by (cases "P (snd p)") (auto simp: only_if_res_def)
    then have pred: "only_if_res P (snd p) () = Inr (b, ())" by (simp add: only_if_res_def)
    have no: "\<not> (b \<and> bi_isLocal (snd p) \<and> hasTraits (snd p) traits)"
    proof
      assume "b \<and> bi_isLocal (snd p) \<and> hasTraits (snd p) traits"
      then show False
        using Cons.prems(1) False pred
        by (cases "populateBuildset traits (only_if_res P) its (om_put (fst p) (snd p) bs) ()") auto
    qed
    then have "populateBuildset traits (only_if_res P) its bs () = Inr (bs', u, False)"
      using Cons.prems(1) False pred by (simp split: if_splits)
    then show ?thesis using Cons.IH Cons.prems(2) b no by (cases "p = (n, i)") auto
  qed
qed

lemma build_also_nothing:
  assumes "addBuildAlsoToBuildset opts trees items bs = Inr (bs, False)"
    and "(n, i) \<in> set items" and "\<not> om_has bs n"
  shows "\<exists>b. itemIsInBuildAlso (bo_os opts) trees items (all_build_also bs) i = Inr b \<and>
             \<not> (b \<and> bi_isLocal i \<and> hasTraits i (bo_only_with_traits opts))"
proof -
  note eq = assms(1) [unfolded addBuildAlsoToBuildset.simps [of opts trees items bs]]
  obtain b1 adding where p: "build_also_pass opts trees items bs = Inr (b1, adding)"
    using eq by (cases "build_also_pass opts trees items bs") auto
  have "\<not> adding"
    using eq p by (cases "addBuildAlsoToBuildset opts trees items b1") auto
  then obtain u where "populateBuildset (bo_only_with_traits opts)
      (only_if_res (itemIsInBuildAlso (bo_os opts) trees items (all_build_also bs))) items bs () = Inr (b1, u, False)"
    using p by (auto simp: build_also_pass_def populate_def res_simps)
  from populate_nothing [OF this assms(2, 3)] show ?thesis .
qed

lemma expand_pass_nothing:
  assumes "expand_pass opts ad trees items first_pass (bs, ts) = Inr ((bs', ts'), False)"
  shows "bs' = bs" and "ad \<Longrightarrow> expanded_deps bs \<subseteq> set (om_keys bs)"
    and "addBuildAlsoToBuildset opts trees items bs = Inr (bs, False)"
proof -
  have e: "extends items bs bs' False" by (rule expand_pass_extends [OF assms])
  then show "bs' = bs" by (rule extends_same)
  note eq = assms [unfolded expand_pass_def split_conv]
  from eq obtain b1 a1 where 1: "add_deps_pass ad items bs = Inr (b1, a1)"
    by (rule bind_res_pair) blast
  note eq = eq [unfolded 1 bind_res_Inr split_conv]
  from eq obtain b2 a2 where 2: "addBuildAlsoToBuildset opts trees items b1 = Inr (b2, a2)"
    by (rule bind_res_pair) blast
  note eq = eq [unfolded 2 bind_res_Inr split_conv]
  have "\<not> a1 \<and> \<not> a2"
  proof (cases "bo_repeat_expansion opts \<or> first_pass")
    case False
    then show ?thesis using eq by auto
  next
    case True
    then have eq: "bind_res (if bo_with_rdeps opts then rdeps_loop items b2 else Inr (b2, False)) (\<lambda>(bs, a3).
         bind_res (related_pass opts items (bs, ts)) (\<lambda>(r, a4). Inr (r, (a1 \<or> a2) \<or> (a3 \<or> a4)))) =
         Inr ((bs', ts'), False)"
      using eq by simp
    from eq obtain b3 a3 where 3: "(if bo_with_rdeps opts then rdeps_loop items b2 else Inr (b2, False)) = Inr (b3, a3)"
      by (rule bind_res_pair) blast
    from eq [unfolded 3 bind_res_Inr split_conv] obtain r a4 where
      "Inr (r, (a1 \<or> a2) \<or> (a3 \<or> a4)) = (Inr ((bs', ts'), False) :: ((item_table \<times> string set) \<times> bool) res)"
      by (rule bind_res_pair) blast
    then show ?thesis by simp
  qed
  then have a: "a1 = False" "a2 = False" by simp_all
  have e1: "extends items bs b1 a1"
    using 1 by (auto simp: add_deps_pass_def add_missing_extends split: if_splits)
  then have b1: "b1 = bs" using a extends_same by blast
  have "b2 = b1" using addBuildAlso_extends [OF 2] a extends_same by blast
  then show "addBuildAlsoToBuildset opts trees items bs = Inr (bs, False)" using 2 a b1 by simp
  show "expanded_deps bs \<subseteq> set (om_keys bs)" if ad
  proof -
    have "add_missing items (sorted_list_of_set (expanded_deps bs)) bs = Inr (bs, False)"
      using 1 b1 a that by (simp add: add_deps_pass_def)
    from add_missing_closed [OF this] show ?thesis by (simp add: expanded_deps_def case_prod_beta)
  qed
qed

lemma expand_loop_final:
  assumes "expand_loop opts ad trees items fp bs ts = Inr (bs', ts')"
  shows "(\<exists>a. extends items bs bs' a) \<and> (ad \<longrightarrow> expanded_deps bs' \<subseteq> set (om_keys bs')) \<and>
    addBuildAlsoToBuildset opts trees items bs' = Inr (bs', False)"
  using assms
proof (induction opts ad trees items fp bs ts rule: expand_loop.induct)
  case (1 opts ad trees items fp bs ts)
  note eq = 1(2) [unfolded expand_loop.simps [of opts ad trees items fp bs ts]]
  obtain r expanding where p: "expand_pass opts ad trees items fp (bs, ts) = Inr (r, expanding)"
    using eq by (cases "expand_pass opts ad trees items fp (bs, ts)") auto
  show ?case
  proof (cases expanding)
    case True
    have p': "expand_pass opts ad trees items fp (bs, ts) = Inr ((fst r, snd r), True)"
      using p True by simp
    have "expand_loop opts ad trees items False (fst r) (snd r) = Inr (bs', ts')"
      using eq p True by simp
    from 1(1) [OF p refl True this] extends_trans [OF expand_pass_extends [OF p']]
    show ?thesis by blast
  next
    case False
    then have p: "expand_pass opts ad trees items fp (bs, ts) = Inr ((bs', ts'), False)"
      using p eq by simp
    show ?thesis
      using expand_pass_nothing [OF p] expand_pass_extends [OF p] by blast
  qed
qed

section \<open>Plugins\<close>

lemma add_plugin_items_get:
  "add_plugin_items items ns bs = Inr bs' \<Longrightarrow>
   om_get bs' n = (if n \<in> set ns then om_get items n else om_get bs n) \<and> (\<forall>p \<in> set ns. om_get items p \<noteq> None)"
proof (induction ns arbitrary: bs)
  case Nil
  then show ?case by simp
next
  case (Cons p ns)
  obtain i where i: "the_ptr items p = Inr i"
    using Cons.prems by (cases "the_ptr items p") auto
  then have "add_plugin_items items ns (om_put p i bs) = Inr bs'" using Cons.prems by simp
  from Cons.IH [OF this] i show ?case by (auto simp: the_ptr_Inr)
qed

section \<open>The initial set\<close>

definition from_items :: "item_table \<Rightarrow> item_table \<Rightarrow> bool" where
  "from_items items bs \<longleftrightarrow> (\<forall>n i. om_get bs n = Some i \<longrightarrow> om_get items n = Some i)"

lemma from_items_extends:
  assumes "om_ok items" and "from_items items bs" and "extends items bs bs' a"
  shows "from_items items bs'"
proof -
  have "om_get items n = Some i" if "(n, i) \<in> set items" for n i
    using that om_ok_distinct [OF assms(1)] by (simp add: om_keys_def)
  then show ?thesis
    using assms(2) extends_new [OF assms(3)] unfolding from_items_def by blast
qed

lemma from_items_Nil [simp]: "from_items items []"
  by (simp add: from_items_def)

lemma from_items_populate:
  "om_ok items \<Longrightarrow> populateBuildset traits pred items [] s = Inr (bs, s', a) \<Longrightarrow> from_items items bs"
  by (rule from_items_extends [OF _ from_items_Nil populateBuildset_extends]) auto

lemma from_items_select_if: "om_ok items \<Longrightarrow> select_if opts items P = Inr bs \<Longrightarrow> from_items items bs"
  unfolding select_if_def populate_def bind_res_eq_Inr
  by (elim exE conjE) (auto split: prod.splits dest: from_items_populate)

lemma from_items_select_trees: "om_ok items \<Longrightarrow> select_trees opts trees items P = Inr bs \<Longrightarrow> from_items items bs"
  unfolding select_trees_def populate_def bind_res_eq_Inr
  by (elim exE conjE) (auto split: prod.splits dest: from_items_populate)

lemma from_items_select_named: "om_ok items \<Longrightarrow> select_named opts items e = Inr (bs, e') \<Longrightarrow> from_items items bs"
  unfolding select_named_def bind_res_eq_Inr
  by (elim exE conjE) (auto split: prod.splits dest: from_items_populate)

lemma from_items_select_deps: "om_ok items \<Longrightarrow> select_deps items this = Inr bs \<Longrightarrow> from_items items bs"
  by (auto simp: select_deps_def res_simps split: option.splits
        intro: from_items_extends [OF _ from_items_Nil add_missing_extends])

definition current_of :: "build_options \<Rightarrow> item_table \<Rightarrow> build_item option \<Rightarrow> bool" where
  "current_of opts items this \<longleftrightarrow> (\<forall>i. this = Some i \<longrightarrow> om_get items (bo_this_name opts) = Some i)"

lemma find_current_of: "find_current opts trees items = Inr this \<Longrightarrow> current_of opts items this"
  by (auto simp: find_current_def current_of_def bo_fatal_def split: if_splits option.splits)

lemma from_items_select_this: "current_of opts items this \<Longrightarrow> from_items items (select_this opts this)"
  by (auto simp: from_items_def current_of_def select_this_def split: option.splits)

lemma from_items_select_set:
  assumes "om_ok items" and "current_of opts items this" and "select_set opts trees items this name = Inr bs"
  shows "from_items items bs"
  using assms(3) from_items_select_if [OF assms(1)] from_items_select_trees [OF assms(1)]
    from_items_select_deps [OF assms(1)] from_items_select_this [OF assms(2)]
  unfolding select_set_def bo_fatal_def by (auto split: if_splits)

lemma from_items_initial:
  assumes "om_ok items" and "current_of opts items this"
    and "initial_set opts trees items this e = Inr (bs, cleaning, e')"
  shows "from_items items bs"
proof (cases "set_name_of opts = []")
  case True
  then show ?thesis using assms(3) from_items_select_this [OF assms(2)] by (auto simp: initial_set_def)
next
  case False
  then obtain e2 where "select_items opts trees items this (set_name_of opts) e = Inr (bs, e2)"
    using assms(3) by (auto simp: initial_set_def res_simps)
  then show ?thesis
    using from_items_select_named [OF assms(1)] from_items_select_if [OF assms(1)] from_items_select_set [OF assms(1, 2)]
    by (auto simp: select_items_def res_simps split: if_splits)
qed


section \<open>The closure of the build set\<close>

text \<open>What \<open>checkPlugins\<close> demands of the items that are used as plugins.\<close>

definition plain_plugins :: "item_table \<Rightarrow> bool" where
  "plain_plugins items \<longleftrightarrow>
     (\<forall>(n, i) \<in> set items. \<forall>p \<in> set (bi_plugins i). \<forall>j. om_get items p = Some j \<longrightarrow>
        bi_expanded_dependencies j = [] \<and> ic_build_also (bi_config j) = [])"

definition building :: "build_options \<Rightarrow> bool" where
  "building opts \<longleftrightarrow> bo_cleanset_name opts = [] \<and> bo_special_target opts \<noteq> s_CLEAN"

lemma initial_set_building:
  "building opts \<Longrightarrow> initial_set opts trees items this e = Inr (bs, cleaning, e') \<Longrightarrow> \<not> cleaning"
  by (auto simp: building_def initial_set_def res_simps split: if_splits)

lemma om_ok_mem: "om_ok m \<Longrightarrow> (n, i) \<in> set m \<longleftrightarrow> om_get m n = Some i"
  using om_ok_distinct [of m] by (auto simp: om_keys_def)

lemma om_ok_initial:
  assumes "initial_set opts trees items this e = Inr (bs, cleaning, e')"
  shows "om_ok bs"
proof -
  have pop: "om_ok b" if "populateBuildset traits pred items [] s = Inr (b, s', a)" for traits pred s b s' a
    using extends_ok [OF populateBuildset_extends [OF that subset_refl]] by simp
  have sel: "om_ok b" if "select_if opts items P = Inr b" for P b
    using that pop unfolding select_if_def populate_def bind_res_eq_Inr
    by (elim exE conjE) (auto split: prod.splits)
  have trees: "om_ok b" if "select_trees opts trees items P = Inr b" for P b
    using that pop unfolding select_trees_def populate_def bind_res_eq_Inr
    by (elim exE conjE) (auto split: prod.splits)
  have named: "om_ok b" if "select_named opts items e0 = Inr (b, e1)" for b e0 e1
    using that pop unfolding select_named_def bind_res_eq_Inr
    by (elim exE conjE) (auto split: prod.splits)
  have deps: "om_ok b" if "select_deps items this = Inr b" for b
    using that by (auto simp: select_deps_def res_simps split: option.splits
        intro: extends_ok [OF add_missing_extends])
  have own: "om_ok (select_this opts this)"
    by (auto simp: select_this_def om_ok_def om_keys_def split: option.splits)
  have set: "om_ok b" if "select_set opts trees items this name = Inr b" for name b
    using that sel trees deps own unfolding select_set_def bo_fatal_def by (auto split: if_splits)
  show ?thesis
    using assms sel named set own
    by (auto simp: initial_set_def select_items_def res_simps split: if_splits)
qed

text \<open>
  The property holds for every build that is not a clean-up. An item of the build set that is only
  there because it is a plugin of another item does not need its own plugins.
\<close>

lemma computeBuildset_stages:
  assumes "computeBuildset opts trees items e = Inr (bs, targets, e')" and "building opts" and "om_ok items"
  obtains core where "from_items items core" and "om_ok core" and "expanded_deps core \<subseteq> set (om_keys core)"
    and "addBuildAlsoToBuildset opts trees items core = Inr (core, False)"
    and "add_plugin_items items (sorted_list_of_set (all_plugins core)) core = Inr bs"
proof -
  note eq = assms(1) [unfolded computeBuildset_def]
  obtain cur_item where found: "find_current opts trees items = Inr cur_item"
    using eq by (cases "find_current opts trees items") auto
  note cur = find_current_of [OF found]
  note eq = eq [unfolded found bind_res_Inr]
  obtain b0 cleaning e0 where 0: "initial_set opts trees items cur_item e = Inr (b0, cleaning, e0)"
    using eq by (cases "initial_set opts trees items cur_item e") auto
  have not_cleaning: "\<not> cleaning" by (rule initial_set_building [OF assms(2) 0])
  then have ad: "add_dependencies opts cleaning" by (simp add: add_dependencies_def)
  note eq = eq [unfolded 0 bind_res_Inr split_conv]
  obtain b1 a1 where 1: "addBuildAlsoToBuildset opts trees items b0 = Inr (b1, a1)"
    using eq by (cases "addBuildAlsoToBuildset opts trees items b0") auto
  note eq = eq [unfolded 1 bind_res_Inr split_conv]
  obtain b2 ts where 2: "expand_loop opts (add_dependencies opts cleaning) trees items True b1 (explicit_targets opts b1) = Inr (b2, ts)"
    using eq by (cases "expand_loop opts (add_dependencies opts cleaning) trees items True b1 (explicit_targets opts b1)") auto
  note eq = eq [unfolded 2 bind_res_Inr split_conv]
  have 3: "add_plugin_items items (sorted_list_of_set (all_plugins b2)) b2 = Inr bs"
    using eq ad by (cases "add_plugin_items items (sorted_list_of_set (all_plugins b2)) b2") auto
  from expand_loop_final [OF 2] obtain a2 where e2: "extends items b1 b2 a2"
    and closed: "expanded_deps b2 \<subseteq> set (om_keys b2)" "addBuildAlsoToBuildset opts trees items b2 = Inr (b2, False)"
    using ad by blast
  have e: "extends items b0 b2 (a1 \<or> a2)"
    by (rule extends_trans [OF addBuildAlso_extends [OF 1] e2])
  have "from_items items b2"
    by (rule from_items_extends [OF assms(3) from_items_initial [OF assms(3) cur 0] e])
  moreover have "om_ok b2" by (rule extends_ok [OF e om_ok_initial [OF 0]])
  ultimately show thesis using closed 3 by (rule that)
qed

lemma om_ok_plugin_items: "add_plugin_items items ns bs = Inr bs' \<Longrightarrow> om_ok bs \<Longrightarrow> om_ok bs'"
proof (induction ns arbitrary: bs)
  case Nil
  then show ?case by simp
next
  case (Cons p ns)
  then obtain i where "the_ptr items p = Inr i" by (cases "the_ptr items p") auto
  then show ?case using Cons by simp
qed


lemma all_plugins_plain:
  assumes "plain_plugins items" and "from_items items core" and "om_ok items" and "om_ok core"
    and "n \<in> all_plugins core" and "om_get items n = Some i"
  shows "bi_expanded_dependencies i = []" and "ic_build_also (bi_config i) = []"
proof -
  obtain m j where mj: "(m, j) \<in> set core" "n \<in> set (bi_plugins j)"
    using assms(5) by (auto simp: all_plugins_def)
  then have "om_get items m = Some j"
    using assms(2, 4) om_ok_mem [of core] by (simp add: from_items_def)
  then have "(m, j) \<in> set items" by (rule map_of_SomeD)
  then have "\<forall>p \<in> set (bi_plugins j). \<forall>k. om_get items p = Some k \<longrightarrow>
      bi_expanded_dependencies k = [] \<and> ic_build_also (bi_config k) = []"
    using assms(1) unfolding plain_plugins_def by blast
  then show "bi_expanded_dependencies i = []" and "ic_build_also (bi_config i) = []"
    using mj(2) assms(6) by simp_all
qed

lemma all_build_also_get:
  "om_ok m \<Longrightarrow> all_build_also m = sorted_list_of_set {b. \<exists>n i. om_get m n = Some i \<and> b \<in> set (ic_build_also (bi_config i))}"
  unfolding all_build_also_def by (rule arg_cong [of _ _ sorted_list_of_set]) (force simp: om_ok_mem)

text \<open>
  C9: The build set of a build consists of items of the forest and is closed: it has all dependencies,
  direct and indirect, of its items, the plugins of every item that is not itself there as a plugin,
  and every local item with the requested traits that is named by a build-also of one of its items.
\<close>

theorem computeBuildset_closed:
  assumes "computeBuildset opts trees items e = Inr (bs, targets, e')"
    and "building opts" and "om_ok items" and "plain_plugins items"
  shows "(\<forall>n i. om_get bs n = Some i \<longrightarrow>
            om_get items n = Some i \<and> set (bi_expanded_dependencies i) \<subseteq> set (om_keys bs) \<and>
            (n \<in> all_plugins bs \<or> set (bi_plugins i) \<subseteq> set (om_keys bs))) \<and>
         (\<forall>n i. om_get items n = Some i \<and> bi_isLocal i \<and> hasTraits i (bo_only_with_traits opts) \<and>
            itemIsInBuildAlso (bo_os opts) trees items (all_build_also bs) i = Inr True \<longrightarrow>
            n \<in> set (om_keys bs))"
proof -
  obtain core where core: "from_items items core" "om_ok core" "expanded_deps core \<subseteq> set (om_keys core)"
    and also_closed: "addBuildAlsoToBuildset opts trees items core = Inr (core, False)"
    and plug: "add_plugin_items items (sorted_list_of_set (all_plugins core)) core = Inr bs"
    by (rule computeBuildset_stages [OF assms(1-3)])
  have fin: "finite (all_plugins core)" by (simp add: all_plugins_def case_prod_beta)
  have get: "om_get bs n = (if n \<in> all_plugins core then om_get items n else om_get core n)" for n
    using add_plugin_items_get [OF plug, of n] fin by simp
  have known: "om_get items p \<noteq> None" if "p \<in> all_plugins core" for p
    using add_plugin_items_get [OF plug] fin that by simp
  have ok: "om_ok bs" by (rule om_ok_plugin_items [OF plug core(2)])
  have sub: "om_get bs n = Some i" if "om_get core n = Some i" for n i
    using that get [of n] core(1) by (simp add: from_items_def)
  have keys: "set (om_keys core) \<union> all_plugins core \<subseteq> set (om_keys bs)"
    using sub get known by (auto simp: set_om_keys)
  have plugins: "all_plugins core \<subseteq> all_plugins bs"
  proof
    fix p assume "p \<in> all_plugins core"
    then obtain m j where "om_get core m = Some j" "p \<in> set (bi_plugins j)"
      using om_ok_mem [OF core(2)] unfolding all_plugins_def by blast
    then show "p \<in> all_plugins bs"
      using sub map_of_SomeD [of bs m j] unfolding all_plugins_def by blast
  qed
  have item: "om_get items n = Some i \<and> set (bi_expanded_dependencies i) \<subseteq> set (om_keys bs) \<and>
      (n \<in> all_plugins bs \<or> set (bi_plugins i) \<subseteq> set (om_keys bs))" if i: "om_get bs n = Some i" for n i
  proof (cases "n \<in> all_plugins core")
    case True
    then have "om_get items n = Some i" using i get by simp
    then show ?thesis
      using all_plugins_plain(1) [OF assms(4) core(1) assms(3) core(2) True] True plugins by auto
  next
    case False
    then have c: "om_get core n = Some i" using i get by simp
    then have "(n, i) \<in> set core" by (rule map_of_SomeD)
    then have "set (bi_expanded_dependencies i) \<subseteq> expanded_deps core" "set (bi_plugins i) \<subseteq> all_plugins core"
      unfolding expanded_deps_def all_plugins_def by blast+
    then show ?thesis using c core keys by (auto simp: from_items_def)
  qed
  have same: "all_build_also bs = all_build_also core"
  proof -
    have "(\<exists>n i. om_get bs n = Some i \<and> b \<in> set (ic_build_also (bi_config i))) \<longleftrightarrow>
          (\<exists>n i. om_get core n = Some i \<and> b \<in> set (ic_build_also (bi_config i)))" for b
    proof
      assume "\<exists>n i. om_get bs n = Some i \<and> b \<in> set (ic_build_also (bi_config i))"
      then obtain n i where i: "om_get bs n = Some i" "b \<in> set (ic_build_also (bi_config i))" by blast
      have "n \<notin> all_plugins core"
      proof
        assume n: "n \<in> all_plugins core"
        then have "om_get items n = Some i" using i get by simp
        then show False using all_plugins_plain(2) [OF assms(4) core(1) assms(3) core(2) n] i(2) by simp
      qed
      then show "\<exists>n i. om_get core n = Some i \<and> b \<in> set (ic_build_also (bi_config i))" using i get by auto
    qed (use sub in blast)
    then show ?thesis by (simp add: all_build_also_get ok core(2))
  qed
  have named: "n \<in> set (om_keys bs)"
    if n: "om_get items n = Some i \<and> bi_isLocal i \<and> hasTraits i (bo_only_with_traits opts) \<and>
      itemIsInBuildAlso (bo_os opts) trees items (all_build_also bs) i = Inr True" for n i
  proof (rule ccontr)
    assume "n \<notin> set (om_keys bs)"
    then have "\<not> om_has core n" using keys by (auto simp: om_has_iff)
    moreover have "(n, i) \<in> set items" using n by (blast intro: map_of_SomeD)
    ultimately show False using build_also_nothing [OF also_closed] n same by fastforce
  qed
  show ?thesis using item named by blast
qed


section \<open>Concrete items\<close>

definition bs_error :: error where
  "bs_error = new_error NO_JOB [] \<lparr>any_errors = False, deprecate_is_error = False,
     error_callback = False, error_log = [], callback_log = []\<rparr>"

definition bs_config :: "string \<Rightarrow> build_also list \<Rightarrow> item_config" where
  "bs_config name bas =
     (ItemConfig bs_error False (FileLocation (''/w/'' @ name) 0 0)
       \<lparr>kv_error = bs_error, kv_filename = [], preferred_eol = [newline], kv_keys = {}, explicit_keys = {},
        kv_defaults = [], kv_data = [], kv_orig_data = []\<rparr> (''/w/'' @ name) [])
     \<lparr>ic_name := name, ic_build_also := bas\<rparr>"

definition bs_item :: "string \<Rightarrow> string list \<Rightarrow> string list \<Rightarrow> build_also list \<Rightarrow> build_item" where
  "bs_item name deps plugins bas =
     \<lparr>bi_item_name = name, bi_config = bs_config name bas, bi_deps = deps, bi_flag_data = [],
      bi_trait_data = [], bi_optional_dep_presence = [], bi_tree_name = ''t'', bi_forest_root = ''/w'',
      bi_backing_depth = 0, bi_platform_types = [], bi_platform_to_type = [], bi_build_platforms = {},
      bi_platform_data = None, bi_expanded_dependencies = deps, bi_shadowed_references = {},
      bi_interfaces = [], bi_target_type = tt_all, bi_plugins = plugins\<rparr>"

definition bs_items :: item_table where
  "bs_items = [(''a'', bs_item ''a'' [''b''] [''p''] [new_build_also ''c'' False]),
               (''b'', bs_item ''b'' [] [''p''] []), (''c'', bs_item ''c'' [''d''] [''p''] []),
               (''d'', bs_item ''d'' [] [''p''] []), (''p'', bs_item ''p'' [] [''q''] []),
               (''q'', bs_item ''q'' [] [] []), (''z'', bs_item ''z'' [''a''] [] [])]"

definition bs_os :: os where
  "bs_os = \<lparr>os_cwd = ''/'', os_links = [], os_file = \<lambda>p. False, os_directory = \<lambda>p. True,
     os_executable = \<lambda>p. False, os_env = \<lambda>v. None\<rparr>"

definition bs_options :: build_options where
  "bs_options =
     \<lparr>bo_whoami = ''abuild'', bo_os = bs_os, bo_this_name = ''a'', bo_local_tree = [],
      bo_current_directory = ''/w'', bo_buildset_name = [], bo_cleanset_name = [], bo_named_items = {},
      bo_pattern = [], bo_matches = \<lambda>s p. False, bo_only_with_traits = [], bo_related_by_traits = [],
      bo_apply_targets_to_deps = False, bo_with_rdeps = False, bo_repeat_expansion = False,
      bo_special_target = []\<rparr>"

lemma bs_run:
  "(case computeBuildset bs_options [] bs_items bs_error of
      Inl a \<Rightarrow> None | Inr (bs, targets, e) \<Rightarrow> Some (om_keys bs, targets)) =
   Some ([''a'', ''b'', ''c'', ''d'', ''p''], {''a'', ''c''})"
  by code_simp


lemma bs_items_okay: "om_ok bs_items" "plain_plugins bs_items" "building bs_options"
proof -
  show "om_ok bs_items" by (simp add: om_ok_def om_keys_def bs_items_def)
  show "plain_plugins bs_items"
    by (simp add: plain_plugins_def bs_items_def bs_item_def bs_config_def ItemConfig_def)
  show "building bs_options" by (simp add: building_def bs_options_def s_CLEAN_def)
qed

theorem computeBuildset_closed_witness:
  "\<exists>bs targets e. computeBuildset bs_options [] bs_items bs_error = Inr (bs, targets, e)
     \<and> om_keys bs = [''a'', ''b'', ''c'', ''d'', ''p''] \<and> targets = {''a'', ''c''}
     \<and> (\<forall>n i. om_get bs n = Some i \<longrightarrow> set (bi_expanded_dependencies i) \<subseteq> {''a'', ''b'', ''c'', ''d'', ''p''})"
proof -
  obtain bs targets e where run: "computeBuildset bs_options [] bs_items bs_error = Inr (bs, targets, e)"
    and keys: "om_keys bs = [''a'', ''b'', ''c'', ''d'', ''p'']" "targets = {''a'', ''c''}"
    using bs_run by (cases "computeBuildset bs_options [] bs_items bs_error") auto
  have "\<forall>n i. om_get bs n = Some i \<longrightarrow> set (bi_expanded_dependencies i) \<subseteq> set (om_keys bs)"
    using computeBuildset_closed [OF run bs_items_okay(3,1,2)] by blast
  then show ?thesis using run keys by (intro exI conjI) (assumption | simp)+
qed

end
