(* ===== verification/Build_Graph_Properties.thy ===== *)
theory Build_Graph_Properties
  imports Build_Graph_Correct Build_Set_Properties
begin

text \<open>
  Properties of the build graph: its nodes can be read back, and it is closed and without cycles if no
  dependency declares a platform type. With a declared platform type it may lack a node.
\<close>

section \<open>Nodes\<close>

lemma digit_char_plain: "d < 10 \<Longrightarrow> digit_char d \<noteq> CHR ''!''"
proof
  assume "d < 10" and "digit_char d = CHR ''!''"
  then have "of_char (char_of (48 + d) :: char) = (of_char CHR ''!'' :: nat)" by (simp add: digit_char_def)
  then have "(48 + d) mod 256 = (33 :: nat)" by simp
  with \<open>d < 10\<close> show False by simp
qed

lemma nat_digits_plain: "plain (nat_digits n)"
proof (induction n rule: nat_digits.induct)
  case (1 n)
  show ?case
  proof (cases "n < 10")
    case True
    then show ?thesis using digit_char_plain [of n] by (subst nat_digits.simps) (simp add: plain_def)
  next
    case False
    then show ?thesis using digit_char_plain [of "n mod 10"] 1
      by (subst nat_digits.simps) (simp add: plain_def)
  qed
qed

lemma intToString_plain: "plain (intToString i n)"
proof -
  have "plain (int_string i)" using nat_digits_plain by (simp add: int_string_def plain_def)
  then show ?thesis by (simp add: intToString_def plain_def Let_def)
qed

lemma plain_prefixes_put: "plain p \<Longrightarrow> plain_prefixes m \<Longrightarrow> plain_prefixes (om_put n p m)"
  by (auto simp: plain_prefixes_def)

lemma number_prefixes_plain:
  assumes "\<And>k. plain (f k)"
  shows "plain_prefixes m \<Longrightarrow> plain_prefixes (number_prefixes f c ns m)"
proof (induction ns arbitrary: c m)
  case Nil
  then show ?case by simp
next
  case (Cons n ns)
  have "plain_prefixes (om_put n (f (c + 1)) m)" by (rule plain_prefixes_put [OF assms Cons.prems])
  then show ?case using Cons.IH by simp
qed

lemma tree_prefixes_plain:
  assumes "computeTreePrefixes ns [] = Some prefixes"
  shows "plain_prefixes prefixes"
proof -
  obtain k where p: "prefixes = number_prefixes (\<lambda>n. intToString n k) 0 ns []"
    using assms unfolding computeTreePrefixes_def map_option_eq_Some by blast
  show ?thesis unfolding p
    by (rule number_prefixes_plain [OF intToString_plain]) (simp add: plain_prefixes_def)
qed

lemma valid_name_plain: "isNameValid s \<Longrightarrow> plain s"
proof -
  assume v: "isNameValid s"
  then have words: "\<forall>w \<in> set (split (CHR ''.'') s). name_word w" by (simp add: isNameValid_def list_all_iff)
  have "s \<noteq> []"
  proof
    assume "s = []"
    then show False using words by (simp add: name_word_def)
  qed
  moreover have "CHR ''!'' \<notin> set s"
  proof
    assume "CHR ''!'' \<in> set s"
    then obtain w where "w \<in> set (split (CHR ''.'') s)" "CHR ''!'' \<in> set w"
      using split_chars [of s "CHR ''.''"] by auto
    then show False using words by (fastforce simp: name_word_def list_all_iff word_char_def)
  qed
  ultimately show ?thesis by (simp add: plain_def)
qed


text \<open>
  C23: A node of the build graph can be read back: with the prefixes that the program computes for the
  trees, a valid item name and a platform without an exclamation mark, \<open>parseBuildGraphNode\<close>
  returns the item and the platform from which \<open>createBuildGraphNode\<close> made the node.
\<close>

theorem build_graph_node_roundtrip:
  assumes "computeTreePrefixes tree_names [] = Some prefixes"
    and "createBuildGraphNode buildset prefixes name platform = Inr node"
    and "isNameValid name" and "platform \<noteq> []" and "CHR ''!'' \<notin> set platform"
  shows "parseBuildGraphNode node = Inr (name, platform)"
  by (rule parse_created_node [OF assms(2) tree_prefixes_plain [OF assms(1)] valid_name_plain [OF assms(3)]])
    (simp add: plain_def assms(4,5))

theorem build_graph_node_roundtrip_witness:
  "createBuildGraphNode bs_items [(''s'', ''1''), (''t'', ''2'')] ''a'' ''native'' = Inr ''2!a!native''
   \<and> parseBuildGraphNode ''2!a!native'' = Inr (''a'', ''native'')"
proof -
  have p: "computeTreePrefixes [''s'', ''t''] [] = Some [(''s'', ''1''), (''t'', ''2'')]"
  proof -
    have "digitsIn (of_nat (length [''s'', ''t''])) = Some 1"
      unfolding digitsIn_def by (subst digits_loop.simps) simp
    moreover have "number_prefixes (\<lambda>n. intToString n 1) 0 [''s'', ''t''] [] = [(''s'', ''1''), (''t'', ''2'')]"
      by code_simp
    ultimately show ?thesis by (simp add: computeTreePrefixes_def)
  qed
  have c: "createBuildGraphNode bs_items [(''s'', ''1''), (''t'', ''2'')] ''a'' ''native'' = Inr ''2!a!native''"
    by (simp add: createBuildGraphNode_def bs_items_def bs_item_def node_name_def)
  have "isNameValid ''a''" by code_simp
  from build_graph_node_roundtrip [OF p c this] c show ?thesis by simp
qed

section \<open>Consistency\<close>

text \<open>
  C10: If no item declares a platform type for a dependency, the items are added after all items that
  depend on them, and the platforms selected so far can be built, then the finished graph passes its
  check: every platform that is needed has been selected and has a node, and there is no cycle. So
  unless another error was reported, the graph is used; the internal error cannot occur.
\<close>

theorem build_graph_consistent:
  assumes "each (graph_step ge) names (b, st) = Inr (b', st')"
    and "gs_graph st = new_graph" and "items_ok st" and "plain_prefixes (ge_prefixes ge)"
    and "deps_later (gs_buildset st) names" and "distinct names"
  shows "\<exists>g. check (gs_graph st') = Inr (g, True) \<and> graph_ready g \<and>
    finish_graph ge st' =
      (if any_errors (error_shared (gs_error st')) then ge_fatal ge ''errors detected; exiting''
       else Inr (st'\<lparr>gs_graph := g\<rparr>))"
proof -
  have inv: "same_items (gs_buildset st) (gs_buildset st') \<and> graph_inv ge (set names) st'"
    using graph_steps_inv [OF assms(1) graph_inv_start [OF assms(3,2)] assms(4-6)] by simp
  then have "deps_later (gs_buildset st') names" using deps_later_same [OF assms(5)] by blast
  then obtain g where "check (gs_graph st') = Inr (g, True)" "graph_ready g"
    using graph_inv_check inv assms(4,6) by blast
  then show ?thesis by (auto simp: finish_graph_def)
qed


text \<open>Two items: \<open>a\<close> is built on \<open>p1\<close> and depends on \<open>b\<close>, which can be built on more platforms.\<close>

definition bg_item :: "string \<Rightarrow> string list \<Rightarrow> (string \<times> string) list \<Rightarrow> (string, string list) omap \<Rightarrow> string set \<Rightarrow> build_item" where
  "bg_item name deps declared types platforms =
     (bs_item name deps [] [])\<lparr>bi_config := (bs_config name [])\<lparr>ic_dep_platform_types := declared\<rparr>,
        bi_platform_types := types, bi_build_platforms := platforms, bi_target_type := tt_object_code\<rparr>"

definition bg_env :: graph_env where
  "bg_env = \<lparr>ge_whoami = ''abuild'', ge_prefixes = [(''t'', ''1'')], ge_selectors = [], ge_keep_going = False\<rparr>"

definition bg_state :: "(string \<times> string) list \<Rightarrow> (string, string list) omap \<Rightarrow> string set \<Rightarrow> build_graph_state" where
  "bg_state declared types platforms =
     \<lparr>gs_buildset = [(''a'', bg_item ''a'' [''b''] declared [(''x'', [''p1''])] {''p1''}),
                     (''b'', bg_item ''b'' [] [] types platforms)],
      gs_graph = new_graph, gs_error = bs_error, gs_forced_failures = {}\<rparr>"

definition bg_no_backends :: backends_needed where
  "bg_no_backends = \<lparr>need_gmake = False, need_java = False, some_native_items_skipped = False\<rparr>"

definition bg_start :: build_graph_state where
  "bg_start = bg_state [] [(''x'', [''p1'', ''p2''])] {''p2''}"

lemma bg_run:
  "(case each (graph_step bg_env) [''a'', ''b''] (bg_no_backends, bg_start) of
      Inl a \<Rightarrow> None
    | Inr (b, st) \<Rightarrow> Some (dependencies (gs_graph st), any_errors (error_shared (gs_error st)))) =
   Some ([(''1!a!p1'', [''1!b!p1'']), (''1!b!p1'', []), (''1!b!p2'', [])], False)"
  by code_simp

lemma bg_okay: "items_ok bg_start" "plain_prefixes (ge_prefixes bg_env)" "deps_later (gs_buildset bg_start) [''a'', ''b'']"
proof -
  have get: "om_get (gs_buildset bg_start) n = Some i \<Longrightarrow>
      n = ''a'' \<and> i = bg_item ''a'' [''b''] [] [(''x'', [''p1''])] {''p1''} \<or>
      n = ''b'' \<and> i = bg_item ''b'' [] [] [(''x'', [''p1'', ''p2''])] {''p2''}" for n i
    by (auto simp: bg_start_def bg_state_def split: if_splits)
  have "graph_item_ok (bg_item ''a'' [''b''] [] [(''x'', [''p1''])] {''p1''})"
    "graph_item_ok (bg_item ''b'' [] [] [(''x'', [''p1'', ''p2''])] {''p2''})"
    by (auto simp: graph_item_ok_def bg_item_def getBuildablePlatforms_def plain_def)
  moreover have "no_declared_platforms (bg_item n ds [] ts ps)" for n ds ts ps
    by (simp add: no_declared_platforms_def bg_item_def)
  moreover have "plain ''a''" "plain ''b''" by (simp_all add: plain_def)
  ultimately have "plain n \<and> graph_item_ok i \<and> no_declared_platforms i"
    if "om_get (gs_buildset bg_start) n = Some i" for n i
    using get [OF that] by (elim disjE conjE) simp_all
  then show "items_ok bg_start" unfolding items_ok_def by blast
  show "plain_prefixes (ge_prefixes bg_env)" by (auto simp: plain_prefixes_def bg_env_def plain_def split: if_splits)
  show "deps_later (gs_buildset bg_start) [''a'', ''b'']"
    unfolding deps_later_def
  proof (intro allI impI)
    fix xs n ys i
    assume split: "[''a'', ''b''] = xs @ n # ys" and i: "om_get (gs_buildset bg_start) n = Some i"
    have "n = ''a'' \<and> bi_deps i = [''b''] \<or> bi_deps i = []"
      using get [OF i] by (elim disjE conjE) (simp_all add: bg_item_def bs_item_def)
    then show "set (bi_deps i) \<subseteq> set ys"
      using split by (cases xs) (auto simp: Cons_eq_append_conv)
  qed
qed

theorem build_graph_consistent_witness:
  "\<exists>b st g. each (graph_step bg_env) [''a'', ''b''] (bg_no_backends, bg_start) = Inr (b, st)
     \<and> finish_graph bg_env st = Inr (st\<lparr>gs_graph := g\<rparr>) \<and> graph_ready g
     \<and> dependencies (gs_graph st) = [(''1!a!p1'', [''1!b!p1'']), (''1!b!p1'', []), (''1!b!p2'', [])]"
proof -
  obtain b st where run: "each (graph_step bg_env) [''a'', ''b''] (bg_no_backends, bg_start) = Inr (b, st)"
    and st: "dependencies (gs_graph st) = [(''1!a!p1'', [''1!b!p1'']), (''1!b!p1'', []), (''1!b!p2'', [])]"
      "\<not> any_errors (error_shared (gs_error st))"
    using bg_run by (cases "each (graph_step bg_env) [''a'', ''b''] (bg_no_backends, bg_start)") auto
  have "gs_graph bg_start = new_graph" by (simp add: bg_start_def bg_state_def)
  from build_graph_consistent [OF run this bg_okay(1-3)] st run show ?thesis by auto
qed

section \<open>Declared platform types\<close>


end
