(* ===== verification/Thread_Safe_Queue.thy ===== *)
theory Thread_Safe_Queue
  imports Prelude
begin

text \<open>
  \<open>ThreadSafeQueue\<close> (\<open>src/src/ThreadSafeQueue.hh\<close>). The mutex makes every operation atomic, so an
  operation is a function on the contents of the queue. An operation that waits for a condition
  that does not hold is \<open>Blocked\<close>, with its timeout: 0 waits for ever, another value throws
  \<open>TimeOut\<close> after that many seconds without a notification.
\<close>

section \<open>Operations\<close>

datatype 'r waiting = Proceeds 'r | Blocked int

type_synonym 'a ts_queue = "'a list"

definition isEmpty :: "'a ts_queue \<Rightarrow> bool" where
  "isEmpty q = (q = [])"

definition enqueue :: "'a \<Rightarrow> bool \<Rightarrow> 'a ts_queue \<Rightarrow> 'a ts_queue" where
  "enqueue item first q = (if first then item # q else q @ [item])"

definition dequeue :: "int \<Rightarrow> 'a ts_queue \<Rightarrow> ('a \<times> 'a ts_queue) waiting" where
  "dequeue timeout q = (case q of [] \<Rightarrow> Blocked timeout | item # q' \<Rightarrow> Proceeds (item, q'))"

definition head :: "int \<Rightarrow> 'a ts_queue \<Rightarrow> 'a waiting" where
  "head timeout q = (case q of [] \<Rightarrow> Blocked timeout | item # q' \<Rightarrow> Proceeds item)"

definition waitUntilEmpty :: "int \<Rightarrow> 'a ts_queue \<Rightarrow> unit waiting" where
  "waitUntilEmpty timeout q = (if isEmpty q then Proceeds () else Blocked timeout)"

definition removeIf :: "('a \<Rightarrow> bool) \<Rightarrow> 'a ts_queue \<Rightarrow> 'a ts_queue" where
  "removeIf pr q = filter (\<lambda>x. \<not> pr x) q"

section \<open>The interface of a queue between two threads\<close>

text \<open>
  What \<open>WorkerPool\<close> relies on: items come out in the order in which they went in, and a thread
  that takes from the queue waits only while it is empty.
\<close>

locale fifo =
  fixes put :: "'a \<Rightarrow> 'q \<Rightarrow> 'q"
    and take_first :: "'q \<Rightarrow> ('a \<times> 'q) waiting"
    and contents :: "'q \<Rightarrow> 'a list"
  assumes contents_put: "contents (put x q) = contents q @ [x]"
    and take_blocked: "take_first q = Blocked t \<Longrightarrow> contents q = []"
    and take_proceeds: "take_first q = Proceeds (x, q') \<Longrightarrow> contents q = x # contents q'"
begin

lemma contents_puts: "contents (fold put xs q) = contents q @ xs"
  by (induction xs arbitrary: q) (simp_all add: contents_put)

lemma take_nonempty: "contents q = x # xs \<Longrightarrow> \<exists>q'. take_first q = Proceeds (x, q') \<and> contents q' = xs"
  using take_blocked take_proceeds by (cases "take_first q") force+

lemma take_put_empty: "contents q = [] \<Longrightarrow> \<exists>q'. take_first (put x q) = Proceeds (x, q') \<and> contents q' = []"
  by (rule take_nonempty) (simp add: contents_put)

end

interpretation ts: fifo "\<lambda>x. enqueue x False" "dequeue 0" "\<lambda>q. q"
  by unfold_locales (auto simp: enqueue_def dequeue_def split: list.splits)

lemma dequeue_eq [simp]:
  "dequeue t [] = Blocked t" "dequeue t (x # q) = Proceeds (x, q)"
  "dequeue t q = Proceeds (y, q') \<longleftrightarrow> q = y # q'"
  by (auto simp: dequeue_def split: list.splits)

end
