(* ===== verification/Worker_Pool.thy ===== *)
theory Worker_Pool
  imports Thread_Safe_Queue "HOL-Library.Multiset"
begin

text \<open>
  \<open>WorkerPool\<close> (\<open>src/src/WorkerPool.hh\<close>): \<open>num_workers\<close> threads, each with a queue of its own from
  which it takes items, a shared list of results and a shared list of the workers that wait for an
  item. Every block that holds the pool's mutex is one atomic step. The threads are the step
  relation \<open>worker_step\<close>; \<open>meth item status\<close> says which results the method passed to the
  constructor may return for an item. The functions that the owner of the pool calls are functions
  on the pool; one that would block has the value None, and \<open>wait\<close> and \<open>waitForResults\<close> are the
  conditions on which they return.
\<close>

section \<open>State\<close>

datatype 'i worker = W_starting | W_waiting | W_busy 'i | W_exited

record ('i, 's) pool =
  num_workers :: nat
  shutdown_requested :: bool
  results :: "('i \<times> 's) list"
  available_workers :: "nat list"
  queues :: "(bool \<times> 'i) ts_queue list"
  threads :: "'i worker list"

definition new_pool :: "nat \<Rightarrow> ('i, 's) pool res" where
  "new_pool n =
     assert_res (n \<ge> 1) ''num_workers >= 1''
     (Inr \<lparr>num_workers = n, shutdown_requested = False, results = [], available_workers = [],
           queues = replicate n [], threads = replicate n W_starting\<rparr>)"

section \<open>Operations of the owner\<close>

definition wait_returns :: "('i, 's) pool \<Rightarrow> bool" where
  "wait_returns p \<longleftrightarrow> \<not> (\<not> shutdown_requested p \<and> results p = [] \<and> available_workers p = [])"

definition waitForResults_returns :: "('i, 's) pool \<Rightarrow> bool" where
  "waitForResults_returns p \<longleftrightarrow>
     \<not> (\<not> shutdown_requested p \<and> results p = [] \<and> length (available_workers p) < num_workers p)"

definition shutdownRequested :: "('i, 's) pool \<Rightarrow> bool" where
  "shutdownRequested p = shutdown_requested p"

definition resultsAvailable :: "('i, 's) pool \<Rightarrow> bool" where
  "resultsAvailable p \<longleftrightarrow> results p \<noteq> []"

definition availableWorkers :: "('i, 's) pool \<Rightarrow> int" where
  "availableWorkers p = int (length (available_workers p))"

definition busyWorkers :: "('i, 's) pool \<Rightarrow> int" where
  "busyWorkers p = int (num_workers p) - int (length (available_workers p))"

definition idle :: "('i, 's) pool \<Rightarrow> bool" where
  "idle p \<longleftrightarrow> length (available_workers p) = num_workers p \<and> results p = []"

definition getResults :: "('i, 's) pool \<Rightarrow> (('i \<times> 's) \<times> ('i, 's) pool) option" where
  "getResults p = (case results p of [] \<Rightarrow> None | r # rs \<Rightarrow> Some (r, p\<lparr>results := rs\<rparr>))"

definition processItem :: "'i \<Rightarrow> ('i, 's) pool \<Rightarrow> ('i, 's) pool option" where
  "processItem item p =
     (case available_workers p of
        [] \<Rightarrow> None
      | w # ws \<Rightarrow> Some (p\<lparr>available_workers := ws,
                         queues := (queues p)[w := enqueue (True, item) False (queues p ! w)]\<rparr>))"

definition requestShutdown :: "'i \<Rightarrow> ('i, 's) pool \<Rightarrow> ('i, 's) pool" where
  "requestShutdown no_item p =
     p\<lparr>shutdown_requested := True, queues := map (enqueue (False, no_item) False) (queues p)\<rparr>"

definition joinThreads_returns :: "('i, 's) pool \<Rightarrow> bool" where
  "joinThreads_returns p \<longleftrightarrow> (\<forall>t \<in> set (threads p). t = W_exited)"

section \<open>The workers\<close>

inductive worker_step :: "('i \<Rightarrow> 's \<Rightarrow> bool) \<Rightarrow> ('i, 's) pool \<Rightarrow> ('i, 's) pool \<Rightarrow> bool"
  for meth :: "'i \<Rightarrow> 's \<Rightarrow> bool"
where
  step_start: "w < num_workers p \<Longrightarrow> threads p ! w = W_starting \<Longrightarrow>
     worker_step meth p (p\<lparr>available_workers := available_workers p @ [w],
                           threads := (threads p)[w := W_waiting]\<rparr>)"
| step_take: "w < num_workers p \<Longrightarrow> threads p ! w = W_waiting \<Longrightarrow>
     dequeue 0 (queues p ! w) = Proceeds ((True, item), q) \<Longrightarrow>
     worker_step meth p (p\<lparr>queues := (queues p)[w := q], threads := (threads p)[w := W_busy item]\<rparr>)"
| step_exit: "w < num_workers p \<Longrightarrow> threads p ! w = W_waiting \<Longrightarrow>
     dequeue 0 (queues p ! w) = Proceeds ((False, item), q) \<Longrightarrow>
     worker_step meth p (p\<lparr>queues := (queues p)[w := q], threads := (threads p)[w := W_exited]\<rparr>)"
| step_finish: "w < num_workers p \<Longrightarrow> threads p ! w = W_busy item \<Longrightarrow> meth item s \<Longrightarrow>
     worker_step meth p (p\<lparr>results := results p @ [(item, s)],
                           available_workers := available_workers p @ [w],
                           threads := (threads p)[w := W_waiting]\<rparr>)"

inductive_cases worker_stepE: "worker_step meth p p'"

section \<open>The invariant\<close>

text \<open>
  Before a shutdown a worker is in one of four situations: not yet started, available with an empty
  queue, given one item that it has not taken yet, or busy.
\<close>

fun situation_ok :: "'i worker \<Rightarrow> bool \<Rightarrow> (bool \<times> 'i) ts_queue \<Rightarrow> bool" where
  "situation_ok W_starting available q \<longleftrightarrow> \<not> available \<and> q = []"
| "situation_ok W_waiting available q \<longleftrightarrow> (if available then q = [] else \<exists>i. q = [(True, i)])"
| "situation_ok (W_busy i) available q \<longleftrightarrow> \<not> available \<and> q = []"
| "situation_ok W_exited available q \<longleftrightarrow> False"

definition worker_ok :: "('i, 's) pool \<Rightarrow> nat \<Rightarrow> bool" where
  "worker_ok p w = situation_ok (threads p ! w) (w \<in> set (available_workers p)) (queues p ! w)"

definition pool_inv :: "('i, 's) pool \<Rightarrow> bool" where
  "pool_inv p \<longleftrightarrow> num_workers p \<ge> 1 \<and> \<not> shutdown_requested p
     \<and> length (queues p) = num_workers p \<and> length (threads p) = num_workers p
     \<and> distinct (available_workers p) \<and> set (available_workers p) \<subseteq> {..<num_workers p}
     \<and> (\<forall>w < num_workers p. worker_ok p w)"

lemma worker_okD:
  assumes "pool_inv p" and "w < num_workers p"
  shows "threads p ! w = W_starting \<Longrightarrow> w \<notin> set (available_workers p) \<and> queues p ! w = []"
    and "threads p ! w = W_waiting \<Longrightarrow> w \<in> set (available_workers p) \<and> queues p ! w = []
           \<or> w \<notin> set (available_workers p) \<and> (\<exists>i. queues p ! w = [(True, i)])"
    and "threads p ! w = W_busy i \<Longrightarrow> w \<notin> set (available_workers p) \<and> queues p ! w = []"
    and "threads p ! w \<noteq> W_exited"
    and "w \<in> set (available_workers p) \<Longrightarrow> threads p ! w = W_waiting \<and> queues p ! w = []"
proof -
  have "worker_ok p w" using assms by (simp add: pool_inv_def)
  then show "threads p ! w = W_starting \<Longrightarrow> w \<notin> set (available_workers p) \<and> queues p ! w = []"
    and "threads p ! w = W_waiting \<Longrightarrow> w \<in> set (available_workers p) \<and> queues p ! w = []
           \<or> w \<notin> set (available_workers p) \<and> (\<exists>i. queues p ! w = [(True, i)])"
    and "threads p ! w = W_busy i \<Longrightarrow> w \<notin> set (available_workers p) \<and> queues p ! w = []"
    and "threads p ! w \<noteq> W_exited"
    and "w \<in> set (available_workers p) \<Longrightarrow> threads p ! w = W_waiting \<and> queues p ! w = []"
    unfolding worker_ok_def by (cases "threads p ! w"; auto split: if_splits)+
qed

lemma new_pool_inv: "n \<ge> 1 \<Longrightarrow> \<exists>p. new_pool n = Inr p \<and> pool_inv p"
  by (simp add: new_pool_def pool_inv_def worker_ok_def)

text \<open>A step that concerns one worker keeps the invariant if it keeps that worker's part.\<close>

lemma pool_inv_change:
  assumes "pool_inv p" and "num_workers p' = num_workers p" and "\<not> shutdown_requested p'"
    and "length (queues p') = length (queues p)" and "length (threads p') = length (threads p)"
    and "distinct (available_workers p')" and "set (available_workers p') \<subseteq> insert w (set (available_workers p))"
    and "w < num_workers p" and "worker_ok p' w"
    and other: "\<And>v. v \<noteq> w \<Longrightarrow> threads p' ! v = threads p ! v \<and> queues p' ! v = queues p ! v
        \<and> (v \<in> set (available_workers p') \<longleftrightarrow> v \<in> set (available_workers p))"
  shows "pool_inv p'"
proof -
  have "worker_ok p' v" if "v < num_workers p" for v
  proof (cases "v = w")
    case True
    then show ?thesis using assms(9) by simp
  next
    case False
    then have "worker_ok p' v \<longleftrightarrow> worker_ok p v" using other [of v] by (simp add: worker_ok_def)
    then show ?thesis using assms(1) that by (simp add: pool_inv_def)
  qed
  then show ?thesis using assms(1-8) by (auto simp: pool_inv_def)
qed

lemma worker_step_inv:
  assumes "pool_inv p" and "worker_step meth p p'"
  shows "pool_inv p'"
proof -
  have inv: "\<not> shutdown_requested p" "length (queues p) = num_workers p"
      "length (threads p) = num_workers p" "distinct (available_workers p)"
    using assms(1) by (simp_all add: pool_inv_def)
  note ok = worker_okD [OF assms(1)]
  from assms(2) show ?thesis
  proof cases
    case (step_start w)
    then show ?thesis using ok(1) [of w] inv
      by (intro pool_inv_change [OF assms(1), of p' w]) (auto simp: worker_ok_def)
  next
    case (step_take w item q)
    then show ?thesis using ok(2) [of w] inv
      by (intro pool_inv_change [OF assms(1), of p' w]) (auto simp: worker_ok_def)
  next
    case (step_exit w item q)
    then show ?thesis using ok(2) [of w] by auto
  next
    case (step_finish w item s)
    then show ?thesis using ok(3) [of w item] inv
      by (intro pool_inv_change [OF assms(1), of p' w]) (auto simp: worker_ok_def)
  qed
qed

lemma worker_ok_results [simp]: "worker_ok (p\<lparr>results := rs\<rparr>) w = worker_ok p w"
  by (simp add: worker_ok_def)

lemma getResults_inv: "pool_inv p \<Longrightarrow> getResults p = Some (r, p') \<Longrightarrow> pool_inv p'"
  by (auto simp: getResults_def pool_inv_def split: list.splits)

lemma processItem_inv:
  assumes "pool_inv p" and "processItem i p = Some p'"
  shows "pool_inv p'"
proof -
  obtain w ws where w: "available_workers p = w # ws"
      and p': "p' = p\<lparr>available_workers := ws, queues := (queues p)[w := queues p ! w @ [(True, i)]]\<rparr>"
    using assms(2) by (auto simp: processItem_def enqueue_def split: list.splits)
  have inv: "\<not> shutdown_requested p" "length (queues p) = num_workers p" "distinct (w # ws)"
      "w < num_workers p"
    using assms(1) w by (auto simp: pool_inv_def)
  then show ?thesis
    using worker_okD(5) [OF assms(1), of w] w
    by (intro pool_inv_change [OF assms(1), of p' w]) (auto simp: p' worker_ok_def)
qed

section \<open>No item is lost or duplicated\<close>

text \<open>The items of a worker, and all items that the pool has been given and has not given back.\<close>

definition held :: "('i, 's) pool \<Rightarrow> nat \<Rightarrow> 'i multiset" where
  "held p w = (case threads p ! w of W_busy i \<Rightarrow> {#i#} | _ \<Rightarrow> {#})
     + mset (map snd (filter fst (queues p ! w)))"

definition pending :: "('i, 's) pool \<Rightarrow> 'i multiset" where
  "pending p = mset (map fst (results p)) + (\<Sum>w < num_workers p. held p w)"

lemma sum_held_update:
  assumes "w < (n :: nat)" and "\<And>v. v < n \<Longrightarrow> v \<noteq> w \<Longrightarrow> f v = g v"
  shows "(\<Sum>v < n. f v) + g w = (\<Sum>v < n. g v) + (f w :: 'a multiset)"
proof -
  have "(\<Sum>v < n. f v) = f w + (\<Sum>v \<in> {..<n} - {w}. f v)" using assms(1) by (intro sum.remove) auto
  moreover have "(\<Sum>v < n. g v) = g w + (\<Sum>v \<in> {..<n} - {w}. g v)"
    using assms(1) by (intro sum.remove) auto
  moreover have "(\<Sum>v \<in> {..<n} - {w}. f v) = (\<Sum>v \<in> {..<n} - {w}. g v)"
    using assms(2) by (intro sum.cong) auto
  ultimately show ?thesis by (simp add: ac_simps)
qed

lemma pending_update:
  assumes "w < num_workers p" and "num_workers p' = num_workers p"
    and "\<And>v. v < num_workers p \<Longrightarrow> v \<noteq> w \<Longrightarrow> held p' v = held p v"
    and "mset (map fst (results p')) + held p' w = mset (map fst (results p)) + held p w + d"
  shows "pending p' = pending p + d"
proof -
  have "(\<Sum>v < num_workers p. held p' v) + held p w = (\<Sum>v < num_workers p. held p v) + held p' w"
    by (rule sum_held_update [OF assms(1)]) (rule assms(3))
  then have "pending p' + held p w
      = mset (map fst (results p')) + ((\<Sum>v < num_workers p. held p v) + held p' w)"
    by (simp add: pending_def assms(2) add.assoc)
  also have "\<dots> = (mset (map fst (results p')) + held p' w) + (\<Sum>v < num_workers p. held p v)"
    by (simp only: ac_simps)
  also have "\<dots> = (pending p + d) + held p w"
    unfolding assms(4) pending_def by (simp only: ac_simps)
  finally show ?thesis by simp
qed

lemma worker_step_pending:
  assumes "pool_inv p" and "worker_step meth p p'"
  shows "pending p' = pending p"
proof -
  have len: "length (queues p) = num_workers p" "length (threads p) = num_workers p"
    using assms(1) by (simp_all add: pool_inv_def)
  from assms(2) have "\<exists>w. w < num_workers p \<and> num_workers p' = num_workers p
      \<and> (\<forall>v < num_workers p. v \<noteq> w \<longrightarrow> held p' v = held p v)
      \<and> mset (map fst (results p')) + held p' w = mset (map fst (results p)) + held p w + {#}"
  proof cases
    case (step_start w)
    then show ?thesis by (intro exI [of _ w]) (simp add: held_def len)
  next
    case (step_take w item q)
    then show ?thesis by (intro exI [of _ w]) (simp add: held_def len)
  next
    case (step_exit w item q)
    then show ?thesis by (intro exI [of _ w]) (simp add: held_def len)
  next
    case (step_finish w item s)
    then show ?thesis by (intro exI [of _ w]) (simp add: held_def len)
  qed
  then show ?thesis using pending_update [of _ p p' "{#}"] by auto
qed

lemma getResults_pending:
  "getResults p = Some ((i, s), p') \<Longrightarrow> pending p = add_mset i (pending p')"
  by (auto simp: getResults_def pending_def held_def split: list.splits)

lemma processItem_pending:
  assumes "pool_inv p" and "processItem i p = Some p'"
  shows "pending p' = add_mset i (pending p)"
proof -
  obtain w ws where w: "available_workers p = w # ws"
      and p': "p' = p\<lparr>available_workers := ws, queues := (queues p)[w := queues p ! w @ [(True, i)]]\<rparr>"
    using assms(2) by (auto simp: processItem_def enqueue_def split: list.splits)
  have wn: "w < num_workers p" "length (queues p) = num_workers p"
    using assms(1) w by (auto simp: pool_inv_def)
  then have "pending p' = pending p + {#i#}"
    by (intro pending_update [OF wn(1)]) (simp_all add: p' held_def)
  then show ?thesis by simp
qed

lemma idle_pending:
  assumes "pool_inv p" and "idle p"
  shows "pending p = {#}"
proof -
  have "card (set (available_workers p)) = num_workers p"
    using assms by (simp add: pool_inv_def idle_def distinct_card)
  then have all: "set (available_workers p) = {..<num_workers p}"
    using assms(1) by (intro card_subset_eq) (auto simp: pool_inv_def)
  have "held p w = {#}" if "w < num_workers p" for w
    using worker_okD(5) [OF assms(1) that] all that by (simp add: held_def)
  then show ?thesis using assms(2) by (simp add: pending_def idle_def)
qed

section \<open>Progress of the workers\<close>

text \<open>Without a shutdown some worker can take a step unless all of them are available.\<close>

lemma worker_progress:
  assumes "pool_inv p" and "length (available_workers p) < num_workers p" and "\<And>i. \<exists>s. meth i s"
  shows "\<exists>p'. worker_step meth p p'"
proof -
  have "card (set (available_workers p)) < card {..<num_workers p}"
    using assms(1,2) by (simp add: pool_inv_def distinct_card)
  then obtain w where w: "w < num_workers p" "w \<notin> set (available_workers p)"
    by (metis card_mono finite_set lessThan_iff linorder_not_le subsetI)
  show ?thesis
  proof (cases "threads p ! w")
    case W_starting
    then show ?thesis using step_start [OF w(1)] by blast
  next
    case W_waiting
    then obtain i where "queues p ! w = [(True, i)]" using worker_okD(2) [OF assms(1) w(1)] w(2) by blast
    then show ?thesis using step_take [OF w(1) W_waiting, of i "[]"] by auto
  next
    case (W_busy i)
    then show ?thesis using step_finish [OF w(1)] assms(3) by blast
  next
    case W_exited
    then show ?thesis using worker_okD(4) [OF assms(1) w(1)] by blast
  qed
qed

text \<open>Every step of a worker uses up work, so the workers come to rest.\<close>

fun worker_work :: "'i worker \<Rightarrow> (bool \<times> 'i) ts_queue \<Rightarrow> nat" where
  "worker_work W_starting q = Suc (2 * length q)"
| "worker_work W_waiting q = 2 * length q"
| "worker_work (W_busy i) q = Suc (2 * length q)"
| "worker_work W_exited q = 0"

definition work_left :: "('i, 's) pool \<Rightarrow> nat" where
  "work_left p = (\<Sum>w < num_workers p. worker_work (threads p ! w) (queues p ! w))"

lemma worker_step_work:
  assumes "worker_step meth p p'" and "length (queues p) = num_workers p"
    and "length (threads p) = num_workers p"
  shows "work_left p' < work_left p"
proof -
  have less: "(\<Sum>v < n. f v) < (\<Sum>v < n. g v)"
    if "w < n" "f w < g w" "\<And>v. v \<noteq> w \<Longrightarrow> f v = g v" for w n and f g :: "nat \<Rightarrow> nat"
  proof (rule sum_strict_mono_ex1)
    show "\<forall>v \<in> {..<n}. f v \<le> g v" using that(2,3) by (metis less_imp_le order_refl)
    show "\<exists>v \<in> {..<n}. f v < g v" using that(1,2) by blast
  qed simp
  from assms(1) show ?thesis
  proof cases
    case (step_start w)
    then show ?thesis using assms(2,3) unfolding work_left_def by (simp, intro less [of w]) auto
  next
    case (step_take w item q)
    then show ?thesis using assms(2,3) unfolding work_left_def by (simp, intro less [of w]) auto
  next
    case (step_exit w item q)
    then show ?thesis using assms(2,3) unfolding work_left_def by (simp, intro less [of w]) auto
  next
    case (step_finish w item s)
    then show ?thesis using assms(2,3) unfolding work_left_def by (simp, intro less [of w]) auto
  qed
qed

section \<open>Shutdown\<close>

text \<open>After \<open>requestShutdown\<close> every worker that has not exited still finds the request in its queue.\<close>

definition closing :: "('i, 's) pool \<Rightarrow> bool" where
  "closing p \<longleftrightarrow> shutdown_requested p
     \<and> length (queues p) = num_workers p \<and> length (threads p) = num_workers p
     \<and> (\<forall>w < num_workers p. threads p ! w = W_exited \<or> (\<exists>e \<in> set (queues p ! w). \<not> fst e))"

lemma requestShutdown_closing: "pool_inv p \<Longrightarrow> closing (requestShutdown i p)"
  by (auto simp: closing_def requestShutdown_def pool_inv_def enqueue_def)

lemma worker_step_closing:
  assumes "closing p" and "worker_step meth p p'"
  shows "closing p'"
  using assms(2)
proof cases
  case (step_start w)
  then show ?thesis using assms(1) by (auto simp: closing_def nth_list_update)
next
  case (step_take w item q)
  then have "\<exists>e \<in> set q. \<not> fst e" using assms(1) by (force simp: closing_def)
  then show ?thesis using step_take assms(1) by (auto simp: closing_def nth_list_update)
next
  case (step_exit w item q)
  then show ?thesis using assms(1) by (auto simp: closing_def nth_list_update)
next
  case (step_finish w item s)
  then show ?thesis using assms(1) by (auto simp: closing_def nth_list_update)
qed

lemma closing_progress:
  assumes "closing p" and "\<not> joinThreads_returns p" and "\<And>i. \<exists>s. meth i s"
  shows "\<exists>p'. worker_step meth p p'"
proof -
  obtain w where w: "w < num_workers p" "threads p ! w \<noteq> W_exited"
    using assms(1,2) by (auto simp: joinThreads_returns_def closing_def in_set_conv_nth)
  then obtain e where "e \<in> set (queues p ! w)" using assms(1) by (auto simp: closing_def)
  then obtain b i q where q: "queues p ! w = (b, i) # q" by (cases "queues p ! w") auto
  show ?thesis
  proof (cases "threads p ! w")
    case W_starting
    then show ?thesis using step_start [OF w(1)] by blast
  next
    case W_waiting
    then show ?thesis using step_take [OF w(1) W_waiting, of i q] step_exit [OF w(1) W_waiting, of i q] q
      by (cases b) auto
  next
    case (W_busy i)
    then show ?thesis using step_finish [OF w(1)] assms(3) by blast
  qed (use w in simp)
qed

end
