(* ===== verification/Dependency_Evaluator.thy ===== *)
theory Dependency_Evaluator
  imports Dependency_Graph_Check
begin

text \<open>
  The class \<open>DependencyEvaluator\<close> (\<open>src/src/DependencyEvaluator.cc\<close>): the state of every item of an
  error-free graph, re-evaluated when an item completes or fails. The change callback is a log of
  its calls; \<open>has_callback\<close> says whether one has been set. The queries on the graph are
  \<open>direct_deps\<close> and \<open>reverse_deps\<close>, which are what the C++ accessors return for the items of the
  graph (lemma \<open>queries_ready\<close>).
\<close>

section \<open>State\<close>

datatype item_state = I_waiting | I_ready | I_running | I_completed | I_failed | I_depfailed

record evaluator =
  ev_graph :: dgraph
  states :: "(item, item_state) omap"
  propagate_failure :: bool
  num_running :: int
  has_callback :: bool
  callback_log :: "(item \<times> item_state) list"

definition state_of :: "evaluator \<Rightarrow> item \<Rightarrow> item_state" where
  "state_of ev i = om_get_default I_waiting (states ev) i"

definition new_evaluator :: "dgraph \<Rightarrow> evaluator res" where
  "new_evaluator g =
     bind_res (check_const g) (\<lambda>ok.
     assert_res ok ''graph.check()''
     (bind_res (getSortedGraph g) (\<lambda>order.
      Inr \<lparr>ev_graph = g,
           states = fold (\<lambda>i. om_put i (if direct_deps g i = [] then I_ready else I_waiting)) order [],
           propagate_failure = True, num_running = 0, has_callback = False, callback_log = []\<rparr>)))"

fun unparseState :: "item_state \<Rightarrow> string" where
  "unparseState I_waiting = ''waiting''"
| "unparseState I_ready = ''ready''"
| "unparseState I_running = ''running''"
| "unparseState I_completed = ''completed''"
| "unparseState I_failed = ''failed''"
| "unparseState I_depfailed = ''dependency-failed''"

definition disableFailurePropagation :: "evaluator \<Rightarrow> evaluator" where
  "disableFailurePropagation ev = ev\<lparr>propagate_failure := False\<rparr>"

section \<open>Evaluation\<close>

definition setItemState :: "item \<Rightarrow> item_state \<Rightarrow> evaluator \<Rightarrow> evaluator" where
  "setItemState i s ev =
     (if state_of ev i \<noteq> s
      then ev\<lparr>states := om_put i s (states ev),
              callback_log := callback_log ev @ (if has_callback ev then [(i, s)] else [])\<rparr>
      else ev)"

text \<open>
  The loop over the dependencies: it returns \<open>failed\<close> and \<open>blocked\<close>, and stops at the first failed
  dependency, also when failures are not propagated.
\<close>

fun scan_deps :: "bool \<Rightarrow> (item \<Rightarrow> item_state) \<Rightarrow> item list \<Rightarrow> bool \<Rightarrow> bool \<times> bool" where
  "scan_deps propagate st [] blocked = (False, blocked)"
| "scan_deps propagate st (d # ds) blocked =
     (if st d = I_failed \<or> st d = I_depfailed then (propagate, blocked)
      else if st d \<noteq> I_completed then scan_deps propagate st ds True
      else scan_deps propagate st ds blocked)"

function (domintros) evaluate :: "item \<Rightarrow> evaluator \<Rightarrow> evaluator"
  and evaluate_all :: "item list \<Rightarrow> evaluator \<Rightarrow> evaluator" where
  "evaluate i ev =
     (if state_of ev i \<in> {I_running, I_completed, I_failed, I_depfailed} then ev
      else
        let fb = scan_deps (propagate_failure ev) (state_of ev) (direct_deps (ev_graph ev) i) False in
        if fst fb then evaluate_all (reverse_deps (ev_graph ev) i) (setItemState i I_depfailed ev)
        else if \<not> snd fb then setItemState i I_ready ev
        else ev)"
| "evaluate_all [] ev = ev"
| "evaluate_all (i # is) ev = evaluate_all is (evaluate i ev)"
  by pat_completeness auto

text \<open>
  Every nested call is made after one more item has become \<open>I_depfailed\<close>; the number of the
  others among the items with reverse dependencies decreases.
\<close>

definition unfailed :: "evaluator \<Rightarrow> item set" where
  "unfailed ev = {i \<in> set (om_keys (reverse_dependencies (ev_graph ev))). state_of ev i \<noteq> I_depfailed}"

lemma finite_unfailed [simp]: "finite (unfailed ev)"
  by (simp add: unfailed_def)

lemma state_setItemState [simp]:
  "state_of (setItemState i s ev) x = (if x = i then s else state_of ev x)"
  by (simp add: setItemState_def state_of_def)

lemma setItemState_frame [simp]:
  "ev_graph (setItemState i s ev) = ev_graph ev"
  "propagate_failure (setItemState i s ev) = propagate_failure ev"
  "num_running (setItemState i s ev) = num_running ev"
  "has_callback (setItemState i s ev) = has_callback ev"
  by (simp_all add: setItemState_def)

lemma unfailed_step:
  "state_of ev i \<noteq> I_depfailed \<Longrightarrow> s \<noteq> I_depfailed \<Longrightarrow> unfailed (setItemState i s ev) \<subseteq> unfailed ev"
  "unfailed (setItemState i I_depfailed ev) = unfailed ev - {i}"
  by (auto simp: unfailed_def)

lemma evaluate_unfailed:
  shows "evaluate_evaluate_all_dom (Inl (i, ev)) \<Longrightarrow>
      unfailed (evaluate i ev) \<subseteq> unfailed ev \<and> ev_graph (evaluate i ev) = ev_graph ev"
    and "evaluate_evaluate_all_dom (Inr (is, ev)) \<Longrightarrow>
      unfailed (evaluate_all is ev) \<subseteq> unfailed ev \<and> ev_graph (evaluate_all is ev) = ev_graph ev"
proof (induction i ev and "is" ev rule: evaluate_evaluate_all.pinduct)
  case (1 i ev)
  let ?fb = "scan_deps (propagate_failure ev) (state_of ev) (direct_deps (ev_graph ev) i) False"
  show ?case
  proof (cases "state_of ev i \<notin> {I_running, I_completed, I_failed, I_depfailed} \<and> fst ?fb")
    case True
    then have "unfailed (evaluate_all (reverse_deps (ev_graph ev) i) (setItemState i I_depfailed ev))
          \<subseteq> unfailed (setItemState i I_depfailed ev)
        \<and> ev_graph (evaluate_all (reverse_deps (ev_graph ev) i) (setItemState i I_depfailed ev))
          = ev_graph (setItemState i I_depfailed ev)"
      using "1.IH" [OF _ refl] by blast
    then show ?thesis using True "1.hyps" by (auto simp: evaluate.psimps unfailed_step)
  next
    case False
    then show ?thesis using "1.hyps" unfailed_step(1) [of ev i I_ready]
      by (auto simp: evaluate.psimps Let_def)
  qed
next
  case (2 ev)
  then show ?case by (simp add: evaluate_all.psimps)
next
  case (3 i "is" ev)
  then show ?case by (auto simp: evaluate_all.psimps)
qed

lemma reverse_deps_key: "reverse_deps g i \<noteq> [] \<Longrightarrow> i \<in> set (om_keys (reverse_dependencies g))"
  by (cases "om_get (reverse_dependencies g) i")
     (auto simp: reverse_deps_def om_get_default_def set_om_keys)

termination evaluate
proof (relation "measures
    [\<lambda>x. case x of Inl (i, ev) \<Rightarrow> card (unfailed ev) | Inr (is, ev) \<Rightarrow> card (unfailed ev),
     \<lambda>x. case x of Inl (i, ev) \<Rightarrow> 1 | Inr (is, ev) \<Rightarrow> 2 * length is]", goal_cases)
  case 1
  then show ?case by simp
next
  case (2 i ev fb)
  show ?case
  proof (cases "reverse_deps (ev_graph ev) i = []")
    case True
    have "card (unfailed ev - {i}) \<le> card (unfailed ev)" by (intro card_mono) auto
    then show ?thesis using True by (auto simp: unfailed_step)
  next
    case False
    then have "i \<in> unfailed ev" using 2 reverse_deps_key by (auto simp: unfailed_def)
    then have "card (unfailed ev - {i}) < card (unfailed ev)" by (intro psubset_card_mono) auto
    then show ?thesis by (simp add: unfailed_step)
  qed
next
  case (3 i "is" ev)
  then show ?case by simp
next
  case (4 i "is" ev)
  then have "card (unfailed (evaluate i ev)) \<le> card (unfailed ev)"
    using evaluate_unfailed(1) by (intro card_mono) auto
  then show ?case by auto
qed

declare evaluate.simps [simp del]

definition evaluateReverseDependencies :: "item \<Rightarrow> evaluator \<Rightarrow> evaluator" where
  "evaluateReverseDependencies i ev = evaluate_all (reverse_deps (ev_graph ev) i) ev"

section \<open>Operations\<close>

definition assertState :: "item \<Rightarrow> item_state \<Rightarrow> evaluator \<Rightarrow> 'a res \<Rightarrow> 'a res" where
  "assertState i s ev k =
     assert_res (om_has (states ev) i) ''this->states.count(item) != 0''
     (assert_res (state_of ev i = s) ''this->states[item] == state'' k)"

definition setRunning :: "item \<Rightarrow> evaluator \<Rightarrow> evaluator res" where
  "setRunning i ev =
     assertState i I_ready ev
     (let ev = setItemState i I_running ev in Inr (ev\<lparr>num_running := num_running ev + 1\<rparr>))"

definition setCompleted :: "item \<Rightarrow> evaluator \<Rightarrow> evaluator res" where
  "setCompleted i ev =
     assertState i I_running ev
     (let ev = setItemState i I_completed ev; ev = ev\<lparr>num_running := num_running ev - 1\<rparr>
      in Inr (evaluateReverseDependencies i ev))"

definition setFailed :: "item \<Rightarrow> evaluator \<Rightarrow> evaluator res" where
  "setFailed i ev =
     assertState i I_running ev
     (let ev = setItemState i I_failed ev; ev = ev\<lparr>num_running := num_running ev - 1\<rparr>
      in Inr (evaluateReverseDependencies i ev))"

definition nextReadyItem :: "evaluator \<Rightarrow> item option" where
  "nextReadyItem ev = find (\<lambda>i. state_of ev i = I_ready) (in_order (ev_graph ev))"

definition numRunning :: "evaluator \<Rightarrow> int" where
  "numRunning ev = num_running ev"

definition getItemState :: "evaluator \<Rightarrow> item \<Rightarrow> item_state res" where
  "getItemState ev i =
     assert_res (om_has (states ev) i) ''this->states.count(item) != 0'' (Inr (state_of ev i))"

definition setChangeCallback :: "bool \<Rightarrow> evaluator \<Rightarrow> evaluator" where
  "setChangeCallback call_now ev =
     ev\<lparr>has_callback := True,
        callback_log := (if call_now then callback_log ev @ states ev else callback_log ev)\<rparr>"

end
