(* ===== verification/Dependency_Evaluator_Correct.thy ===== *)
theory Dependency_Evaluator_Correct
  imports Dependency_Evaluator
begin

text \<open>
  The evaluator refines the rule of its header comment: the state of an item that has not been
  started is a function of the states of its dependencies. The invariant has two parts. \<open>settled\<close>
  holds at every moment, also inside an evaluation; \<open>waiting_ok T\<close> says that the items outside \<open>T\<close>
  do not wait in vain, and evaluation shrinks \<open>T\<close>.
\<close>

section \<open>The rule\<close>

definition bad_state :: "item_state \<Rightarrow> bool" where
  "bad_state s \<longleftrightarrow> s = I_failed \<or> s = I_depfailed"

definition final_state :: "item_state \<Rightarrow> bool" where
  "final_state s \<longleftrightarrow> s = I_completed \<or> s = I_failed \<or> s = I_depfailed"

definition spec_state :: "(item \<Rightarrow> item_state) \<Rightarrow> item list \<Rightarrow> item_state" where
  "spec_state st ds =
     (if \<exists>d \<in> set ds. bad_state (st d) then I_depfailed
      else if \<forall>d \<in> set ds. st d = I_completed then I_ready
      else I_waiting)"

lemma scan_deps_failed: "fst (scan_deps True st ds b) \<longleftrightarrow> (\<exists>d \<in> set ds. bad_state (st d))"
  by (induction ds arbitrary: b) (auto simp: bad_state_def)

lemma scan_deps_blocked:
  "\<forall>d \<in> set ds. \<not> bad_state (st d) \<Longrightarrow>
   snd (scan_deps True st ds b) \<longleftrightarrow> b \<or> (\<exists>d \<in> set ds. st d \<noteq> I_completed)"
  by (induction ds arbitrary: b) (auto simp: bad_state_def)

section \<open>The invariant\<close>

abbreviation ev_deps :: "evaluator \<Rightarrow> item \<Rightarrow> item list" where
  "ev_deps ev \<equiv> direct_deps (ev_graph ev)"

abbreviation ev_items :: "evaluator \<Rightarrow> item set" where
  "ev_items ev \<equiv> set (in_order (ev_graph ev))"

definition settled :: "evaluator \<Rightarrow> bool" where
  "settled ev \<longleftrightarrow>
     (\<forall>x. state_of ev x \<in> {I_ready, I_running, I_completed, I_failed} \<longrightarrow>
          (\<forall>d \<in> set (ev_deps ev x). state_of ev d = I_completed))
   \<and> (\<forall>x. state_of ev x = I_depfailed \<longrightarrow> (\<exists>d \<in> set (ev_deps ev x). bad_state (state_of ev d)))"

lemma settled_done:
  "settled ev \<Longrightarrow> state_of ev x \<in> {I_ready, I_running, I_completed, I_failed} \<Longrightarrow>
   d \<in> set (ev_deps ev x) \<Longrightarrow> state_of ev d = I_completed"
  unfolding settled_def by blast

lemma settled_depfailed:
  "settled ev \<Longrightarrow> state_of ev x = I_depfailed \<Longrightarrow> \<exists>d \<in> set (ev_deps ev x). bad_state (state_of ev d)"
  unfolding settled_def by blast

lemma settledI:
  assumes "\<And>x d. state_of ev x \<in> {I_ready, I_running, I_completed, I_failed} \<Longrightarrow>
      d \<in> set (ev_deps ev x) \<Longrightarrow> state_of ev d = I_completed"
    and "\<And>x. state_of ev x = I_depfailed \<Longrightarrow> \<exists>d \<in> set (ev_deps ev x). bad_state (state_of ev d)"
  shows "settled ev"
  unfolding settled_def using assms by blast

text \<open>
  A change of the state of \<open>i\<close> that leaves no final state keeps the completed and the failed items.
\<close>

lemma settled_change:
  assumes "settled ev" and "\<not> final_state (state_of ev i)"
    and "s \<in> {I_ready, I_running, I_completed, I_failed} \<Longrightarrow>
         \<forall>d \<in> set (ev_deps ev i). state_of ev d = I_completed"
    and "s = I_depfailed \<Longrightarrow> \<exists>d \<in> set (ev_deps ev i). bad_state (state_of ev d)"
  shows "settled (setItemState i s ev)"
proof (rule settledI)
  fix x d
  assume x: "state_of (setItemState i s ev) x \<in> {I_ready, I_running, I_completed, I_failed}"
    and "d \<in> set (ev_deps (setItemState i s ev) x)"
  then have d: "d \<in> set (ev_deps ev x)" by simp
  have "state_of ev d = I_completed"
    using x assms(3) d settled_done [OF assms(1), of x d] by (cases "x = i") auto
  then show "state_of (setItemState i s ev) d = I_completed"
    using assms(2) by (auto simp: final_state_def)
next
  fix x
  assume x: "state_of (setItemState i s ev) x = I_depfailed"
  have "\<exists>d \<in> set (ev_deps ev x). bad_state (state_of ev d)"
    using x assms(4) settled_depfailed [OF assms(1), of x] by (cases "x = i") auto
  then obtain d where d: "d \<in> set (ev_deps ev x)" "bad_state (state_of ev d)" by blast
  then have "d \<noteq> i" using assms(2) by (auto simp: bad_state_def final_state_def)
  then show "\<exists>d \<in> set (ev_deps (setItemState i s ev) x). bad_state (state_of (setItemState i s ev) d)"
    using d by auto
qed

definition waiting_ok :: "item set \<Rightarrow> evaluator \<Rightarrow> bool" where
  "waiting_ok T ev \<longleftrightarrow>
     (\<forall>x \<in> ev_items ev - T. state_of ev x = I_waiting \<longrightarrow>
        (\<exists>d \<in> set (ev_deps ev x). state_of ev d \<noteq> I_completed)
      \<and> (\<forall>d \<in> set (ev_deps ev x). \<not> bad_state (state_of ev d)))"

definition running_items :: "evaluator \<Rightarrow> item set" where
  "running_items ev = {x \<in> ev_items ev. state_of ev x = I_running}"

definition eval_inv :: "item set \<Rightarrow> evaluator \<Rightarrow> bool" where
  "eval_inv T ev \<longleftrightarrow> propagate_failure ev \<and> graph_ready (ev_graph ev)
     \<and> om_ok (states ev) \<and> set (om_keys (states ev)) = ev_items ev
     \<and> settled ev \<and> waiting_ok T ev \<and> num_running ev = int (card (running_items ev))"

lemma state_of_frame [simp]:
  "state_of (ev\<lparr>num_running := n\<rparr>) = state_of ev"
  "state_of (ev\<lparr>has_callback := b, callback_log := l\<rparr>) = state_of ev"
  by (simp_all add: state_of_def fun_eq_iff)

lemma inv_frame [simp]:
  "settled (ev\<lparr>num_running := n\<rparr>) = settled ev"
  "waiting_ok T (ev\<lparr>num_running := n\<rparr>) = waiting_ok T ev"
  "running_items (ev\<lparr>num_running := n\<rparr>) = running_items ev"
  "settled (ev\<lparr>has_callback := b, callback_log := l\<rparr>) = settled ev"
  "waiting_ok T (ev\<lparr>has_callback := b, callback_log := l\<rparr>) = waiting_ok T ev"
  "running_items (ev\<lparr>has_callback := b, callback_log := l\<rparr>) = running_items ev"
  by (simp_all add: settled_def waiting_ok_def running_items_def)

section \<open>One change of state\<close>

lemma states_setItemState:
  "om_ok (states ev) \<Longrightarrow> om_ok (states (setItemState i s ev))"
  "om_has (states ev) i \<Longrightarrow> set (om_keys (states (setItemState i s ev))) = set (om_keys (states ev))"
  by (auto simp: setItemState_def set_om_keys_put om_has_iff)

lemma running_setItemState:
  "state_of ev i \<noteq> I_running \<Longrightarrow> s \<noteq> I_running \<Longrightarrow> running_items (setItemState i s ev) = running_items ev"
  by (auto simp: running_items_def)

text \<open>An item that has not started and all of whose dependencies have completed becomes ready.\<close>

lemma inv_ready:
  assumes "eval_inv (insert i T) ev" and "i \<in> ev_items ev"
    and "state_of ev i = I_waiting \<or> state_of ev i = I_ready"
    and "\<forall>d \<in> set (ev_deps ev i). state_of ev d = I_completed"
  shows "eval_inv T (setItemState i I_ready ev)"
proof -
  have "settled (setItemState i I_ready ev)"
    using assms by (intro settled_change) (auto simp: eval_inv_def final_state_def)
  moreover have "waiting_ok T (setItemState i I_ready ev)"
    unfolding waiting_ok_def
  proof (intro ballI impI)
    fix x
    assume "x \<in> ev_items (setItemState i I_ready ev) - T"
      and "state_of (setItemState i I_ready ev) x = I_waiting"
    then have "x \<in> ev_items ev - insert i T" and "state_of ev x = I_waiting"
      by (auto split: if_splits)
    then have "\<exists>d \<in> set (ev_deps ev x). state_of ev d \<noteq> I_completed"
        and "\<forall>d \<in> set (ev_deps ev x). \<not> bad_state (state_of ev d)"
      using assms(1) by (simp_all add: eval_inv_def waiting_ok_def)
    then show "(\<exists>d \<in> set (ev_deps (setItemState i I_ready ev) x).
          state_of (setItemState i I_ready ev) d \<noteq> I_completed)
        \<and> (\<forall>d \<in> set (ev_deps (setItemState i I_ready ev) x).
          \<not> bad_state (state_of (setItemState i I_ready ev) d))"
      by (auto simp: bad_state_def)
  qed
  moreover have "om_has (states ev) i" using assms by (simp add: eval_inv_def om_has_iff)
  ultimately show ?thesis
    using assms running_setItemState [of ev i I_ready]
    by (auto simp: eval_inv_def states_setItemState)
qed

text \<open>A waiting item with a failed dependency fails in turn, which may concern what depends on it.\<close>

lemma inv_depfailed:
  assumes "eval_inv (insert i T) ev" and "i \<in> ev_items ev"
    and "state_of ev i = I_waiting \<or> state_of ev i = I_ready"
    and "d \<in> set (ev_deps ev i)" and "bad_state (state_of ev d)"
  shows "eval_inv (set (reverse_deps (ev_graph ev) i) \<union> T) (setItemState i I_depfailed ev)"
proof -
  have set: "settled ev" using assms(1) by (simp add: eval_inv_def)
  then have i: "state_of ev i = I_waiting"
    using assms(3,4,5) settled_done [OF set, of i d] by (auto simp: bad_state_def)
  have "settled (setItemState i I_depfailed ev)"
    using set assms(4,5) i by (intro settled_change) (auto simp: final_state_def)
  moreover have "waiting_ok (set (reverse_deps (ev_graph ev) i) \<union> T) (setItemState i I_depfailed ev)"
    using assms i dg.rdeps_iff [of "ev_graph ev"]
    by (auto simp: eval_inv_def waiting_ok_def)
  moreover have "om_has (states ev) i" using assms by (simp add: eval_inv_def om_has_iff)
  ultimately show ?thesis
    using assms i running_setItemState [of ev i I_depfailed]
    by (auto simp: eval_inv_def states_setItemState)
qed

section \<open>Evaluation\<close>

lemma evaluate_inv:
  shows "eval_inv (insert i T) ev \<Longrightarrow> i \<in> ev_items ev \<Longrightarrow>
      eval_inv T (evaluate i ev) \<and> ev_graph (evaluate i ev) = ev_graph ev"
    and "eval_inv (set is \<union> T) ev \<Longrightarrow> set is \<subseteq> ev_items ev \<Longrightarrow>
      eval_inv T (evaluate_all is ev) \<and> ev_graph (evaluate_all is ev) = ev_graph ev"
proof (induction i ev and "is" ev arbitrary: T and T rule: evaluate_evaluate_all.induct)
  case (1 i ev)
  let ?fb = "scan_deps (propagate_failure ev) (state_of ev) (ev_deps ev i) False"
  note inv = "1.prems"(1)
  have p: "propagate_failure ev" and g: "graph_ready (ev_graph ev)"
    using inv by (simp_all add: eval_inv_def)
  show ?case
  proof (cases "state_of ev i \<in> {I_running, I_completed, I_failed, I_depfailed}")
    case True
    then have "waiting_ok T ev" using inv by (auto simp: eval_inv_def waiting_ok_def)
    then show ?thesis using True inv by (auto simp: evaluate.simps eval_inv_def)
  next
    case started: False
    then have st: "state_of ev i = I_waiting \<or> state_of ev i = I_ready"
      by (cases "state_of ev i") auto
    show ?thesis
    proof (cases "fst ?fb")
      case True
      then obtain d where "d \<in> set (ev_deps ev i)" "bad_state (state_of ev d)"
        using p scan_deps_failed by auto
      then have "eval_inv (set (reverse_deps (ev_graph ev) i) \<union> T) (setItemState i I_depfailed ev)"
        using inv_depfailed [OF inv "1.prems"(2) st] by blast
      moreover have "set (reverse_deps (ev_graph ev) i) \<subseteq> ev_items ev"
        using dg.rdep_in_order [OF g] by blast
      ultimately show ?thesis
        using "1.IH" [OF started refl True, of T] started True by (simp add: evaluate.simps Let_def)
    next
      case nofail: False
      then have nobad: "\<forall>d \<in> set (ev_deps ev i). \<not> bad_state (state_of ev d)"
        using p scan_deps_failed [of "state_of ev"] by auto
      show ?thesis
      proof (cases "snd ?fb")
        case True
        then have "\<exists>d \<in> set (ev_deps ev i). state_of ev d \<noteq> I_completed"
          using scan_deps_blocked [OF nobad, of False] p by simp
        then have "waiting_ok T ev" using inv nobad by (auto simp: eval_inv_def waiting_ok_def)
        then show ?thesis
          using inv started nofail True by (simp add: evaluate.simps Let_def eval_inv_def)
      next
        case False
        then have "\<forall>d \<in> set (ev_deps ev i). state_of ev d = I_completed"
          using scan_deps_blocked [OF nobad, of False] p by simp
        then show ?thesis
          using inv_ready [OF inv "1.prems"(2) st] started nofail False
          by (simp add: evaluate.simps Let_def)
      qed
    qed
  qed
next
  case (2 ev)
  then show ?case by simp
next
  case (3 i "is" ev)
  then have "eval_inv (set is \<union> T) (evaluate i ev) \<and> ev_graph (evaluate i ev) = ev_graph ev"
    by simp
  then show ?case using "3.IH"(2) [of T] "3.prems" by simp
qed

section \<open>Operations\<close>

lemma new_evaluator_inv:
  assumes "graph_ready g"
  shows "\<exists>ev. new_evaluator g = Inr ev \<and> ev_graph ev = g \<and> eval_inv {} ev"
proof -
  have order: "getSortedGraph g = Inr (in_order g)" and ok: "check_const g = Inr True"
    using assms by (simp_all add: graph_ready_def getSortedGraph_def check_const_def assertChecked_def)
  let ?f = "\<lambda>i. if direct_deps g i = [] then I_ready else I_waiting"
  let ?m = "fold (\<lambda>i. om_put i (?f i)) (in_order g) []"
  define ev where "ev = \<lparr>ev_graph = g, states = ?m, propagate_failure = True, num_running = 0,
      has_callback = False, callback_log = []\<rparr>"
  have new: "new_evaluator g = Inr ev" by (simp add: new_evaluator_def order ok ev_def)
  have g: "ev_graph ev = g" by (simp add: ev_def)
  have keys: "set (om_keys ?m) = set (in_order g)"
    using om.keys_fold_put [of "\<lambda>i. i" ?f "in_order g" "[]"] by (simp add: om_keys_def)
  have st: "state_of ev x = (if x \<in> set (in_order g) then ?f x else I_waiting)" for x
    using om.get_fold_put [of "\<lambda>i. i" "in_order g" x ?f "[]"]
      om.get_fold_put_other [of x "\<lambda>i. i" "in_order g" ?f "[]"] dg.order_distinct [OF assms]
    by (auto simp: state_of_def ev_def om_get_default_def)
  have nodep: "d \<in> set (direct_deps g x) \<Longrightarrow> ?f d \<noteq> I_completed \<and> \<not> bad_state (?f d)" for x d
    by (simp add: bad_state_def)
  have "settled ev" by (rule settledI) (auto simp: st g split: if_splits)
  moreover have "waiting_ok {} ev"
    by (auto simp: waiting_ok_def st g bad_state_def split: if_splits) (metis last_in_set)+
  moreover have "running_items ev = {}" by (auto simp: running_items_def st split: if_splits)
  moreover have "om_ok (states ev)"
    using om.ok_fold_put [of "[]" "\<lambda>i. i" ?f "in_order g"] by (simp add: ev_def)
  ultimately have "eval_inv {} ev"
    using assms keys g unfolding eval_inv_def by (simp add: ev_def)
  then show ?thesis using new g by blast
qed

lemma waiting_ok_change:
  assumes "waiting_ok T ev" and "graph_ready (ev_graph ev)" and "s \<noteq> I_waiting"
    and "state_of ev i = I_ready \<and> s = I_running \<or> set (reverse_deps (ev_graph ev) i) \<subseteq> T"
  shows "waiting_ok T (setItemState i s ev)"
  unfolding waiting_ok_def
proof (intro ballI impI)
  fix x
  assume x: "x \<in> ev_items (setItemState i s ev) - T" "state_of (setItemState i s ev) x = I_waiting"
  then have w: "x \<in> ev_items ev - T" "state_of ev x = I_waiting"
    using assms(3) by (auto split: if_splits)
  then obtain d0 where d0: "d0 \<in> set (ev_deps ev x)" "state_of ev d0 \<noteq> I_completed"
    and good: "\<forall>d \<in> set (ev_deps ev x). \<not> bad_state (state_of ev d)"
    using assms(1) unfolding waiting_ok_def by blast
  show "(\<exists>d \<in> set (ev_deps (setItemState i s ev) x). state_of (setItemState i s ev) d \<noteq> I_completed)
      \<and> (\<forall>d \<in> set (ev_deps (setItemState i s ev) x). \<not> bad_state (state_of (setItemState i s ev) d))"
  proof (cases "i \<in> set (ev_deps ev x)")
    case True
    then have "x \<in> set (reverse_deps (ev_graph ev) i)" using dg.rdeps_iff [OF assms(2)] by blast
    then have "s = I_running" using assms(4) w(1) by auto
    then show ?thesis using d0 good by (auto simp: bad_state_def)
  next
    case False
    then have "d \<in> set (ev_deps ev x) \<Longrightarrow> d \<noteq> i" for d by blast
    then show ?thesis using d0 good by auto
  qed
qed

lemma setRunning_inv:
  assumes "eval_inv {} ev" and "setRunning i ev = Inr ev'"
  shows "eval_inv {} ev' \<and> ev_graph ev' = ev_graph ev \<and> state_of ev i = I_ready
       \<and> i \<in> ev_items ev \<and> states ev' = states (setItemState i I_running ev)"
proof -
  let ?e = "setItemState i I_running ev"
  have i: "om_has (states ev) i" "state_of ev i = I_ready"
    and ev': "ev' = ?e\<lparr>num_running := num_running ev + 1\<rparr>"
    using assms(2) by (auto simp: setRunning_def assertState_def res_simps Let_def)
  have mem: "i \<in> ev_items ev" using i(1) assms(1) by (simp add: eval_inv_def om_has_iff)
  have set: "settled ev" using assms(1) by (simp add: eval_inv_def)
  have "settled ?e"
    using set i(2) settled_done [OF set, of i] by (intro settled_change) (auto simp: final_state_def)
  moreover have "waiting_ok {} ?e"
    using assms(1) i(2) by (intro waiting_ok_change) (auto simp: eval_inv_def)
  moreover have "running_items ?e = insert i (running_items ev)" "i \<notin> running_items ev"
      "finite (running_items ev)"
    using mem i(2) by (auto simp: running_items_def)
  ultimately show ?thesis
    using assms(1) i mem states_setItemState [of ev i]
    by (simp add: ev' eval_inv_def)
qed

lemma setFinished_inv:
  assumes "eval_inv {} ev" and "om_has (states ev) i" and "state_of ev i = I_running"
    and "s = I_completed \<or> s = I_failed"
  shows "eval_inv {} (evaluateReverseDependencies i
           ((setItemState i s ev)\<lparr>num_running := num_running ev - 1\<rparr>))"
proof -
  let ?e = "setItemState i s ev"
  let ?e' = "?e\<lparr>num_running := num_running ev - 1\<rparr>"
  have mem: "i \<in> ev_items ev" using assms by (simp add: eval_inv_def om_has_iff)
  have g: "graph_ready (ev_graph ev)" and set: "settled ev" using assms(1) by (simp_all add: eval_inv_def)
  have "settled ?e"
    using set assms(3,4) settled_done [OF set, of i] by (intro settled_change) (auto simp: final_state_def)
  moreover have "waiting_ok (set (reverse_deps (ev_graph ev) i)) ev"
    using assms(1) by (auto simp: eval_inv_def waiting_ok_def)
  then have "waiting_ok (set (reverse_deps (ev_graph ev) i)) ?e"
    using g assms(4) by (intro waiting_ok_change) auto
  moreover have "running_items ?e = running_items ev - {i}" "i \<in> running_items ev"
      "finite (running_items ev)"
    using mem assms(3,4) by (auto simp: running_items_def)
  moreover from this(2,3) have "card (running_items ev) = Suc (card (running_items ev - {i}))"
    by (rule card.remove [rotated])
  ultimately have "eval_inv (set (reverse_deps (ev_graph ev) i) \<union> {}) ?e'"
    using assms states_setItemState [of ev i] by (simp add: eval_inv_def)
  moreover have "set (reverse_deps (ev_graph ev) i) \<subseteq> ev_items ?e'"
    using dg.rdep_in_order [OF g] by auto
  ultimately show ?thesis
    unfolding evaluateReverseDependencies_def using evaluate_inv(2) by simp
qed

text \<open>The evaluators that the public interface can produce from an error-free graph.\<close>

inductive evaluation :: "dgraph \<Rightarrow> evaluator \<Rightarrow> bool" where
  eval_new: "graph_ready g \<Longrightarrow> new_evaluator g = Inr ev \<Longrightarrow> evaluation g ev"
| eval_running: "evaluation g ev \<Longrightarrow> setRunning i ev = Inr ev' \<Longrightarrow> evaluation g ev'"
| eval_completed: "evaluation g ev \<Longrightarrow> setCompleted i ev = Inr ev' \<Longrightarrow> evaluation g ev'"
| eval_failed: "evaluation g ev \<Longrightarrow> setFailed i ev = Inr ev' \<Longrightarrow> evaluation g ev'"
| eval_callback: "evaluation g ev \<Longrightarrow> evaluation g (setChangeCallback now ev)"

lemma evaluate_graph:
  "ev_graph (evaluate_all is ev) = ev_graph ev"
proof -
  have "ev_graph (evaluate i e) = ev_graph e" and "ev_graph (evaluate_all is e) = ev_graph e" for i e "is"
    by (induction i e and "is" e rule: evaluate_evaluate_all.induct)
       (auto simp: evaluate.simps Let_def)
  then show ?thesis by blast
qed

lemma evaluation_inv: "evaluation g ev \<Longrightarrow> eval_inv {} ev \<and> ev_graph ev = g"
proof (induction rule: evaluation.induct)
  case (eval_new g ev)
  then show ?case using new_evaluator_inv by fastforce
next
  case (eval_running g ev i ev')
  then show ?case using setRunning_inv by blast
next
  case (eval_completed g ev i ev')
  then show ?case using setFinished_inv [of ev i I_completed]
    by (auto simp: setCompleted_def assertState_def res_simps Let_def evaluateReverseDependencies_def
        evaluate_graph)
next
  case (eval_failed g ev i ev')
  then show ?case using setFinished_inv [of ev i I_failed]
    by (auto simp: setFailed_def assertState_def res_simps Let_def evaluateReverseDependencies_def
        evaluate_graph)
next
  case (eval_callback g ev now)
  then show ?case
    by (auto simp: setChangeCallback_def eval_inv_def)
qed

end
