(* ===== verification/Dependency_Graph_Sets.thy ===== *)
theory Dependency_Graph_Sets
  imports Dependency_Graph_Check
begin

text \<open>
  \<open>getIndependentSets\<close>: on an error-free graph the flood from an item numbers exactly the items
  connected with it that have no number yet, so the sets are the connected components, each sorted
  by the position of its items in the sorted graph.
\<close>

section \<open>Connected items\<close>

definition neighbours :: "dgraph \<Rightarrow> item \<Rightarrow> item set" where
  "neighbours g x = set (direct_deps g x) \<union> set (reverse_deps g x)"

definition connected :: "dgraph \<Rightarrow> item \<Rightarrow> item \<Rightarrow> bool" where
  "connected g = (\<lambda>x y. y \<in> neighbours g x)\<^sup>*\<^sup>*"

lemma neighbours_sym: "graph_ready g \<Longrightarrow> y \<in> neighbours g x \<longleftrightarrow> x \<in> neighbours g y"
  using dg.rdeps_iff by (auto simp: neighbours_def)

lemma neighbours_order: "graph_ready g \<Longrightarrow> neighbours g x \<subseteq> set (in_order g)"
  using dg.dep_in_order dg.rdep_in_order by (auto simp: neighbours_def)

lemma connected_refl [simp]: "connected g x x"
  by (simp add: connected_def)

lemma connected_step: "y \<in> neighbours g x \<Longrightarrow> connected g y z \<Longrightarrow> connected g x z"
  unfolding connected_def by (rule converse_rtranclp_into_rtranclp)

lemma connected_trans: "connected g x y \<Longrightarrow> connected g y z \<Longrightarrow> connected g x z"
  unfolding connected_def by (rule rtranclp_trans)

lemma connected_sym: "graph_ready g \<Longrightarrow> connected g x y \<Longrightarrow> connected g y x"
  unfolding connected_def using neighbours_sym by (metis (no_types, lifting) sympI sympD symp_rtranclp)

text \<open>A set of items that contains the neighbours of its members contains what is connected.\<close>

definition closed_items :: "dgraph \<Rightarrow> item set \<Rightarrow> bool" where
  "closed_items g S \<longleftrightarrow> (\<forall>x \<in> S. neighbours g x \<subseteq> S)"

lemma closed_connected:
  assumes "closed_items g S" and "connected g x y" and "x \<in> S"
  shows "y \<in> S"
  using assms(2) unfolding connected_def
  by (induction rule: rtranclp_induct) (use assms in \<open>auto simp: closed_items_def\<close>)

section \<open>The flood\<close>

lemma ready_has: "graph_ready g \<Longrightarrow> x \<in> set (in_order g) \<Longrightarrow>
    om_get (dependencies g) x = Some (direct_deps g x)
  \<and> om_get (reverse_dependencies g) x = Some (reverse_deps g x)"
  using queries_ready(1,2)
  by (fastforce simp: getDirectDependencies_def getReverseDependencies_def assertChecked_def
      lookup_item_def res_simps split: option.splits)

definition flooded :: "dgraph \<Rightarrow> nat \<Rightarrow> item set \<Rightarrow> (item, nat) omap \<Rightarrow> (item, nat) omap \<Rightarrow> bool" where
  "flooded g n start nums nums' \<longleftrightarrow>
     (\<forall>k. om_has nums k \<longrightarrow> om_get nums' k = om_get nums k) \<and> (\<forall>x \<in> start. om_has nums' x)
   \<and> (om_ok nums \<longrightarrow> om_ok nums')
   \<and> (\<forall>k. om_has nums' k \<longrightarrow> \<not> om_has nums k \<longrightarrow> om_get nums' k = Some n
        \<and> (\<forall>y \<in> neighbours g k. om_has nums' y) \<and> (\<exists>s \<in> start. connected g s k)
        \<and> k \<in> set (in_order g))"

lemma flood_correct:
  "graph_ready g \<Longrightarrow> set nodes \<subseteq> set (in_order g) \<Longrightarrow>
   \<exists>nums'. flood g n nodes nums = Inr nums' \<and> flooded g n (set nodes) nums nums'"
proof (induction g n nodes nums rule: flood.induct)
  case (1 g n nums)
  then show ?case by (simp add: flooded_def)
next
  case (2 g n node nodes nums)
  show ?case
  proof (cases "om_has nums node")
    case True
    then obtain nums' where "flood g n nodes nums = Inr nums'" "flooded g n (set nodes) nums nums'"
      using 2 by auto
    then show ?thesis using True by (auto simp: flooded_def om_has_def)
  next
    case False
    note has = ready_has [OF "2.prems"(1), of node]
    let ?nodes = "nodes @ direct_deps g node @ reverse_deps g node"
    have mem: "node \<in> set (in_order g)" using "2.prems" by simp
    have "set ?nodes \<subseteq> set (in_order g)"
      using "2.prems" neighbours_order [of g node] by (auto simp: neighbours_def)
    then obtain nums' where f: "flood g n ?nodes (om_put node n nums) = Inr nums'"
        "flooded g n (set ?nodes) (om_put node n nums) nums'"
      using "2.IH"(2) [OF False conjunct1 [OF has] conjunct2 [OF has] "2.prems"(1)] mem by blast
    have eq: "flood g n (node # nodes) nums = Inr nums'" using f(1) False has mem by simp
    have old: "om_has nums k \<Longrightarrow> om_get nums' k = om_get nums k" for k
      using f(2) False by (auto simp: flooded_def om_has_def)
    have start: "\<forall>x \<in> set (node # nodes). om_has nums' x"
      using f(2) by (auto simp: flooded_def om_has_def)
    have nb: "\<forall>y \<in> neighbours g node. om_has nums' y"
      using f(2) by (auto simp: flooded_def neighbours_def)
    have new: "om_get nums' k = Some n \<and> (\<forall>y \<in> neighbours g k. om_has nums' y)
        \<and> (\<exists>s \<in> set (node # nodes). connected g s k) \<and> k \<in> set (in_order g)"
      if k: "om_has nums' k" "\<not> om_has nums k" for k
    proof (cases "k = node")
      case True
      have "om_get nums' node = Some n" using f(2) by (auto simp: flooded_def)
      then show ?thesis using True nb mem by auto
    next
      case False
      then have "om_get nums' k = Some n" "\<forall>y \<in> neighbours g k. om_has nums' y" "k \<in> set (in_order g)"
        and "\<exists>s \<in> set ?nodes. connected g s k"
        using f(2) k unfolding flooded_def by simp_all
      then obtain s where s: "s \<in> set ?nodes" "connected g s k" by blast
      have "\<exists>s \<in> set (node # nodes). connected g s k"
      proof (cases "s \<in> set nodes")
        case True
        then show ?thesis using s by auto
      next
        case False
        then have "s \<in> neighbours g node" using s by (auto simp: neighbours_def)
        then show ?thesis using connected_step s(2) by auto
      qed
      then show ?thesis
        using \<open>om_get nums' k = Some n\<close> \<open>\<forall>y \<in> neighbours g k. om_has nums' y\<close>
          \<open>k \<in> set (in_order g)\<close> by blast
    qed
    have "om_ok nums \<longrightarrow> om_ok nums'" using f(2) by (simp add: flooded_def)
    then have "flooded g n (set (node # nodes)) nums nums'"
      unfolding flooded_def using old start new by blast
    then show ?thesis using eq by blast
  qed
qed

section \<open>Numbering all items\<close>

definition numbered :: "dgraph \<Rightarrow> nat \<Rightarrow> (item, nat) omap \<Rightarrow> bool" where
  "numbered g next nums \<longleftrightarrow> om_ok nums \<and> set (om_keys nums) \<subseteq> set (in_order g)
     \<and> closed_items g (set (om_keys nums))
     \<and> (\<forall>k \<in> set (om_keys nums). the (om_get nums k) < next)
     \<and> (\<forall>x \<in> set (om_keys nums). \<forall>y \<in> set (om_keys nums).
          om_get nums x = om_get nums y \<longleftrightarrow> connected g x y)"

lemma numbered_flood:
  assumes g: "graph_ready g" and n: "numbered g next nums" and node: "\<not> om_has nums node"
    and f: "flooded g next {node} nums nums'"
  shows "numbered g (Suc next) nums' \<and> om_has nums' node
       \<and> set (om_keys nums) \<subseteq> set (om_keys nums')"
proof -
  have old: "k \<in> set (om_keys nums) \<Longrightarrow> om_get nums' k = om_get nums k" for k
    using f by (simp add: flooded_def om_has_iff)
  have sub: "set (om_keys nums) \<subseteq> set (om_keys nums')"
    using old by (auto simp flip: om_has_iff simp: om_has_def)
  have new: "om_get nums' k = Some next \<and> neighbours g k \<subseteq> set (om_keys nums') \<and> connected g node k
      \<and> k \<in> set (in_order g)"
    if "k \<in> set (om_keys nums')" "k \<notin> set (om_keys nums)" for k
    using f that by (auto simp: flooded_def om_has_iff)
  have closed: "closed_items g (set (om_keys nums'))"
    using n new sub unfolding closed_items_def numbered_def by blast
  have lt: "the (om_get nums' k) < Suc next" if "k \<in> set (om_keys nums')" for k
    using n new old that by (cases "k \<in> set (om_keys nums)") (force simp: numbered_def)+
  have same: "om_get nums' x = om_get nums' y \<longleftrightarrow> connected g x y"
    if x: "x \<in> set (om_keys nums')" and y: "y \<in> set (om_keys nums')" for x y
  proof (cases "x \<in> set (om_keys nums)"; cases "y \<in> set (om_keys nums)")
    assume "x \<in> set (om_keys nums)" "y \<in> set (om_keys nums)"
    then show ?thesis using n old by (simp add: numbered_def)
  next
    assume a: "x \<in> set (om_keys nums)" "y \<notin> set (om_keys nums)"
    then have "\<not> connected g x y" using n closed_connected unfolding numbered_def by blast
    moreover have "the (om_get nums x) < next" using a n by (simp add: numbered_def)
    ultimately show ?thesis using old a new [OF y] by auto
  next
    assume a: "x \<notin> set (om_keys nums)" "y \<in> set (om_keys nums)"
    then have "\<not> connected g x y"
      using n closed_connected connected_sym [OF g] unfolding numbered_def by blast
    moreover have "the (om_get nums y) < next" using a n by (simp add: numbered_def)
    ultimately show ?thesis using old [of y] a new [OF x] by (metis less_irrefl option.sel)
  next
    assume "x \<notin> set (om_keys nums)" "y \<notin> set (om_keys nums)"
    then show ?thesis using new x y connected_trans connected_sym [OF g] by metis
  qed
  have "om_ok nums'" using n f by (simp add: numbered_def flooded_def)
  moreover have "set (om_keys nums') \<subseteq> set (in_order g)" using n new by (auto simp: numbered_def)
  moreover have "om_has nums' node" using f by (simp add: flooded_def)
  ultimately show ?thesis using closed lt same sub unfolding numbered_def by blast
qed

lemma number_sets_correct:
  "graph_ready g \<Longrightarrow> numbered g next nums \<Longrightarrow> set nodes \<subseteq> set (in_order g) \<Longrightarrow>
   \<exists>nums' next'. number_sets g nodes next nums = Inr nums' \<and> numbered g next' nums'
     \<and> set nodes \<union> set (om_keys nums) \<subseteq> set (om_keys nums')"
proof (induction nodes arbitrary: "next" nums)
  case Nil
  then show ?case by auto
next
  case (Cons node nodes)
  show ?case
  proof (cases "om_has nums node")
    case True
    then show ?thesis using Cons by (fastforce simp: om_has_iff)
  next
    case False
    obtain nums1 where f: "flood g next [node] nums = Inr nums1" "flooded g next {node} nums nums1"
      using flood_correct [of g "[node]" "next" nums] Cons.prems by auto
    note n1 = numbered_flood [OF Cons.prems(1,2) False f(2)]
    with Cons.IH [OF Cons.prems(1), of "Suc next" nums1] Cons.prems(3)
    obtain nums' next' where "number_sets g nodes (Suc next) nums1 = Inr nums'" "numbered g next' nums'"
        "set nodes \<union> set (om_keys nums1) \<subseteq> set (om_keys nums')" by auto
    then show ?thesis using f(1) False n1 by (auto simp: om_has_iff)
  qed
qed

section \<open>Gathering the sets\<close>

lemma gather_sets_pairs:
  "gather_sets nums = fold (\<lambda>(k, v). om_push_back k v) (map prod.swap nums) []"
proof -
  have "fold (\<lambda>(i, n). om_push_back n i) ps m
      = fold (\<lambda>(k, v). om_push_back k v) (map prod.swap ps) m" for ps :: "(item \<times> nat) list" and m
    by (induction ps arbitrary: m) auto
  then show ?thesis by (simp add: gather_sets_def)
qed

lemma gather_sets_get:
  "om_get_default [] (gather_sets nums) n = map fst (filter (\<lambda>p. snd p = n) nums)"
  by (simp add: gather_sets_pairs om_get_default_fold_push filter_map o_def)

lemma gather_sets_keys: "set (om_keys (gather_sets nums)) = snd ` set nums" "om_ok (gather_sets nums)"
  by (simp_all add: gather_sets_pairs om_keys_fold_push om_ok_fold_push image_image)

lemma gather_sets_entry:
  assumes "(n, xs) \<in> set (gather_sets nums)"
  shows "xs = map fst (filter (\<lambda>p. snd p = n) nums)"
proof -
  have "distinct (map fst (gather_sets nums))"
    using om_ok_distinct [OF gather_sets_keys(2)] by (simp add: om_keys_def)
  then have "om_get (gather_sets nums) n = Some xs" using assms by simp
  then show ?thesis using gather_sets_get [of nums n] by (simp add: om_get_default_def)
qed

lemma om_mem_get: "om_ok m \<Longrightarrow> (k, v) \<in> set m \<longleftrightarrow> om_get m k = Some v"
  using om_ok_distinct [of m] by (auto simp: om_keys_def dest: map_of_SomeD)

lemma gathered_set:
  assumes "om_ok nums" and "(n, xs) \<in> set (gather_sets nums)"
  shows "set xs = {x. om_get nums x = Some n}"
  using om_mem_get [OF assms(1)] by (force simp: gather_sets_entry [OF assms(2)])

lemma gathered_distinct:
  assumes "om_ok nums" and "(n, xs) \<in> set (gather_sets nums)"
  shows "distinct xs"
  using om_ok_distinct [OF assms(1)]
  by (auto simp: gather_sets_entry [OF assms(2)] om_keys_def distinct_map_filter)

text \<open>The sets, sorted by \<open>itemLess\<close>.\<close>

definition sorted_sets :: "dgraph \<Rightarrow> (item, nat) omap \<Rightarrow> item list list" where
  "sorted_sets g nums =
     map (\<lambda>(n, nodes). sort_key (om_get_default 0 (item_order g)) nodes) (gather_sets nums)"

lemma sorted_sets_distinct:
  assumes "om_ok nums"
  shows "distinct (concat (sorted_sets g nums))"
proof -
  have "distinct (concat (map (\<lambda>(n, nodes). sort_key (om_get_default 0 (item_order g)) nodes) ps))"
    if "distinct (map fst ps)" "set ps \<subseteq> set (gather_sets nums)" for ps
    using that
  proof (induction ps)
    case Nil
    then show ?case by simp
  next
    case (Cons p ps)
    obtain n xs where p: "p = (n, xs)" by (cases p)
    have "set xs \<inter> set ys = {}" if "(m, ys) \<in> set ps" for m ys
    proof -
      have "m \<noteq> n" using Cons.prems(1) that p by force
      then show ?thesis
        using gathered_set [OF assms, of n xs] gathered_set [OF assms, of m ys] Cons.prems(2) p that
        by auto
    qed
    then show ?case
      using Cons gathered_distinct [OF assms, of n xs] by (auto simp: p)
  qed
  then show ?thesis
    using om_ok_distinct [OF gather_sets_keys(2)] by (simp add: sorted_sets_def om_keys_def)
qed

lemma sorted_sets_set:
  assumes "om_ok nums"
  shows "set (concat (sorted_sets g nums)) = set (om_keys nums)"
proof -
  have "x \<in> set (om_keys nums) \<Longrightarrow> \<exists>n xs. (n, xs) \<in> set (gather_sets nums) \<and> x \<in> set xs" for x
  proof -
    assume "x \<in> set (om_keys nums)"
    then obtain n where n: "om_get nums x = Some n" by (auto simp: set_om_keys)
    then have "n \<in> set (om_keys (gather_sets nums))"
      using om_mem_get [OF assms] by (force simp: gather_sets_keys)
    then obtain xs where "(n, xs) \<in> set (gather_sets nums)" by (auto simp: om_keys_def)
    then show ?thesis using gathered_set [OF assms] n by blast
  qed
  then show ?thesis
    using gathered_set [OF assms] by (fastforce simp: sorted_sets_def set_om_keys)
qed

text \<open>
  A component is sorted with every item after its dependencies, because they are all in the
  component and have lower positions.
\<close>

lemma sorted_set_deps_first:
  assumes g: "graph_ready g" and xs: "distinct xs" "set xs \<subseteq> set (in_order g)"
    and closed: "\<And>x. x \<in> set xs \<Longrightarrow> set (direct_deps g x) \<subseteq> set xs"
  shows "deps_first (sort_key (om_get_default 0 (item_order g)) xs) (direct_deps g)"
proof (rule deps_first_sort_key)
  fix x d
  assume "x \<in> set xs" and d: "d \<in> set (direct_deps g x)"
  then have "d \<in> set xs" "d \<in> set (in_order g)" "x \<in> set (in_order g)" using closed xs(2) by auto
  moreover have "index_of (in_order g) d < index_of (in_order g) x" using dg.dep_earlier [OF g d] .
  moreover have "z \<in> set (in_order g) \<Longrightarrow>
      om_get_default 0 (item_order g) z = Suc (index_of (in_order g) z)" for z
    using g by (simp add: graph_ready_def checked_def om_get_default_def)
  ultimately show "d \<in> set xs \<and> om_get_default 0 (item_order g) d < om_get_default 0 (item_order g) x"
    by simp
qed

lemma getIndependentSets_correct:
  assumes g: "graph_ready g" and none: "independent_sets g = []"
  shows "\<exists>sets. getIndependentSets g = Inr (g\<lparr>independent_sets := sets\<rparr>, sets)
     \<and> distinct (concat sets) \<and> set (concat sets) = set (in_order g)
     \<and> (\<forall>S \<in> set sets. deps_first S (direct_deps g) \<and> (\<forall>x \<in> set S. set S = {y. connected g x y}))"
proof -
  have "numbered g 0 []" by (simp add: numbered_def closed_items_def)
  then obtain nums n where nums: "number_sets g (in_order g) 0 [] = Inr nums" "numbered g n nums"
      "set (in_order g) \<subseteq> set (om_keys nums)"
    using number_sets_correct [OF g, of 0 "[]" "in_order g"] by auto
  then have keys: "set (om_keys nums) = set (in_order g)" and ok: "om_ok nums"
    by (auto simp: numbered_def)
  let ?sets = "sorted_sets g nums"
  have "getIndependentSets g = Inr (g\<lparr>independent_sets := ?sets\<rparr>, ?sets)"
    using g none nums(1)
    by (simp add: getIndependentSets_def assertChecked_def graph_ready_def sorted_sets_def Let_def)
  moreover have "deps_first S (direct_deps g) \<and> (\<forall>x \<in> set S. set S = {y. connected g x y})"
    if S: "S \<in> set ?sets" for S
  proof -
    obtain m xs where xs: "(m, xs) \<in> set (gather_sets nums)"
        "S = sort_key (om_get_default 0 (item_order g)) xs"
      using S by (auto simp: sorted_sets_def)
    have set: "set xs = {x. om_get nums x = Some m}" by (rule gathered_set [OF ok xs(1)])
    have sub: "set xs \<subseteq> set (in_order g)" using set keys set_om_keys [of nums] by auto
    have comp: "set xs = {y. connected g x y}" if x: "x \<in> set xs" for x
    proof -
      have xk: "x \<in> set (om_keys nums)" using x sub keys by auto
      have "connected g x y \<Longrightarrow> y \<in> set (om_keys nums)" for y
        using nums(2) closed_connected xk unfolding numbered_def by blast
      moreover have "y \<in> set (om_keys nums) \<Longrightarrow> om_get nums x = om_get nums y \<longleftrightarrow> connected g x y" for y
        using nums(2) xk unfolding numbered_def by blast
      moreover have "y \<in> set xs \<Longrightarrow> y \<in> set (om_keys nums)" for y using sub keys by auto
      moreover have "y \<in> set xs \<longleftrightarrow> om_get nums x = om_get nums y" for y
        unfolding set mem_Collect_eq using x unfolding set mem_Collect_eq by metis
      ultimately show ?thesis by blast
    qed
    have "set (direct_deps g x) \<subseteq> set xs" if "x \<in> set xs" for x
    proof
      fix d assume "d \<in> set (direct_deps g x)"
      then have "connected g x d" using connected_step [of d g x d] by (simp add: neighbours_def)
      then show "d \<in> set xs" using comp [OF that] by simp
    qed
    then have "deps_first S (direct_deps g)"
      unfolding xs(2) using g sub gathered_distinct [OF ok xs(1)] by (intro sorted_set_deps_first)
    then show ?thesis using comp by (simp add: xs(2))
  qed
  ultimately show ?thesis
    using sorted_sets_distinct [OF ok] sorted_sets_set [OF ok] keys by auto
qed

end
