(* ===== verification/Dependency_Graph_Properties.thy ===== *)
theory Dependency_Graph_Properties
  imports Dependency_Graph_Sets
begin

text \<open>
  The properties of \<open>DependencyGraph\<close>, for every graph that its interface can build, with their
  instances on a small graph and two graphs on which the code behaves unexpectedly.
\<close>

section \<open>Graphs from a list of dependencies\<close>

definition graph_of :: "(item \<times> item list) list \<Rightarrow> dgraph res" where
  "graph_of spec =
     fold (\<lambda>(i, ds) r. fold (\<lambda>d r. bind_res r (addDependency i d)) ds r) spec
       (fold (\<lambda>(i, ds) r. bind_res r (addItem i)) spec (Inr new_graph))"

definition built_res :: "dgraph res \<Rightarrow> bool" where
  "built_res r \<longleftrightarrow> (\<forall>g. r = Inr g \<longrightarrow> built g)"

lemma built_res_item: "built_res r \<Longrightarrow> built_res (bind_res r (addItem i))"
  by (auto simp: built_res_def bind_res_eq_Inr intro: built.intros)

lemma built_res_dep: "built_res r \<Longrightarrow> built_res (bind_res r (addDependency i d))"
  by (auto simp: built_res_def bind_res_eq_Inr intro: built.intros)

lemma graph_of_built: "graph_of spec = Inr g \<Longrightarrow> built g"
proof -
  have "built_res (fold (\<lambda>(i, ds) r. bind_res r (addItem i)) spec (Inr new_graph))"
    by (rule fold_invariant [where P = built_res])
       (auto simp: built_res_item, simp add: built_res_def built_new)
  then have "built_res (graph_of spec)"
    unfolding graph_of_def
    by (rule fold_invariant [where P = built_res])
       (auto intro!: fold_invariant [where P = built_res] built_res_dep)
  then show "graph_of spec = Inr g \<Longrightarrow> built g" by (simp add: built_res_def)
qed

definition diamond :: "(item \<times> item list) list" where
  "diamond = [(''app'', [''lib1'', ''lib2'']), (''doc'', []), (''lib1'', [''base'']),
              (''lib2'', [''base'']), (''base'', [])]"

definition diamond_graph :: dgraph where
  "diamond_graph = projr (graph_of diamond)"

definition diamond_checked :: dgraph where
  "diamond_checked = fst (projr (check diamond_graph))"

lemma diamond_built: "built diamond_graph"
proof -
  have "graph_of diamond = Inr diamond_graph" unfolding diamond_graph_def by code_simp
  then show ?thesis by (rule graph_of_built)
qed

lemma diamond_check: "check diamond_graph = Inr (diamond_checked, True)"
  unfolding diamond_checked_def by code_simp

section \<open>Checking\<close>

lemma check_ready:
  assumes "built g" and "check g = Inr (g', True)"
  shows "graph_ready g' \<and> dependencies g' = dependencies g"
  using check_built [OF assms(1)] assms(2) by (auto simp: graph_ready_def)

text \<open>
  C4: for every graph built by \<open>addItem\<close> and \<open>addDependency\<close>, \<open>check\<close> fails no assertion and keeps
  the dependencies. It answers True exactly when every dependency is a known item and no item
  depends on itself through others; then the sorted list has every item once, each after the
  items it depends on.
\<close>

theorem check_decides_order:
  assumes "built g"
  shows "\<exists>g' b. check g = Inr (g', b) \<and> dependencies g' = dependencies g
     \<and> (b \<longleftrightarrow> closed_deps (dependencies g) \<and> acyclic_deps (dependencies g))
     \<and> getSortedGraph g' = Inr (in_order g')
     \<and> distinct (in_order g') \<and> set (in_order g') = set (om_keys (dependencies g))
     \<and> (b \<longrightarrow> deps_first (in_order g') (succs (dependencies g)))"
proof -
  obtain g' b where r: "check g = Inr (g', b)" "checked g'" "dependencies g' = dependencies g"
      "b \<longleftrightarrow> graph_state g' = GS_READY"
      "b \<longleftrightarrow> closed_deps (dependencies g) \<and> acyclic_deps (dependencies g)"
    using check_built [OF assms] by blast
  then have "getSortedGraph g' = Inr (in_order g')"
    by (simp add: getSortedGraph_def assertChecked_def checked_def)
  then show ?thesis using r by (auto simp: checked_def)
qed

theorem check_decides_order_witness:
  "\<exists>g' b. check diamond_graph = Inr (g', b) \<and> b \<and> deps_first (in_order g') (succs (dependencies diamond_graph))"
  using check_decides_order [OF diamond_built] diamond_check by auto

text \<open>
  C28: every error that \<open>check\<close> records is real. A recorded cycle is a sequence of items of which
  each depends on the next and the last on the first, and it starts with its least item, so the
  report does not depend on where the traversal entered it; a recorded unknown is a dependency of
  the item it is listed under and not an item of the graph.
\<close>

theorem check_errors_real:
  assumes "built g" and "check g = Inr (g', b)" and "getErrors g' = Inr (us, cs)"
  shows "(\<forall>c \<in> set cs. is_cycle (dependencies g) c \<and> hd c = Min (set c))
     \<and> (\<forall>x u. u \<in> set (succs us x) \<longrightarrow> edge (dependencies g) x u \<and> \<not> om_has (dependencies g) u)
     \<and> (b \<longleftrightarrow> us = [] \<and> cs = [])"
proof -
  have f: "fresh_graph g" using assms(1) by (rule built_fresh)
  then have g': "g' = check_success g" "b \<longleftrightarrow> graph_state g' = GS_READY"
    using check_fresh assms(2) by auto
  have e: "us = unknowns g'" "cs = cycles g'"
    using assms(3) by (auto simp: getErrors_def assertChecked_def res_simps)
  have "b \<longleftrightarrow> us = [] \<and> cs = []"
    unfolding g'(2) e by (auto simp: g'(1) check_success_def Let_def clean_def)
  then show ?thesis using check_success_errors [OF f] by (simp add: e g'(1))
qed

definition tangle_graph :: dgraph where
  "tangle_graph = projr (graph_of [(''c'', [''b'']), (''b'', [''a'', ''x'']), (''a'', [''c''])])"

lemma tangle_built: "built tangle_graph"
proof -
  have "graph_of [(''c'', [''b'']), (''b'', [''a'', ''x'']), (''a'', [''c''])] = Inr tangle_graph"
    unfolding tangle_graph_def by code_simp
  then show ?thesis by (rule graph_of_built)
qed

lemma tangle_check:
  "check tangle_graph = Inr (fst (projr (check tangle_graph)), False)"
  "getErrors (fst (projr (check tangle_graph))) = Inr ([(''b'', [''x''])], [[''a'', ''c'', ''b'']])"
  by code_simp+

theorem check_errors_real_witness:
  "is_cycle (dependencies tangle_graph) [''a'', ''c'', ''b''] \<and> edge (dependencies tangle_graph) ''b'' ''x''"
proof -
  have "(\<forall>c \<in> set [[''a'', ''c'', ''b'']]. is_cycle (dependencies tangle_graph) c \<and> hd c = Min (set c))
     \<and> (\<forall>x u. u \<in> set (succs [(''b'', [''x''])] x) \<longrightarrow>
           edge (dependencies tangle_graph) x u \<and> \<not> om_has (dependencies tangle_graph) u)
     \<and> (False \<longleftrightarrow> [(''b'', [''x''])] = ([] :: item_map) \<and> [[''a'', ''c'', ''b'']] = ([] :: item list list))"
    by (rule check_errors_real [OF tangle_built tangle_check])
  then show ?thesis by (simp add: om_get_default_def)
qed

section \<open>Queries\<close>

text \<open>
  C32: on an error-free graph \<open>getSortedDependencies\<close> gives, for every item, exactly the items it
  depends on directly or through others, once each, every one after its own dependencies, and the
  item itself at the end.
\<close>

theorem sortedDependencies_closure:
  assumes "built g" and "check g = Inr (g', True)" and "om_has (dependencies g) i"
  shows "\<exists>xs. getSortedDependencies g' i = Inr xs \<and> distinct xs \<and> xs \<noteq> [] \<and> last xs = i
     \<and> set xs = {x. (edge (dependencies g))\<^sup>*\<^sup>* i x} \<and> deps_first xs (succs (dependencies g))"
proof -
  have "graph_ready g'" "dependencies g' = dependencies g" using check_ready assms by auto
  then show ?thesis using ready_closure [of g' i] assms(3) by simp
qed

theorem sortedDependencies_closure_witness:
  "getSortedDependencies diamond_checked ''app'' = Inr [''base'', ''lib1'', ''lib2'', ''app'']
   \<and> {x. (edge (dependencies diamond_graph))\<^sup>*\<^sup>* ''app'' x} = {''base'', ''lib1'', ''lib2'', ''app''}"
proof -
  have g: "getSortedDependencies diamond_checked ''app'' = Inr [''base'', ''lib1'', ''lib2'', ''app'']"
    by code_simp
  have "om_has (dependencies diamond_graph) ''app''" by code_simp
  from sortedDependencies_closure [OF diamond_built diamond_check this]
  have "set [''base'', ''lib1'', ''lib2'', ''app''] = {x. (edge (dependencies diamond_graph))\<^sup>*\<^sup>* ''app'' x}"
    unfolding g by blast
  then show ?thesis using g by simp
qed

text \<open>
  on an error-free graph \<open>compareItems\<close> is a total order of the items that agrees with the
  sorted graph: it gives 0 exactly for equal items, changes sign when its arguments are swapped,
  and puts what an item depends on before the item.
\<close>

theorem compareItems_order:
  assumes "built g" and "check g = Inr (g', True)"
    and "om_has (dependencies g) i" and "om_has (dependencies g) j"
  shows "\<exists>c. compareItems g' i j = Inr c \<and> compareItems g' j i = Inr (- c) \<and> (c = 0 \<longleftrightarrow> i = j)
     \<and> (c = -1 \<longleftrightarrow> index_of (in_order g') i < index_of (in_order g') j)
     \<and> itemLessFunction g' i j = Inr (c = -1)
     \<and> (i \<in> set (succs (dependencies g) j) \<longrightarrow> c = -1)"
proof -
  have r: "graph_ready g'" "dependencies g' = dependencies g" using check_ready assms by auto
  then have mem: "i \<in> set (in_order g')" "j \<in> set (in_order g')"
    using assms(3,4) by (auto simp: graph_ready_def checked_def om_has_iff)
  let ?n = "index_of (in_order g')"
  let ?c = "if ?n i < ?n j then -1 else if ?n i > ?n j then 1 else 0 :: int"
  have look: "lookup_item (item_order g') x = Inr (Suc (?n x))" if "x \<in> set (in_order g')" for x
    using r(1) that by (simp add: lookup_item_def graph_ready_def checked_def)
  have "compareItems g' i j = Inr ?c" "compareItems g' j i = Inr (- ?c)"
    using r(1) look mem by (auto simp: compareItems_def assertChecked_def graph_ready_def)
  moreover have "?c = 0 \<longleftrightarrow> i = j" using index_of_inj [OF mem] by auto
  moreover have "i \<in> set (succs (dependencies g) j) \<longrightarrow> ?c = -1"
    using dg.dep_earlier [OF r(1), of i j] r(2) by (auto simp: direct_deps_def)
  ultimately show ?thesis by (intro exI [of _ ?c]) (simp add: itemLessFunction_def)
qed

theorem compareItems_order_witness:
  "compareItems diamond_checked ''base'' ''lib1'' = Inr (-1)"
proof -
  have "om_has (dependencies diamond_graph) ''base''" "om_has (dependencies diamond_graph) ''lib1''"
      "''base'' \<in> set (succs (dependencies diamond_graph) ''lib1'')"
    by code_simp+
  then show ?thesis using compareItems_order [OF diamond_built diamond_check] by metis
qed

text \<open>
  C31: on an error-free graph \<open>getIndependentSets\<close> fails no assertion and partitions the items into
  the connected components of the graph (an edge taken in both directions), each of them sorted
  with every item after its dependencies.
\<close>

theorem independentSets_components:
  assumes "built g" and "check g = Inr (g', True)"
  shows "\<exists>sets. getIndependentSets g' = Inr (g'\<lparr>independent_sets := sets\<rparr>, sets)
     \<and> distinct (concat sets) \<and> set (concat sets) = set (om_keys (dependencies g))
     \<and> (\<forall>S \<in> set sets. deps_first S (succs (dependencies g))
          \<and> (\<forall>x \<in> set S. set S =
               {y. (\<lambda>a b. edge (dependencies g) a b \<or> edge (dependencies g) b a)\<^sup>*\<^sup>* x y}))"
proof -
  have r: "graph_ready g'" "dependencies g' = dependencies g" using check_ready assms by auto
  have "independent_sets g' = []"
    using check_fresh [OF built_fresh [OF assms(1)]] built_fresh [OF assms(1)] assms(2)
    by (auto simp: check_success_def fresh_graph_def Let_def)
  then obtain sets where s: "getIndependentSets g' = Inr (g'\<lparr>independent_sets := sets\<rparr>, sets)"
      "distinct (concat sets)" "set (concat sets) = set (in_order g')"
      "\<forall>S \<in> set sets. deps_first S (direct_deps g')
          \<and> (\<forall>x \<in> set S. set S = {y. connected g' x y})"
    using getIndependentSets_correct [OF r(1)] by blast
  have "direct_deps g' = succs (dependencies g)" by (simp add: fun_eq_iff direct_deps_def r(2))
  moreover have "connected g' = (\<lambda>a b. edge (dependencies g) a b \<or> edge (dependencies g) b a)\<^sup>*\<^sup>*"
    using r(1) calculation
    by (simp add: connected_def neighbours_def edge_def dg.rdeps_iff)
  moreover have "set (in_order g') = set (om_keys (dependencies g))"
    using r by (simp add: graph_ready_def checked_def)
  ultimately show ?thesis using s by auto
qed

theorem independentSets_components_witness:
  "\<exists>g''. getIndependentSets diamond_checked
     = Inr (g'', [[''base'', ''lib1'', ''lib2'', ''app''], [''doc'']])
   \<and> deps_first [''base'', ''lib1'', ''lib2'', ''app''] (succs (dependencies diamond_graph))"
proof -
  have "map_sum id snd (getIndependentSets diamond_checked)
      = Inr [[''base'', ''lib1'', ''lib2'', ''app''], [''doc'']]" by code_simp
  then show ?thesis using independentSets_components [OF diamond_built diamond_check] by fastforce
qed

section \<open>Two deviations\<close>

text \<open>
  the text by which \<open>traverseInternal\<close> recognises a cycle it has reported before is not
  unambiguous, contrary to its comment: an item can be named like a part of that text. In this
  graph the item \<open>a) -> (b\<close> depends on itself, which is a cycle, and only the cycle of \<open>a\<close> and \<open>b\<close>
  is reported.
\<close>

theorem cycle_text_ambiguous:
  "\<exists>g g'. built g \<and> check g = Inr (g', False)
     \<and> is_cycle (dependencies g) [''a) -> (b''] \<and> getErrors g' = Inr ([], [[''a'', ''b'']])"
proof -
  let ?spec = "[(''a'', [''b'']), (''b'', [''a'']), (''a) -> (b'', [''a) -> (b''])]"
  let ?g = "projr (graph_of ?spec)"
  have "graph_of ?spec = Inr ?g" by code_simp
  then have "built ?g" by (rule graph_of_built)
  moreover have "check ?g = Inr (fst (projr (check ?g)), False)" by code_simp
  moreover have "is_cycle (dependencies ?g) [''a) -> (b'']" by code_simp
  moreover have "getErrors (fst (projr (check ?g))) = Inr ([], [[''a'', ''b'']])" by code_simp
  ultimately show ?thesis by blast
qed

text \<open>
  adding to a graph after \<open>check\<close> makes it unchecked again, and the errors of the first check
  stay recorded: once the missing item is added the graph has no error, and the second \<open>check\<close>
  still answers False.
\<close>

theorem recheck_keeps_errors:
  "\<exists>g1 g2 g3. graph_of [(''a'', [''b''])] = Inr g1 \<and> check g1 = Inr (g2, False)
     \<and> addItem ''b'' g2 = Inr g3 \<and> graph_state g3 = GS_INIT
     \<and> closed_deps (dependencies g3) \<and> acyclic_deps (dependencies g3)
     \<and> bind_res (check g3) (\<lambda>(g4, b). Inr b) = Inr False"
proof -
  let ?g1 = "projr (graph_of [(''a'', [''b''])])"
  let ?g2 = "fst (projr (check ?g1))"
  let ?g3 = "projr (addItem ''b'' ?g2)"
  have deps: "dependencies ?g3 = [(''a'', [''b'']), (''b'', [])]" by code_simp
  have e: "edge (dependencies ?g3) x y \<longleftrightarrow> x = ''a'' \<and> y = ''b''" for x y
    unfolding deps by (simp add: edge_def om_get_default_def)
  have "closed_deps (dependencies ?g3)" unfolding closed_deps_def e unfolding deps by (simp add: om_has_def)
  moreover have "acyclic_deps (dependencies ?g3)"
  proof -
    have "(edge (dependencies ?g3))\<^sup>+\<^sup>+ x y \<Longrightarrow> x = ''a'' \<and> y = ''b''" for x y
      by (induction rule: tranclp_induct) (simp_all add: e)
    then show ?thesis by (auto simp: acyclic_deps_def)
  qed
  moreover have "graph_of [(''a'', [''b''])] = Inr ?g1" "check ?g1 = Inr (?g2, False)"
      "addItem ''b'' ?g2 = Inr ?g3" "graph_state ?g3 = GS_INIT"
      "bind_res (check ?g3) (\<lambda>(g4, b). Inr b) = Inr False"
    by code_simp+
  ultimately show ?thesis by blast
qed

end
