(* ===== verification/Dependency_Evaluator_Properties.thy ===== *)
theory Dependency_Evaluator_Properties
  imports Dependency_Evaluator_Correct Dependency_Graph_Properties
begin

text \<open>
  The properties of \<open>DependencyEvaluator\<close>, for every sequence of operations on an error-free graph
  (\<open>evaluation\<close>), and the behaviour with failure propagation switched off.
\<close>

section \<open>Reading the state\<close>

lemma getItemState_item:
  "evaluation g ev \<Longrightarrow> i \<in> set (in_order g) \<Longrightarrow> getItemState ev i = Inr (state_of ev i)"
  using evaluation_inv by (fastforce simp: getItemState_def eval_inv_def om_has_iff)

lemma not_started:
  assumes "evaluation g ev" and "i \<in> set (in_order g)"
    and "state_of ev i \<notin> {I_running, I_completed, I_failed}"
  shows "state_of ev i = spec_state (state_of ev) (direct_deps g i)"
proof -
  have inv: "settled ev" "waiting_ok {} ev" and g: "ev_graph ev = g"
    using evaluation_inv [OF assms(1)] by (simp_all add: eval_inv_def)
  consider "state_of ev i = I_waiting" | "state_of ev i = I_ready" | "state_of ev i = I_depfailed"
    using assms(3) by (cases "state_of ev i") auto
  then show ?thesis
  proof cases
    case 1
    then show ?thesis using inv(2) assms(2) by (auto simp: waiting_ok_def spec_state_def g)
  next
    case 2
    then show ?thesis using settled_done [OF inv(1), of i] by (auto simp: spec_state_def bad_state_def g)
  next
    case 3
    then show ?thesis using settled_depfailed [OF inv(1), of i] by (auto simp: spec_state_def g)
  qed
qed

text \<open>An evaluation of the graph \<open>diamond\<close>: \<open>base\<close> completes and \<open>lib1\<close> fails.\<close>

definition diamond_start :: evaluator where
  "diamond_start = projr (new_evaluator diamond_checked)"

definition diamond_run :: evaluator where
  "diamond_run = projr (bind_res (setRunning ''base'' diamond_start) (setCompleted ''base''))"

definition diamond_failed :: evaluator where
  "diamond_failed = projr (bind_res (setRunning ''lib1'' diamond_run) (setFailed ''lib1''))"

lemma diamond_ready: "graph_ready diamond_checked"
  using check_ready [OF diamond_built diamond_check] by blast

lemma diamond_evaluation:
  "evaluation diamond_checked diamond_start"
  "evaluation diamond_checked diamond_run"
  "evaluation diamond_checked diamond_failed"
proof -
  have "new_evaluator diamond_checked = Inr diamond_start" by code_simp
  then show start: "evaluation diamond_checked diamond_start" using diamond_ready by (rule eval_new [rotated])
  have "setRunning ''base'' diamond_start = Inr (projr (setRunning ''base'' diamond_start))"
    and "setCompleted ''base'' (projr (setRunning ''base'' diamond_start)) = Inr diamond_run"
    by code_simp+
  then show run: "evaluation diamond_checked diamond_run"
    using start by (blast intro: eval_running eval_completed)
  have "setRunning ''lib1'' diamond_run = Inr (projr (setRunning ''lib1'' diamond_run))"
    and "setFailed ''lib1'' (projr (setRunning ''lib1'' diamond_run)) = Inr diamond_failed"
    by code_simp+
  then show "evaluation diamond_checked diamond_failed"
    using run by (blast intro: eval_running eval_failed)
qed

section \<open>The rule of the states\<close>





section \<open>Starting items\<close>

text \<open>Whatever an item that is ready or has been started depends on has completed.\<close>

lemma started_deps_done:
  assumes "evaluation g ev" and "state_of ev i \<in> {I_ready, I_running, I_completed, I_failed}"
    and "(\<lambda>x y. y \<in> set (direct_deps g x))\<^sup>+\<^sup>+ i d"
  shows "state_of ev d = I_completed \<and> d \<in> set (in_order g)"
proof -
  have ev: "settled ev" "graph_ready g" "ev_graph ev = g"
    using evaluation_inv [OF assms(1)] by (auto simp: eval_inv_def)
  from assms(3) show ?thesis
  proof (induction rule: tranclp_induct)
    case (base y)
    then show ?case
      using settled_done [OF ev(1) assms(2), of y] dg.dep_in_order [OF ev(2)] ev(3) by simp
  next
    case (step y z)
    then show ?case using settled_done [OF ev(1), of y z] dg.dep_in_order [OF ev(2)] ev(3) by simp
  qed
qed



text \<open>Without running and ready items no item waits, and without a failed item all have completed.\<close>

lemma nothing_waits:
  assumes ev: "evaluation g ev" and norun: "num_running ev = 0"
    and none: "nextReadyItem ev = None" and x: "x \<in> set (in_order g)"
  shows "final_state (state_of ev x)"
proof -
  let ?W = "{y \<in> set (in_order g). state_of ev y = I_waiting}"
  have g: "graph_ready g" and eg: "ev_graph ev = g" and I: "eval_inv {} ev"
    using evaluation_inv [OF ev] by (auto simp: eval_inv_def)
  have "finite (running_items ev)" by (simp add: running_items_def)
  then have norun: "y \<in> set (in_order g) \<Longrightarrow> state_of ev y \<noteq> I_running" for y
    using I norun by (auto simp: eval_inv_def running_items_def eg)
  have none: "y \<in> set (in_order g) \<Longrightarrow> state_of ev y \<noteq> I_ready" for y
    using none eg by (auto simp: nextReadyItem_def find_None_iff)
  have "state_of ev x \<noteq> I_waiting"
  proof
    assume "state_of ev x = I_waiting"
    then obtain m where m: "m \<in> ?W" and min: "\<forall>y \<in> set (direct_deps g m). y \<notin> ?W"
      using dg.minimal_item [OF g, of x ?W] x by blast
    have "state_of ev d = I_completed \<or> bad_state (state_of ev d)" if "d \<in> set (direct_deps g m)" for d
    proof -
      have d: "d \<in> set (in_order g)" by (rule dg.dep_in_order [OF g that])
      then have "state_of ev d \<noteq> I_waiting" using min that by blast
      then show ?thesis using none [OF d] norun [OF d] by (cases "state_of ev d") (auto simp: bad_state_def)
    qed
    then have "spec_state (state_of ev) (direct_deps g m) \<noteq> I_waiting"
      by (auto simp: spec_state_def)
    then show False using not_started [OF ev, of m] m by simp
  qed
  then show ?thesis using none [OF x] norun [OF x] by (cases "state_of ev x") (auto simp: final_state_def)
qed

lemma no_failure:
  assumes ev: "evaluation g ev" and nf: "\<And>y. y \<in> set (in_order g) \<Longrightarrow> state_of ev y \<noteq> I_failed"
  shows "state_of ev x \<noteq> I_depfailed"
proof -
  have g: "graph_ready g" and eg: "ev_graph ev = g" and set: "settled ev"
    using evaluation_inv [OF ev] by (auto simp: eval_inv_def)
  show ?thesis
  proof (induction x rule: dg.dep_induct [OF g])
    case (1 x)
    show ?case
    proof
      assume "state_of ev x = I_depfailed"
      then obtain d where d: "d \<in> set (direct_deps g x)" "bad_state (state_of ev d)"
        using settled_depfailed [OF set] eg by blast
      then show False using 1 nf [OF dg.dep_in_order [OF g d(1)]] by (auto simp: bad_state_def)
    qed
  qed
qed

lemma nextReadyItem_Some:
  assumes ev: "evaluation g ev" and i: "nextReadyItem ev = Some i"
  shows "i \<in> set (in_order g) \<and> state_of ev i = I_ready \<and> (\<exists>ev'. setRunning i ev = Inr ev')
     \<and> (\<forall>j. index_of (in_order g) j < index_of (in_order g) i \<longrightarrow> state_of ev j \<noteq> I_ready)"
proof -
  have g: "graph_ready g" and eg: "ev_graph ev = g" and I: "eval_inv {} ev"
    using evaluation_inv [OF ev] by (auto simp: eval_inv_def)
  obtain k where k: "k < length (in_order g)" "i = in_order g ! k" "state_of ev i = I_ready"
      "\<forall>m < k. state_of ev (in_order g ! m) \<noteq> I_ready"
    using i eg by (auto simp: nextReadyItem_def find_Some_iff)
  have mem: "i \<in> set (in_order g)" using k by simp
  then have "\<exists>ev'. setRunning i ev = Inr ev'"
    using I k(3) by (simp add: setRunning_def assertState_def om_has_iff eval_inv_def eg Let_def)
  moreover have ik: "index_of (in_order g) i = k"
    using k(1,2) dg.order_distinct [OF g] mem by (metis index_of_less nth_eq_iff_index_eq nth_index_of)
  moreover have "j \<in> set (in_order g)" if "index_of (in_order g) j < k" for j
    using that k(1) index_of_notin [of j "in_order g"] by (cases "j \<in> set (in_order g)") auto
  ultimately show ?thesis using k(3,4) mem by (metis nth_index_of)
qed

text \<open>
  C29: the evaluator never gets stuck: when nothing runs and no item is ready, every item is
  completed, failed or dependency-failed, and if none failed all have completed. An item that
  \<open>nextReadyItem\<close> gives is the first ready item of the sorted graph and can be started.
\<close>

theorem evaluator_progress:
  assumes "evaluation g ev"
  shows "case nextReadyItem ev of
      Some i \<Rightarrow> getItemState ev i = Inr I_ready \<and> (\<exists>ev'. setRunning i ev = Inr ev')
        \<and> (\<forall>j \<in> set (in_order g). index_of (in_order g) j < index_of (in_order g) i \<longrightarrow>
              getItemState ev j \<noteq> Inr I_ready)
    | None \<Rightarrow> numRunning ev = 0 \<longrightarrow>
        (\<forall>i \<in> set (in_order g). \<exists>s. getItemState ev i = Inr s \<and> final_state s
          \<and> ((\<forall>j. getItemState ev j \<noteq> Inr I_failed) \<longrightarrow> s = I_completed))"
proof -
  note st = getItemState_item [OF assms]
  show ?thesis
  proof (cases "nextReadyItem ev")
    case (Some i)
    then show ?thesis using nextReadyItem_Some [OF assms Some] st by auto
  next
    case None
    have "final_state (state_of ev x)
        \<and> ((\<forall>j. getItemState ev j \<noteq> Inr I_failed) \<longrightarrow> state_of ev x = I_completed)"
      if "num_running ev = 0" "x \<in> set (in_order g)" for x
    proof (intro conjI impI)
      show fin: "final_state (state_of ev x)" by (rule nothing_waits [OF assms that(1) None that(2)])
      assume "\<forall>j. getItemState ev j \<noteq> Inr I_failed"
      then have nf: "state_of ev y \<noteq> I_failed" if "y \<in> set (in_order g)" for y
        using st [OF that] by metis
      then show "state_of ev x = I_completed"
        using fin no_failure [OF assms nf] nf [OF that(2)] by (auto simp: final_state_def)
    qed
    then show ?thesis using None st by (auto simp: numRunning_def)
  qed
qed

theorem evaluator_progress_witness:
  "nextReadyItem diamond_failed = Some ''lib2'' \<and> (\<exists>ev'. setRunning ''lib2'' diamond_failed = Inr ev')"
proof -
  have n: "nextReadyItem diamond_failed = Some ''lib2''" by code_simp
  then show ?thesis using evaluator_progress [OF diamond_evaluation(3)] by simp
qed

section \<open>Without failure propagation\<close>

text \<open>
  after \<open>disableFailurePropagation\<close> an item is not always held back until all its dependencies
  have been tried, as the header comment promises: the loop in \<open>evaluate\<close> stops at the first
  failed dependency. Here \<open>app\<close> becomes ready when \<open>lib1\<close> has failed, although \<open>lib2\<close>, on which
  it depends too, has not been started, and \<open>app\<close> can then be started.
\<close>

theorem early_ready_without_propagation:
  "\<exists>ev ev'. bind_res (setRunning ''lib1'' (disableFailurePropagation diamond_run)) (setFailed ''lib1'') = Inr ev
     \<and> getItemState ev ''lib2'' = Inr I_ready
     \<and> ''lib2'' \<in> set (direct_deps diamond_checked ''app'')
     \<and> getItemState ev ''app'' = Inr I_ready \<and> setRunning ''app'' ev = Inr ev'"
proof -
  let ?ev = "projr (bind_res (setRunning ''lib1'' (disableFailurePropagation diamond_run)) (setFailed ''lib1''))"
  have "bind_res (setRunning ''lib1'' (disableFailurePropagation diamond_run)) (setFailed ''lib1'') = Inr ?ev"
      "getItemState ?ev ''lib2'' = Inr I_ready" "''lib2'' \<in> set (direct_deps diamond_checked ''app'')"
      "getItemState ?ev ''app'' = Inr I_ready" "setRunning ''app'' ?ev = Inr (projr (setRunning ''app'' ?ev))"
    by code_simp+
  then show ?thesis by blast
qed

end
