(* ===== verification/Dependency_Runner.thy ===== *)
theory Dependency_Runner
  imports Worker_Pool Dependency_Evaluator_Properties
begin

text \<open>
  \<open>DependencyRunner::run\<close> (\<open>src/src/DependencyRunner.cc\<close>): the main thread drives the evaluator and
  gives ready items to the worker pool. Its position in the loop is the value \<open>pc\<close>; between two
  positions it makes at most one call that locks the pool, except in \<open>P_drain\<close>, where it takes the
  result that it has just seen, which no other thread can take. The workers run in between.
\<close>

section \<open>State\<close>

datatype position =
    P_top              \<comment> \<open>start of the outer loop\<close>
  | P_wait bool        \<comment> \<open>in \<open>wait\<close> (True) or in \<open>waitForResults\<close>\<close>
  | P_drain            \<comment> \<open>\<open>while (pool.resultsAvailable())\<close>\<close>
  | P_fill             \<comment> \<open>\<open>if (! stop)\<close> and the first operand of the inner loop's condition\<close>
  | P_workers          \<comment> \<open>its second operand\<close>
  | P_start            \<comment> \<open>its third operand, and the body of the loop\<close>
  | P_test             \<comment> \<open>the test for the end of the outer loop\<close>
  | P_join             \<comment> \<open>\<open>joinThreads\<close>: the request\<close>
  | P_joining          \<comment> \<open>\<open>joinThreads\<close>: waiting for the threads\<close>
  | P_done bool        \<comment> \<open>\<open>run\<close> has returned\<close>

record runner =
  r_evaluator :: evaluator
  r_pool :: "(item, bool) pool"
  any_errors :: bool
  stop :: bool
  stop_on_first_error :: bool
  pc :: position

definition run_start :: "dgraph \<Rightarrow> nat \<Rightarrow> bool \<Rightarrow> bool \<Rightarrow> runner res" where
  "run_start g n stop_first disable =
     bind_res (new_evaluator g) (\<lambda>ev. bind_res (new_pool n) (\<lambda>p.
       Inr \<lparr>r_evaluator = (if disable then disableFailurePropagation ev else ev), r_pool = p,
            any_errors = False, stop = False, stop_on_first_error = stop_first, pc = P_top\<rparr>))"

section \<open>The steps of the main thread\<close>

text \<open>None: the thread blocks.\<close>

definition take_result :: "runner \<Rightarrow> runner res option" where
  "take_result r = (case getResults (r_pool r) of
       None \<Rightarrow> None
     | Some ((item, status), p) \<Rightarrow> Some (
         if status then bind_res (setCompleted item (r_evaluator r)) (\<lambda>ev.
             Inr (r\<lparr>r_evaluator := ev, r_pool := p\<rparr>))
         else bind_res (setFailed item (r_evaluator r)) (\<lambda>ev.
             Inr (r\<lparr>r_evaluator := ev, r_pool := p, any_errors := True,
                    stop := stop r \<or> stop_on_first_error r\<rparr>))))"

definition start_item :: "item \<Rightarrow> runner \<Rightarrow> runner res option" where
  "start_item item r = (case setRunning item (r_evaluator r) of
       Inl e \<Rightarrow> Some (Inl e)
     | Inr ev \<Rightarrow> (case processItem item (r_pool r) of
         None \<Rightarrow> None
       | Some p \<Rightarrow> Some (Inr (r\<lparr>r_evaluator := ev, r_pool := p, pc := P_fill\<rparr>))))"

fun main_step :: "runner \<Rightarrow> runner res option" where
  "main_step r = (case pc r of
      P_top \<Rightarrow> Some (Inr (r\<lparr>pc := P_wait (nextReadyItem (r_evaluator r) \<noteq> None)\<rparr>))
    | P_wait ready \<Rightarrow>
        if (if ready then wait_returns (r_pool r) else waitForResults_returns (r_pool r))
        then Some (Inr (r\<lparr>pc := P_drain\<rparr>)) else None
    | P_drain \<Rightarrow> if resultsAvailable (r_pool r) then take_result r else Some (Inr (r\<lparr>pc := P_fill\<rparr>))
    | P_fill \<Rightarrow> Some (Inr (r\<lparr>pc := if \<not> stop r \<and> \<not> resultsAvailable (r_pool r) then P_workers else P_test\<rparr>))
    | P_workers \<Rightarrow> Some (Inr (r\<lparr>pc := if availableWorkers (r_pool r) \<noteq> 0 then P_start else P_test\<rparr>))
    | P_start \<Rightarrow> (case nextReadyItem (r_evaluator r) of
          None \<Rightarrow> Some (Inr (r\<lparr>pc := P_test\<rparr>))
        | Some item \<Rightarrow> start_item item r)
    | P_test \<Rightarrow> Some (Inr (r\<lparr>pc :=
        if idle (r_pool r) \<and> (stop r \<or> nextReadyItem (r_evaluator r) = None) then P_join else P_top\<rparr>))
    | P_join \<Rightarrow> Some (Inr (r\<lparr>r_pool := requestShutdown [] (r_pool r), pc := P_joining\<rparr>))
    | P_joining \<Rightarrow> if joinThreads_returns (r_pool r) then Some (Inr (r\<lparr>pc := P_done (\<not> any_errors r)\<rparr>)) else None
    | P_done b \<Rightarrow> None)"

declare main_step.simps [simp del]

section \<open>The whole program\<close>

inductive run_step :: "(item \<Rightarrow> bool \<Rightarrow> bool) \<Rightarrow> runner \<Rightarrow> runner \<Rightarrow> bool"
  for meth :: "item \<Rightarrow> bool \<Rightarrow> bool"
where
  run_main: "main_step r = Some (Inr r') \<Longrightarrow> run_step meth r r'"
| run_worker: "worker_step meth (r_pool r) p \<Longrightarrow> run_step meth r (r\<lparr>r_pool := p\<rparr>)"

inductive_cases run_stepE: "run_step meth r r'"

inductive running :: "(item \<Rightarrow> bool \<Rightarrow> bool) \<Rightarrow> runner \<Rightarrow> runner \<Rightarrow> bool"
  for meth :: "item \<Rightarrow> bool \<Rightarrow> bool" and r0 :: runner
where
  running_start: "running meth r0 r0"
| running_step: "running meth r0 r \<Longrightarrow> run_step meth r r' \<Longrightarrow> running meth r0 r'"

section \<open>What evaluation leaves alone\<close>

lemma evaluate_keeps:
  assumes "s \<in> {I_running, I_completed, I_failed}"
  shows "state_of (evaluate i ev) x = s \<longleftrightarrow> state_of ev x = s"
    and "state_of (evaluate_all is ev) x = s \<longleftrightarrow> state_of ev x = s"
proof (induction i ev and "is" ev rule: evaluate_evaluate_all.induct)
  case (1 i ev)
  then show ?case using assms by (auto simp: evaluate.simps [of i ev] Let_def)
qed simp_all

lemma setFinished_states:
  assumes "op = setCompleted \<and> s0 = I_completed \<or> op = setFailed \<and> s0 = I_failed"
    and "op i ev = Inr ev'"
  shows "state_of ev i = I_running \<and> om_has (states ev) i
     \<and> (\<forall>s \<in> {I_running, I_completed, I_failed}. \<forall>x.
          state_of ev' x = s \<longleftrightarrow> (if x = i then s = s0 else state_of ev x = s))"
  using assms
  by (auto simp: setCompleted_def setFailed_def assertState_def res_simps Let_def
      evaluateReverseDependencies_def evaluate_keeps)

section \<open>The invariant\<close>

definition failed_items :: "runner \<Rightarrow> item set" where
  "failed_items r = {x \<in> ev_items (r_evaluator r). state_of (r_evaluator r) x = I_failed}"

definition finish_ok :: "runner \<Rightarrow> bool" where
  "finish_ok r \<longleftrightarrow> running_items (r_evaluator r) = {}
     \<and> (stop r \<or> nextReadyItem (r_evaluator r) = None)"

fun position_ok :: "runner \<Rightarrow> position \<Rightarrow> bool" where
  "position_ok r (P_wait b) \<longleftrightarrow> (b \<longleftrightarrow> nextReadyItem (r_evaluator r) \<noteq> None)"
| "position_ok r P_workers \<longleftrightarrow> \<not> stop r"
| "position_ok r P_start \<longleftrightarrow> \<not> stop r \<and> available_workers (r_pool r) \<noteq> []"
| "position_ok r P_join \<longleftrightarrow> finish_ok r"
| "position_ok r P_joining \<longleftrightarrow> finish_ok r"
| "position_ok r (P_done b) \<longleftrightarrow> finish_ok r \<and> (b \<longleftrightarrow> \<not> any_errors r)"
| "position_ok r _ \<longleftrightarrow> True"

definition run_inv :: "dgraph \<Rightarrow> runner \<Rightarrow> bool" where
  "run_inv g r \<longleftrightarrow> evaluation g (r_evaluator r)
     \<and> (case pc r of P_joining \<Rightarrow> closing (r_pool r) | P_done b \<Rightarrow> closing (r_pool r)
        | _ \<Rightarrow> pool_inv (r_pool r) \<and> pending (r_pool r) = mset_set (running_items (r_evaluator r)))
     \<and> (any_errors r \<longleftrightarrow> failed_items r \<noteq> {}) \<and> (stop r \<longleftrightarrow> any_errors r \<and> stop_on_first_error r)
     \<and> position_ok r (pc r)"

definition at_work :: "position \<Rightarrow> bool" where
  "at_work p \<longleftrightarrow> p \<noteq> P_joining \<and> (\<forall>b. p \<noteq> P_done b)"

lemma run_inv_work: "at_work (pc r) \<Longrightarrow> run_inv g r \<longleftrightarrow> evaluation g (r_evaluator r)
     \<and> pool_inv (r_pool r) \<and> pending (r_pool r) = mset_set (running_items (r_evaluator r))
     \<and> (any_errors r \<longleftrightarrow> failed_items r \<noteq> {}) \<and> (stop r \<longleftrightarrow> any_errors r \<and> stop_on_first_error r)
     \<and> position_ok r (pc r)"
  by (cases "pc r") (auto simp: run_inv_def at_work_def)

lemma at_work_simps [simp]:
  "at_work P_top" "at_work (P_wait b)" "at_work P_drain" "at_work P_fill" "at_work P_workers"
  "at_work P_start" "at_work P_test" "at_work P_join" "\<not> at_work P_joining" "\<not> at_work (P_done b)"
  by (simp_all add: at_work_def)

lemma finite_running [simp]: "finite (running_items ev)"
  by (simp add: running_items_def)

lemma run_frame [simp]:
  "failed_items (r\<lparr>pc := p\<rparr>) = failed_items r" "failed_items (r\<lparr>r_pool := q\<rparr>) = failed_items r"
  "failed_items (r\<lparr>r_pool := q, pc := p\<rparr>) = failed_items r"
  "finish_ok (r\<lparr>pc := p\<rparr>) = finish_ok r" "finish_ok (r\<lparr>r_pool := q\<rparr>) = finish_ok r"
  "finish_ok (r\<lparr>r_pool := q, pc := p\<rparr>) = finish_ok r"
  by (simp_all add: failed_items_def finish_ok_def)


section \<open>Every step keeps it\<close>

lemma new_evaluator_states:
  assumes "new_evaluator g = Inr ev"
  shows "state_of ev x = I_ready \<or> state_of ev x = I_waiting"
proof -
  let ?f = "\<lambda>i. om_put i (if direct_deps g i = [] then I_ready else I_waiting)"
  have "om_get (fold ?f xs m) x = Some s \<Longrightarrow>
      om_get m x = Some s \<or> s = I_ready \<or> s = I_waiting" for xs m s
    by (induction xs arbitrary: m) (fastforce split: if_splits)+
  then have "om_get (fold ?f xs []) x = Some s \<Longrightarrow> s = I_ready \<or> s = I_waiting" for xs s
    by force
  moreover obtain xs where "states ev = fold ?f xs []"
    using assms by (auto simp: new_evaluator_def res_simps)
  ultimately show ?thesis
    by (cases "om_get (states ev) x") (auto simp: state_of_def om_get_default_def)
qed

lemma start_inv:
  assumes "graph_ready g" and "n \<ge> 1"
  shows "\<exists>r. run_start g n stop_first False = Inr r \<and> run_inv g r \<and> pc r = P_top
     \<and> stop_on_first_error r = stop_first"
proof -
  obtain ev where ev: "new_evaluator g = Inr ev" "ev_graph ev = g" "eval_inv {} ev"
    using new_evaluator_inv [OF assms(1)] by blast
  obtain p :: "(item, bool) pool" where p: "new_pool n = Inr p" "pool_inv p"
    using new_pool_inv [OF assms(2)] by blast
  have pp: "pending p = {#}"
    using p(1) assms(2) by (auto simp: new_pool_def pending_def held_def)
  have st: "state_of ev x \<noteq> I_running \<and> state_of ev x \<noteq> I_failed" for x
    using new_evaluator_states [OF ev(1), of x] by auto
  have "evaluation g ev" using assms(1) ev(1) by (rule eval_new)
  then show ?thesis
    using ev(1) p pp st by (auto simp: run_start_def run_inv_def failed_items_def running_items_def)
qed

lemma take_result_inv:
  assumes inv: "run_inv g r" and drain: "pc r = P_drain" and res: "take_result r = Some x"
  shows "\<exists>r'. x = Inr r' \<and> run_inv g r' \<and> pc r' = P_drain
     \<and> stop_on_first_error r' = stop_on_first_error r
     \<and> (\<exists>i. state_of (r_evaluator r) i = I_running \<and> state_of (r_evaluator r') i \<noteq> I_running
          \<and> i \<in> set (in_order g)
          \<and> (\<forall>s \<in> {I_running, I_completed, I_failed}. \<forall>j. j \<noteq> i \<longrightarrow>
               state_of (r_evaluator r') j = s \<longleftrightarrow> state_of (r_evaluator r) j = s)
          \<and> state_of (r_evaluator r') i \<in> {I_completed, I_failed})"
proof -
  let ?ev = "r_evaluator r"
  have I: "evaluation g ?ev" "pool_inv (r_pool r)" "pending (r_pool r) = mset_set (running_items ?ev)"
      "any_errors r \<longleftrightarrow> failed_items r \<noteq> {}" "stop r \<longleftrightarrow> any_errors r \<and> stop_on_first_error r"
    using inv drain by (simp_all add: run_inv_work)
  have eg: "ev_graph ?ev = g" "eval_inv {} ?ev" using evaluation_inv [OF I(1)] by auto
  obtain i s p where g: "getResults (r_pool r) = Some ((i, s), p)"
    using res by (auto simp: take_result_def split: option.splits)
  have pend: "pending (r_pool r) = add_mset i (pending p)" by (rule getResults_pending [OF g])
  then have "i \<in># mset_set (running_items ?ev)" using I(3) by simp
  then have i: "i \<in> running_items ?ev" by simp
  then have ist: "state_of ?ev i = I_running" "i \<in> set (in_order g)" "om_has (states ?ev) i"
    using eg by (auto simp: running_items_def eval_inv_def om_has_iff)
  define op where "op = (if s then setCompleted else setFailed)"
  define s0 where "s0 = (if s then I_completed else I_failed)"
  obtain ev' where ev': "op i ?ev = Inr ev'"
    using ist by (cases s) (auto simp: op_def setCompleted_def setFailed_def assertState_def Let_def)
  have eva: "evaluation g ev'"
    using I(1) ev' by (cases s) (auto simp: op_def intro: eval_completed eval_failed)
  then have eg': "ev_graph ev' = g" using evaluation_inv by blast
  have st: "st \<in> {I_running, I_completed, I_failed} \<Longrightarrow>
      state_of ev' x = st \<longleftrightarrow> (if x = i then st = s0 else state_of ?ev x = st)" for st x
    using setFinished_states [of op s0 i ?ev ev'] ev' by (cases s) (auto simp: op_def s0_def)
  let ?r' = "if s then r\<lparr>r_evaluator := ev', r_pool := p\<rparr>
     else r\<lparr>r_evaluator := ev', r_pool := p, any_errors := True, stop := stop r \<or> stop_on_first_error r\<rparr>"
  have x: "x = Inr ?r'" using res g ev' by (auto simp: take_result_def op_def)
  have run: "running_items ev' = running_items ?ev - {i}"
    using st [of I_running] by (auto simp: running_items_def eg eg' s0_def)
  have "mset_set (running_items ?ev) = add_mset i (mset_set (running_items ?ev - {i}))"
    using i by (simp add: mset_set.remove)
  then have "pending p = mset_set (running_items ev')" using pend I(3) run by simp
  moreover have "pool_inv p" by (rule getResults_inv [OF I(2) g])
  moreover have "failed_items ?r' = failed_items r \<union> (if s then {} else {i})"
    using st [of I_failed] ist by (auto simp: failed_items_def eg eg' s0_def)
  ultimately have "run_inv g ?r'"
    using eva I(4,5) drain by (cases s) (auto simp: run_inv_work)
  moreover have "state_of ev' i \<noteq> I_running" using st [of I_running i] by (simp add: s0_def)
  moreover have "state_of ev' i \<in> {I_completed, I_failed}" using st [of s0 i] by (simp add: s0_def)
  moreover have "\<forall>t \<in> {I_running, I_completed, I_failed}. \<forall>j. j \<noteq> i \<longrightarrow>
      state_of ev' j = t \<longleftrightarrow> state_of ?ev j = t"
    using st by simp
  ultimately show ?thesis using x ist(1,2) drain
    by (intro exI [of _ ?r']) (cases s; auto)
qed

lemma start_item_inv:
  assumes inv: "run_inv g r" and pos: "pc r = P_start"
    and next_i: "nextReadyItem (r_evaluator r) = Some i"
  shows "\<exists>r'. start_item i r = Some (Inr r') \<and> run_inv g r' \<and> pc r' = P_fill
     \<and> stop_on_first_error r' = stop_on_first_error r
     \<and> setRunning i (r_evaluator r) = Inr (r_evaluator r')
     \<and> processItem i (r_pool r) = Some (r_pool r')"
proof -
  let ?ev = "r_evaluator r"
  have I: "evaluation g ?ev" "pool_inv (r_pool r)" "pending (r_pool r) = mset_set (running_items ?ev)"
      "any_errors r \<longleftrightarrow> failed_items r \<noteq> {}" "stop r \<longleftrightarrow> any_errors r \<and> stop_on_first_error r"
      "available_workers (r_pool r) \<noteq> []"
    using inv pos by (simp_all add: run_inv_work)
  have eg: "ev_graph ?ev = g" "eval_inv {} ?ev" using evaluation_inv [OF I(1)] by auto
  obtain ev' where ev': "setRunning i ?ev = Inr ev'" and i: "i \<in> set (in_order g)" "state_of ?ev i = I_ready"
    using nextReadyItem_Some [OF I(1) next_i] by blast
  obtain p where p: "processItem i (r_pool r) = Some p"
    using I(6) by (cases "available_workers (r_pool r)") (auto simp: processItem_def)
  note run = setRunning_inv [OF eg(2) ev']
  have st: "state_of ev' x = (if x = i then I_running else state_of ?ev x)" for x
    using run state_setItemState [of i I_running ?ev x] by (simp add: state_of_def)
  have "running_items ev' = insert i (running_items ?ev)" "i \<notin> running_items ?ev"
    using st run i by (auto simp: running_items_def eg)
  then have "pending p = mset_set (running_items ev')"
    using processItem_pending [OF I(2) p] I(3) by simp
  moreover have "failed_items (r\<lparr>r_evaluator := ev', r_pool := p, pc := P_fill\<rparr>) = failed_items r"
    using st run i by (auto simp: failed_items_def)
  ultimately have "run_inv g (r\<lparr>r_evaluator := ev', r_pool := p, pc := P_fill\<rparr>)"
    using eval_running [OF I(1) ev'] processItem_inv [OF I(2) p] I(4,5) by (auto simp: run_inv_work)
  then show ?thesis using ev' p by (simp add: start_item_def)
qed

lemma main_step_inv:
  assumes inv: "run_inv g r" and step: "main_step r = Some x"
  shows "\<exists>r'. x = Inr r' \<and> run_inv g r' \<and> stop_on_first_error r' = stop_on_first_error r"
proof (cases "pc r")
  case P_drain
  show ?thesis
  proof (cases "resultsAvailable (r_pool r)")
    case True
    then have "take_result r = Some x" using step P_drain by (simp add: main_step.simps)
    then show ?thesis using take_result_inv [OF inv P_drain] by blast
  next
    case False
    then show ?thesis using step P_drain inv by (auto simp: main_step.simps run_inv_work)
  qed
next
  case P_start
  show ?thesis
  proof (cases "nextReadyItem (r_evaluator r)")
    case None
    then show ?thesis using step P_start inv by (auto simp: main_step.simps run_inv_work)
  next
    case (Some i)
    then show ?thesis using start_item_inv [OF inv P_start Some] step P_start
      by (auto simp: main_step.simps)
  qed
next
  case P_test
  have p: "pool_inv (r_pool r)" "pending (r_pool r) = mset_set (running_items (r_evaluator r))"
    using inv P_test by (simp_all add: run_inv_work)
  then have "idle (r_pool r) \<Longrightarrow> running_items (r_evaluator r) = {}"
    using idle_pending [of "r_pool r"] mset_set_empty_iff [of "running_items (r_evaluator r)"] by auto
  then have "let d = idle (r_pool r) \<and> (stop r \<or> nextReadyItem (r_evaluator r) = None)
      in x = Inr (r\<lparr>pc := if d then P_join else P_top\<rparr>) \<and> (d \<longrightarrow> finish_ok r)"
    using step P_test by (auto simp: main_step.simps finish_ok_def Let_def)
  then show ?thesis
    using inv P_test unfolding Let_def
    by (cases "idle (r_pool r) \<and> (stop r \<or> nextReadyItem (r_evaluator r) = None)")
       (simp_all only: if_True if_False, auto simp: run_inv_work)
next
  case P_join
  then have "closing (requestShutdown [] (r_pool r))"
    using inv by (intro requestShutdown_closing) (simp add: run_inv_work)
  then show ?thesis using step P_join inv by (auto simp: main_step.simps run_inv_def)
next
  case P_joining
  then show ?thesis using step inv by (auto simp: main_step.simps run_inv_def split: if_splits)
qed (use inv step in \<open>auto simp: main_step.simps run_inv_work availableWorkers_def split: if_splits\<close>)

lemma run_step_inv:
  assumes inv: "run_inv g r" and step: "run_step meth r r'"
  shows "run_inv g r' \<and> stop_on_first_error r' = stop_on_first_error r"
  using step
proof cases
  case run_main
  then show ?thesis using main_step_inv [OF inv, of "Inr r'"] by auto
next
  case (run_worker p)
  show ?thesis
  proof (cases "at_work (pc r)")
    case True
    then have "pool_inv (r_pool r)" using inv by (simp add: run_inv_work)
    then have "pool_inv p" "pending p = pending (r_pool r)"
      using run_worker worker_step_inv worker_step_pending by blast+
    moreover have "pc r = P_start \<Longrightarrow> available_workers p \<noteq> []"
      using run_worker(2) inv by cases (auto simp: run_inv_work)
    ultimately show ?thesis using run_worker(1) True inv by (cases "pc r") (auto simp: run_inv_work)
  next
    case False
    then have "closing (r_pool r)" using inv by (cases "pc r") (auto simp: run_inv_def)
    then have "closing p" using run_worker worker_step_closing by blast
    then show ?thesis using run_worker(1) False inv by (cases "pc r") (auto simp: run_inv_def)
  qed
qed

lemma running_inv: "running meth r0 r \<Longrightarrow> run_inv g r0 \<Longrightarrow>
    run_inv g r \<and> stop_on_first_error r = stop_on_first_error r0"
  by (induction rule: running.induct) (auto dest: run_step_inv)

end
