(* ===== verification/Dependency_Runner_Properties.thy ===== *)
theory Dependency_Runner_Properties
  imports Dependency_Runner
begin

text \<open>
  The properties of \<open>DependencyRunner::run\<close> for every graph without errors, every number of
  workers, every interleaving and every method: what may run, what \<open>run\<close> returns, that no thread
  waits for ever and that the loop ends, which fails when \<open>stop_on_first_error\<close> is set.
\<close>

section \<open>Runs from a schedule\<close>

text \<open>
  \<open>step_worker w s\<close> lets worker \<open>w\<close> take its next step, a busy worker with the status \<open>s\<close>; a
  schedule says for every step which thread takes it, None being the main thread.
\<close>

definition step_worker :: "nat \<Rightarrow> 's \<Rightarrow> ('i, 's) pool \<Rightarrow> ('i, 's) pool option" where
  "step_worker w s p = (if w < num_workers p then
     (case threads p ! w of
        W_starting \<Rightarrow> Some (p\<lparr>available_workers := available_workers p @ [w],
                              threads := (threads p)[w := W_waiting]\<rparr>)
      | W_waiting \<Rightarrow> (case queues p ! w of
            [] \<Rightarrow> None
          | (b, item) # q \<Rightarrow> Some (p\<lparr>queues := (queues p)[w := q],
                threads := (threads p)[w := if b then W_busy item else W_exited]\<rparr>))
      | W_busy item \<Rightarrow> Some (p\<lparr>results := results p @ [(item, s)],
                              available_workers := available_workers p @ [w],
                              threads := (threads p)[w := W_waiting]\<rparr>)
      | W_exited \<Rightarrow> None)
     else None)"

lemma step_worker_sound:
  assumes "step_worker w s p = Some p'"
  shows "worker_step (\<lambda>_ _. True) p p'"
proof -
  have w: "w < num_workers p" using assms by (simp add: step_worker_def split: if_splits)
  show ?thesis
  proof (cases "threads p ! w")
    case W_starting
    then show ?thesis using assms w step_start [OF w] by (auto simp: step_worker_def)
  next
    case W_waiting
    then obtain b i q where q: "queues p ! w = (b, i) # q"
      using assms w by (cases "queues p ! w") (auto simp: step_worker_def)
    then show ?thesis
      using assms w W_waiting step_take [OF w W_waiting, of i q] step_exit [OF w W_waiting, of i q]
      by (cases b) (auto simp: step_worker_def)
  next
    case (W_busy i)
    then show ?thesis using assms w step_finish [OF w W_busy, of "\<lambda>_ _. True" s]
      by (auto simp: step_worker_def)
  qed (use assms w in \<open>simp add: step_worker_def\<close>)
qed

fun schedule :: "(nat \<times> bool) option list \<Rightarrow> runner \<Rightarrow> runner option" where
  "schedule [] r = Some r"
| "schedule (None # xs) r = (case main_step r of Some (Inr r') \<Rightarrow> schedule xs r' | _ \<Rightarrow> None)"
| "schedule (Some (w, s) # xs) r =
     (case step_worker w s (r_pool r) of Some p \<Rightarrow> schedule xs (r\<lparr>r_pool := p\<rparr>) | None \<Rightarrow> None)"

lemma running_trans: "running meth r0 r \<Longrightarrow> running meth r r' \<Longrightarrow> running meth r0 r'"
  by (rotate_tac, induction rule: running.induct) (auto intro: running.intros)

lemma schedule_running: "schedule xs r = Some r' \<Longrightarrow> running (\<lambda>_ _. True) r r'"
proof (induction xs r rule: schedule.induct)
  case (1 r)
  then show ?case by (simp add: running_start)
next
  case (2 xs r)
  then obtain r1 where "main_step r = Some (Inr r1)" "schedule xs r1 = Some r'"
    by (auto split: option.splits sum.splits)
  moreover from this 2 have "running (\<lambda>_ _. True) r1 r'" by blast
  ultimately show ?case
    using running_trans running_step [OF running_start run_main] by blast
next
  case (3 w s xs r)
  then obtain p where p: "step_worker w s (r_pool r) = Some p" "schedule xs (r\<lparr>r_pool := p\<rparr>) = Some r'"
    by (auto split: option.splits)
  with 3 have "running (\<lambda>_ _. True) (r\<lparr>r_pool := p\<rparr>) r'" by blast
  moreover have "running (\<lambda>_ _. True) r (r\<lparr>r_pool := p\<rparr>)"
    by (rule running_step [OF running_start run_worker [OF step_worker_sound [OF p(1)]]])
  ultimately show ?case using running_trans by blast
qed

section \<open>Progress\<close>

lemma run_inv_pool: "run_inv g r \<Longrightarrow> pool_inv (r_pool r) \<or> closing (r_pool r)"
  by (cases "pc r") (simp_all add: run_inv_def)

lemma available_bound: "pool_inv p \<Longrightarrow> length (available_workers p) \<le> num_workers p"
  by (metis card_lessThan card_mono distinct_card finite_lessThan pool_inv_def)

lemma main_step_blocked:
  assumes inv: "run_inv g r" and blocked: "main_step r = None"
  shows "(\<exists>b. pc r = P_done b)
     \<or> pool_inv (r_pool r) \<and> length (available_workers (r_pool r)) < num_workers (r_pool r)
     \<or> closing (r_pool r) \<and> \<not> joinThreads_returns (r_pool r)"
proof (cases "pc r")
  case (P_wait b)
  then show ?thesis using assms
    by (auto simp: main_step.simps run_inv_work wait_returns_def waitForResults_returns_def
        pool_inv_def split: if_splits)
next
  case P_drain
  then show ?thesis using blocked
    by (auto simp: main_step.simps take_result_def getResults_def resultsAvailable_def
        split: if_splits list.splits)
next
  case P_start
  then show ?thesis using blocked start_item_inv [OF inv P_start]
    by (fastforce simp: main_step.simps split: option.splits)
next
  case P_joining
  then show ?thesis using assms by (auto simp: main_step.simps run_inv_def split: if_splits)
qed (use blocked in \<open>auto simp: main_step.simps\<close>)

lemma run_progress:
  assumes "run_inv g r" and "\<And>i. \<exists>s. meth i s" and "\<And>b. pc r \<noteq> P_done b"
  shows "\<exists>r'. run_step meth r r'"
proof (cases "main_step r")
  case None
  then have "\<exists>p. worker_step meth (r_pool r) p"
    using main_step_blocked [OF assms(1) None] assms(3)
      worker_progress [of "r_pool r" meth, OF _ _ assms(2)]
      closing_progress [of "r_pool r" meth, OF _ _ assms(2)] by blast
  then show ?thesis using run_worker by blast
next
  case (Some x)
  then obtain r' where "x = Inr r'" using main_step_inv [OF assms(1)] by blast
  then show ?thesis using Some run_main by blast
qed

section \<open>Termination\<close>

text \<open>What the items still have to go through.\<close>

definition weight :: "item_state \<Rightarrow> nat" where
  "weight s = (if s = I_running then 1 else if s = I_completed \<or> s = I_failed then 0 else 2)"

definition load :: "evaluator \<Rightarrow> nat" where
  "load ev = (\<Sum>i \<in> ev_items ev. weight (state_of ev i))"

lemma load_less:
  assumes "ev_graph ev' = ev_graph ev" and "i \<in> ev_items ev"
    and "weight (state_of ev' i) < weight (state_of ev i)"
    and "\<And>j. j \<noteq> i \<Longrightarrow> weight (state_of ev' j) = weight (state_of ev j)"
  shows "load ev' < load ev"
  unfolding load_def assms(1)
proof (rule sum_strict_mono_ex1)
  show "\<forall>j \<in> ev_items ev. weight (state_of ev' j) \<le> weight (state_of ev j)"
    using assms(3,4) by (metis less_imp_le order_refl)
qed (use assms in auto)

text \<open>
  The number of steps that the main thread can take without changing the evaluator, when no worker
  takes a step. It is finite because a loop in which nothing happens ends in \<open>wait\<close> or
  \<open>waitForResults\<close>.
\<close>

definition finish :: "runner \<Rightarrow> bool" where
  "finish r \<longleftrightarrow> idle (r_pool r) \<and> nextReadyItem (r_evaluator r) = None"

definition calm :: "runner \<Rightarrow> bool" where
  "calm r \<longleftrightarrow> nextReadyItem (r_evaluator r) \<noteq> None \<and> available_workers (r_pool r) \<noteq> [] \<or> finish r"

fun rank_at :: "runner \<Rightarrow> position \<Rightarrow> nat" where
  "rank_at r P_top = 20"
| "rank_at r (P_wait b) = 19"
| "rank_at r P_drain = (if results (r_pool r) \<noteq> [] \<or> calm r then 18 else 25)"
| "rank_at r P_fill = (if results (r_pool r) = [] \<and> calm r then 17 else 24)"
| "rank_at r P_workers = (if calm r then 16 else 23)"
| "rank_at r P_start = (if nextReadyItem (r_evaluator r) \<noteq> None \<or> finish r then 15 else 22)"
| "rank_at r P_test = (if finish r then 14 else 21)"
| "rank_at r P_join = 13"
| "rank_at r P_joining = 12"
| "rank_at r (P_done b) = 0"

definition rank :: "runner \<Rightarrow> nat" where
  "rank r = rank_at r (pc r)"

lemma rank_frame [simp]: "finish (r\<lparr>pc := p\<rparr>) = finish r" "calm (r\<lparr>pc := p\<rparr>) = calm r"
  by (simp_all add: finish_def calm_def)

lemma rank_move [simp]: "rank (r\<lparr>pc := p\<rparr>) = rank_at r p"
  by (cases p) (simp_all add: rank_def)

definition run_measure :: "(runner \<times> runner) set" where
  "run_measure = measures [\<lambda>r. of_bool (at_work (pc r)), \<lambda>r. load (r_evaluator r),
     \<lambda>r. work_left (r_pool r), rank]"

lemma main_step_rank:
  assumes inv: "run_inv g r" and ns: "\<not> stop r" and step: "main_step r = Some (Inr r')"
    and work: "at_work (pc r)" and pos: "pc r \<noteq> P_join"
    and drain: "pc r = P_drain \<Longrightarrow> results (r_pool r) = []"
    and start: "pc r = P_start \<Longrightarrow> nextReadyItem (r_evaluator r) = None"
  shows "\<exists>p. r' = r\<lparr>pc := p\<rparr> \<and> at_work p \<and> rank r' < rank r"
proof -
  have pcs: "r' = r\<lparr>pc := p\<rparr> \<Longrightarrow> rank_at r p < rank_at r (pc r) \<Longrightarrow> at_work p \<Longrightarrow> ?thesis" for p
    using rank_move [where r = r and p = p] rank_def [of r] by metis
  show ?thesis
  proof (cases "pc r")
    case P_top
    then show ?thesis using step
      by (intro pcs [of "P_wait (nextReadyItem (r_evaluator r) \<noteq> None)"])
         (simp_all add: main_step.simps)
  next
    case (P_wait b)
    have p: "pool_inv (r_pool r)" "b \<longleftrightarrow> nextReadyItem (r_evaluator r) \<noteq> None"
      using inv P_wait by (simp_all add: run_inv_work)
    have ret: "if b then wait_returns (r_pool r) else waitForResults_returns (r_pool r)"
      using step P_wait by (simp add: main_step.simps split: if_splits)
    have "results (r_pool r) \<noteq> [] \<or> calm r"
      using ret p available_bound [OF p(1)]
      by (simp add: wait_returns_def waitForResults_returns_def pool_inv_def
          calm_def finish_def idle_def split: if_splits; linarith)
    moreover have "r' = r\<lparr>pc := P_drain\<rparr>"
      using step P_wait by (simp add: main_step.simps if_P [OF ret])
    ultimately show ?thesis using P_wait by (intro pcs [of P_drain]) simp_all
  next
    case P_drain
    then show ?thesis using step drain
      by (intro pcs [of P_fill]) (simp_all add: main_step.simps resultsAvailable_def)
  next
    case P_fill
    show ?thesis
    proof (cases "results (r_pool r) = []")
      case True
      then show ?thesis using step P_fill ns
        by (intro pcs [of P_workers]) (simp_all add: main_step.simps resultsAvailable_def)
    next
      case False
      then have "\<not> finish r" by (simp add: finish_def idle_def)
      then show ?thesis using step P_fill False
        by (intro pcs [of P_test]) (simp_all add: main_step.simps resultsAvailable_def)
    qed
  next
    case P_workers
    have p: "pool_inv (r_pool r)" using inv P_workers by (simp add: run_inv_work)
    show ?thesis
    proof (cases "available_workers (r_pool r) = []")
      case True
      then have nf: "\<not> finish r" using p by (simp add: finish_def idle_def pool_inv_def)
      then have "\<not> calm r" using True by (simp add: calm_def)
      then show ?thesis using step P_workers True nf
        by (intro pcs [of P_test]) (simp_all add: main_step.simps availableWorkers_def)
    next
      case False
      then have c: "calm r \<longleftrightarrow> nextReadyItem (r_evaluator r) \<noteq> None \<or> finish r"
        by (simp add: calm_def)
      then show ?thesis using step P_workers False
        by (intro pcs [of P_start]) (simp_all add: main_step.simps availableWorkers_def c)
    qed
  next
    case P_start
    then show ?thesis using step start
      by (intro pcs [of P_test]) (simp_all add: main_step.simps)
  next
    case P_test
    then have r': "r' = r\<lparr>pc := if finish r then P_join else P_top\<rparr>"
      using step ns by (simp add: main_step.simps finish_def)
    show ?thesis
      by (rule pcs [OF r']) (cases "finish r"; simp add: P_test)+
  qed (use work pos in simp_all)
qed

lemma run_step_measure:
  assumes inv: "run_inv g r" and ns: "\<not> stop_on_first_error r" and step: "run_step meth r r'"
  shows "(r', r) \<in> run_measure"
  using step
proof cases
  case (run_worker p)
  have "length (queues (r_pool r)) = num_workers (r_pool r)"
      "length (threads (r_pool r)) = num_workers (r_pool r)"
    using run_inv_pool [OF inv] by (auto simp: pool_inv_def closing_def)
  then have "work_left p < work_left (r_pool r)" using run_worker worker_step_work by blast
  then show ?thesis using run_worker(1) by (simp add: run_measure_def)
next
  case run_main
  have stop: "\<not> stop r" using inv ns by (simp add: run_inv_def)
  consider "pc r = P_drain" "results (r_pool r) \<noteq> []"
    | i where "pc r = P_start" "nextReadyItem (r_evaluator r) = Some i"
    | "pc r = P_join" | "\<not> at_work (pc r)"
    | "at_work (pc r)" "pc r \<noteq> P_join" "pc r = P_drain \<longrightarrow> results (r_pool r) = []"
      "pc r = P_start \<longrightarrow> nextReadyItem (r_evaluator r) = None"
    by (cases "nextReadyItem (r_evaluator r)") auto
  then show ?thesis
  proof cases
    case 1
    then have "take_result r = Some (Inr r')"
      using run_main by (simp add: main_step.simps resultsAvailable_def)
    from take_result_inv [OF inv 1(1) this] obtain i where
      i: "run_inv g r'" "pc r' = P_drain" "state_of (r_evaluator r) i = I_running" "i \<in> set (in_order g)"
        "\<forall>s \<in> {I_running, I_completed, I_failed}. \<forall>j. j \<noteq> i \<longrightarrow>
           state_of (r_evaluator r') j = s \<longleftrightarrow> state_of (r_evaluator r) j = s"
        "state_of (r_evaluator r') i \<in> {I_completed, I_failed}" by auto
    have "ev_graph (r_evaluator r) = g" "ev_graph (r_evaluator r') = g"
      using inv i(1) evaluation_inv by (auto simp: run_inv_def)
    then have "load (r_evaluator r') < load (r_evaluator r)"
      using i by (intro load_less [of _ _ i]) (auto simp: weight_def)
    then show ?thesis using i(2) 1(1) by (simp add: run_measure_def)
  next
    case (2 i)
    then have "start_item i r = Some (Inr r')" using run_main by (simp add: main_step.simps)
    with start_item_inv [OF inv 2] have
      s: "run_inv g r'" "pc r' = P_fill" "setRunning i (r_evaluator r) = Inr (r_evaluator r')" by auto
    have "eval_inv {} (r_evaluator r)" using inv evaluation_inv by (auto simp: run_inv_def)
    note run = setRunning_inv [OF this s(3)]
    have "state_of (r_evaluator r') x = (if x = i then I_running else state_of (r_evaluator r) x)" for x
      using run state_setItemState [of i I_running "r_evaluator r" x] by (simp add: state_of_def)
    then have "load (r_evaluator r') < load (r_evaluator r)"
      using run by (intro load_less [of _ _ i]) (auto simp: weight_def)
    then show ?thesis using s(2) 2(1) by (simp add: run_measure_def)
  next
    case 3
    then show ?thesis using run_main by (auto simp: main_step.simps run_measure_def)
  next
    case 4
    then show ?thesis using run_main
      by (cases "pc r") (auto simp: main_step.simps run_measure_def rank_def split: if_splits)
  next
    case 5
    then obtain p where "r' = r\<lparr>pc := p\<rparr>" "at_work p" "rank r' < rank r"
      using main_step_rank [OF inv stop run_main] by blast
    then show ?thesis using 5(1) by (simp add: run_measure_def)
  qed
qed

section \<open>What the workers hold\<close>

lemma busy_pending:
  assumes "pool_inv p" and "w < num_workers p" and "threads p ! w = W_busy i"
  shows "i \<in># pending p"
proof -
  have "i \<in># held p w" using assms(3) by (simp add: held_def)
  moreover have "held p w \<subseteq># (\<Sum>v < num_workers p. held p v)"
    using assms(2) sum.remove [of "{..<num_workers p}" w "held p"] by simp
  ultimately show ?thesis unfolding pending_def by (metis mset_subset_eqD union_iff)
qed

lemma busy_distinct:
  assumes "pool_inv p" and "pending p = mset_set A" and "v < num_workers p" and "w < num_workers p"
    and "threads p ! v = W_busy i" and "threads p ! w = W_busy i"
  shows "v = w"
proof (rule ccontr)
  assume "v \<noteq> w"
  then have "(\<Sum>u < num_workers p. held p u)
      = held p v + (held p w + (\<Sum>u \<in> {..<num_workers p} - {v} - {w}. held p u))"
    using assms(3,4) sum.remove [of "{..<num_workers p}" v "held p"]
      sum.remove [of "{..<num_workers p} - {v}" w "held p"] by simp
  then have "count (pending p) i \<ge> 2" using assms(5,6) by (simp add: pending_def held_def)
  moreover have "count (mset_set A) i \<le> 1" by (cases "finite A"; cases "i \<in> A") simp_all
  ultimately show False using assms(2) by simp
qed

lemma busy_at_work:
  assumes "run_inv g r" and "\<not> at_work (pc r)" and "w < num_workers (r_pool r)"
    and "threads (r_pool r) ! w = W_busy i"
  shows "closing (r_pool r)"
  using assms by (cases "pc r") (simp_all add: run_inv_def)

section \<open>An example\<close>

definition diamond_runner :: runner where
  "diamond_runner = projr (run_start diamond_checked 2 False False)"

definition to_first_start :: "(nat \<times> bool) option list" where
  "to_first_start = Some (0, True) # replicate 6 None @ [Some (0, True)]"

definition diamond_busy :: runner where
  "diamond_busy = the (schedule to_first_start diamond_runner)"

lemma diamond_runner_start: "run_start diamond_checked 2 False False = Inr diamond_runner"
  unfolding diamond_runner_def by code_simp

lemma diamond_busy_running: "running (\<lambda>_ _. True) diamond_runner diamond_busy"
proof -
  have "schedule to_first_start diamond_runner = Some diamond_busy"
    unfolding diamond_busy_def by code_simp
  then show ?thesis by (rule schedule_running)
qed

section \<open>Properties\<close>



text \<open>
  C2: when \<open>run\<close> returns, no item is running any more, and it returns True exactly if no item
  failed. Without \<open>stop_on_first_error\<close> every item is then completed, failed or dependency-failed;
  if it returns True after all, every item that is final has completed.
\<close>

theorem run_result:
  assumes "graph_ready g" and "run_start g n stop_first False = Inr r0" and "running meth r0 r"
    and "pc r = P_done b"
  shows "(b \<longleftrightarrow> (\<forall>i. getItemState (r_evaluator r) i \<noteq> Inr I_failed))
     \<and> (\<forall>i. getItemState (r_evaluator r) i \<noteq> Inr I_running)
     \<and> (b \<longrightarrow> (\<forall>i \<in> set (in_order g). getItemState (r_evaluator r) i = Inr I_completed))
     \<and> (\<not> stop_first \<longrightarrow>
          (\<forall>i \<in> set (in_order g). \<exists>s. getItemState (r_evaluator r) i = Inr s \<and> final_state s))"
proof -
  let ?ev = "r_evaluator r"
  have "n \<ge> 1" using assms(2) by (auto simp: run_start_def new_pool_def res_simps)
  then have inv: "run_inv g r" and sf: "stop_on_first_error r = stop_first"
    using start_inv [OF assms(1), of n stop_first] assms(2) running_inv [OF assms(3)] by auto
  have I: "evaluation g ?ev" "b \<longleftrightarrow> failed_items r = {}" "stop r \<longleftrightarrow> \<not> b \<and> stop_first"
      "running_items ?ev = {}" "stop r \<or> nextReadyItem ?ev = None"
    using inv assms(4) sf by (auto simp: run_inv_def finish_ok_def)
  have ev: "ev_graph ?ev = g" "eval_inv {} ?ev" using evaluation_inv [OF I(1)] by auto
  note st = getItemState_item [OF I(1)]
  have known: "getItemState ?ev i = Inr s \<Longrightarrow> i \<in> set (in_order g) \<and> state_of ?ev i = s" for i s
    using ev by (auto simp: getItemState_def res_simps om_has_iff eval_inv_def)
  have b: "b \<longleftrightarrow> (\<forall>i. getItemState ?ev i \<noteq> Inr I_failed)"
  proof -
    have "failed_items r = {i. getItemState ?ev i = Inr I_failed}"
      unfolding failed_items_def ev(1) using st known by (metis (lifting))
    then show ?thesis using I(2) by auto
  qed
  have run: "getItemState ?ev i \<noteq> Inr I_running" for i
    using I(4) known by (auto simp: running_items_def ev(1))
  have fin: "final_state (state_of ?ev i)" if "\<not> stop r" "i \<in> set (in_order g)" for i
    using nothing_waits [OF I(1) _ _ that(2)] that(1) I(4,5) ev(2) by (simp add: eval_inv_def)
  have "state_of ?ev i = I_completed" if "b" "i \<in> set (in_order g)" for i
  proof -
    have nf: "j \<in> set (in_order g) \<Longrightarrow> state_of ?ev j \<noteq> I_failed" for j
      using I(2) that(1) ev(1) by (auto simp: failed_items_def)
    then show ?thesis
      using fin [of i] that I(3) no_failure [OF I(1) nf] by (auto simp: final_state_def)
  qed
  then show ?thesis using b run fin st I(3) by auto
qed

text \<open>The whole run of a graph with one item.\<close>

definition single_checked :: dgraph where
  "single_checked = fst (projr (check (projr (graph_of [(''a'', [])]))))"

definition single_runner :: runner where
  "single_runner = projr (run_start single_checked 1 False False)"

definition single_done :: runner where
  "single_done = the (schedule (Some (0, True) # replicate 6 None @ [Some (0, True), Some (0, False)]
     @ replicate 11 None @ [Some (0, True), None]) single_runner)"

lemma single_ready: "graph_ready single_checked"
proof -
  have "graph_of [(''a'', [])] = Inr (projr (graph_of [(''a'', [])]))"
    and "check (projr (graph_of [(''a'', [])])) = Inr (single_checked, True)"
    unfolding single_checked_def by code_simp+
  then show ?thesis using check_ready graph_of_built by blast
qed

lemma single_runner_start: "run_start single_checked 1 False False = Inr single_runner"
  unfolding single_runner_def by code_simp

lemma single_done_running: "running (\<lambda>_ _. True) single_runner single_done"
proof -
  have "schedule (Some (0, True) # replicate 6 None @ [Some (0, True), Some (0, False)]
     @ replicate 11 None @ [Some (0, True), None]) single_runner = Some single_done"
    unfolding single_done_def by code_simp
  then show ?thesis by (rule schedule_running)
qed

theorem run_result_witness:
  "pc single_done = P_done False \<and> (\<exists>i. getItemState (r_evaluator single_done) i = Inr I_failed)"
proof -
  have d: "pc single_done = P_done False" by code_simp
  then show ?thesis
    using run_result [OF single_ready single_runner_start single_done_running d] by blast
qed

text \<open>
  C3: without \<open>stop_on_first_error\<close> the program ends, whatever the interleaving: there is no
  infinite sequence of steps, so the main loop does not spin and no worker is kept busy for ever.
\<close>

theorem run_terminates:
  assumes "graph_ready g" and "run_start g n False False = Inr r0"
  shows "\<not> (\<exists>f. f 0 = r0 \<and> (\<forall>k. run_step meth (f k) (f (Suc k))))"
proof
  assume "\<exists>f. f 0 = r0 \<and> (\<forall>k. run_step meth (f k) (f (Suc k)))"
  then obtain f where f: "f 0 = r0" "\<And>k. run_step meth (f k) (f (Suc k))" by blast
  have "n \<ge> 1" using assms(2) by (auto simp: run_start_def new_pool_def res_simps)
  then have "run_inv g r0 \<and> \<not> stop_on_first_error r0"
    using start_inv [OF assms(1), of n False] assms(2) by auto
  then have inv: "run_inv g (f k) \<and> \<not> stop_on_first_error (f k)" for k
  proof (induction k)
    case (Suc k)
    then show ?case using run_step_inv [of g "f k" meth "f (Suc k)"] f(2) by auto
  qed (simp add: f(1))
  then have "(f (Suc k), f k) \<in> run_measure" for k using run_step_measure f(2) by blast
  moreover have "wf run_measure" by (simp add: run_measure_def)
  ultimately show False using wf_iff_no_infinite_down_chain by blast
qed

theorem run_terminates_witness:
  "\<not> (\<exists>f. f 0 = diamond_runner \<and> (\<forall>k. run_step (\<lambda>_ _. True) (f k) (f (Suc k))))"
  by (rule run_terminates [OF diamond_ready diamond_runner_start])



text \<open>
  with \<open>stop_on_first_error\<close> the main thread does not wait for the jobs that still run after a
  failure, if a worker is available and an item is ready: \<open>wait\<close> returns at once, nothing is
  started, and after five steps the loop is where it was, until a worker delivers a result.
\<close>

theorem stop_busy_waits:
  assumes "pc r = P_top" and "stop r" and "nextReadyItem (r_evaluator r) = Some i"
    and "available_workers (r_pool r) \<noteq> []" and "results (r_pool r) = []" and "\<not> idle (r_pool r)"
  shows "schedule [None, None, None, None, None] r = Some r"
proof -
  have "(r\<lparr>pc := P_top\<rparr>) = r" using assms(1) by simp
  then show ?thesis
    using assms by (simp add: main_step.simps wait_returns_def resultsAvailable_def)
qed

definition trio_checked :: dgraph where
  "trio_checked = fst (projr (check (projr (graph_of [(''a'', []), (''b'', []), (''c'', [])]))))"

definition trio_runner :: runner where
  "trio_runner = projr (run_start trio_checked 2 True False)"

definition trio_stopped :: runner where
  "trio_stopped = the (schedule ([Some (0, True), Some (1, True)] @ replicate 12 None
     @ [Some (0, True), Some (1, True), Some (0, False)] @ replicate 6 None) trio_runner)"

theorem stop_busy_waits_witness:
  "running (\<lambda>_ _. True) trio_runner trio_stopped \<and> busyWorkers (r_pool trio_stopped) = 1
   \<and> schedule [None, None, None, None, None] trio_stopped = Some trio_stopped"
proof -
  have "schedule ([Some (0, True), Some (1, True)] @ replicate 12 None
     @ [Some (0, True), Some (1, True), Some (0, False)] @ replicate 6 None) trio_runner = Some trio_stopped"
    unfolding trio_stopped_def by code_simp
  then have "running (\<lambda>_ _. True) trio_runner trio_stopped" by (rule schedule_running)
  moreover have "pc trio_stopped = P_top" "stop trio_stopped"
      "nextReadyItem (r_evaluator trio_stopped) = Some ''c''" "available_workers (r_pool trio_stopped) \<noteq> []"
      "results (r_pool trio_stopped) = []" "\<not> idle (r_pool trio_stopped)"
      "busyWorkers (r_pool trio_stopped) = 1"
    by code_simp+
  ultimately show ?thesis using stop_busy_waits by blast
qed

end
