(* ===== verification/Util_Properties.thy ===== *)
theory Util_Properties
  imports Util_Paths_Correct
begin

text \<open>The properties of the functions of \<open>src/src/Util.cc\<close>.\<close>

section \<open>Strings\<close>

text \<open>
  \<open>split\<close> and \<open>join\<close> with the same separator undo each other: joining the pieces of a string
  gives the string, and splitting a joined list of pieces without the separator gives the list.
\<close>

theorem split_join_roundtrip:
  assumes "\<forall>x \<in> set xs. c \<notin> set x" and "xs \<noteq> []"
  shows "join [c] (split c s) = s \<and> (\<forall>x \<in> set (split c s). c \<notin> set x) \<and> split c (join [c] xs) = xs"
  using assms split_join split_pieces by auto

theorem split_join_roundtrip_witness:
  "split slash (join [slash] [''a'', [], ''b'']) = [''a'', [], ''b''] \<and> join [slash] (split slash ''x//y/'') = ''x//y/''"
  using split_join_roundtrip [of "[''a'', [], ''b'']" slash "''x//y/''"] by simp

text \<open>
  \<open>splitBySpace\<close> finds exactly the words of a text: what it returns are non-empty strings
  without white space that contain all other characters in their order, and words that are written
  with any white space before them, between them and after them come back as they are.
\<close>

theorem splitBySpace_words:
  assumes "\<forall>(w, b) \<in> set ps. is_word w \<and> b \<noteq> [] \<and> (\<forall>c \<in> set b. isspace c)"
    and "\<forall>c \<in> set front. isspace c"
  shows "(\<forall>w \<in> set (splitBySpace s). is_word w)
     \<and> concat (splitBySpace s) = filter (\<lambda>c. \<not> isspace c) s
     \<and> splitBySpace (front @ spaced ps) = map fst ps"
proof -
  have "fold splitBySpace_step (front @ spaced ps) [[]] = map fst ps @ [[]]"
    using splitBySpace_blank [OF assms(2), of "[]"] splitBySpace_spaced [OF assms(1), of "[]"] by simp
  then show ?thesis using splitBySpace_sound [of s] by (simp add: splitBySpace_def)
qed

theorem splitBySpace_words_witness:
  "splitBySpace ('' '' @ spaced [(''-deps'', ''  ''), (''a'', [newline])]) = [''-deps'', ''a'']"
  using splitBySpace_words [of "[(''-deps'', ''  ''), (''a'', [newline])]" "'' ''" "[]"]
  by (simp add: is_word_def isspace_def)

text \<open>
  what \<open>XMLify\<close> writes can be put between tags, or between quotes as an attribute: the special
  characters do not occur in it, and a reader that expands the five entities gets the string
  back, for an attribute up to the removal of carriage returns and newlines as spaces.
\<close>

theorem XMLify_safe_roundtrip:
  "xml_decode (XMLify s False) = s
   \<and> xml_decode (XMLify s True) = attribute_text s
   \<and> set (XMLify s attribute) \<inter> {CHR ''<'', CHR ''>''} = {}
   \<and> set (XMLify s True) \<inter> {CHR 0x22, CHR 0x27, newline, carriage_return} = {}"
proof -
  have "set (XMLify s b) = (\<Union>c \<in> set s. set (XMLify_char b c))" for b by (simp add: XMLify_def)
  then show ?thesis using XMLify_char_safe xml_decode_XMLify [of s] by fastforce
qed

text \<open>
  \<open>readLinesFromFile\<close> loses nothing: without stripping, the lines are the text again when
  put together.
\<close>

lemma readLines_complete: "concat (readLinesFromFile content False) = content"
  by (rule readLines_concat)

section \<open>Numbers\<close>

lemma unat_small: "n < 4294967296 \<Longrightarrow> unat (of_nat n :: 32 word) = n"
  by (simp add: unat_of_nat take_bit_nat_eq_self)

lemma nat_digits_pow: "10 ^ k \<le> n \<Longrightarrow> n < 10 ^ Suc k \<Longrightarrow> length (nat_digits n) = Suc k"
proof (induction k arbitrary: n)
  case 0
  then show ?case by (subst nat_digits.simps) simp
next
  case (Suc k)
  then have "10 ^ k \<le> n div 10" "n div 10 < 10 ^ Suc k" by simp_all
  moreover have "10 \<le> n" using Suc.prems(1) by (simp add: order.trans [of 10 "10 * 10 ^ k" n])
  ultimately show ?case using Suc.IH [of "n div 10"] by (subst nat_digits.simps) simp
qed

lemma digits_loop_pow:
  "k \<le> 9 \<Longrightarrow> 10 ^ k \<le> unat num \<Longrightarrow>
   digits_loop num 10 1 = digits_loop num (of_nat (10 ^ Suc k)) (of_nat (Suc k))"
proof (induction k)
  case 0
  then show ?case by simp
next
  case (Suc k)
  let ?u = "of_nat (10 ^ Suc k) :: 32 word"
  have "(10 :: nat) ^ Suc k \<le> 10 ^ 9" using Suc.prems(1) by (intro power_increasing) auto
  then have "unat ?u = 10 ^ Suc k" by (intro unat_small) auto
  then have "?u \<le> num" using Suc.prems(2) by (simp only: word_le_nat_alt)
  then have "digits_loop num ?u (of_nat (Suc k)) = digits_loop num (?u * 10) (of_nat (Suc k) + 1)"
    by (rule digits_loop_step(2))
  moreover have "?u * 10 = of_nat (10 ^ Suc (Suc k))" by simp
  moreover have "(of_nat (Suc k) + 1 :: 32 word) = of_nat (Suc (Suc k))" by simp
  moreover have "(10 :: nat) ^ k \<le> 10 ^ Suc k" by simp
  then have "10 ^ k \<le> unat num" using Suc.prems(2) by linarith
  ultimately show ?case using Suc.IH Suc.prems(1) by simp
qed

lemma digits_loop_max: "digits_loop (- 1) u n = digits_loop (- 1) (u * 10 ^ k) (n + of_nat k)"
proof (induction k)
  case (Suc k)
  have "digits_loop (- 1) (u * 10 ^ k) (n + of_nat k)
      = digits_loop (- 1) (u * 10 ^ k * 10) (n + of_nat k + 1)"
    by (rule digits_loop_step(2)) simp
  then show ?case using Suc by (simp add: ac_simps)
qed simp

text \<open>The power of ten below a number that is small enough.\<close>

lemma power_below:
  assumes "10 \<le> n" and "n < (10 :: nat) ^ 10"
  shows "\<exists>k \<le> 9. 10 ^ k \<le> n \<and> n < 10 ^ Suc k"
proof -
  obtain k where k: "10 ^ k \<le> n" "n < 10 ^ Suc k" using ex_power_ivl1 [of 10 n] assms(1) by auto
  have "k \<le> 9"
  proof (rule ccontr)
    assume "\<not> k \<le> 9"
    then have "(10 :: nat) ^ 10 \<le> 10 ^ k" by (intro power_increasing) auto
    then show False using k assms(2) by simp
  qed
  then show ?thesis using k by blast
qed

lemma digitsIn_small:
  assumes "unat num < 1410065408"
  shows "digitsIn num = Some (length (nat_digits (unat num)))"
proof (cases "unat num < 10")
  case True
  then have "num < 10" by (simp add: word_less_nat_alt)
  then show ?thesis using True by (subst nat_digits.simps) (simp add: digitsIn_def digits_loop_step)
next
  case False
  then obtain k where k: "k \<le> 9" "10 ^ k \<le> unat num" "unat num < 10 ^ Suc k"
    using power_below [of "unat num"] assms by auto
  let ?u = "of_nat (10 ^ Suc k) :: 32 word"
  have "num < ?u"
  proof (cases "k = 9")
    case True
    then show ?thesis using assms by (simp add: word_less_nat_alt)
  next
    case False
    then have "(10 :: nat) ^ Suc k \<le> 10 ^ 9" using k(1) by (intro power_increasing) auto
    then have "unat ?u = 10 ^ Suc k" by (intro unat_small) auto
    then show ?thesis using k(3) by (simp only: word_less_nat_alt)
  qed
  then have "digits_loop num 10 1 = Some (of_nat (Suc k))"
    using digits_loop_pow [OF k(1,2)] digits_loop_step(1) by metis
  moreover have "unat (of_nat (Suc k) :: 32 word) = Suc k" using k(1) by (intro unat_small) auto
  ultimately show ?thesis using nat_digits_pow [OF k(2,3)] by (simp add: digitsIn_def)
qed

lemma digitsIn_big:
  assumes "1410065408 \<le> unat num" and "unat num < 3567587328"
  shows "digitsIn num = Some 12"
proof -
  have wraps: "(1410065408 * 10 :: 32 word) = 1215752192" "(1215752192 * 10 :: 32 word) = 3567587328"
      "(of_nat (10 ^ Suc 9) :: 32 word) = 1410065408"
    by simp_all
  have "digits_loop num 10 1 = digits_loop num 1410065408 10"
    using digits_loop_pow [of 9 num] assms unfolding wraps by simp
  also have "\<dots> = digits_loop num 1215752192 (10 + 1)"
    using digits_loop_step(2) [of 1410065408 num 10] assms unfolding wraps by (simp add: word_le_nat_alt)
  also have "\<dots> = digits_loop num 3567587328 (10 + 1 + 1)"
    using digits_loop_step(2) [of 1215752192 num "10 + 1"] assms unfolding wraps
    by (simp add: word_le_nat_alt)
  also have "\<dots> = Some 12"
    using assms digits_loop_step(1) [of num 3567587328 "10 + 1 + 1"] by (simp add: word_less_nat_alt)
  finally show ?thesis by (simp add: digitsIn_def)
qed

lemma digitsIn_max: "digitsIn (- 1) = None"
proof -
  have "digits_loop (- 1) 10 1 = digits_loop (- 1) (10 * 10 ^ 31) (1 + of_nat 31)"
    by (rule digits_loop_max)
  also have "(10 :: 32 word) * 10 ^ 31 = 0" by simp
  finally show ?thesis by (simp add: digitsIn_def digits_loop_zero)
qed

text \<open>
  C36: \<open>digitsIn\<close> is the number of decimal digits for every number below 1410065408; from there on
  the multiplication of \<open>upper\<close> has wrapped around: up to 3567587327 the answer is 12 instead of 10,
  and for the largest unsigned int the loop does not end.
\<close>

theorem digitsIn_bounds:
  "(unat num < 1410065408 \<longrightarrow> digitsIn num = Some (length (nat_digits (unat num))))
   \<and> (1410065408 \<le> unat num \<and> unat num < 3567587328 \<longrightarrow>
        digitsIn num = Some 12 \<and> length (nat_digits (unat num)) = 10)
   \<and> digitsIn (- 1) = None"
  using digitsIn_small [of num] digitsIn_big [of num] digitsIn_max nat_digits_pow [of 9 "unat num"]
  by simp

theorem digitsIn_bounds_witness:
  "digitsIn 1000000000 = Some (length (nat_digits 1000000000)) \<and> digitsIn 2000000000 = Some 12"
  using digitsIn_bounds [of 1000000000] digitsIn_bounds [of 2000000000] by simp

section \<open>Paths\<close>

lemma path_of_neq_Nil: "canonical cs \<Longrightarrow> path_of cs \<noteq> []"
  by (cases "tl cs") (auto simp: canonical_def path_of_def)

lemma path_of_absolute: "canonical cs \<Longrightarrow> isAbsolutePath (path_of cs)"
  by (cases "tl cs") (auto simp: canonical_def path_of_def isAbsolutePath_def)

lemma set_path_of: "set (path_of cs) \<subseteq> \<Union> (set ` set cs) \<union> {slash}"
  by (cases cs) (auto simp: path_of_def)

definition no_backslash :: "string list \<Rightarrow> bool" where
  "no_backslash cs \<longleftrightarrow> (\<forall>c \<in> set cs. backslash \<notin> set c)"

lemma path_of_no_backslash: "no_backslash cs \<Longrightarrow> backslash \<notin> set (path_of cs)"
  using set_path_of by (fastforce simp: no_backslash_def)

lemma canonicalizePath_path_of_canonical:
  assumes "canonical cs" and "no_backslash cs" and "os_links sys = []"
  shows "canonicalizePath sys (path_of cs) = Inr (path_of cs)"
proof -
  have "full_path sys (path_of cs) = path_of cs"
    using path_of_absolute [OF assms(1)] path_of_no_backslash [OF assms(2)]
    by (simp add: full_path_def normalize_id)
  then show ?thesis
    using canonicalizePath_path_of [OF path_of_neq_Nil [OF assms(1)], of sys] assms(1,3)
    by (simp add: canonical_loop_no_links split_path_of push_components)
qed

lemma push_no_backslash: "no_backslash r \<Longrightarrow> backslash \<notin> set c \<Longrightarrow> no_backslash (push_component c r)"
  by (auto simp: push_component_def no_backslash_def dest: in_set_butlastD)

lemma split_no_backslash: "backslash \<notin> set p \<Longrightarrow> c \<in> set (split slash p) \<Longrightarrow> backslash \<notin> set c"
  by (induction p rule: split_induct [of slash]) auto

lemma canonicalizePath_facts:
  assumes "p \<noteq> []" and "isAbsolutePath (os_cwd sys)"
  shows "\<exists>cs. canonicalizePath sys p = Inr (path_of cs) \<and> canonical cs
     \<and> (os_links sys = [] \<longrightarrow> no_backslash cs \<and> canonicalizePath sys (path_of cs) = Inr (path_of cs))"
proof -
  let ?cs = "canonical_loop (os_links sys) {} (split slash (full_path sys p)) []"
  obtain ds where ds: "split slash (full_path sys p) = [] # ds"
    using split_absolute full_path_absolute [OF assms(2)] by blast
  then have "\<forall>c \<in> set ds. slash \<notin> set c" using split_pieces by (metis list.set_intros(2))
  then have can: "canonical ?cs" using canonical_loop_canonical by (simp add: ds canonical_loop_start)
  have "no_backslash ?cs" if "os_links sys = []"
  proof -
    have bs: "backslash \<notin> set (full_path sys p)" using full_path_absolute [OF assms(2)] by blast
    have "no_backslash (fold push_component (split slash (full_path sys p)) [])"
    proof (rule fold_invariant [where P = no_backslash])
      show "no_backslash []" by (simp add: no_backslash_def)
    qed (use push_no_backslash split_no_backslash [OF bs] in blast)
    then show ?thesis by (simp add: that canonical_loop_no_links)
  qed
  then show ?thesis
    using can canonicalizePath_path_of [OF assms(1)] canonicalizePath_path_of_canonical [OF can] by blast
qed

text \<open>
  C34: for every path that is not empty \<open>canonicalizePath\<close> returns, also when links form a loop, and
  the result is an absolute path without empty components, \<open>.\<close> and \<open>..\<close>, or the root. Where there
  are no symbolic links a second call changes nothing.
\<close>

theorem canonicalizePath_result:
  assumes "p \<noteq> []" and "isAbsolutePath (os_cwd sys)"
  shows "\<exists>cs. canonicalizePath sys p = Inr (path_of cs) \<and> canonical cs
     \<and> (os_links sys = [] \<longrightarrow> canonicalizePath sys (path_of cs) = Inr (path_of cs))"
  using canonicalizePath_facts [OF assms] by blast

definition plain_os :: os where
  "plain_os = \<lparr>os_cwd = ''/home/u'', os_links = [], os_file = (\<lambda>_. False), os_directory = (\<lambda>_. False),
               os_executable = (\<lambda>_. False), os_env = (\<lambda>_. None)\<rparr>"

theorem canonicalizePath_result_witness:
  "canonicalizePath plain_os ''a/../b/./c'' = Inr ''/home/u/b/c''
   \<and> canonicalizePath plain_os ''/home/u/b/c'' = Inr ''/home/u/b/c''"
proof -
  have p: "canonicalizePath plain_os ''a/../b/./c'' = Inr ''/home/u/b/c''" by code_simp
  have "isAbsolutePath (os_cwd plain_os)" "os_links plain_os = []" by code_simp+
  then show ?thesis using canonicalizePath_result [of "''a/../b/./c''" plain_os] p by auto
qed

text \<open>What \<open>absToRel\<close> returns, in terms of components.\<close>

lemma drop_common_split:
  "drop_common ps ls = (a, b) \<Longrightarrow> \<exists>com. ps = com @ a \<and> ls = com @ b
     \<and> (a \<noteq> [] \<and> b \<noteq> [] \<longrightarrow> hd a \<noteq> hd b)"
proof (induction ps ls rule: drop_common.induct)
  case (1 p ps l ls)
  then show ?case
  proof (cases "p = l")
    case True
    then obtain com where "ps = com @ a" "ls = com @ b" "a \<noteq> [] \<and> b \<noteq> [] \<longrightarrow> hd a \<noteq> hd b"
      using 1 by auto
    then show ?thesis using True by (intro exI [of _ "p # com"]) simp
  qed auto
qed auto

definition relative :: "nat \<Rightarrow> string list \<Rightarrow> string" where
  "relative n a = (let r = concat (replicate n ''../'') @ join ''/'' a
     in if r = [] then ''.'' else if last r = slash then butlast r else r)"

lemma absToRel_relative:
  assumes "canonical ps" and "canonical ls" and "drop_common (components ps) (components ls) = (a, b)"
  shows "absToRel sys (path_of ps) (path_of ls) = Inr (relative (length b) a)"
  using assms path_of_absolute path_of_neq_Nil [OF assms(2)]
  by (simp add: absToRel_def split_path_of relative_def Let_def)

lemma relative_parents:
  "a \<noteq> [] \<Longrightarrow> concat (replicate n ''../'') @ join ''/'' a = join ''/'' (replicate n ''..'' @ a)"
  by (induction n) (simp_all add: join_Cons join_single del: join_simps(2))

lemma concat_parents: "n > 0 \<Longrightarrow> concat (replicate n ''../'') = join ''/'' (replicate n ''..'') @ ''/''"
proof (induction n)
  case (Suc n)
  then show ?case by (cases n) (simp_all add: join_Cons join_single del: join_simps(2))
qed simp

lemma split_relative:
  assumes "\<forall>c \<in> set a. slash \<notin> set c" and "a = [] \<or> a = [[]] \<or> last a \<noteq> []"
  shows "split slash (relative n a) =
     (if n = 0 \<and> (a = [] \<or> a = [[]]) then [''.''] else
      if a = [] \<or> a = [[]] then replicate n ''..'' else replicate n ''..'' @ a)"
proof (cases "a = [] \<or> a = [[]]")
  case True
  then have j: "join ''/'' a = []" by auto
  show ?thesis
  proof (cases "n = 0")
    case True
    then show ?thesis using j \<open>a = [] \<or> a = [[]]\<close> by (simp add: relative_def)
  next
    case False
    then have "relative n a = join ''/'' (replicate n ''..'')"
      using j concat_parents [of n] by (simp add: relative_def)
    moreover have "split slash (join [slash] (replicate n ''..'')) = replicate n ''..''"
      using False by (intro split_join) auto
    ultimately show ?thesis using True False by simp
  qed
next
  case False
  let ?cs = "replicate n ''..'' @ a"
  have cs: "?cs \<noteq> []" "\<forall>c \<in> set ?cs. slash \<notin> set c" "last ?cs \<noteq> []" "slash \<notin> set (last ?cs)"
    using False assms by auto
  obtain bs l where bs: "?cs = bs @ [l]" using cs(1) by (metis rev_exhaust)
  have l: "l \<noteq> []" "last l \<noteq> slash" using cs(3,4) last_in_set [of l] by (simp add: bs) (use cs(3,4) last_in_set [of l] bs in force)
  have j: "join ''/'' ?cs = (if bs = [] then l else join ''/'' bs @ ''/'' @ l)"
    unfolding bs by (cases "bs = []") (simp_all add: join_append join_single del: join_simps(2))
  have "join ''/'' ?cs \<noteq> [] \<and> last (join ''/'' ?cs) \<noteq> slash"
    unfolding j using l by (cases "bs = []") simp_all
  then have "relative n a = join ''/'' ?cs"
    using False by (simp add: relative_def relative_parents)
  then show ?thesis using False split_join [OF cs(1,2)] by simp
qed

text \<open>The components of a canonical path behind the first one.\<close>

definition pieces :: "string list \<Rightarrow> string list" where
  "pieces ns = (if ns = [] then [[]] else ns)"

lemma canonical_names:
  assumes "canonical cs"
  obtains ns where "cs = [] # ns" and "\<forall>n \<in> set ns. name_ok n" and "components cs = [] # pieces ns"
proof -
  obtain ns where ns: "cs = [] # ns" "\<forall>n \<in> set ns. name_ok n" using assms by (auto simp: canonical_def)
  then have "components cs = [] # pieces ns" by (simp add: components_def pieces_def)
  then show thesis using that ns by blast
qed

lemma drop_common_front:
  assumes "drop_common ([] # p) ([] # l) = (a, b)"
  obtains com where "p = com @ a" and "l = com @ b" and "a \<noteq> [] \<and> b \<noteq> [] \<longrightarrow> hd a \<noteq> hd b"
  using drop_common_split [of p l a b] assms by auto

lemma name_ok_Nil [simp]: "\<not> name_ok []"
  by (simp add: name_ok_def)

lemma names_slash: "\<forall>n \<in> set ns. name_ok n \<Longrightarrow> \<forall>n \<in> set ns. slash \<notin> set n"
  by (simp add: name_ok_def)

lemma last_name_ok: "\<forall>n \<in> set ns. name_ok n \<Longrightarrow> ns \<noteq> [] \<Longrightarrow> last ns \<noteq> []"
  using last_in_set [of ns] by (metis name_ok_Nil)

lemma fold_push_relative:
  assumes "canonical ps" and "canonical ls" and "drop_common (components ps) (components ls) = (a, b)"
  shows "fold push_component (split slash (relative (length b) a)) ls = ps"
proof -
  obtain ns where ns: "ps = [] # ns" "\<forall>n \<in> set ns. name_ok n" "components ps = [] # pieces ns"
    using canonical_names [OF assms(1)] .
  obtain ms where ms: "ls = [] # ms" "\<forall>n \<in> set ms. name_ok n" "components ls = [] # pieces ms"
    using canonical_names [OF assms(2)] .
  obtain com where com: "pieces ns = com @ a" "pieces ms = com @ b" "a \<noteq> [] \<and> b \<noteq> [] \<longrightarrow> hd a \<noteq> hd b"
    using drop_common_front assms(3) unfolding ns(3) ms(3) by blast
  have dot: "push_component ''.'' r = r" for r by (simp add: push_component_def)
  note up = push_parents [OF assms(2), of "length b"]
  consider (root) "ns = []" "ms = []" | (up) "ns = []" "ms \<noteq> []" | (down) "ns \<noteq> []" "ms = []"
    | (both) "ns \<noteq> []" "ms \<noteq> []" by blast
  then show ?thesis
  proof cases
    case root
    then have "a = []" "b = []" using com by (auto simp: pieces_def append_eq_Cons_conv)
    then show ?thesis using root by (simp add: ns(1) ms(1) split_relative dot)
  next
    case up
    then have "com @ a = [[]]" "com @ b = ms" using com(1,2) by (simp_all add: pieces_def)
    moreover from this have "com = []" using ms(2) up(2) by (cases com) auto
    ultimately have "a = [[]]" "b = ms" by simp_all
    then show ?thesis using up push_parents [OF assms(2), of "length ms"] by (simp add: ns(1) ms(1) split_relative)
  next
    case down
    then have "com @ a = ns" "com @ b = [[]]" using com(1,2) by (simp_all add: pieces_def)
    moreover from this have "com = []" using ns(2) down(1) by (cases com) auto
    ultimately have "a = ns" "b = [[]]" by simp_all
    moreover have "push_component ''..'' [[]] = [[]]" by (simp add: push_component_def)
    ultimately show ?thesis
      using down names_slash [OF ns(2)] push_names [OF canonical_root ns(2)] last_name_ok [OF ns(2)]
      by (subst split_relative) (auto simp: ns(1) ms(1))
  next
    case both
    then have ca: "ns = com @ a" "ms = com @ b" using com by (simp_all add: pieces_def)
    then have can: "canonical ([] # com)" using ns(2) by (auto simp: canonical_def)
    have names: "\<forall>n \<in> set a. name_ok n" using ns(2) by (simp add: ca)
    have parents: "fold push_component (replicate (length b) ''..'') ls = [] # com"
      using push_parents [OF assms(2), of "length b"] by (simp add: ms(1) ca(2))
    have a: "a \<noteq> [[]]" "a \<noteq> [] \<Longrightarrow> last a \<noteq> []" using names last_name_ok [OF names] by auto
    have "split slash (relative (length b) a) =
        (if length b = 0 \<and> a = [] then [''.''] else replicate (length b) ''..'' @ a)"
      using a names_slash [OF names] by (subst split_relative) auto
    then show ?thesis
      using parents push_names [OF can names] by (cases "b = [] \<and> a = []") (simp_all add: dot ns(1) ms(1) ca)
  qed
qed

lemma drop_common_subset: "drop_common p l = (a, b) \<Longrightarrow> set a \<subseteq> set p"
  by (induction p l rule: drop_common.induct) (auto split: if_splits)

lemma relative_no_backslash: "no_backslash a \<Longrightarrow> backslash \<notin> set (relative n a)"
proof -
  assume "no_backslash a"
  then have "backslash \<notin> set (concat (replicate n ''../'') @ join ''/'' a)"
    using set_join [of "''/''" a] by (auto simp: no_backslash_def)
  then show ?thesis unfolding relative_def Let_def by (auto dest: in_set_butlastD)
qed

text \<open>
  C35: a path made relative to a container by \<open>absToRel\<close> leads back to the path: without symbolic
  links, canonicalising the container followed by the relative path gives the path again, for any
  two canonical paths, the root directory included.
\<close>

theorem absToRel_roundtrip:
  assumes "canonical ps" and "canonical ls" and "os_links sys = []"
    and "\<forall>c \<in> set ps \<union> set ls. backslash \<notin> set c"
  shows "\<exists>rel. absToRel sys (path_of ps) (path_of ls) = Inr rel \<and>
           canonicalizePath sys (path_of ls @ ''/'' @ rel) = Inr (path_of ps)"
proof -
  obtain a b where ab: "drop_common (components ps) (components ls) = (a, b)" by fastforce
  let ?rel = "relative (length b) a"
  let ?p = "path_of ls @ ''/'' @ ?rel"
  have "split slash ?p = components ls @ split slash ?rel"
    using split_between [of slash "path_of ls" ?rel] split_path_of [OF assms(2)] by simp
  then have "fold push_component (split slash ?p) [] = ps"
    using push_components [OF assms(2)] fold_push_relative [OF assms(1,2) ab] by simp
  moreover have "full_path sys ?p = ?p"
  proof -
    have "set a \<subseteq> set (components ps)" using drop_common_subset [OF ab] by blast
    then have "no_backslash a" using assms(4) by (auto simp: no_backslash_def components_def split: if_splits)
    then have "backslash \<notin> set ?rel" by (rule relative_no_backslash)
    moreover have "backslash \<notin> set (path_of ls)"
      using path_of_no_backslash assms(4) by (simp add: no_backslash_def)
    moreover have "isAbsolutePath ?p"
      using path_of_absolute [OF assms(2)] by (cases "path_of ls") (auto simp: isAbsolutePath_def)
    ultimately show ?thesis by (simp add: full_path_def normalize_id)
  qed
  moreover have "?p \<noteq> []" by simp
  ultimately have "canonicalizePath sys ?p = Inr (path_of ps)"
    using canonicalizePath_path_of [of ?p sys] assms(3) by (simp add: canonical_loop_no_links)
  then show ?thesis using absToRel_relative [OF assms(1,2) ab] by blast
qed

theorem absToRel_roundtrip_witness:
  "\<exists>rel. absToRel plain_os ''/a/b'' ''/a/c/d'' = Inr rel
     \<and> canonicalizePath plain_os (''/a/c/d'' @ ''/'' @ rel) = Inr ''/a/b''"
  using absToRel_roundtrip [of "[[], ''a'', ''b'']" "[[], ''a'', ''c'', ''d'']" plain_os]
  by (simp add: canonical_def name_ok_def path_of_def plain_os_def)

lemma name_ok_dots: "name_ok n \<Longrightarrow> n \<noteq> ''..'' \<and> slash \<notin> set n \<and> n \<noteq> []"
  by (simp add: name_ok_def)

lemma relative_up:
  assumes "b \<noteq> []"
  shows "let rel = relative (length b) a in rel = ''..'' \<or> length rel > 2 \<and> take 3 rel = ''../''"
proof -
  obtain n where n: "length b = Suc n" using assms by (cases b) auto
  let ?r = "concat (replicate (length b) ''../'') @ join ''/'' a"
  have r: "?r = ''../'' @ concat (replicate n ''../'') @ join ''/'' a" by (simp add: n)
  show ?thesis
  proof (cases "concat (replicate n ''../'') @ join ''/'' a = []")
    case True
    then show ?thesis unfolding relative_def r by (simp del: append_is_Nil_conv)
  next
    case False
    then show ?thesis unfolding relative_def r by (simp add: Let_def butlast_append del: append_is_Nil_conv)
  qed
qed

lemma relative_down:
  assumes "\<forall>n \<in> set a. name_ok n"
  shows "let rel = relative 0 a in rel \<noteq> ''..'' \<and> take 3 rel \<noteq> ''../''"
proof (cases a)
  case Nil
  then show ?thesis by (simp add: relative_def)
next
  case (Cons x xs)
  then have x: "name_ok x" using assms by simp
  have "split slash (relative 0 a) = a"
    using assms names_slash [OF assms] last_name_ok [OF assms] x by (subst split_relative) (auto simp: Cons)
  moreover have "split slash r = ''..'' # split slash (drop 3 r)" if "take 3 r = ''../''" for r
    using split_append [of slash "''..''" "drop 3 r"] append_take_drop_id [of 3 r] that by simp
  moreover have "split slash ''..'' = [''..'']" by simp
  ultimately show ?thesis using x by (auto simp: Let_def Cons name_ok_def)
qed

text \<open>
  \<open>isDirUnder\<close> decides, for canonical paths, whether the components of the one are a prefix of
  the components of the other, when the containing directory is not the root. For the root it says
  that no other directory is under it.
\<close>

theorem isDirUnder_prefix:
  assumes "canonical ps" and "canonical ls"
  shows "isDirUnder sys (path_of ps) (path_of ls) =
    Inr (if ls = [[]] then ps = [[]] else prefix ls ps)"
proof -
  obtain a b where ab: "drop_common (components ps) (components ls) = (a, b)" by fastforce
  obtain ns where ns: "ps = [] # ns" "\<forall>n \<in> set ns. name_ok n" "components ps = [] # pieces ns"
    using canonical_names [OF assms(1)] .
  obtain ms where ms: "ls = [] # ms" "\<forall>n \<in> set ms. name_ok n" "components ls = [] # pieces ms"
    using canonical_names [OF assms(2)] .
  obtain com where com: "pieces ns = com @ a" "pieces ms = com @ b" "a \<noteq> [] \<and> b \<noteq> [] \<longrightarrow> hd a \<noteq> hd b"
    using drop_common_front ab unfolding ns(3) ms(3) by blast
  have under: "isDirUnder sys (path_of ps) (path_of ls) = Inr (b = [])" if "b = [] \<longrightarrow> (\<forall>n \<in> set a. name_ok n) \<or> a = []"
    using absToRel_relative [OF assms ab] relative_up [of b a] relative_down [of a] that
    by (cases "b = []") (auto simp: isDirUnder_def Let_def)
  have pre: "b = [] \<longleftrightarrow> prefix (pieces ms) (pieces ns)"
    using com by (cases a; cases b) (auto simp: prefix_def)
  show ?thesis
  proof (cases "ms = []")
    case True
    have "b = [] \<Longrightarrow> ns = [] \<and> a = []"
      using com True ns(2) by (auto simp: pieces_def split: if_splits)
    moreover have "ns = [] \<Longrightarrow> b = []" using pre True by (simp add: pieces_def)
    ultimately have "(b = []) = (ns = [])" and "b = [] \<longrightarrow> a = []" by blast+
    moreover from this have "isDirUnder sys (path_of ps) (path_of ls) = Inr (b = [])" using under by blast
    moreover have "ls = [[]]" and "(ps = [[]]) = (ns = [])" by (simp_all add: ns(1) ms(1) True)
    ultimately show ?thesis by simp
  next
    case False
    have "b = [] \<Longrightarrow> ns \<noteq> []" using pre ms(2) False by (cases ms) (auto simp: pieces_def)
    then have "b = [] \<longrightarrow> (\<forall>n \<in> set a. name_ok n)" using com(1) ns(2) by (auto simp: pieces_def)
    then have "isDirUnder sys (path_of ps) (path_of ls) = Inr (b = [])" using under by blast
    moreover have "prefix ls ps \<longleftrightarrow> b = []"
      using pre False ms(2) by (cases ms) (auto simp: ns(1) ms(1) pieces_def)
    moreover have "ls \<noteq> [[]]" by (simp add: ms(1) False)
    ultimately show ?thesis by simp
  qed
qed

theorem isDirUnder_prefix_witness:
  "isDirUnder plain_os ''/a/b/c'' ''/a'' = Inr True \<and> isDirUnder plain_os ''/ab'' ''/a'' = Inr False
   \<and> isDirUnder plain_os ''/a'' ''/'' = Inr False"
  using isDirUnder_prefix [of "[[], ''a'', ''b'', ''c'']" "[[], ''a'']" plain_os]
    isDirUnder_prefix [of "[[], ''ab'']" "[[], ''a'']" plain_os]
    isDirUnder_prefix [of "[[], ''a'']" "[[]]" plain_os]
  by (simp add: canonical_def name_ok_def path_of_def)

end
