(* ===== verification/Interface_Correct.thy ===== *)
theory Interface_Correct
  imports Interface Util_Properties
begin

text \<open>
  What the operations of \<open>Interface\<close> keep: every history has one assignment per location and
  platform, and as long as the operations report success the values have the type of their
  variable. Importing is a sequence of such operations.
\<close>

section \<open>Well-typed values\<close>

fun typed_value :: "os \<Rightarrow> type_e \<Rightarrow> string \<Rightarrow> bool" where
  "typed_value sys t_boolean v = (v = ''0'' \<or> v = ''1'')"
| "typed_value sys t_string v = True"
| "typed_value sys t_filename v = ((\<exists>cs. canonical cs \<and> v = path_of cs) \<and>
     (os_links sys = [] \<longrightarrow> backslash \<notin> set v \<and> canonicalizePath sys v = Inr v))"

definition typed_assignment :: "os \<Rightarrow> variable \<Rightarrow> assignment \<Rightarrow> bool" where
  "typed_assignment sys var a \<longleftrightarrow> (\<forall>v \<in> set (a_value a). typed_value sys (v_type var) v) \<and>
     (if v_list_type var = l_scalar then length (a_value a) = 1 else assignment_type a = a_normal)"

definition assignment_key :: "assignment \<Rightarrow> file_location \<times> string" where
  "assignment_key a = (a_location a, a_item_platform a)"

text \<open>In the history of a scalar the fallback assignments come first.\<close>

definition is_fallback :: "assignment \<Rightarrow> bool" where
  "is_fallback a \<longleftrightarrow> assignment_type a = a_fallback"

definition fallbacks_first :: "assignment list \<Rightarrow> bool" where
  "fallbacks_first h \<longleftrightarrow> filter is_fallback h @ filter (\<lambda>a. \<not> is_fallback a) h = h"

lemma fallbacks_first_front: "fallbacks_first h \<Longrightarrow> is_fallback a \<Longrightarrow> fallbacks_first (a # h)"
  by (simp add: fallbacks_first_def)

lemma fallbacks_first_back: "fallbacks_first h \<Longrightarrow> \<not> is_fallback a \<Longrightarrow> fallbacks_first (h @ [a])"
  unfolding fallbacks_first_def by (simp flip: append_assoc)

lemma fallbacks_first_filter: "fallbacks_first h \<Longrightarrow> fallbacks_first (filter P h)"
proof -
  assume "fallbacks_first h"
  then have "filter P (filter is_fallback h @ filter (\<lambda>a. \<not> is_fallback a) h) = filter P h"
    by (simp add: fallbacks_first_def)
  then show ?thesis by (simp add: fallbacks_first_def conj_commute)
qed

definition variable_ok :: "os \<Rightarrow> string \<Rightarrow> variable \<Rightarrow> bool" where
  "variable_ok sys name var \<longleftrightarrow> v_name var = name \<and> distinct (map assignment_key (assignment_history var))
     \<and> (\<forall>a \<in> set (assignment_history var). typed_assignment sys var a)
     \<and> (v_list_type var = l_scalar \<longrightarrow> fallbacks_first (assignment_history var))"

definition interface_ok :: "os \<Rightarrow> interface \<Rightarrow> bool" where
  "interface_ok sys i \<longleftrightarrow> om_ok (symbol_table i)
     \<and> (\<forall>name var. om_get (symbol_table i) name = Some var \<longrightarrow> variable_ok sys name var)"

named_theorems interface_simps \<open>the fields that an operation keeps\<close>

lemma add_assignment_fields [interface_simps]:
  "v_name (add_assignment a var) = v_name var" "v_type (add_assignment a var) = v_type var"
  "v_list_type (add_assignment a var) = v_list_type var" "v_scope (add_assignment a var) = v_scope var"
  "declare_location (add_assignment a var) = declare_location var"
  "v_target_type (add_assignment a var) = v_target_type var"
  "reset_history (add_assignment a var) = reset_history var"
  by (simp_all add: add_assignment_def)

lemma add_reset_fields [interface_simps]:
  "v_name (add_reset r var) = v_name var" "v_type (add_reset r var) = v_type var"
  "v_list_type (add_reset r var) = v_list_type var" "v_scope (add_reset r var) = v_scope var"
  "declare_location (add_reset r var) = declare_location var"
  "v_target_type (add_reset r var) = v_target_type var"
  "assignment_history (add_reset r var) = assignment_history var"
  by (simp_all add: add_reset_def)

lemma set_add_assignment: "set (assignment_history (add_assignment a var)) = insert a (set (assignment_history var))"
  by (simp add: add_assignment_def)

lemma typed_assignment_cong:
  "v_type var' = v_type var \<Longrightarrow> v_list_type var' = v_list_type var \<Longrightarrow>
   typed_assignment sys var' a = typed_assignment sys var a"
  by (simp add: typed_assignment_def)

section \<open>Checking values\<close>

lemma normalizeFilename_typed:
  assumes "normalizeFilename sys i v = Inr v'" and "isAbsolutePath (os_cwd sys)"
  shows "typed_value sys t_filename v'"
proof -
  obtain p where p: "p \<noteq> []" "canonicalizePath sys p = Inr v'"
    using assms(1) by (auto simp: normalizeFilename_def assert_res_eq_Inr Let_def canonicalizePath_def split: if_splits)
  then show ?thesis using canonicalizePath_facts [OF p(1) assms(2)] path_of_no_backslash by auto
qed

lemma check_value_typed:
  assumes "check_value sys i var location name v (s, e) = Inr (v', s', e')" and "isAbsolutePath (os_cwd sys)"
    and "s'"
  shows "s \<and> e' = e \<and> typed_value sys (v_type var) v'"
  using assms normalizeFilename_typed [of sys i v v']
  by (auto simp: check_value_def bind_res_eq_Inr split: type_e.splits if_splits)

lemma check_values_typed:
  assumes "check_values sys i var location name vs (s, e) = Inr (vs', s', e')"
    and "isAbsolutePath (os_cwd sys)" and "s'"
  shows "s \<and> e' = e \<and> length vs' = length vs \<and> (\<forall>v \<in> set vs'. typed_value sys (v_type var) v)"
  using assms(1,3)
proof (induction vs arbitrary: s e vs')
  case (Cons v vs)
  then obtain v1 s1 e1 vs1 where 1: "check_value sys i var location name v (s, e) = Inr (v1, s1, e1)"
      and 2: "check_values sys i var location name vs (s1, e1) = Inr (vs1, s', e')" "vs' = v1 # vs1"
    by (auto simp: bind_res_eq_Inr)
  then show ?case using Cons.IH [OF 2(1) \<open>s'\<close>] check_value_typed [OF 1 assms(2)] by auto
qed simp

text \<open>A value that has its type stays as it is.\<close>

lemma check_value_id:
  assumes "typed_value sys (v_type var) v" and "os_links sys = []"
  shows "check_value sys i var location name v se = Inr (v, se)"
proof (cases "v_type var")
  case t_filename
  then obtain cs where "canonical cs" "v = path_of cs" "backslash \<notin> set v" "canonicalizePath sys v = Inr v"
    using assms by auto
  then show ?thesis
    using t_filename path_of_absolute [of cs] path_of_neq_Nil [of cs]
    by (simp add: check_value_def normalizeFilename_def normalize_id)
qed (use assms in \<open>auto simp: check_value_def\<close>)

lemma check_values_id:
  "\<forall>v \<in> set vs. typed_value sys (v_type var) v \<Longrightarrow> os_links sys = [] \<Longrightarrow>
   check_values sys i var location name vs se = Inr (vs, se)"
  by (induction vs arbitrary: se) (simp_all add: check_value_id)

lemma scalar_values_ok:
  assumes "scalar_values var location name vs e = (vs', s, e')" and "s"
  shows "e' = e \<and> (v_list_type var = l_scalar \<longrightarrow> length vs' = 1)
    \<and> vs' = (if v_list_type var = l_scalar \<and> vs = [] then [[]] else vs)"
  using assms by (auto simp: scalar_values_def Let_def split: if_splits)

lemma check_assignment_type_ok:
  assumes "check_assignment_type var location name vs t (s, e) = (True, e')"
  shows "s \<and> e' = e \<and> (v_list_type var \<noteq> l_scalar \<longrightarrow> t = a_normal)"
  using assms by (auto simp: check_assignment_type_def Let_def split: if_splits option.splits)

section \<open>Assignments\<close>

text \<open>The three ways in which an assignment returns.\<close>

lemma assign_cases [consumes 1, case_names unknown repeated added]:
  assumes "assignVariable_as sys e location name ovs t flag iname iplat i = Inr (status, i', e')"
  obtains "om_get (symbol_table i) name = None" "\<not> status" "i' = i"
  | var vs s0 e0 s1 old where "om_get (symbol_table i) name = Some var"
      "scalar_values var location name ovs e = (vs, s0, e0)"
      "check_values sys i var location name vs (s0, e0) = Inr (a_value old, s1, e')"
      "find_assignment location iplat (assignment_history var) = Some old" "status" "i' = i"
  | var vs s0 e0 vs' s1 e1 a where "om_get (symbol_table i) name = Some var"
      "scalar_values var location name ovs e = (vs, s0, e0)"
      "check_values sys i var location name vs (s0, e0) = Inr (vs', s1, e1)"
      "find_assignment location iplat (assignment_history var) = None"
      "a = \<lparr>a_location = location, assignment_type = t, a_flag = flag, a_item_name = iname,
            a_item_platform = iplat, a_value = vs'\<rparr>"
      "check_assignment_type var location name vs' t (s1, e1) = (status, e')"
      "i' = i\<lparr>symbol_table := om_put name (add_assignment a var) (symbol_table i)\<rparr>"
proof (cases "om_get (symbol_table i) name")
  case None
  note body = assms [unfolded assignVariable_as_def None option.case]
  have "\<not> status" "i' = i" using body by simp_all
  then show ?thesis using that(1) [OF None] by blast
next
  case (Some var)
  obtain vs s0 e0 where sv: "scalar_values var location name ovs e = (vs, s0, e0)"
    by (cases "scalar_values var location name ovs e") auto
  obtain vs' s1 e1 where cv: "check_values sys i var location name vs (s0, e0) = Inr (vs', s1, e1)"
    using assms Some sv by (auto simp: assignVariable_as_def bind_res_eq_Inr Let_def)
  note body = assms [unfolded assignVariable_as_def Some option.case Let_def sv prod.case cv bind_res_Inr]
  show ?thesis
  proof (cases "find_assignment location iplat (assignment_history var)")
    case None
    obtain s2 e2 where ct: "check_assignment_type var location name vs' t (s1, e1) = (s2, e2)" by fastforce
    show ?thesis
      using body [unfolded None option.case ct prod.case] ct that(3) [OF Some sv cv None refl] by simp
  next
    case old: (Some old)
    have "a_value old = vs'" "status" "i' = i" "e' = e1"
      using body [unfolded old option.case] by (simp_all add: assert_res_eq_Inr)
    then show ?thesis using that(2) [OF Some sv _ old] cv by simp
  qed
qed

lemma find_assignment_None:
  "find_assignment location platform h = None \<longleftrightarrow> (location, platform) \<notin> assignment_key ` set h"
  by (auto simp: find_assignment_def find_None_iff assignment_key_def)

lemma find_assignment_Some:
  "find_assignment location platform h = Some a \<Longrightarrow> a \<in> set h \<and> assignment_key a = (location, platform)"
  by (auto simp: find_assignment_def find_Some_iff assignment_key_def)

lemma find_assignment_unique:
  "distinct (map assignment_key h) \<Longrightarrow> a \<in> set h \<Longrightarrow>
   find_assignment (a_location a) (a_item_platform a) h = Some a"
  by (induction h) (auto simp: find_assignment_def assignment_key_def)

lemma variable_ok_add:
  assumes "variable_ok sys name var" and "typed_assignment sys var a"
    and "assignment_key a \<notin> assignment_key ` set (assignment_history var)"
  shows "variable_ok sys name (add_assignment a var)"
proof -
  have "distinct (map assignment_key (assignment_history (add_assignment a var)))"
    using assms by (auto simp: variable_ok_def add_assignment_def)
  moreover have "v_list_type var = l_scalar \<longrightarrow> fallbacks_first (assignment_history (add_assignment a var))"
    using assms(1) fallbacks_first_front [of _ a] fallbacks_first_back [of _ a]
    by (auto simp: variable_ok_def add_assignment_def is_fallback_def)
  ultimately show ?thesis
    using assms typed_assignment_cong [of "add_assignment a var" var sys]
    by (auto simp: variable_ok_def set_add_assignment interface_simps)
qed

lemma interface_ok_put:
  "interface_ok sys i \<Longrightarrow> variable_ok sys name var \<Longrightarrow>
   interface_ok sys (i\<lparr>symbol_table := om_put name var (symbol_table i)\<rparr>)"
  by (auto simp: interface_ok_def)

lemma assign_ok:
  assumes "assignVariable_as sys e location name ovs t flag iname iplat i = Inr (True, i', e')"
    and "interface_ok sys i" and "isAbsolutePath (os_cwd sys)"
  shows "interface_ok sys i'"
  using assms(1)
proof (cases rule: assign_cases)
  case (added var vs s0 e0 vs' s1 e1 a)
  have t: "s1 \<and> e' = e1 \<and> (v_list_type var \<noteq> l_scalar \<longrightarrow> t = a_normal)"
    using check_assignment_type_ok added(6) by blast
  moreover have cv: "s0 \<and> length vs' = length vs \<and> (\<forall>v \<in> set vs'. typed_value sys (v_type var) v)"
    using check_values_typed [OF added(3) assms(3)] t by blast
  moreover have "v_list_type var = l_scalar \<longrightarrow> length vs = 1"
    using scalar_values_ok [OF added(2)] cv by blast
  ultimately have "typed_assignment sys var a" by (auto simp: typed_assignment_def added(5))
  moreover have "assignment_key a \<notin> assignment_key ` set (assignment_history var)"
    using added(4,5) by (simp add: find_assignment_None assignment_key_def)
  moreover have "variable_ok sys name var" using assms(2) added(1) by (simp add: interface_ok_def)
  ultimately show ?thesis using variable_ok_add interface_ok_put assms(2) added(7) by blast
qed (use assms in auto)

section \<open>The operations as steps\<close>

inductive op_step :: "os \<Rightarrow> interface \<Rightarrow> interface \<Rightarrow> bool" for sys where
  step_directory: "setLocalDirectory dir i = Inr i' \<Longrightarrow> op_step sys i i'"
| step_target: "op_step sys i (setTargetType t i)"
| step_declare: "declareVariable_in e location tt name scope type list_type i = (True, i', e') \<Longrightarrow>
     op_step sys i i'"
| step_assign: "assignVariable_as sys e location name vs t flag iname iplat i = Inr (True, i', e') \<Longrightarrow>
     op_step sys i i'"
| step_reset: "resetVariable_as e location name iname iplat clear i = (True, i', e') \<Longrightarrow>
     op_step sys i i'"

definition reachable_interface :: "os \<Rightarrow> interface \<Rightarrow> bool" where
  "reachable_interface sys i \<longleftrightarrow>
     (\<exists>name platform dir i0. new_interface name platform dir = Inr i0 \<and> (op_step sys)\<^sup>*\<^sup>* i0 i)"

lemma declare_ok:
  assumes "declareVariable_in e location tt name scope type list_type i = (s, i', e')" and "interface_ok sys i"
  shows "interface_ok sys i'"
proof (cases "om_get (symbol_table i) name")
  case None
  then have "i' = i\<lparr>symbol_table := om_put name
               \<lparr>v_name = name, declare_location = location, v_target_type = tt, v_scope = scope,
                v_type = type, v_list_type = list_type, reset_history = [], assignment_history = []\<rparr>
               (symbol_table i)\<rparr>"
    using assms(1) by (simp add: declareVariable_in_def)
  then show ?thesis using assms(2) by (auto simp: variable_ok_def fallbacks_first_def intro: interface_ok_put)
next
  case (Some var)
  then show ?thesis using assms by (auto simp: declareVariable_in_def split: if_splits)
qed

lemma reset_ok:
  assumes "resetVariable_as e location name iname iplat clear i = (s, i', e')" and "interface_ok sys i"
  shows "interface_ok sys i'"
proof (cases "om_get (symbol_table i) name")
  case None
  then show ?thesis using assms by (simp add: resetVariable_as_def)
next
  case (Some var)
  let ?var = "if clear then var\<lparr>assignment_history := []\<rparr> else var"
  let ?r = "\<lparr>r_location = location, r_item_name = iname, r_item_platform = iplat\<rparr>"
  have var: "variable_ok sys name var" using Some assms(2) by (simp add: interface_ok_def)
  have "variable_ok sys name (add_reset ?r ?var)"
    using var typed_assignment_cong [of "add_reset ?r ?var" var sys]
    by (auto simp: variable_ok_def interface_simps fallbacks_first_def)
  moreover have "i' = i\<lparr>symbol_table := om_put name (add_reset ?r ?var) (symbol_table i)\<rparr>"
    using Some assms(1) by (simp add: resetVariable_as_def Let_def)
  ultimately show ?thesis using assms(2) interface_ok_put by blast
qed

lemma op_step_ok:
  assumes "op_step sys i i'" and "interface_ok sys i" and "isAbsolutePath (os_cwd sys)"
  shows "interface_ok sys i'"
  using assms
proof cases
  case (step_directory dir)
  then show ?thesis using assms(2) by (auto simp: setLocalDirectory_def assert_res_eq_Inr interface_ok_def)
next
  case (step_target t)
  then show ?thesis using assms(2) by (auto simp: setTargetType_def interface_ok_def)
next
  case step_declare
  then show ?thesis using declare_ok assms(2) by blast
next
  case step_assign
  then show ?thesis using assign_ok assms(2,3) by blast
next
  case step_reset
  then show ?thesis using reset_ok assms(2) by blast
qed

lemma op_steps_ok:
  assumes "(op_step sys)\<^sup>*\<^sup>* i i'" and "interface_ok sys i" and "isAbsolutePath (os_cwd sys)"
  shows "interface_ok sys i'"
  using assms by (induction rule: rtranclp_induct) (auto intro: op_step_ok)

lemma reachable_ok:
  assumes "reachable_interface sys i" and "isAbsolutePath (os_cwd sys)"
  shows "interface_ok sys i"
proof -
  obtain name platform dir i0 where i0: "new_interface name platform dir = Inr i0" "(op_step sys)\<^sup>*\<^sup>* i0 i"
    using assms(1) by (auto simp: reachable_interface_def)
  then have "symbol_table i0 = []"
    by (auto simp: new_interface_def setLocalDirectory_def assert_res_eq_Inr)
  then have "interface_ok sys i0" by (simp add: interface_ok_def)
  then show ?thesis using op_steps_ok [OF i0(2) _ assms(2)] by blast
qed

end
