(* ===== verification/Interface_Properties.thy ===== *)
theory Interface_Properties
  imports Interface_Correct
begin

text \<open>
  Reading a variable, importing an interface into an empty one and importing it again.
\<close>

section \<open>Importing is a sequence of steps\<close>

lemma import_resets_steps:
  "import_resets name rs (s, i, e) = (True, i', e') \<Longrightarrow> s \<and> (op_step sys)\<^sup>*\<^sup>* i i'"
proof (induction rs arbitrary: s i e)
  case (Cons r rs)
  obtain ok i1 e1 where r: "resetVariable_as e (r_location r) name (r_item_name r) (r_item_platform r) False i
      = (ok, i1, e1)" by (metis prod_cases3)
  then have *: "(s \<and> ok) \<and> (op_step sys)\<^sup>*\<^sup>* i1 i'"
    using Cons.prems Cons.IH [of "s \<and> ok" i1 e1] by simp
  then have "op_step sys i i1" using r by (auto intro: step_reset)
  then show ?case using * by (auto intro: converse_rtranclp_into_rtranclp)
qed simp

lemma import_assignments_steps:
  "import_assignments sys oname var as (s, i, e) = Inr (True, i', e') \<Longrightarrow> s \<and> (op_step sys)\<^sup>*\<^sup>* i i'"
proof (induction as arbitrary: s i e)
  case (Cons a as)
  show ?case
  proof (cases "v_scope var = s_recursive \<or> a_item_name a = oname")
    case True
    then obtain ok i1 e1 where a: "assignVariable_as sys e (a_location a) (v_name var) (a_value a)
        (assignment_type a) (a_flag a) (a_item_name a) (a_item_platform a) i = Inr (ok, i1, e1)"
        and rest: "import_assignments sys oname var as (s \<and> ok, i1, e1) = Inr (True, i', e')"
      using Cons.prems by (auto simp: bind_res_eq_Inr)
    then have *: "(s \<and> ok) \<and> (op_step sys)\<^sup>*\<^sup>* i1 i'" using Cons.IH by blast
    then have "op_step sys i i1" using a by (auto intro: step_assign)
    then show ?thesis using * by (auto intro: converse_rtranclp_into_rtranclp)
  qed (use Cons in auto)
qed simp

lemma import_variable_steps:
  assumes "import_variable sys oname var (s, i, e) = Inr (True, i', e')"
  shows "s \<and> (op_step sys)\<^sup>*\<^sup>* i i'"
proof (cases "v_scope var = s_local")
  case False
  obtain ok i1 e1 where d: "declareVariable_in e (declare_location var) (v_target_type var) (v_name var)
      (v_scope var) (v_type var) (v_list_type var) i = (ok, i1, e1)" by (metis prod_cases3)
  have ok: "ok" using assms False d by (auto simp: import_variable_def split: if_splits)
  obtain s2 i2 e2 where r: "import_resets (v_name var) (reset_history var) (s, i1, e1) = (s2, i2, e2)"
    by (metis prod_cases3)
  have "import_assignments sys oname var (assignment_history var) (s2, i2, e2) = Inr (True, i', e')"
    using assms False d ok r by (simp add: import_variable_def)
  then have *: "s2 \<and> (op_step sys)\<^sup>*\<^sup>* i2 i'" by (rule import_assignments_steps)
  then have **: "s \<and> (op_step sys)\<^sup>*\<^sup>* i1 i2"
    using r import_resets_steps [of "v_name var" "reset_history var" s i1 e1 i2 e2 sys] by simp
  have "op_step sys i i1" using d ok by (auto intro: step_declare)
  then show ?thesis using * ** by (meson converse_rtranclp_into_rtranclp rtranclp_trans)
qed (use assms in \<open>auto simp: import_variable_def\<close>)

lemma import_variables_steps:
  "import_variables sys oname vars (s, i, e) = Inr (True, i', e') \<Longrightarrow> s \<and> (op_step sys)\<^sup>*\<^sup>* i i'"
proof (induction vars arbitrary: s i e)
  case (Cons var vars)
  then obtain s1 i1 e1 where 1: "import_variable sys oname var (s, i, e) = Inr (s1, i1, e1)"
      and 2: "import_variables sys oname vars (s1, i1, e1) = Inr (True, i', e')"
    by (auto simp: bind_res_eq_Inr)
  then have *: "s1 \<and> (op_step sys)\<^sup>*\<^sup>* i1 i'" using Cons.IH by blast
  then have "s \<and> (op_step sys)\<^sup>*\<^sup>* i i1"
    using import_variable_steps [of sys oname var s i e i1 e1] 1 by simp
  then show ?case using * by (meson rtranclp_trans)
qed simp

lemma import_reachable:
  assumes "reachable_interface sys i" and "importInterface sys e other i = Inr (True, i', e')"
  shows "reachable_interface sys i'"
proof -
  have "(op_step sys)\<^sup>*\<^sup>* i i'"
    using assms(2) import_variables_steps [of sys "item_name other" _ True i e i' e']
    by (simp add: importInterface_def)
  then show ?thesis using assms(1) unfolding reachable_interface_def by (meson rtranclp_trans)
qed

section \<open>Reading a variable\<close>

lemma append_values_append [simp]: "append_values a vals = vals @ a_value a"
proof -
  have "fold (\<lambda>v vals. vals @ [v]) xs vals = vals @ xs" for xs vals :: "string list"
    by (induction xs arbitrary: vals) simp_all
  then show ?thesis by (simp add: append_values_def)
qed

lemma prepend_values_append [simp]: "prepend_values a vals = a_value a @ vals"
proof -
  have "fold (\<lambda>v vals. v # vals) xs vals = rev xs @ vals" for xs vals :: "string list"
    by (induction xs arbitrary: vals) simp_all
  then show ?thesis by (simp add: prepend_values_def)
qed

lemma fold_append_values: "fold append_values h vals = vals @ concat (map a_value h)"
  by (induction h arbitrary: vals) simp_all

lemma fold_prepend_values: "fold prepend_values h vals = concat (map a_value (rev h)) @ vals"
  by (induction h arbitrary: vals) simp_all

lemma history_value_eq:
  "history_value lt h = (case lt of l_scalar \<Rightarrow> a_value (last h)
     | l_append \<Rightarrow> concat (map a_value h) | l_prepend \<Rightarrow> concat (map a_value (rev h)))"
  by (simp add: history_value_def fold_append_values fold_prepend_values split: list_e.splits)

text \<open>
  C26: the value of a variable is read off the assignments that the flags make visible: a scalar has
  the last one, an append list all of them in order, and a prepend list all of them with the latest
  in front, each one in its own order. Without a visible assignment the variable is uninitialized
  and empty.
\<close>

theorem getVariable_value:
  assumes "om_get (symbol_table i) name = Some var"
  shows "\<exists>info. getVariable i name flags = Some info \<and>
     (let h = filter (\<lambda>a. a_flag a = [] \<or> isSet flags (a_item_name a) (a_flag a)) (assignment_history var) in
      (initialized info \<longleftrightarrow> h \<noteq> []) \<and>
      i_value info = (if h = [] then [] else case v_list_type var of
          l_scalar \<Rightarrow> a_value (last h)
        | l_append \<Rightarrow> concat (map a_value h)
        | l_prepend \<Rightarrow> concat (map a_value (rev h))))"
  using assms by (simp add: getVariable_def visible_def [abs_def] history_value_eq Let_def)

text \<open>An example: a fallback, a flag and a prepend list.\<close>

definition loc :: "nat \<Rightarrow> file_location" where
  "loc n = FileLocation ''Abuild.interface'' (int n) 1"

definition start_error :: error where
  "start_error = new_error NO_JOB ''abuild'' \<lparr>any_errors = False, deprecate_is_error = False,
     error_callback = False, error_log = [], callback_log = []\<rparr>"

definition then_assign :: "nat \<Rightarrow> string \<Rightarrow> string list \<Rightarrow> assign_e \<Rightarrow> string
    \<Rightarrow> (bool \<times> interface \<times> error) res \<Rightarrow> (bool \<times> interface \<times> error) res" where
  "then_assign n name vals t flag r = bind_res r (\<lambda>(s, i, e).
     map_sum id (\<lambda>(s', x). (s \<and> s', x)) (assignVariable plain_os e (loc n) name vals t flag i))"

definition then_declare :: "nat \<Rightarrow> string \<Rightarrow> scope_e \<Rightarrow> type_e \<Rightarrow> list_e
    \<Rightarrow> (bool \<times> interface \<times> error) res \<Rightarrow> (bool \<times> interface \<times> error) res" where
  "then_declare n name scope type list_type r = bind_res r (\<lambda>(s, i, e).
     let (s', x) = declareVariable e (loc n) name scope type list_type i in Inr (s \<and> s', x))"

definition empty_interface :: "string \<Rightarrow> (bool \<times> interface \<times> error) res" where
  "empty_interface name = bind_res (new_interface name ''native'' ''/work'') (\<lambda>i. Inr (True, i, start_error))"

definition example_interface :: "(bool \<times> interface \<times> error) res" where
  "example_interface =
     then_assign 5 ''INC'' [''sub''] a_normal ''f''
    (then_assign 4 ''INC'' [''.'', ''/usr//include''] a_normal []
    (then_assign 3 ''X'' [''b''] a_fallback []
    (then_assign 2 ''X'' [''a''] a_fallback []
    (then_declare 1 ''INC'' s_recursive t_filename l_prepend
    (then_declare 0 ''X'' s_recursive t_string l_scalar (empty_interface ''p''))))))"

definition value_of :: "(bool \<times> interface \<times> error) res \<Rightarrow> string \<Rightarrow> flag_data \<Rightarrow> string list option" where
  "value_of r name flags = (case r of Inl e \<Rightarrow> None
     | Inr (s, i, e) \<Rightarrow> if s then map_option i_value (getVariable i name flags) else None)"

lemma example_values:
  "value_of example_interface ''INC'' (addFlag ''p'' ''f'' []) = Some [''/work/sub'', ''/work'', ''/usr/include'']
   \<and> value_of example_interface ''INC'' [] = Some [''/work'', ''/usr/include'']
   \<and> value_of example_interface ''X'' [] = Some [''a'']"
  by code_simp

text \<open>What the example builds is reachable, since every operation of it reports success.\<close>

definition succeeded :: "(bool \<times> interface \<times> error) res \<Rightarrow> bool" where
  "succeeded r = (case r of Inl _ \<Rightarrow> False | Inr (s, _) \<Rightarrow> s)"

definition all_reachable :: "(bool \<times> interface \<times> error) res \<Rightarrow> bool" where
  "all_reachable r \<longleftrightarrow> (\<forall>i e. r = Inr (True, i, e) \<longrightarrow> reachable_interface plain_os i)"

lemma reachable_step: "reachable_interface sys i \<Longrightarrow> op_step sys i i' \<Longrightarrow> reachable_interface sys i'"
  unfolding reachable_interface_def by (meson rtranclp.rtrancl_into_rtrancl)

lemma all_reachable_empty: "all_reachable (empty_interface name)"
  by (auto simp: all_reachable_def empty_interface_def reachable_interface_def bind_res_eq_Inr)

lemma all_reachable_declare:
  assumes "all_reachable r"
  shows "all_reachable (then_declare n name scope type lt r)"
  unfolding all_reachable_def
proof (intro allI impI)
  fix i e
  assume a: "then_declare n name scope type lt r = Inr (True, i, e)"
  then obtain s i0 e0 where r: "r = Inr (s, i0, e0)" unfolding then_declare_def by (auto simp: bind_res_eq_Inr)
  obtain s1 i1 e1 where d: "declareVariable e0 (loc n) name scope type lt i0 = (s1, i1, e1)"
    by (metis prod_cases3)
  have ok: "s \<and> s1 \<and> i1 = i" using a unfolding then_declare_def r by (simp add: d)
  have "op_step plain_os i0 i"
    using d [unfolded declareVariable_def] ok by (intro step_declare) simp
  moreover have "reachable_interface plain_os i0" using assms r ok unfolding all_reachable_def by blast
  ultimately have "reachable_interface plain_os i0" "op_step plain_os i0 i" by blast+
  then show "reachable_interface plain_os i" by (rule reachable_step)
qed

lemma all_reachable_assign:
  assumes "all_reachable r"
  shows "all_reachable (then_assign n name vals t flag r)"
  unfolding all_reachable_def
proof (intro allI impI)
  fix i e
  assume "then_assign n name vals t flag r = Inr (True, i, e)"
  then obtain s i0 e0 where r: "r = Inr (s, i0, e0)"
      and a: "map_sum id (\<lambda>(s', x). (s \<and> s', x)) (assignVariable plain_os e0 (loc n) name vals t flag i0)
        = Inr (True, i, e)"
    unfolding then_assign_def by (auto simp: bind_res_eq_Inr)
  then have "s" and "assignVariable plain_os e0 (loc n) name vals t flag i0 = Inr (True, i, e)"
    by (cases "assignVariable plain_os e0 (loc n) name vals t flag i0"; auto)+
  then show "reachable_interface plain_os i"
    using assms r step_assign reachable_step unfolding all_reachable_def assignVariable_def by blast
qed

lemmas all_reachable = all_reachable_empty all_reachable_declare all_reachable_assign

lemma reachableI: "all_reachable r \<Longrightarrow> r = Inr (True, i, e) \<Longrightarrow> reachable_interface plain_os i"
  by (simp add: all_reachable_def)

lemma example_reachable: "all_reachable example_interface"
  unfolding example_interface_def by (intro all_reachable)

lemma example_succeeds: "succeeded example_interface"
  by code_simp

lemma example_X:
  "case example_interface of Inl _ \<Rightarrow> False | Inr (_, i, _) \<Rightarrow>
     (case om_get (symbol_table i) ''X'' of None \<Rightarrow> False
      | Some var \<Rightarrow> v_scope var = s_recursive \<and> v_list_type var = l_scalar)"
  by code_simp

lemma example_INC:
  "case example_interface of Inl _ \<Rightarrow> False | Inr (_, i, _) \<Rightarrow>
     (case om_get (symbol_table i) ''INC'' of None \<Rightarrow> False
      | Some var \<Rightarrow> v_scope var = s_recursive \<and> v_list_type var = l_prepend)"
  by code_simp

lemma example_no_errors:
  "case example_interface of Inl _ \<Rightarrow> False | Inr (s, _, e) \<Rightarrow> s \<and> e = start_error"
  by code_simp

lemma plain_os_absolute: "isAbsolutePath (os_cwd plain_os) \<and> os_links plain_os = []"
  by (simp add: plain_os_def isAbsolutePath_def)

lemma succeeded_iff: "succeeded r \<longleftrightarrow> (\<exists>i e. r = Inr (True, i, e))"
  by (cases r) (auto simp: succeeded_def)

definition then_import :: "(bool \<times> interface \<times> error) res \<Rightarrow> (bool \<times> interface \<times> error) res
    \<Rightarrow> (bool \<times> interface \<times> error) res" where
  "then_import other r = bind_res other (\<lambda>(_, o', _). bind_res r (\<lambda>(s, i, e).
     map_sum id (\<lambda>(s', x). (s \<and> s', x)) (importInterface plain_os e o' i)))"

lemma reachable_typed:
  assumes "reachable_interface sys i" and "isAbsolutePath (os_cwd sys)" and "getVariable i name flags = Some info"
  shows "(\<forall>v \<in> set (i_value info). typed_value sys (i_type info) v) \<and>
    (initialized info \<longrightarrow> i_list_type info = l_scalar \<longrightarrow> length (i_value info) = 1) \<and>
    (\<not> initialized info \<longrightarrow> i_value info = [])"
proof -
  obtain var where var: "om_get (symbol_table i) name = Some var"
    using assms(3) by (auto simp: getVariable_def split: option.splits)
  define h where "h = filter (visible flags) (assignment_history var)"
  have info: "info = \<lparr>i_target_type = v_target_type var, i_type = v_type var, i_list_type = v_list_type var,
                i_scope = v_scope var, initialized = (h \<noteq> []),
                i_value = (if h = [] then [] else history_value (v_list_type var) h)\<rparr>"
    using assms(3) [symmetric] var by (simp add: getVariable_def h_def Let_def)
  have "variable_ok sys name var" using reachable_ok [OF assms(1,2)] var by (simp add: interface_ok_def)
  then have typed: "\<forall>a \<in> set h. typed_assignment sys var a" by (simp add: variable_ok_def h_def)
  have "\<forall>v \<in> set (history_value (v_list_type var) h). typed_value sys (v_type var) v" if "h \<noteq> []"
    using typed that by (cases "v_list_type var") (auto simp: history_value_eq typed_assignment_def)
  moreover have "h \<noteq> [] \<and> v_list_type var = l_scalar \<longrightarrow> length (history_value (v_list_type var) h) = 1"
    using typed by (auto simp: history_value_eq typed_assignment_def)
  ultimately show ?thesis by (simp add: info)
qed

text \<open>
  C6: as long as the operations on an interface report success, imports included, what can be read
  from it has the declared type: a boolean is 0 or 1, a file name is a canonical absolute path, an
  initialized scalar has exactly one value and what is not initialized has none.
\<close>

theorem interface_typed:
  assumes "reachable_interface sys i" and "isAbsolutePath (os_cwd sys)"
    and "importInterface sys e other i = Inr (True, i', e')"
    and "getVariable i' name flags = Some info"
  shows "reachable_interface sys i' \<and> (\<forall>v \<in> set (i_value info). typed_value sys (i_type info) v) \<and>
    (initialized info \<longrightarrow> i_list_type info = l_scalar \<longrightarrow> length (i_value info) = 1) \<and>
    (\<not> initialized info \<longrightarrow> i_value info = [])"
  using import_reachable [OF assms(1,3)] reachable_typed [OF _ assms(2,4)] by blast

lemma example_import:
  "case then_import example_interface (empty_interface ''q'') of Inl _ \<Rightarrow> False | Inr (s, i, _) \<Rightarrow> s \<and>
     (case getVariable i ''INC'' [] of None \<Rightarrow> False | Some info \<Rightarrow>
        i_type info = t_filename \<and> i_value info = [''/work'', ''/usr/include''])"
  by code_simp

theorem interface_typed_witness:
  "\<exists>other i i' e' info. importInterface plain_os start_error other i = Inr (True, i', e')
     \<and> getVariable i' ''INC'' [] = Some info \<and> i_value info = [''/work'', ''/usr/include'']
     \<and> (\<forall>v \<in> set (i_value info). typed_value plain_os t_filename v)"
proof -
  obtain other where o: "example_interface = Inr (True, other, start_error)"
    using example_no_errors by (auto split: sum.splits prod.splits)
  obtain i e where i: "empty_interface ''q'' = Inr (True, i, e)" "e = start_error"
    by (auto simp: empty_interface_def new_interface_def setLocalDirectory_def isAbsolutePath_def)
  have r: "reachable_interface plain_os i" using reachableI [OF all_reachable_empty i(1)] .
  obtain i' e' where imp: "importInterface plain_os start_error other i = Inr (True, i', e')"
      and info: "case getVariable i' ''INC'' [] of None \<Rightarrow> False | Some info \<Rightarrow>
        i_type info = t_filename \<and> i_value info = [''/work'', ''/usr/include'']"
    using example_import unfolding then_import_def o i
    by (cases "importInterface plain_os start_error other i") auto
  obtain info where v: "getVariable i' ''INC'' [] = Some info" "i_type info = t_filename"
      "i_value info = [''/work'', ''/usr/include'']"
    using info by (auto split: option.splits)
  then show ?thesis
    using interface_typed [OF r _ imp v(1)] plain_os_absolute imp by (metis v(2))
qed

theorem getVariable_value_witness:
  "\<exists>i var info. om_get (symbol_table i) ''INC'' = Some var \<and> getVariable i ''INC'' [] = Some info
     \<and> i_value info = concat (map a_value (rev (filter (\<lambda>a. a_flag a = []) (assignment_history var))))"
proof -
  obtain i e where i: "example_interface = Inr (True, i, e)"
    using succeeded_iff [of example_interface] example_succeeds by blast
  obtain var where var: "om_get (symbol_table i) ''INC'' = Some var" "v_list_type var = l_prepend"
    using example_INC unfolding i by (auto split: option.splits)
  obtain info where "getVariable i ''INC'' [] = Some info"
      "i_value info = concat (map a_value (rev (filter (\<lambda>a. a_flag a = []) (assignment_history var))))"
    using getVariable_value [OF var(1), of "[]"] var(2)
    by (cases "filter (\<lambda>a. a_flag a = []) (assignment_history var) = []") (auto simp: Let_def)
  then show ?thesis using var(1) by blast
qed

section \<open>Importing into an empty interface\<close>

text \<open>The history that an import rebuilds: fallback assignments are put in front one after the other.\<close>

definition replayed :: "list_e \<Rightarrow> assignment list \<Rightarrow> assignment list" where
  "replayed list_type h =
     (if list_type = l_scalar
      then rev (filter is_fallback h) @
           filter (\<lambda>a. \<not> is_fallback a) h
      else h)"

definition imported :: "string \<Rightarrow> variable \<Rightarrow> assignment list" where
  "imported oname var =
     filter (\<lambda>a. v_scope var = s_recursive \<or> a_item_name a = oname) (assignment_history var)"

lemma add_assignment_history:
  "assignment_history (fold add_assignment as var) =
     (if v_list_type var = l_scalar
      then rev (filter is_fallback as) @ assignment_history var @
           filter (\<lambda>a. \<not> is_fallback a) as
      else assignment_history var @ as)"
  by (induction as arbitrary: var) (simp_all add: add_assignment_def is_fallback_def)

lemma fold_add_assignment_fields [interface_simps]:
  "v_name (fold add_assignment as var) = v_name var" "v_type (fold add_assignment as var) = v_type var"
  "v_list_type (fold add_assignment as var) = v_list_type var" "v_scope (fold add_assignment as var) = v_scope var"
  "declare_location (fold add_assignment as var) = declare_location var"
  "v_target_type (fold add_assignment as var) = v_target_type var"
  by (induction as arbitrary: var) (simp_all add: interface_simps)

lemma scalar_values_id:
  "(v_list_type var = l_scalar \<longrightarrow> length vs = 1) \<Longrightarrow> scalar_values var location name vs e = (vs, True, e)"
  by (cases "vs = []") (simp_all add: scalar_values_def)

lemma assignment_eta:
  "\<lparr>a_location = a_location a, assignment_type = assignment_type a, a_flag = a_flag a,
    a_item_name = a_item_name a, a_item_platform = a_item_platform a, a_value = a_value a\<rparr> = a"
  by simp

lemma reset_eta:
  "\<lparr>r_location = r_location r, r_item_name = r_item_name r, r_item_platform = r_item_platform r\<rparr> = r"
  by simp

text \<open>An assignment that has its type and is new to the history is added as it is.\<close>

lemma assign_typed:
  assumes "om_get (symbol_table i) name = Some var" and "typed_assignment sys var a" and "os_links sys = []"
    and "assignment_key a \<notin> assignment_key ` set (assignment_history var)"
  shows "\<exists>s e'. assignVariable_as sys e (a_location a) name (a_value a) (assignment_type a) (a_flag a)
      (a_item_name a) (a_item_platform a) i =
    Inr (s, i\<lparr>symbol_table := om_put name (add_assignment a var) (symbol_table i)\<rparr>, e')"
proof -
  have old: "find_assignment (a_location a) (a_item_platform a) (assignment_history var) = None"
    using assms(4) by (simp add: find_assignment_None assignment_key_def)
  have sv: "scalar_values var (a_location a) name (a_value a) e = (a_value a, True, e)"
    using assms(2) by (intro scalar_values_id) (simp add: typed_assignment_def split: if_splits)
  have cv: "check_values sys i var (a_location a) name (a_value a) se = Inr (a_value a, se)" for se
    using assms(2,3) by (intro check_values_id) (simp_all add: typed_assignment_def)
  obtain s e' where ct: "check_assignment_type var (a_location a) name (a_value a) (assignment_type a) (True, e)
      = (s, e')" by fastforce
  show ?thesis
    unfolding assignVariable_as_def assms(1) option.case Let_def sv prod.case cv bind_res_Inr old ct
      assignment_eta
    by simp
qed

lemma om_put_idem [simp]: "om_put k v (om_put k v' m) = om_put k v m"
  by (induction k v' m rule: om_put.induct) auto

text \<open>All the assignments of a variable whose history has none of them yet.\<close>

lemma import_assignments_fresh:
  assumes "om_get (symbol_table i) (v_name var) = Some cur" and "os_links sys = []"
    and "v_type cur = v_type var" and "v_list_type cur = v_list_type var"
    and "\<forall>a \<in> set as. typed_assignment sys var a"
    and "distinct (map assignment_key as)"
    and "assignment_key ` set as \<inter> assignment_key ` set (assignment_history cur) = {}"
  shows "\<exists>s' e'. import_assignments sys oname var as (s, i, e) = Inr (s',
     (let kept = filter (\<lambda>a. v_scope var = s_recursive \<or> a_item_name a = oname) as in
      if kept = [] then i
      else i\<lparr>symbol_table := om_put (v_name var) (fold add_assignment kept cur) (symbol_table i)\<rparr>), e')"
  using assms
proof (induction as arbitrary: i cur s e)
  case (Cons a as)
  show ?case
  proof (cases "v_scope var = s_recursive \<or> a_item_name a = oname")
    case True
    let ?i = "i\<lparr>symbol_table := om_put (v_name var) (add_assignment a cur) (symbol_table i)\<rparr>"
    have "typed_assignment sys cur a"
      using Cons.prems(3,4,5) typed_assignment_cong [of cur var sys a] by simp
    moreover have "assignment_key a \<notin> assignment_key ` set (assignment_history cur)"
      using Cons.prems(7) by auto
    ultimately obtain s1 e1 where a: "assignVariable_as sys e (a_location a) (v_name var) (a_value a)
        (assignment_type a) (a_flag a) (a_item_name a) (a_item_platform a) i = Inr (s1, ?i, e1)"
      using assign_typed [OF Cons.prems(1) _ Cons.prems(2), of a e] by blast
    have "\<exists>s' e'. import_assignments sys oname var as (s \<and> s1, ?i, e1) = Inr (s',
       (let kept = filter (\<lambda>a. v_scope var = s_recursive \<or> a_item_name a = oname) as in
        if kept = [] then ?i
        else ?i\<lparr>symbol_table := om_put (v_name var) (fold add_assignment kept (add_assignment a cur))
                                   (symbol_table ?i)\<rparr>), e')"
      using Cons.prems by (intro Cons.IH) (auto simp: interface_simps set_add_assignment)
    then show ?thesis using True a by (auto simp: Let_def)
  qed (use Cons in auto)
qed simp

lemma import_resets_fresh:
  assumes "om_get (symbol_table i) name = Some cur"
  shows "\<exists>s' cur'. import_resets name rs (s, i, e) =
      (s', if rs = [] then i else i\<lparr>symbol_table := om_put name cur' (symbol_table i)\<rparr>, e)
    \<and> cur' = fold add_reset rs cur"
  using assms
proof (induction rs arbitrary: i cur s)
  case (Cons r rs)
  have step: "resetVariable_as e (r_location r) name (r_item_name r) (r_item_platform r) False i =
      (True, i\<lparr>symbol_table := om_put name (add_reset r cur) (symbol_table i)\<rparr>, e)"
    unfolding resetVariable_as_def Cons.prems option.case Let_def reset_eta by simp
  show ?case
    using Cons.IH [of "i\<lparr>symbol_table := om_put name (add_reset r cur) (symbol_table i)\<rparr>" "add_reset r cur" s]
    by (auto simp: step)
qed simp

lemma fold_add_reset_fields [interface_simps]:
  "v_name (fold add_reset rs var) = v_name var" "v_type (fold add_reset rs var) = v_type var"
  "v_list_type (fold add_reset rs var) = v_list_type var" "v_scope (fold add_reset rs var) = v_scope var"
  "declare_location (fold add_reset rs var) = declare_location var"
  "v_target_type (fold add_reset rs var) = v_target_type var"
  "assignment_history (fold add_reset rs var) = assignment_history var"
  by (induction rs arbitrary: var) (simp_all add: interface_simps)

text \<open>What an import makes of one variable.\<close>

definition imported_as :: "string \<Rightarrow> variable \<Rightarrow> variable option \<Rightarrow> bool" where
  "imported_as oname var entry =
     (if v_scope var = s_local then entry = None
      else \<exists>var'. entry = Some var' \<and> v_type var' = v_type var \<and> v_list_type var' = v_list_type var
        \<and> v_scope var' = v_scope var \<and> v_target_type var' = v_target_type var
        \<and> assignment_history var' = replayed (v_list_type var) (imported oname var))"

lemma import_variable_fresh:
  assumes "om_get (symbol_table i) (v_name var) = None" and "variable_ok sys (v_name var) var"
    and "os_links sys = []"
  shows "\<exists>s' i' e'. import_variable sys oname var (s, i, e) = Inr (s', i', e')
    \<and> (\<forall>n. n \<noteq> v_name var \<longrightarrow> om_get (symbol_table i') n = om_get (symbol_table i) n)
    \<and> imported_as oname var (om_get (symbol_table i') (v_name var))"
proof (cases "v_scope var = s_local")
  case False
  let ?n = "v_name var"
  define new where "new = \<lparr>v_name = ?n, declare_location = declare_location var,
      v_target_type = v_target_type var, v_scope = v_scope var, v_type = v_type var,
      v_list_type = v_list_type var, reset_history = [], assignment_history = []\<rparr>"
  define cur where "cur = fold add_reset (reset_history var) new"
  let ?put = "\<lambda>v. i\<lparr>symbol_table := om_put ?n v (symbol_table i)\<rparr>"
  have d: "declareVariable_in e (declare_location var) (v_target_type var) ?n (v_scope var) (v_type var)
      (v_list_type var) i = (True, ?put new, e)"
    by (simp add: declareVariable_in_def assms(1) new_def)
  obtain s1 where r: "import_resets ?n (reset_history var) (s, ?put new, e) = (s1, ?put cur, e)"
    using import_resets_fresh [of "?put new" ?n new "reset_history var" s e]
    by (cases "reset_history var = []") (auto simp: cur_def)
  have cur: "v_type cur = v_type var" "v_list_type cur = v_list_type var" "v_scope cur = v_scope var"
      "v_target_type cur = v_target_type var" "assignment_history cur = []"
    by (simp_all add: cur_def interface_simps new_def)
  define kept where "kept = imported oname var"
  have "\<exists>s' e'. import_assignments sys oname var (assignment_history var) (s1, ?put cur, e) = Inr (s',
     (let kept = filter (\<lambda>a. v_scope var = s_recursive \<or> a_item_name a = oname) (assignment_history var) in
      if kept = [] then ?put cur
      else (?put cur)\<lparr>symbol_table := om_put ?n (fold add_assignment kept cur) (symbol_table (?put cur))\<rparr>), e')"
    using assms(2) cur by (intro import_assignments_fresh assms(3)) (auto simp: variable_ok_def)
  moreover have "(let kept = filter (\<lambda>a. v_scope var = s_recursive \<or> a_item_name a = oname) (assignment_history var) in
      if kept = [] then ?put cur
      else (?put cur)\<lparr>symbol_table := om_put ?n (fold add_assignment kept cur) (symbol_table (?put cur))\<rparr>)
    = ?put (fold add_assignment kept cur)"
    by (simp add: kept_def imported_def Let_def)
  ultimately obtain s2 e2 where "import_assignments sys oname var (assignment_history var) (s1, ?put cur, e) =
      Inr (s2, ?put (fold add_assignment kept cur), e2)" by metis
  then have "import_variable sys oname var (s, i, e) = Inr (s2, ?put (fold add_assignment kept cur), e2)"
    using False d r by (simp add: import_variable_def)
  moreover have "imported_as oname var (Some (fold add_assignment kept cur))"
    using False cur by (simp add: imported_as_def interface_simps add_assignment_history replayed_def kept_def)
  ultimately show ?thesis by auto
qed (use assms in \<open>auto simp: import_variable_def imported_as_def\<close>)

lemma import_variables_fresh:
  assumes "distinct (map v_name vars)" and "\<forall>var \<in> set vars. om_get (symbol_table i) (v_name var) = None"
    and "\<forall>var \<in> set vars. variable_ok sys (v_name var) var" and "os_links sys = []"
  shows "\<exists>s' i' e'. import_variables sys oname vars (s, i, e) = Inr (s', i', e')
    \<and> (\<forall>n. n \<notin> v_name ` set vars \<longrightarrow> om_get (symbol_table i') n = om_get (symbol_table i) n)
    \<and> (\<forall>var \<in> set vars. imported_as oname var (om_get (symbol_table i') (v_name var)))"
  using assms
proof (induction vars arbitrary: s i e)
  case (Cons var vars)
  obtain s1 i1 e1 where 1: "import_variable sys oname var (s, i, e) = Inr (s1, i1, e1)"
      "\<forall>n. n \<noteq> v_name var \<longrightarrow> om_get (symbol_table i1) n = om_get (symbol_table i) n"
      "imported_as oname var (om_get (symbol_table i1) (v_name var))"
    using import_variable_fresh [of i var sys oname s e] Cons.prems by auto
  have dist: "distinct (map v_name vars)" and new: "v_name var \<notin> v_name ` set vars"
    using Cons.prems(1) by simp_all
  have none: "\<forall>v \<in> set vars. om_get (symbol_table i1) (v_name v) = None"
  proof
    fix v assume "v \<in> set vars"
    moreover from this have "v_name v \<noteq> v_name var" using new by (metis imageI)
    ultimately show "om_get (symbol_table i1) (v_name v) = None" using 1(2) Cons.prems(2) by simp
  qed
  have oks: "\<forall>v \<in> set vars. variable_ok sys (v_name v) v" using Cons.prems(3) by simp
  obtain s2 i2 e2 where 2: "import_variables sys oname vars (s1, i1, e1) = Inr (s2, i2, e2)"
      "\<forall>n. n \<notin> v_name ` set vars \<longrightarrow> om_get (symbol_table i2) n = om_get (symbol_table i1) n"
      "\<forall>var \<in> set vars. imported_as oname var (om_get (symbol_table i2) (v_name var))"
    using Cons.IH [OF dist none oks assms(4), of s1 e1] by blast
  have "imported_as oname var (om_get (symbol_table i2) (v_name var))" using 1(3) 2(2) new by simp
  moreover have "import_variables sys oname (var # vars) (s, i, e) = Inr (s2, i2, e2)"
    by (simp add: 1(1) 2(1))
  moreover have "\<forall>n. n \<notin> v_name ` set (var # vars) \<longrightarrow> om_get (symbol_table i2) n = om_get (symbol_table i) n"
    using 1(2) 2(2) by simp
  ultimately show ?case using 2(3) by (metis set_ConsD)
qed simp

lemma import_fresh_facts:
  assumes "reachable_interface sys other" and "isAbsolutePath (os_cwd sys)" and "os_links sys = []"
    and "symbol_table i = []"
  shows "\<exists>s i' e'. importInterface sys e other i = Inr (s, i', e') \<and>
    (\<forall>name. case om_get (symbol_table other) name of
        None \<Rightarrow> om_get (symbol_table i') name = None
      | Some var \<Rightarrow> imported_as (item_name other) var (om_get (symbol_table i') name))"
proof -
  let ?t = "symbol_table other"
  have ok: "om_ok ?t" "\<And>name var. om_get ?t name = Some var \<Longrightarrow> variable_ok sys name var"
    using reachable_ok [OF assms(1,2)] by (auto simp: interface_ok_def)
  have get: "(name, var) \<in> set ?t \<longleftrightarrow> om_get ?t name = Some var" for name var
    using om_ok_distinct [OF ok(1)] by (simp add: om_keys_def)
  have name: "v_name var = name" if "(name, var) \<in> set ?t" for name var
    using that get ok(2) by (auto simp: variable_ok_def)
  then have "map v_name (map snd ?t) = om_keys ?t" by (auto simp: om_keys_def)
  then have dist: "distinct (map v_name (map snd ?t))" using om_ok_distinct [OF ok(1)] by simp
  have "\<forall>var \<in> set (map snd ?t). variable_ok sys (v_name var) var"
    using get name ok(2) by fastforce
  then obtain s i' e' where imp: "import_variables sys (item_name other) (map snd ?t) (True, i, e) = Inr (s, i', e')"
      "\<forall>n. n \<notin> v_name ` set (map snd ?t) \<longrightarrow> om_get (symbol_table i') n = om_get (symbol_table i) n"
      "\<forall>var \<in> set (map snd ?t). imported_as (item_name other) var (om_get (symbol_table i') (v_name var))"
    using import_variables_fresh [OF dist _ _ assms(3), of i "item_name other" True e] assms(4) by auto
  have "case om_get ?t n of None \<Rightarrow> om_get (symbol_table i') n = None
      | Some var \<Rightarrow> imported_as (item_name other) var (om_get (symbol_table i') n)" for n
  proof (cases "om_get ?t n")
    case None
    then have "n \<notin> v_name ` set (map snd ?t)" using name get by fastforce
    then show ?thesis using imp(2) None assms(4) by simp
  next
    case (Some var)
    then have "(n, var) \<in> set ?t" by (simp add: get)
    then have "v_name var = n" "var \<in> set (map snd ?t)" using name by force+
    then show ?thesis using imp(3) Some by force
  qed
  then show ?thesis using imp(1) by (auto simp: importInterface_def)
qed



text \<open>
  a recursive variable has in an empty interface that imports it the value that it has in the
  imported one, for any flags, unless it is a scalar for which only several fallback assignments
  are visible.
\<close>

theorem import_keeps_value:
  assumes "reachable_interface sys other" and "isAbsolutePath (os_cwd sys)" and "os_links sys = []"
    and "symbol_table i = []" and "importInterface sys e other i = Inr (s, i', e')"
    and "om_get (symbol_table other) name = Some var" and "v_scope var = s_recursive"
    and "v_list_type var = l_scalar \<Longrightarrow>
      length (filter is_fallback (filter (visible flags) (assignment_history var))) \<le> 1 \<or>
      filter (\<lambda>a. \<not> is_fallback a) (filter (visible flags) (assignment_history var)) \<noteq> []"
  shows "getVariable i' name flags = getVariable other name flags"
proof -
  let ?h = "filter (visible flags) (assignment_history var)"
  have "imported_as (item_name other) var (om_get (symbol_table i') name)"
    using import_fresh_facts [OF assms(1-4), of e] assms(5,6) by (auto split: option.splits)
  then obtain var' where var': "om_get (symbol_table i') name = Some var'" "v_type var' = v_type var"
      "v_list_type var' = v_list_type var" "v_scope var' = v_scope var" "v_target_type var' = v_target_type var"
      "assignment_history var' = replayed (v_list_type var) (assignment_history var)"
    using assms(7) by (auto simp: imported_as_def imported_def)
  define h' where "h' = filter (visible flags) (assignment_history var')"
  have "(h' = [] \<longleftrightarrow> ?h = []) \<and> (?h \<noteq> [] \<longrightarrow> history_value (v_list_type var) h' = history_value (v_list_type var) ?h)"
  proof (cases "v_list_type var = l_scalar")
    case True
    let ?f = "filter is_fallback ?h" and ?n = "filter (\<lambda>a. \<not> is_fallback a) ?h"
    have h': "h' = rev ?f @ ?n"
      by (simp add: h'_def var'(6) replayed_def True rev_filter [symmetric] conj_commute)
    have "fallbacks_first (assignment_history var)"
      using reachable_ok [OF assms(1,2)] assms(6) True by (simp add: interface_ok_def variable_ok_def)
    then have h: "?f @ ?n = ?h" using fallbacks_first_filter fallbacks_first_def by blast
    have "rev ?f @ ?n = [] \<longleftrightarrow> ?f @ ?n = []" by simp
    then have nil: "h' = [] \<longleftrightarrow> ?h = []" by (simp only: h' h)
    have "a_value (last h') = a_value (last ?h)" if "?h \<noteq> []"
    proof (cases "?n = []")
      case True
      then have "length ?f \<le> 1" using assms(8) \<open>v_list_type var = l_scalar\<close> by blast
      then have "rev ?f = ?f" by (cases ?f) auto
      then have "h' = ?h" by (simp only: h' h)
      then show ?thesis by simp
    next
      case False
      then have "last (rev ?f @ ?n) = last (?f @ ?n)" by (simp only: last_append if_False)
      then show ?thesis by (simp only: h' h)
    qed
    then show ?thesis using nil True by (simp add: history_value_eq)
  next
    case False
    then show ?thesis by (simp add: h'_def var'(6) replayed_def)
  qed
  then show ?thesis using var' assms(6) unfolding getVariable_def var'(1) assms(6) option.case h'_def [symmetric] Let_def by simp
qed

theorem import_keeps_value_witness:
  "\<exists>other i s i' e'. example_interface = Inr (True, other, start_error)
     \<and> importInterface plain_os start_error other i = Inr (s, i', e')
     \<and> getVariable i' ''INC'' [] = getVariable other ''INC'' []"
proof -
  obtain other where o: "example_interface = Inr (True, other, start_error)"
    using example_no_errors by (auto split: sum.splits prod.splits)
  have r: "reachable_interface plain_os other" using reachableI [OF example_reachable o] .
  obtain i e0 where i: "empty_interface ''q'' = Inr (True, i, e0)" "symbol_table i = []"
    by (auto simp: empty_interface_def new_interface_def setLocalDirectory_def isAbsolutePath_def)
  obtain s i' e' where imp: "importInterface plain_os start_error other i = Inr (s, i', e')"
    using import_fresh_facts [OF r _ _ i(2)] plain_os_absolute by blast
  obtain var where "om_get (symbol_table other) ''INC'' = Some var" "v_scope var = s_recursive"
      "v_list_type var = l_prepend"
    using example_INC unfolding o by (auto split: option.splits)
  then have "getVariable i' ''INC'' [] = getVariable other ''INC'' []"
    using import_keeps_value [OF r _ _ i(2) imp, of "''INC''" var "[]"] plain_os_absolute by simp
  then show ?thesis using o imp by blast
qed

text \<open>
  the exception is real: when two fallback assignments are all that a scalar has, the first one
  gives its value in the interface that makes them, the second one in an interface that imports it,
  and the first one again one import further.
\<close>

theorem import_reverses_fallbacks:
  "value_of example_interface ''X'' [] = Some [''a'']
   \<and> value_of (then_import example_interface (empty_interface ''q'')) ''X'' [] = Some [''b'']
   \<and> value_of (then_import (then_import example_interface (empty_interface ''q'')) (empty_interface ''r''))
       ''X'' [] = Some [''a'']"
  by code_simp

text \<open>
  a scalar accepts a second normal assignment when its first one is not at the front of its
  history, and a normal assignment that comes after an override takes the place of the override:
  both report no error.
\<close>

theorem second_normal_assignment:
  "value_of (then_assign 4 ''X'' [''n2''] a_normal []
            (then_assign 3 ''X'' [''n1''] a_normal []
            (then_assign 2 ''X'' [''f''] a_fallback []
            (then_declare 1 ''X'' s_recursive t_string l_scalar (empty_interface ''p''))))) ''X'' []
     = Some [''n2'']
   \<and> \<not> succeeded (then_assign 4 ''X'' [''n2''] a_normal []
            (then_assign 3 ''X'' [''n1''] a_normal []
            (then_declare 1 ''X'' s_recursive t_string l_scalar (empty_interface ''p''))))
   \<and> value_of (then_assign 3 ''X'' [''n''] a_normal []
            (then_assign 2 ''X'' [''o''] a_override []
            (then_declare 1 ''X'' s_recursive t_string l_scalar (empty_interface ''p'')))) ''X'' []
     = Some [''n'']"
  by code_simp

end
