(* ===== verification/Interface_Reimport.thy ===== *)
theory Interface_Reimport
  imports Interface_Properties
begin

text \<open>
  Importing an interface that has been imported before changes nothing, whatever has been imported
  in between: what an import leaves behind is settled, and further imports keep it.
\<close>

section \<open>Growth\<close>

lemma om_put_same: "om_get m k = Some v \<Longrightarrow> om_ok m \<Longrightarrow> om_put k v m = m"
proof (induction k v m rule: om_put.induct)
  case (2 k v k' v' m)
  have "om_ok m" using "2.prems"(2) by (simp add: om_ok_def om_keys_def)
  moreover have "k' < k" if "k \<noteq> k'"
  proof -
    have "k \<in> fst ` set m" using "2.prems"(1) that by (force dest: map_of_SomeD split: if_splits)
    then show ?thesis using "2.prems"(2) by (auto simp: om_ok_def om_keys_def)
  qed
  ultimately show ?case using 2 by (auto split: if_splits)
qed simp

definition variable_grows :: "variable \<Rightarrow> variable \<Rightarrow> bool" where
  "variable_grows var var' \<longleftrightarrow> declare_location var' = declare_location var \<and> v_type var' = v_type var
     \<and> v_list_type var' = v_list_type var \<and> set (reset_history var) \<subseteq> set (reset_history var')
     \<and> (\<forall>l p old. find_assignment l p (assignment_history var) = Some old \<longrightarrow>
          find_assignment l p (assignment_history var') = Some old)"

definition grows :: "interface \<Rightarrow> interface \<Rightarrow> bool" where
  "grows i i' \<longleftrightarrow> local_directory i' = local_directory i
     \<and> (om_ok (symbol_table i) \<longrightarrow> om_ok (symbol_table i'))
     \<and> (\<forall>name var. om_get (symbol_table i) name = Some var \<longrightarrow>
          (\<exists>var'. om_get (symbol_table i') name = Some var' \<and> variable_grows var var'))"

lemma variable_grows_refl: "variable_grows var var"
  by (simp add: variable_grows_def)

lemma variable_grows_trans: "variable_grows a b \<Longrightarrow> variable_grows b c \<Longrightarrow> variable_grows a c"
  unfolding variable_grows_def by (metis subset_trans)

lemma grows_refl: "grows i i"
  by (auto simp: grows_def intro: variable_grows_refl)

lemma grows_get:
  assumes "grows a b" and "om_get (symbol_table a) n = Some v"
  obtains w where "om_get (symbol_table b) n = Some w" and "variable_grows v w"
  using assms unfolding grows_def by blast

lemma grows_trans:
  assumes "grows a b" and "grows b c"
  shows "grows a c"
  unfolding grows_def
proof (intro conjI allI impI)
  fix n v
  assume "om_get (symbol_table a) n = Some v"
  then obtain w where w: "om_get (symbol_table b) n = Some w" "variable_grows v w"
    using grows_get [OF assms(1)] by blast
  obtain u where "om_get (symbol_table c) n = Some u" "variable_grows w u"
    using grows_get [OF assms(2) w(1)] by blast
  then show "\<exists>var'. om_get (symbol_table c) n = Some var' \<and> variable_grows v var'"
    using variable_grows_trans w(2) by blast
qed (use assms in \<open>simp_all add: grows_def\<close>)

lemma grows_put:
  assumes "\<And>var0. om_get (symbol_table i) name = Some var0 \<Longrightarrow> variable_grows var0 var"
  shows "grows i (i\<lparr>symbol_table := om_put name var (symbol_table i)\<rparr>)"
  unfolding grows_def
proof (intro conjI allI impI)
  fix n v
  assume v: "om_get (symbol_table i) n = Some v"
  show "\<exists>var'. om_get (symbol_table (i\<lparr>symbol_table := om_put name var (symbol_table i)\<rparr>)) n = Some var'
      \<and> variable_grows v var'"
  proof (cases "n = name")
    case True
    then show ?thesis using assms v by simp
  next
    case False
    then show ?thesis using v variable_grows_refl by simp
  qed
qed simp_all

lemma find_append_Some:
  "List.find P (xs @ ys) = (case List.find P xs of None \<Rightarrow> List.find P ys | Some x \<Rightarrow> Some x)"
  by (induction xs) auto

lemma add_assignment_grows:
  assumes "find_assignment (a_location a) (a_item_platform a) (assignment_history var) = None"
  shows "variable_grows var (add_assignment a var)"
    and "find_assignment (a_location a) (a_item_platform a) (assignment_history (add_assignment a var)) = Some a"
  using assms
  by (auto simp: variable_grows_def interface_simps add_assignment_def find_assignment_def find_append_Some)

lemma add_reset_grows: "variable_grows var (add_reset r var)"
  by (auto simp: variable_grows_def interface_simps add_reset_def)

lemma declare_grows: "declareVariable_in e l tt name scope type lt i = (s, i', e') \<Longrightarrow> grows i i'"
  by (auto simp: declareVariable_in_def grows_refl split: option.splits if_splits intro!: grows_put)

lemma reset_grows: "resetVariable_as e l name n p False i = (s, i', e') \<Longrightarrow> grows i i'"
  by (auto simp: resetVariable_as_def grows_refl Let_def add_reset_grows split: option.splits intro!: grows_put)

lemma assign_grows:
  assumes "assignVariable_as sys e location name ovs t flag iname iplat i = Inr (s, i', e')"
  shows "grows i i'"
  using assms
proof (cases rule: assign_cases)
  case (added var vs s0 e0 vs' s1 e1 a)
  then have "variable_grows var (add_assignment a var)" using add_assignment_grows(1) [of a var] by simp
  then show ?thesis using added(1,7) by (auto intro: grows_put)
qed (auto intro: grows_refl)

section \<open>Settled assignments\<close>

text \<open>The values that the checks produce depend on the type and the local directory only.\<close>

lemma check_value_indep:
  assumes "check_value sys i var l n v se = Inr (v', se')"
    and "local_directory j = local_directory i" and "v_type var' = v_type var"
  shows "\<exists>se''. check_value sys j var' l' n' v se2 = Inr (v', se'')"
proof -
  have n: "normalizeFilename sys j v = normalizeFilename sys i v"
    unfolding normalizeFilename_def assms(2) ..
  show ?thesis
    using assms(1,3) by (cases "v_type var") (auto simp: check_value_def n bind_res_eq_Inr split: if_splits)
qed

lemma check_values_indep:
  assumes "check_values sys i var l n vs se = Inr (vs', se')"
    and "local_directory j = local_directory i" and "v_type var' = v_type var"
  shows "\<exists>se''. check_values sys j var' l' n' vs se2 = Inr (vs', se'')"
  using assms(1)
proof (induction vs arbitrary: se se2 vs')
  case (Cons v vs)
  then obtain v1 se1 vs1 where 1: "check_value sys i var l n v se = Inr (v1, se1)"
      and 2: "check_values sys i var l n vs se1 = Inr (vs1, se')" "vs' = v1 # vs1"
    by (auto simp: bind_res_eq_Inr)
  obtain se1' where v: "check_value sys j var' l' n' v se2 = Inr (v1, se1')"
    using check_value_indep [OF 1 assms(2,3)] by blast
  obtain se2' where "check_values sys j var' l' n' vs se1' = Inr (vs1, se2')"
    using Cons.IH [OF 2(1)] by blast
  then show ?case using v 2(2) by simp
qed simp

lemma scalar_values_eq:
  "\<exists>s e'. scalar_values var l n vs e = (if v_list_type var = l_scalar \<and> vs = [] then [[]] else vs, s, e')"
  by (auto simp: scalar_values_def Let_def)

definition settled :: "os \<Rightarrow> interface \<Rightarrow> string \<Rightarrow> assignment \<Rightarrow> bool" where
  "settled sys i name a \<longleftrightarrow> (\<exists>var old se'. om_get (symbol_table i) name = Some var
     \<and> find_assignment (a_location a) (a_item_platform a) (assignment_history var) = Some old
     \<and> check_values sys i var (a_location a) name
         (if v_list_type var = l_scalar \<and> a_value a = [] then [[]] else a_value a) (True, undefined) =
       Inr (a_value old, se'))"

lemma settled_grows:
  assumes "settled sys i name a" and "grows i i'"
  shows "settled sys i' name a"
proof -
  obtain var old se' where s: "om_get (symbol_table i) name = Some var"
      "find_assignment (a_location a) (a_item_platform a) (assignment_history var) = Some old"
      "check_values sys i var (a_location a) name
         (if v_list_type var = l_scalar \<and> a_value a = [] then [[]] else a_value a) (True, undefined) =
       Inr (a_value old, se')"
    using assms(1) unfolding settled_def by blast
  obtain var' where v: "om_get (symbol_table i') name = Some var'" "variable_grows var var'"
      "local_directory i' = local_directory i"
    using assms(2) s(1) unfolding grows_def by blast
  then have "v_type var' = v_type var" "v_list_type var' = v_list_type var"
      "find_assignment (a_location a) (a_item_platform a) (assignment_history var') = Some old"
    using s(2) by (simp_all add: variable_grows_def)
  then show ?thesis
    unfolding settled_def using v(1) check_values_indep [OF s(3) v(3), of var'] by (metis (no_types))
qed

lemma assign_settles:
  assumes "assignVariable_as sys e (a_location a) name (a_value a) t f n (a_item_platform a) i = Inr (True, i', e')"
  shows "settled sys i' name a"
  using assms
proof (cases rule: assign_cases)
  case unknown
  then show ?thesis by simp
next
  case (repeated var vs s0 e0 s1 old)
  have "vs = (if v_list_type var = l_scalar \<and> a_value a = [] then [[]] else a_value a)"
    using scalar_values_eq [of var "a_location a" name "a_value a" e] repeated(2) by auto
  moreover obtain se' where
      "check_values sys i var (a_location a) name vs (True, undefined) = Inr (a_value old, se')"
    using check_values_indep [OF repeated(3) refl refl] by blast
  ultimately show ?thesis unfolding settled_def repeated(6) using repeated(1,4) by blast
next
  case (added var vs s0 e0 vs' s1 e1 b)
  have vs: "vs = (if v_list_type var = l_scalar \<and> a_value a = [] then [[]] else a_value a)"
    using scalar_values_eq [of var "a_location a" name "a_value a" e] added(2) by auto
  have "find_assignment (a_location a) (a_item_platform a) (assignment_history (add_assignment b var)) = Some b"
    using add_assignment_grows(2) [of b var] added(4,5) by simp
  moreover have "\<exists>se'. check_values sys i' (add_assignment b var) (a_location a) name vs (True, undefined) =
      Inr (a_value b, se')"
    using check_values_indep [OF added(3), of i' "add_assignment b var"] added(5,7) by (simp add: interface_simps)
  ultimately show ?thesis
    unfolding settled_def added(7)
    by (intro exI [of _ "add_assignment b var"] exI [of _ b]) (simp add: interface_simps vs)
qed

lemma settled_assign:
  assumes "settled sys i name a"
  shows "\<exists>e'. assignVariable_as sys e (a_location a) name (a_value a) t f n (a_item_platform a) i = Inr (True, i, e')"
proof -
  obtain var old se' where s: "om_get (symbol_table i) name = Some var"
      "find_assignment (a_location a) (a_item_platform a) (assignment_history var) = Some old"
      "check_values sys i var (a_location a) name
         (if v_list_type var = l_scalar \<and> a_value a = [] then [[]] else a_value a) (True, undefined) =
       Inr (a_value old, se')"
    using assms unfolding settled_def by blast
  obtain st e1 where sv: "scalar_values var (a_location a) name (a_value a) e =
      (if v_list_type var = l_scalar \<and> a_value a = [] then [[]] else a_value a, st, e1)"
    using scalar_values_eq by blast
  obtain st2 e2 where cv: "check_values sys i var (a_location a) name
      (if v_list_type var = l_scalar \<and> a_value a = [] then [[]] else a_value a) (st, e1) = Inr (a_value old, st2, e2)"
    using check_values_indep [OF s(3) refl refl] by (metis surj_pair)
  show ?thesis
    unfolding assignVariable_as_def s(1) option.case Let_def sv prod.case cv bind_res_Inr s(2) by simp
qed

section \<open>Imports\<close>

definition settled_variable :: "os \<Rightarrow> string \<Rightarrow> interface \<Rightarrow> variable \<Rightarrow> bool" where
  "settled_variable sys oname i var \<longleftrightarrow> v_scope var = s_local \<or>
     (\<exists>cur. om_get (symbol_table i) (v_name var) = Some cur \<and> declare_location cur = declare_location var
        \<and> set (reset_history var) \<subseteq> set (reset_history cur))
     \<and> (\<forall>a \<in> set (imported oname var). settled sys i (v_name var) a)"

lemma settled_variable_grows:
  assumes "settled_variable sys oname i var" and "grows i i'"
  shows "settled_variable sys oname i' var"
proof (cases "v_scope var = s_local")
  case False
  then obtain cur where cur: "om_get (symbol_table i) (v_name var) = Some cur"
      "declare_location cur = declare_location var" "set (reset_history var) \<subseteq> set (reset_history cur)"
      "\<forall>a \<in> set (imported oname var). settled sys i (v_name var) a"
    using assms(1) unfolding settled_variable_def by blast
  obtain cur' where "om_get (symbol_table i') (v_name var) = Some cur'" "variable_grows cur cur'"
    using assms(2) cur(1) unfolding grows_def by blast
  then show ?thesis
    using cur settled_grows assms(2) unfolding settled_variable_def variable_grows_def by fastforce
qed (simp add: settled_variable_def)

lemma import_resets_settle:
  "import_resets name rs (s, i, e) = (True, i', e') \<Longrightarrow>
   grows i i' \<and> s \<and> (om_get (symbol_table i) name \<noteq> None \<longrightarrow>
     (\<exists>cur. om_get (symbol_table i') name = Some cur \<and> set rs \<subseteq> set (reset_history cur)))"
proof (induction rs arbitrary: s i e)
  case Nil
  then show ?case by (auto intro: grows_refl)
next
  case (Cons r rs)
  obtain ok i1 e1 where r: "resetVariable_as e (r_location r) name (r_item_name r) (r_item_platform r) False i
      = (ok, i1, e1)" by (metis prod_cases3)
  have IH: "grows i1 i' \<and> (s \<and> ok) \<and> (om_get (symbol_table i1) name \<noteq> None \<longrightarrow>
     (\<exists>cur. om_get (symbol_table i') name = Some cur \<and> set rs \<subseteq> set (reset_history cur)))"
    using Cons.prems Cons.IH [of "s \<and> ok" i1 e1] r by simp
  have g: "grows i i1" using reset_grows r by blast
  obtain cur1 where c1: "om_get (symbol_table i1) name = Some cur1" "r \<in> set (reset_history cur1)"
    using r [unfolded resetVariable_as_def Let_def reset_eta] IH
    by (auto simp: add_reset_def split: option.splits if_splits)
  obtain cur where c: "om_get (symbol_table i') name = Some cur" "set rs \<subseteq> set (reset_history cur)"
    using IH c1 by auto
  have "set (reset_history cur1) \<subseteq> set (reset_history cur)"
    using IH c(1) c1(1) unfolding grows_def variable_grows_def by fastforce
  then show ?case using IH c c1(2) grows_trans [OF g] by auto
qed

lemma import_assignments_settle:
  "import_assignments sys oname var as (s, i, e) = Inr (True, i', e') \<Longrightarrow>
   grows i i' \<and> s \<and>
   (\<forall>a \<in> set (filter (\<lambda>a. v_scope var = s_recursive \<or> a_item_name a = oname) as). settled sys i' (v_name var) a)"
proof (induction as arbitrary: s i e)
  case Nil
  then show ?case by (auto intro: grows_refl)
next
  case (Cons a as)
  show ?case
  proof (cases "v_scope var = s_recursive \<or> a_item_name a = oname")
    case True
    then obtain ok i1 e1 where a: "assignVariable_as sys e (a_location a) (v_name var) (a_value a)
        (assignment_type a) (a_flag a) (a_item_name a) (a_item_platform a) i = Inr (ok, i1, e1)"
        and rest: "import_assignments sys oname var as (s \<and> ok, i1, e1) = Inr (True, i', e')"
      using Cons.prems by (auto simp: bind_res_eq_Inr)
    have IH: "grows i1 i' \<and> (s \<and> ok) \<and> (\<forall>a \<in> set (filter (\<lambda>a. v_scope var = s_recursive \<or> a_item_name a = oname) as).
        settled sys i' (v_name var) a)"
      using Cons.IH [OF rest] .
    then have "ok = True" by blast
    then have "settled sys i1 (v_name var) a" using assign_settles a by blast
    then have "settled sys i' (v_name var) a" using settled_grows IH by blast
    moreover have "grows i i'" using grows_trans assign_grows [OF a] IH by blast
    ultimately show ?thesis using IH by simp
  qed (use Cons in auto)
qed

lemma import_variable_settle:
  assumes "import_variable sys oname var (s, i, e) = Inr (True, i', e')"
  shows "grows i i' \<and> s \<and> settled_variable sys oname i' var"
proof (cases "v_scope var = s_local")
  case True
  then show ?thesis using assms by (auto simp: import_variable_def settled_variable_def grows_refl)
next
  case False
  obtain ok i1 e1 where d: "declareVariable_in e (declare_location var) (v_target_type var) (v_name var)
      (v_scope var) (v_type var) (v_list_type var) i = (ok, i1, e1)" by (metis prod_cases3)
  have ok: ok using assms False d by (auto simp: import_variable_def split: if_splits)
  obtain s2 i2 e2 where r: "import_resets (v_name var) (reset_history var) (s, i1, e1) = (s2, i2, e2)"
    by (metis prod_cases3)
  have "import_assignments sys oname var (assignment_history var) (s2, i2, e2) = Inr (True, i', e')"
    using assms False d ok r by (simp add: import_variable_def)
  from import_assignments_settle [OF this]
  have a: "grows i2 i'" s2 "\<forall>a \<in> set (imported oname var). settled sys i' (v_name var) a"
    unfolding imported_def by blast+
  have d1: "\<exists>cur. om_get (symbol_table i1) (v_name var) = Some cur \<and> declare_location cur = declare_location var"
    using d ok by (auto simp: declareVariable_in_def split: option.splits if_splits)
  then obtain c2 where c2: "om_get (symbol_table i2) (v_name var) = Some c2" "set (reset_history var) \<subseteq> set (reset_history c2)"
      and g: "grows i1 i2" s
    using import_resets_settle [of "v_name var" "reset_history var" s i1 e1 i2 e2] r a(2) by auto
  have "declare_location c2 = declare_location var"
    using d1 g(1) c2(1) unfolding grows_def variable_grows_def by fastforce
  then obtain c where "om_get (symbol_table i') (v_name var) = Some c" "declare_location c = declare_location var"
      "set (reset_history var) \<subseteq> set (reset_history c)"
    using a(1) c2 unfolding grows_def variable_grows_def by fastforce
  then have "settled_variable sys oname i' var" using a(3) unfolding settled_variable_def by blast
  then show ?thesis using grows_trans [OF declare_grows [OF d] grows_trans [OF g(1) a(1)]] g(2) by blast
qed

lemma import_variables_settle:
  "import_variables sys oname vars (s, i, e) = Inr (True, i', e') \<Longrightarrow>
   grows i i' \<and> s \<and> (\<forall>var \<in> set vars. settled_variable sys oname i' var)"
proof (induction vars arbitrary: s i e)
  case Nil
  then show ?case by (auto intro: grows_refl)
next
  case (Cons var vars)
  then obtain s1 i1 e1 where 1: "import_variable sys oname var (s, i, e) = Inr (s1, i1, e1)"
      and 2: "import_variables sys oname vars (s1, i1, e1) = Inr (True, i', e')"
    by (auto simp: bind_res_eq_Inr)
  have IH: "grows i1 i' \<and> s1 \<and> (\<forall>var \<in> set vars. settled_variable sys oname i' var)"
    using Cons.IH [OF 2] .
  then have "grows i i1 \<and> s \<and> settled_variable sys oname i1 var"
    using import_variable_settle [of sys oname var s i e i1 e1] 1 by simp
  then show ?case using IH grows_trans settled_variable_grows by auto
qed

lemma import_resets_again:
  assumes "om_get (symbol_table i) name = Some cur" and "om_ok (symbol_table i)"
  shows "set rs \<subseteq> set (reset_history cur) \<Longrightarrow> import_resets name rs (s, i, e) = (s, i, e)"
proof (induction rs)
  case (Cons r rs)
  have "add_reset r cur = cur" using Cons.prems by (simp add: add_reset_def)
  then have "resetVariable_as e (r_location r) name (r_item_name r) (r_item_platform r) False i = (True, i, e)"
    unfolding resetVariable_as_def assms(1) option.case Let_def reset_eta
    using om_put_same [OF assms] by simp
  then show ?case using Cons by simp
qed simp

lemma import_assignments_again:
  "\<forall>a \<in> set (filter (\<lambda>a. v_scope var = s_recursive \<or> a_item_name a = oname) as). settled sys i (v_name var) a \<Longrightarrow>
   \<exists>e'. import_assignments sys oname var as (s, i, e) = Inr (s, i, e')"
proof (induction as arbitrary: e)
  case (Cons a as)
  show ?case
  proof (cases "v_scope var = s_recursive \<or> a_item_name a = oname")
    case True
    then obtain e1 where "assignVariable_as sys e (a_location a) (v_name var) (a_value a)
        (assignment_type a) (a_flag a) (a_item_name a) (a_item_platform a) i = Inr (True, i, e1)"
      using settled_assign [of sys i "v_name var" a] Cons.prems by fastforce
    then show ?thesis using True Cons.IH [of e1] Cons.prems by simp
  qed (use Cons in auto)
qed simp

lemma import_variable_again:
  assumes "settled_variable sys oname i var" and "om_ok (symbol_table i)"
  shows "\<exists>e'. import_variable sys oname var (s, i, e) = Inr (s, i, e')"
proof (cases "v_scope var = s_local")
  case False
  then obtain cur where cur: "om_get (symbol_table i) (v_name var) = Some cur"
      "declare_location cur = declare_location var" "set (reset_history var) \<subseteq> set (reset_history cur)"
      "\<forall>a \<in> set (imported oname var). settled sys i (v_name var) a"
    using assms(1) unfolding settled_variable_def by blast
  have "declareVariable_in e (declare_location var) (v_target_type var) (v_name var)
      (v_scope var) (v_type var) (v_list_type var) i = (True, i, e)"
    using cur(1,2) by (simp add: declareVariable_in_def)
  then show ?thesis
    using False import_resets_again [OF cur(1) assms(2) cur(3)]
      import_assignments_again [of var oname "assignment_history var" sys i s e] cur(4)
    by (simp add: import_variable_def imported_def)
qed (simp add: import_variable_def)

lemma import_variables_again:
  "\<forall>var \<in> set vars. settled_variable sys oname i var \<Longrightarrow> om_ok (symbol_table i) \<Longrightarrow>
   \<exists>e'. import_variables sys oname vars (s, i, e) = Inr (s, i, e')"
proof (induction vars arbitrary: e)
  case (Cons var vars)
  obtain e1 where "import_variable sys oname var (s, i, e) = Inr (s, i, e1)"
    using import_variable_again [of sys oname i var s e] Cons.prems by auto
  then show ?case using Cons.IH [of e1] Cons.prems by simp
qed simp

text \<open>
  C7: an import is idempotent: when an interface has been imported successfully, importing it again
  succeeds, fails no assertion and leaves the receiving interface as it is, also when other
  interfaces have been imported successfully in between.
\<close>

theorem import_idempotent:
  assumes "om_ok (symbol_table i)" and "importInterface sys e other i = Inr (True, i1, e1)"
    and "importInterface sys e1 third i1 = Inr (True, i2, e2)"
  shows "\<exists>e3. importInterface sys e2 other i2 = Inr (True, i2, e3)"
proof -
  have 1: "grows i i1" "\<forall>var \<in> set (map snd (symbol_table other)). settled_variable sys (item_name other) i1 var"
    using import_variables_settle [of sys "item_name other" "map snd (symbol_table other)" True i e i1 e1] assms(2)
    by (auto simp: importInterface_def)
  have 2: "grows i1 i2"
    using import_variables_settle [of sys "item_name third" "map snd (symbol_table third)" True i1 e1 i2 e2] assms(3)
    by (auto simp: importInterface_def)
  have "om_ok (symbol_table i2)" using assms(1) 1(1) 2 unfolding grows_def by blast
  moreover have "\<forall>var \<in> set (map snd (symbol_table other)). settled_variable sys (item_name other) i2 var"
    using 1(2) 2 settled_variable_grows by blast
  ultimately show ?thesis
    using import_variables_again [of "map snd (symbol_table other)" sys "item_name other" i2 True e2]
    by (simp add: importInterface_def)
qed

lemma example_twice:
  "succeeded (then_import example_interface (then_import example_interface (empty_interface ''q'')))"
  by code_simp

theorem import_idempotent_witness:
  "\<exists>other i i1 e1 i2 e2 e3. importInterface plain_os start_error other i = Inr (True, i1, e1)
     \<and> importInterface plain_os e1 other i1 = Inr (True, i2, e2)
     \<and> importInterface plain_os e2 other i2 = Inr (True, i2, e3) \<and> symbol_table i2 \<noteq> []"
proof -
  obtain other where o: "example_interface = Inr (True, other, start_error)"
    using example_no_errors by (auto split: sum.splits prod.splits)
  obtain i e where i: "empty_interface ''q'' = Inr (True, i, e)" "e = start_error" "om_ok (symbol_table i)"
    by (auto simp: empty_interface_def new_interface_def setLocalDirectory_def isAbsolutePath_def)
  obtain i1 e1 where 1: "importInterface plain_os start_error other i = Inr (True, i1, e1)"
      and info: "getVariable i1 ''INC'' [] \<noteq> None"
    using example_import unfolding then_import_def o i
    by (cases "importInterface plain_os start_error other i") (auto split: option.splits)
  obtain i2 e2 where 2: "importInterface plain_os e1 other i1 = Inr (True, i2, e2)"
    using example_twice unfolding then_import_def o i succeeded_def
    by (cases "importInterface plain_os e1 other i1") (auto simp: 1)
  have "om_get (symbol_table i1) ''INC'' \<noteq> None" using info by (auto simp: getVariable_def split: option.splits)
  then have "symbol_table i2 \<noteq> []"
    using import_variables_settle [of plain_os "item_name other" "map snd (symbol_table other)" True i1 e1 i2 e2] 2
    by (auto simp: importInterface_def grows_def)
  then show ?thesis using import_idempotent [OF i(3) 1 2] 1 2 by blast
qed

end
