(* ===== verification/Interface_Parser.thy ===== *)
theory Interface_Parser
  imports Interface
begin

text \<open>
  The class \<open>InterfaceParser\<close> (\<open>src/src/InterfaceParser.cc\<close>): the evaluation of the parse tree of an
  interface file. The nonterminals (\<open>nt_*.cc\<close>) are datatypes; the tree itself is what the parser
  that bison generates has built. \<open>boost::regex\<close> is the parameter \<open>regex\<close>: for a pattern it gives the
  strings that match, or None where the library throws \<open>bad_expression\<close>.
\<close>

type_synonym regex = "string \<Rightarrow> (string \<Rightarrow> bool) option"

section \<open>The parse tree\<close>

datatype token = Token (getValue: string) (getLocation: file_location)

datatype word_e = w_variable | w_environment | w_parameter | w_string

text \<open>A word has the location of its first token.\<close>

datatype nt_word = Word (word_location: file_location) (getTokens: "(token \<times> word_e) list")

definition append_token :: "nt_word \<Rightarrow> token \<Rightarrow> word_e \<Rightarrow> nt_word" where
  "append_token w t k =
     Word (if getTokens w = [] then getLocation t else word_location w) (getTokens w @ [(t, k)])"

datatype nt_words = Words (words_location: file_location) (getWords: "nt_word list")

datatype nt_argument = Arg_function nt_function | Arg_words nt_words
  and nt_function = Function token "nt_argument list"

fun function_location :: "nt_function \<Rightarrow> file_location" where
  "function_location (Function name arguments) = getLocation name"

fun argument_location :: "nt_argument \<Rightarrow> file_location" where
  "argument_location (Arg_function f) = function_location f"
| "argument_location (Arg_words ws) = words_location ws"

datatype nt_conditional = Cond_variable token | Cond_function nt_function

datatype nt_reset = Reset (reset_location: file_location) (reset_identifier: string) (isNegate: bool)

datatype nt_assignment =
  Assignment (as_location: file_location) (as_identifier: string) (getFlag: "token option")
    (as_words: nt_words) (getAssignmentType: assign_e)

datatype nt_declaration =
  Declaration (decl_location: file_location) (getVariableName: string) (getScope: scope_e)
    (getType: type_e) (getListType: list_e) (getInitializer: "nt_words option")

datatype nt_block =
    B_ifblock "nt_if_clause list"
  | B_reset nt_reset
  | B_assignment nt_assignment
  | B_declaration nt_declaration
  | B_after_build nt_word
  | B_targettype token
  and nt_if_clause = If_clause bool "nt_conditional option" "nt_block list"

text \<open>A conditional that is expected and missing, or the other way round, was not parsed.\<close>

definition createIfClause :: "nt_conditional option \<Rightarrow> nt_block list \<Rightarrow> bool \<Rightarrow> nt_if_clause" where
  "createIfClause conditional blocks conditional_expected =
     If_clause (conditional_expected = (conditional \<noteq> None)) conditional blocks"

definition createIfBlock ::
    "nt_if_clause \<Rightarrow> nt_if_clause list \<Rightarrow> nt_if_clause option \<Rightarrow> nt_block" where
  "createIfBlock ifclause elseifs elseclause =
     B_ifblock (ifclause # elseifs @ (case elseclause of None \<Rightarrow> [] | Some c \<Rightarrow> [c]))"

section \<open>State\<close>

record parser =
  p_error :: error
  p_interface :: interface
  parameters :: "(string, string) omap"
  allow_after_build :: bool
  supported_flags :: "string set"
  after_builds :: "string list"
  protected_from_reset :: "string set"

definition perror :: "file_location \<Rightarrow> string \<Rightarrow> parser \<Rightarrow> parser" where
  "perror location msg p = p\<lparr>p_error := report location msg (p_error p)\<rparr>"

section \<open>Tokens\<close>

text \<open>
  What the constant regular expressions match: \<open>$(name)\<close>, a name and an opening parenthesis with
  blanks around it, and \<open>$(ENV:name)\<close> or \<open>$(ENV:name:default)\<close>.
\<close>

definition is_blank :: "char \<Rightarrow> bool" where
  "is_blank c \<longleftrightarrow> c = CHR '' '' \<or> c = CHR 0x09"

definition strip_blanks :: "string \<Rightarrow> string" where
  "strip_blanks s = rev (dropWhile is_blank (rev s))"

definition between :: "string \<Rightarrow> string \<Rightarrow> string option" where
  "between prefix s =
     (if take (length prefix) s = prefix \<and> length s > length prefix \<and> last s = CHR '')''
      then Some (butlast (drop (length prefix) s)) else None)"

definition no_match :: "'a res" where
  "no_match = Inl (Assertion ''boost::regex_match(value, match, expression)'')"

definition getVariableName_token :: "token \<Rightarrow> string res" where
  "getVariableName_token t = (case between ''$('' (getValue t) of None \<Rightarrow> no_match | Some v \<Rightarrow> Inr v)"

definition getFunctionName :: "token \<Rightarrow> string res" where
  "getFunctionName t =
     (let s = strip_blanks (getValue t) in
      if s \<noteq> [] \<and> last s = CHR ''('' then Inr (strip_blanks (butlast s)) else no_match)"

definition getFirstAndSecondMatch :: "string \<Rightarrow> token \<Rightarrow> (string \<times> string option) res" where
  "getFirstAndSecondMatch kind t = (case between (''$('' @ kind @ '':'') (getValue t) of
     None \<Rightarrow> no_match
   | Some s \<Rightarrow> Inr (takeWhile (\<lambda>c. c \<noteq> CHR '':'') s,
       if CHR '':'' \<in> set s then Some (tl (dropWhile (\<lambda>c. c \<noteq> CHR '':'') s)) else None))"

definition evaluateToken :: "token \<Rightarrow> string" where
  "evaluateToken t =
     (let v = getValue t in if length v = 2 \<and> v ! 0 = backslash then tl v else v)"

definition evaluateEnvironment :: "os \<Rightarrow> token \<Rightarrow> parser \<Rightarrow> (string \<times> parser) res" where
  "evaluateEnvironment sys t p =
     bind_res (getFirstAndSecondMatch ''ENV'' t) (\<lambda>(var, dfault). Inr (
       case os_env sys var of
         Some v \<Rightarrow> (v, p)
       | None \<Rightarrow> (case dfault of
             Some d \<Rightarrow> (d, p)
           | None \<Rightarrow> ([], perror (getLocation t) (''unknown environment variable '' @ var) p))))"

definition evaluateParameter :: "token \<Rightarrow> parser \<Rightarrow> (string \<times> parser) res" where
  "evaluateParameter t p =
     bind_res (getFirstAndSecondMatch ''PARAM'' t) (\<lambda>(parameter, dfault). Inr (
       case om_get (parameters p) parameter of
         Some v \<Rightarrow> (v, p)
       | None \<Rightarrow> (case dfault of
             Some d \<Rightarrow> (d, p)
           | None \<Rightarrow> ([], perror (getLocation t) (''unknown parameter '' @ parameter) p))))"

section \<open>Variables and words\<close>

text \<open>\<open>withVariable\<close> gives the name and the value to the caller instead of calling a function.\<close>

definition withVariable :: "token \<Rightarrow> parser \<Rightarrow> ((string \<times> variable_info) option \<times> parser) res" where
  "withVariable t p = bind_res (getVariableName_token t) (\<lambda>name. Inr (
     case getVariable_no_flags (p_interface p) name of
       Some info \<Rightarrow>
         if initialized info then (Some (name, info), p)
         else (None, perror (getLocation t) (''variable '' @ name @ '' is not initialized'') p)
     | None \<Rightarrow> (None, perror (getLocation t) (''unknown variable '' @ name) p)))"

text \<open>The first word is appended to the last one of the result, the others follow.\<close>

fun appendVariableValue :: "string list \<Rightarrow> string list \<Rightarrow> string list" where
  "appendVariableValue result [] = result"
| "appendVariableValue result (v # vs) =
     (let result = (if result = [] then [[]] else result)
      in butlast result @ [last result @ v] @ vs)"

definition append_to_back :: "string list \<Rightarrow> string \<Rightarrow> string list" where
  "append_to_back result s = butlast result @ [last result @ s]"

fun evaluate_tokens ::
    "os \<Rightarrow> (token \<times> word_e) list \<Rightarrow> string list \<Rightarrow> parser \<Rightarrow> (string list \<times> parser) res" where
  "evaluate_tokens sys [] result p = Inr (result, p)"
| "evaluate_tokens sys ((t, w_variable) # ts) result p =
     bind_res (withVariable t p) (\<lambda>(v, p). evaluate_tokens sys ts
       (case v of None \<Rightarrow> result | Some (name, info) \<Rightarrow> appendVariableValue result (i_value info)) p)"
| "evaluate_tokens sys ((t, w_environment) # ts) result p =
     bind_res (evaluateEnvironment sys t p) (\<lambda>(s, p). evaluate_tokens sys ts (append_to_back result s) p)"
| "evaluate_tokens sys ((t, w_parameter) # ts) result p =
     bind_res (evaluateParameter t p) (\<lambda>(s, p). evaluate_tokens sys ts (append_to_back result s) p)"
| "evaluate_tokens sys ((t, w_string) # ts) result p =
     evaluate_tokens sys ts (append_to_back result (evaluateToken t)) p"

definition evaluateWord :: "os \<Rightarrow> nt_word \<Rightarrow> string list \<Rightarrow> parser \<Rightarrow> (string list \<times> parser) res" where
  "evaluateWord sys w result p = evaluate_tokens sys (getTokens w) (result @ [[]]) p"

fun words_loop :: "os \<Rightarrow> nt_word list \<Rightarrow> string list \<Rightarrow> parser \<Rightarrow> (string list \<times> parser) res" where
  "words_loop sys [] result p = Inr (result, p)"
| "words_loop sys (w # ws) result p =
     bind_res (evaluateWord sys w result p) (\<lambda>(result, p). words_loop sys ws result p)"

definition evaluateWords :: "os \<Rightarrow> nt_words \<Rightarrow> parser \<Rightarrow> (string list \<times> parser) res" where
  "evaluateWords sys ws p = words_loop sys (getWords ws) [] p"

section \<open>Checking variables\<close>

definition front :: "string list \<Rightarrow> string res" where
  "front vs = (case vs of [] \<Rightarrow> Inl (Undefined ''front() of an empty deque'') | v # _ \<Rightarrow> Inr v)"

text \<open>The results are whether the variable is valid, its value and the parser.\<close>

definition checkBooleanVariable ::
    "file_location \<Rightarrow> string \<Rightarrow> variable_info \<Rightarrow> parser \<Rightarrow> (bool \<times> bool \<times> parser) res" where
  "checkBooleanVariable location name info p =
     (if i_list_type info = l_scalar \<and> i_type info = t_boolean
      then bind_res (front (i_value info)) (\<lambda>v. Inr (True, v = ''1'', p))
      else Inr (False, False, perror location (''variable '' @ name @ '' is not a boolean scalar'') p))"

definition checkStringOrFilenameVariable ::
    "file_location \<Rightarrow> bool \<Rightarrow> string \<Rightarrow> variable_info \<Rightarrow> string \<Rightarrow> parser
      \<Rightarrow> (bool \<times> string \<times> parser) res" where
  "checkStringOrFilenameVariable location str name info old p =
     (if i_list_type info = l_scalar \<and> i_type info = (if str then t_string else t_filename)
      then bind_res (front (i_value info)) (\<lambda>v. Inr (True, v, p))
      else Inr (False, old, perror location
             (''variable '' @ name @ '' is not a '' @ (if str then ''string'' else ''filename'')
              @ '' scalar'') p))"

definition evaluateBooleanVariable :: "token \<Rightarrow> bool \<Rightarrow> parser \<Rightarrow> (bool \<times> bool \<times> parser) res" where
  "evaluateBooleanVariable t evaluating p =
     (if evaluating then
        bind_res (withVariable t p) (\<lambda>(v, p). case v of
            None \<Rightarrow> Inr (True, False, p)
          | Some (name, info) \<Rightarrow> checkBooleanVariable (getLocation t) name info p)
      else Inr (True, False, p))"

section \<open>Arguments\<close>

text \<open>The tokens of the single word of a string or file name argument.\<close>

fun string_tokens ::
    "os \<Rightarrow> bool \<Rightarrow> (token \<times> word_e) list \<Rightarrow> bool \<Rightarrow> string \<Rightarrow> parser \<Rightarrow> (bool \<times> string \<times> parser) res" where
  "string_tokens sys str [] valid val p = Inr (valid, val, p)"
| "string_tokens sys str ((t, w_variable) # ts) valid val p =
     bind_res (withVariable t p) (\<lambda>(v, p).
     bind_res (case v of None \<Rightarrow> Inr (False, [], p)
               | Some (name, info) \<Rightarrow>
                   checkStringOrFilenameVariable (getLocation t) str name info [] p) (\<lambda>(ok, s, p).
       string_tokens sys str ts (valid \<and> ok) (val @ s) p))"
| "string_tokens sys str ((t, w_environment) # ts) valid val p =
     bind_res (evaluateEnvironment sys t p) (\<lambda>(s, p). string_tokens sys str ts valid (val @ s) p)"
| "string_tokens sys str ((t, w_parameter) # ts) valid val p =
     bind_res (evaluateParameter t p) (\<lambda>(s, p). string_tokens sys str ts valid (val @ s) p)"
| "string_tokens sys str ((t, w_string) # ts) valid val p =
     string_tokens sys str ts valid (val @ evaluateToken t) p"

definition checkStringOrFilenameArgument ::
    "os \<Rightarrow> nt_argument \<Rightarrow> bool \<Rightarrow> parser \<Rightarrow> (bool \<times> string \<times> parser) res" where
  "checkStringOrFilenameArgument sys arg str p =
     bind_res (case arg of
         Arg_function f \<Rightarrow> Inr (False, [], p)
       | Arg_words ws \<Rightarrow> (case getWords ws of
             [w] \<Rightarrow> string_tokens sys str (getTokens w) True [] p
           | _ \<Rightarrow> Inr (False, [], p)))
     (\<lambda>(valid, val, p). Inr (valid, val,
        if valid then p
        else perror (argument_location arg)
               (''this argument must be a '' @ (if str then ''string'' else ''filename'')) p))"

definition checkStringArgument :: "os \<Rightarrow> nt_argument \<Rightarrow> parser \<Rightarrow> (bool \<times> string \<times> parser) res" where
  "checkStringArgument sys arg p = checkStringOrFilenameArgument sys arg True p"

definition checkFilenameArgument :: "os \<Rightarrow> nt_argument \<Rightarrow> parser \<Rightarrow> (bool \<times> string \<times> parser) res" where
  "checkFilenameArgument sys arg p = checkStringOrFilenameArgument sys arg False p"

definition containsMatch ::
    "regex \<Rightarrow> file_location \<Rightarrow> string list \<Rightarrow> string \<Rightarrow> parser \<Rightarrow> bool \<times> bool \<times> parser" where
  "containsMatch regex location words pattern p = (case regex pattern of
     None \<Rightarrow> (False, False, perror location (''invalid regular expression '' @ pattern) p)
   | Some matches \<Rightarrow> (True, list_ex matches words, p))"

text \<open>The variable, if the words are one word of one variable.\<close>

fun single_variable :: "nt_words \<Rightarrow> token option" where
  "single_variable (Words l [Word l' [(t, w_variable)]]) = Some t"
| "single_variable _ = None"

section \<open>Functions\<close>

definition function_num_arguments :: "(string, nat) omap" where
  "function_num_arguments = fold (\<lambda>(name, n). om_put name n)
     [(''and'', 2), (''or'', 2), (''not'', 1), (''equals'', 2), (''matches'', 2), (''contains'', 2),
      (''containsmatch'', 2)] []"

definition checkNumArguments ::
    "file_location \<Rightarrow> string \<Rightarrow> nat \<Rightarrow> nat \<Rightarrow> parser \<Rightarrow> bool \<times> parser" where
  "checkNumArguments location name given desired p =
     (if given = desired then (True, p)
      else (False, perror location (''function \"'' @ name @ ''\" takes '' @ intToString (int desired) 0 @
              '' argument'' @ (if desired = 1 then [] else ''s'')) p))"

definition evaluateFunctionEquals ::
    "os \<Rightarrow> nt_argument \<Rightarrow> nt_argument \<Rightarrow> parser \<Rightarrow> (bool \<times> bool \<times> parser) res" where
  "evaluateFunctionEquals sys a1 a2 p =
     bind_res (checkStringArgument sys a1 p) (\<lambda>(v1, s1, p).
     bind_res (checkStringArgument sys a2 p) (\<lambda>(v2, s2, p).
       Inr (v1 \<and> v2, v1 \<and> v2 \<and> s1 = s2, p)))"

definition evaluateFunctionMatches ::
    "os \<Rightarrow> regex \<Rightarrow> nt_argument \<Rightarrow> nt_argument \<Rightarrow> parser \<Rightarrow> (bool \<times> bool \<times> parser) res" where
  "evaluateFunctionMatches sys regex a1 a2 p =
     bind_res (checkStringArgument sys a1 p) (\<lambda>(v1, s1, p).
     bind_res (checkStringArgument sys a2 p) (\<lambda>(v2, s2, p).
       Inr (if v1 \<and> v2 then containsMatch regex (argument_location a2) [s1] s2 p else (False, False, p))))"

text \<open>
  Functions, boolean arguments and argument lists are evaluated by mutual recursion. A result is
  whether the function call is valid, and its truth value.
\<close>

fun evaluateFunction :: "os \<Rightarrow> regex \<Rightarrow> nt_function \<Rightarrow> bool \<Rightarrow> parser \<Rightarrow> (bool \<times> bool \<times> parser) res"
  and evaluate_call :: "os \<Rightarrow> regex \<Rightarrow> string \<Rightarrow> nt_argument list \<Rightarrow> parser \<Rightarrow> (bool \<times> bool \<times> parser) res"
  and checkBooleanArgument :: "os \<Rightarrow> regex \<Rightarrow> nt_argument \<Rightarrow> parser \<Rightarrow> (bool \<times> bool \<times> parser) res"
  and checkWordsArgument :: "os \<Rightarrow> regex \<Rightarrow> nt_argument \<Rightarrow> parser \<Rightarrow> (nt_words option \<times> parser) res"
  and checkNestedFunctions :: "os \<Rightarrow> regex \<Rightarrow> nt_argument list \<Rightarrow> parser \<Rightarrow> (bool \<times> parser) res"
where
  "evaluateFunction sys regex (Function t arguments) evaluating p =
     bind_res (getFunctionName t) (\<lambda>name.
       let (valid, p) = (case om_get function_num_arguments name of
             Some n \<Rightarrow> checkNumArguments (getLocation t) name (length arguments) n p
           | None \<Rightarrow> (False, perror (getLocation t) (''unknown function '' @ name) p)) in
       if valid \<and> evaluating then evaluate_call sys regex name arguments p
       else bind_res (checkNestedFunctions sys regex arguments p) (\<lambda>(ok, p). Inr (ok \<and> valid, False, p)))"
| "evaluate_call sys regex name [a] p =
     bind_res (checkBooleanArgument sys regex a p) (\<lambda>(v, b, p). Inr (v, v \<and> \<not> b, p))"
| "evaluate_call sys regex name [a1, a2] p =
     (if name = ''and'' \<or> name = ''or'' then
        bind_res (checkBooleanArgument sys regex a1 p) (\<lambda>(v1, b1, p).
        bind_res (checkBooleanArgument sys regex a2 p) (\<lambda>(v2, b2, p).
          Inr (v1 \<and> v2, v1 \<and> v2 \<and> (if name = ''and'' then b1 \<and> b2 else b1 \<or> b2), p)))
      else if name = ''equals'' then evaluateFunctionEquals sys a1 a2 p
      else if name = ''matches'' then evaluateFunctionMatches sys regex a1 a2 p
      else
        bind_res (checkWordsArgument sys regex a1 p) (\<lambda>(list, p).
        bind_res (checkStringArgument sys a2 p) (\<lambda>(v2, s, p).
          case list of
            None \<Rightarrow> Inr (False, False, p)
          | Some list \<Rightarrow>
              if \<not> v2 then Inr (False, False, p)
              else bind_res (evaluateWords sys list p) (\<lambda>(words, p).
                Inr (if name = ''contains'' then (True, s \<in> set words, p)
                     else containsMatch regex (argument_location a2) words s p)))))"
| "evaluate_call sys regex name _ p = Inl (Undefined ''wrong number of arguments'')"
| "checkBooleanArgument sys regex (Arg_function f) p = evaluateFunction sys regex f True p"
| "checkBooleanArgument sys regex (Arg_words ws) p =
     (case single_variable ws of
        Some t \<Rightarrow> evaluateBooleanVariable t True p
      | None \<Rightarrow> Inr (False, False, perror (words_location ws)
                  ''this argument must be a function call or a boolean variable'' p))"
| "checkWordsArgument sys regex (Arg_words ws) p = Inr (Some ws, p)"
| "checkWordsArgument sys regex (Arg_function f) p =
     bind_res (evaluateFunction sys regex f True
                 (perror (function_location f) ''this argument may not be a function'' p))
       (\<lambda>(_, _, p). Inr (None, p))"
| "checkNestedFunctions sys regex [] p = Inr (True, p)"
| "checkNestedFunctions sys regex (Arg_words ws # as) p = checkNestedFunctions sys regex as p"
| "checkNestedFunctions sys regex (Arg_function f # as) p =
     bind_res (evaluateFunction sys regex f False p) (\<lambda>(v, _, p).
     bind_res (checkNestedFunctions sys regex as p) (\<lambda>(vs, p). Inr (v \<and> vs, p)))"

definition evaluateConditional ::
    "os \<Rightarrow> regex \<Rightarrow> nt_conditional option \<Rightarrow> bool \<Rightarrow> parser \<Rightarrow> (bool \<times> bool \<times> parser) res" where
  "evaluateConditional sys regex cond evaluating p =
     bind_res (case cond of
         None \<Rightarrow> Inr (True, True, p)
       | Some (Cond_variable t) \<Rightarrow> evaluateBooleanVariable t evaluating p
       | Some (Cond_function f) \<Rightarrow> evaluateFunction sys regex f evaluating p)
     (\<lambda>(valid, truth, p). Inr (valid, truth \<and> evaluating, p))"

section \<open>Blocks\<close>

text \<open>The conditions of all clauses: their truth values and whether there was an error.\<close>

fun evaluate_clauses ::
    "os \<Rightarrow> regex \<Rightarrow> bool \<Rightarrow> nt_if_clause list \<Rightarrow> parser \<Rightarrow> (bool list \<times> bool \<times> parser) res" where
  "evaluate_clauses sys regex evaluating [] p = Inr ([], False, p)"
| "evaluate_clauses sys regex evaluating (If_clause okay cond blocks # cs) p =
     (if okay then
        bind_res (evaluateConditional sys regex cond evaluating p) (\<lambda>(valid, truth, p).
        bind_res (evaluate_clauses sys regex evaluating cs p) (\<lambda>(bs, errs, p).
          Inr ((valid \<and> truth) # bs, \<not> valid \<or> errs, p)))
      else
        bind_res (evaluate_clauses sys regex evaluating cs p) (\<lambda>(bs, errs, p). Inr (False # bs, True, p)))"

fun first_true :: "bool \<Rightarrow> bool list \<Rightarrow> bool list" where
  "first_true any_true [] = []"
| "first_true any_true (b # bs) = (b \<and> \<not> any_true) # first_true (any_true \<or> b) bs"

definition selected :: "bool list \<Rightarrow> bool \<Rightarrow> bool list" where
  "selected bs errs = (if errs then map (\<lambda>_. False) bs else first_true False bs)"

fun reset_loop :: "file_location \<Rightarrow> string list \<Rightarrow> parser \<Rightarrow> parser" where
  "reset_loop location [] p = p"
| "reset_loop location (name # names) p =
     reset_loop location names
       (if name \<in> protected_from_reset p then p
        else let (_, i, e) = resetVariable (p_error p) location name (p_interface p)
             in p\<lparr>p_interface := i, p_error := e\<rparr>)"

definition evaluateReset :: "nt_reset \<Rightarrow> bool \<Rightarrow> parser \<Rightarrow> parser res" where
  "evaluateReset r evaluating p =
     (if evaluating then
        let var = reset_identifier r in
        if isNegate r then
          assert_res (var \<noteq> []) ''! variable.empty()''
          (Inr (if getVariable_no_flags (p_interface p) var \<noteq> None
                then p\<lparr>protected_from_reset := insert var (protected_from_reset p)\<rparr>
                else perror (reset_location r) (''unknown variable '' @ var) p))
        else
          Inr ((reset_loop (reset_location r)
                  (if var = [] then getVariableNames (p_interface p) else [var]) p)
               \<lparr>protected_from_reset := {}\<rparr>)
      else Inr p)"

definition evaluateAssignment :: "os \<Rightarrow> nt_assignment \<Rightarrow> bool \<Rightarrow> parser \<Rightarrow> parser res" where
  "evaluateAssignment sys a evaluating p =
     (let flag = (case getFlag a of None \<Rightarrow> [] | Some t \<Rightarrow> getValue t);
          p = (case getFlag a of None \<Rightarrow> p | Some t \<Rightarrow>
                 if flag \<in> supported_flags p then p
                 else perror (getLocation t) (''flag '' @ flag @ '' is not supported by this build item'') p) in
      if evaluating then
        bind_res (evaluateWords sys (as_words a) p) (\<lambda>(val, p).
        bind_res (assignVariable sys (p_error p) (as_location a) (as_identifier a) val
                    (getAssignmentType a) flag (p_interface p)) (\<lambda>(_, i, e).
          Inr (p\<lparr>p_interface := i, p_error := e\<rparr>)))
      else Inr p)"

definition evaluateDeclaration :: "os \<Rightarrow> nt_declaration \<Rightarrow> bool \<Rightarrow> parser \<Rightarrow> parser res" where
  "evaluateDeclaration sys d evaluating p =
     (if evaluating then
        let (_, i, e) = declareVariable (p_error p) (decl_location d) (nt_declaration.getVariableName d)
                          (getScope d) (getType d) (getListType d) (p_interface p);
            p = p\<lparr>p_interface := i, p_error := e\<rparr> in
        case getInitializer d of
          None \<Rightarrow> Inr p
        | Some words \<Rightarrow>
            bind_res (evaluateWords sys words p) (\<lambda>(val, p).
            bind_res (assignVariable sys (p_error p) (words_location words)
                        (nt_declaration.getVariableName d) val a_normal [] (p_interface p)) (\<lambda>(_, i, e).
              Inr (p\<lparr>p_interface := i, p_error := e\<rparr>)))
      else Inr p)"

definition evaluateAfterBuild :: "os \<Rightarrow> nt_word \<Rightarrow> bool \<Rightarrow> parser \<Rightarrow> parser res" where
  "evaluateAfterBuild sys w evaluating p =
     (let p = (if allow_after_build p then p
               else perror (word_location w)
                      ''after-build files are not permitted in this interface file'' p) in
      if evaluating then
        bind_res (checkFilenameArgument sys (Arg_words (Words (word_location w) [w])) p) (\<lambda>(ok, filename, p).
          if ok then bind_res (normalizeFilename sys (p_interface p) filename) (\<lambda>filename.
            Inr (p\<lparr>after_builds := after_builds p @ [filename]\<rparr>))
          else Inr p)
      else Inr p)"

definition evaluateTargetType :: "token \<Rightarrow> bool \<Rightarrow> parser \<Rightarrow> parser res" where
  "evaluateTargetType t evaluating p =
     (let val = getValue t in
      assert_res (val \<noteq> []) ''! value.empty()''
      (bind_res
        (if val ! 0 = CHR ''$'' then
           if evaluating then
             bind_res (withVariable t p) (\<lambda>(v, p). case v of
                 None \<Rightarrow> Inr (True, val, p)
               | Some (name, info) \<Rightarrow>
                   checkStringOrFilenameVariable (getLocation t) True name info val p)
           else Inr (False, val, p)
         else Inr (True, val, p))
        (\<lambda>(check, val, p).
           if check \<and> \<not> isValid val
           then Inr (perror (getLocation t)
                      ((if val = [] then ''the empty string'' else val) @ '' is not a valid target type'') p)
           else if evaluating
           then bind_res (getID val) (\<lambda>tt. Inr (p\<lparr>p_interface := setTargetType tt (p_interface p)\<rparr>))
           else Inr p)))"

fun evaluateBlocks :: "os \<Rightarrow> regex \<Rightarrow> nt_block list \<Rightarrow> bool \<Rightarrow> parser \<Rightarrow> parser res"
  and evaluateBlock :: "os \<Rightarrow> regex \<Rightarrow> nt_block \<Rightarrow> bool \<Rightarrow> parser \<Rightarrow> parser res"
  and clauses_loop :: "os \<Rightarrow> regex \<Rightarrow> nt_if_clause list \<Rightarrow> bool list \<Rightarrow> parser \<Rightarrow> parser res"
where
  "evaluateBlocks sys regex [] evaluating p = Inr p"
| "evaluateBlocks sys regex (b # bs) evaluating p =
     bind_res (evaluateBlock sys regex b evaluating p) (evaluateBlocks sys regex bs evaluating)"
| "evaluateBlock sys regex (B_ifblock clauses) evaluating p =
     bind_res (evaluate_clauses sys regex evaluating clauses p) (\<lambda>(bs, errs, p).
       clauses_loop sys regex clauses (selected bs errs) p)"
| "evaluateBlock sys regex (B_reset r) evaluating p = evaluateReset r evaluating p"
| "evaluateBlock sys regex (B_assignment a) evaluating p = evaluateAssignment sys a evaluating p"
| "evaluateBlock sys regex (B_declaration d) evaluating p = evaluateDeclaration sys d evaluating p"
| "evaluateBlock sys regex (B_after_build w) evaluating p = evaluateAfterBuild sys w evaluating p"
| "evaluateBlock sys regex (B_targettype t) evaluating p = evaluateTargetType t evaluating p"
| "clauses_loop sys regex (If_clause okay cond blocks # cs) (b # bs) p =
     bind_res (evaluateBlocks sys regex blocks b p) (clauses_loop sys regex cs bs)"
| "clauses_loop sys regex _ _ p = Inr p"

section \<open>Files\<close>

definition startFile :: "os \<Rightarrow> string \<Rightarrow> parser \<Rightarrow> parser res" where
  "startFile sys filename p =
     bind_res (canonicalizePath sys filename) (\<lambda>f.
     bind_res (setLocalDirectory (dirname f) (p_interface p)) (\<lambda>i.
       Inr (p\<lparr>p_interface := i, after_builds := []\<rparr>)))"

text \<open>
  \<open>parse\<close>, where \<open>tree\<close> is the parse tree that the generated parser accepted, with the syntax errors
  it reported.
\<close>

definition parse ::
    "os \<Rightarrow> regex \<Rightarrow> string \<Rightarrow> bool \<Rightarrow> nt_block list option \<Rightarrow> (file_location \<times> string) list \<Rightarrow> parser
      \<Rightarrow> (bool \<times> parser) res" where
  "parse sys regex filename allow tree syntax_errors p =
     (let orig_errors = num_errors (p_error p) in
      bind_res (startFile sys filename (p\<lparr>allow_after_build := allow\<rparr>)) (\<lambda>p.
        let p = fold (\<lambda>(l, msg). perror l msg) syntax_errors p in
        bind_res (case tree of None \<Rightarrow> Inr p | Some blocks \<Rightarrow> evaluateBlocks sys regex blocks True p) (\<lambda>p.
          Inr (num_errors (p_error p) = orig_errors, p))))"

definition new_parser ::
    "error \<Rightarrow> string \<Rightarrow> string \<Rightarrow> string \<Rightarrow> (string, string) omap \<Rightarrow> parser res" where
  "new_parser e name platform local_dir params =
     bind_res (new_interface name platform local_dir) (\<lambda>i. Inr
       \<lparr>p_error = e, p_interface = i, parameters = params, allow_after_build = False,
        supported_flags = {}, after_builds = [], protected_from_reset = {}\<rparr>)"

definition importInterface_p :: "os \<Rightarrow> interface \<Rightarrow> parser \<Rightarrow> (bool \<times> parser) res" where
  "importInterface_p sys other p =
     bind_res (importInterface sys (p_error p) other (p_interface p)) (\<lambda>(ok, i, e).
       Inr (ok, p\<lparr>p_interface := i, p_error := e\<rparr>))"

end
