(* ===== verification/Interface_Parser_Properties.thy ===== *)
theory Interface_Parser_Properties
  imports Interface_Parser Interface_Properties
begin

text \<open>
  Evaluating a parse tree: what a branch that is not taken can do, which branch of an if block is
  taken, and that a file without errors leaves a well-typed interface.
\<close>

lemma bind2E:
  assumes "bind_res m f = Inr y"
  obtains a b where "m = Inr (a, b)" and "f (a, b) = Inr y"
  using assms by (auto simp: bind_res_eq_Inr)

lemma bind3E:
  assumes "bind_res m f = Inr y"
  obtains a b c where "m = Inr (a, b, c)" and "f (a, b, c) = Inr y"
  using assms by (auto simp: bind_res_eq_Inr)

section \<open>Error counts of the interface operations\<close>

lemma declare_errors:
  "declareVariable_in e l tt name scope type lt i = (s, i', e') \<Longrightarrow>
   num_errors e \<le> num_errors e' \<and> (\<not> s \<longrightarrow> num_errors e < num_errors e')"
  by (auto simp: declareVariable_in_def split: option.splits if_splits)

lemma reset_errors:
  "resetVariable_as e l name n p c i = (s, i', e') \<Longrightarrow>
   num_errors e \<le> num_errors e' \<and> (\<not> s \<longrightarrow> num_errors e < num_errors e')"
  by (auto simp: resetVariable_as_def Let_def split: option.splits if_splits)

lemma check_value_errors:
  assumes "check_value sys i var l name v (s, e) = Inr (v', s', e')"
  shows "num_errors e \<le> num_errors e' \<and> (\<not> s' \<longrightarrow> \<not> s \<or> num_errors e < num_errors e')"
  using assms by (cases "v_type var") (auto simp: check_value_def bind_res_eq_Inr split: if_splits)

lemma check_values_errors:
  "check_values sys i var l name vs (s, e) = Inr (vs', s', e') \<Longrightarrow>
   num_errors e \<le> num_errors e' \<and> (\<not> s' \<longrightarrow> \<not> s \<or> num_errors e < num_errors e')"
proof (induction vs arbitrary: s e vs')
  case (Cons v vs)
  then obtain v1 s1 e1 vs1 where 1: "check_value sys i var l name v (s, e) = Inr (v1, s1, e1)"
      and 2: "check_values sys i var l name vs (s1, e1) = Inr (vs1, s', e')"
    by (auto simp: bind_res_eq_Inr)
  show ?case using check_value_errors [OF 1] Cons.IH [OF 2] by linarith
qed simp

lemma scalar_values_errors:
  "scalar_values var l name vs e = (vs', s, e') \<Longrightarrow>
   num_errors e \<le> num_errors e' \<and> (\<not> s \<longrightarrow> num_errors e < num_errors e')"
  by (auto simp: scalar_values_def Let_def split: if_splits)

lemma check_assignment_type_errors:
  assumes "check_assignment_type var l name vs t (s, e) = (s', e')"
  shows "num_errors e \<le> num_errors e' \<and> (\<not> s' \<longrightarrow> \<not> s \<or> num_errors e < num_errors e')"
  using assms by (auto simp: check_assignment_type_def Let_def split: if_splits option.splits)

lemma assign_errors:
  assumes "assignVariable_as sys e l name vs t f n p i = Inr (s, i', e')"
  shows "num_errors e \<le> num_errors e' \<and> (\<not> s \<longrightarrow> num_errors e < num_errors e')"
proof (cases "om_get (symbol_table i) name")
  case None
  then show ?thesis using assms by (auto simp: assignVariable_as_def)
next
  case (Some var)
  from assms show ?thesis
  proof (cases rule: assign_cases)
    case unknown
    then show ?thesis using Some by simp
  next
    case repeated
    then show ?thesis using scalar_values_errors [OF repeated(2)] check_values_errors [OF repeated(3)] by simp
  next
    case added
    then show ?thesis
      using scalar_values_errors [OF added(2)] check_values_errors [OF added(3)]
        check_assignment_type_errors [OF added(6)] by linarith
  qed
qed

section \<open>Quiet evaluation\<close>

text \<open>Only error messages are added.\<close>

definition quiet :: "parser \<Rightarrow> parser \<Rightarrow> bool" where
  "quiet p p' \<longleftrightarrow> (\<exists>e. p' = p\<lparr>p_error := e\<rparr> \<and> num_errors (p_error p) \<le> num_errors e)"

lemma quiet_refl [simp]: "quiet p p"
  unfolding quiet_def by (rule exI [of _ "p_error p"]) simp

lemma quiet_trans: "quiet p q \<Longrightarrow> quiet q r \<Longrightarrow> quiet p r"
  by (auto simp: quiet_def)

lemma quiet_perror [simp]: "quiet p (perror l msg p)"
  by (auto simp: quiet_def perror_def)

lemma quiet_perror_trans: "quiet p q \<Longrightarrow> quiet p (perror l msg q)"
  using quiet_trans quiet_perror by blast

lemma quiet_env: "evaluateEnvironment sys t p = Inr (s, p') \<Longrightarrow> quiet p p'"
  by (auto simp: evaluateEnvironment_def bind_res_eq_Inr split: option.splits)

lemma quiet_param: "evaluateParameter t p = Inr (s, p') \<Longrightarrow> quiet p p'"
  by (auto simp: evaluateParameter_def bind_res_eq_Inr split: option.splits)

lemma quiet_with: "withVariable t p = Inr (v, p') \<Longrightarrow> quiet p p'"
  by (auto simp: withVariable_def bind_res_eq_Inr split: option.splits if_splits)

lemma quiet_bool_var: "checkBooleanVariable l name info p = Inr (v, b, p') \<Longrightarrow> quiet p p'"
  by (auto simp: checkBooleanVariable_def bind_res_eq_Inr split: if_splits)

lemma quiet_string_var: "checkStringOrFilenameVariable l str name info old p = Inr (v, s, p') \<Longrightarrow> quiet p p'"
  by (auto simp: checkStringOrFilenameVariable_def bind_res_eq_Inr split: if_splits)

lemma quiet_evaluate_tokens: "evaluate_tokens sys ts r p = Inr (r', p') \<Longrightarrow> quiet p p'"
proof (induction sys ts r p rule: evaluate_tokens.induct)
  case (2 sys t ts result p)
  then show ?case using quiet_with quiet_trans by (auto simp: bind_res_eq_Inr) blast
next
  case (3 sys t ts result p)
  then show ?case using quiet_env quiet_trans by (auto simp: bind_res_eq_Inr) blast
next
  case (4 sys t ts result p)
  then show ?case using quiet_param quiet_trans by (auto simp: bind_res_eq_Inr) blast
qed simp_all

lemma quiet_words: "evaluateWords sys ws p = Inr (r, p') \<Longrightarrow> quiet p p'"
proof -
  have "words_loop sys wl r0 p = Inr (r, p') \<Longrightarrow> quiet p p'" for wl r0 p
  proof (induction sys wl r0 p rule: words_loop.induct)
    case (2 sys w ws result p)
    then obtain r1 p1 where 1: "evaluateWord sys w result p = Inr (r1, p1)"
        and "words_loop sys ws r1 p1 = Inr (r, p')" by (auto simp: bind_res_eq_Inr)
    then have "quiet p1 p'" using "2.IH" by blast
    moreover have "quiet p p1" using 1 quiet_evaluate_tokens by (simp add: evaluateWord_def)
    ultimately show ?case using quiet_trans by blast
  qed simp
  then show "evaluateWords sys ws p = Inr (r, p') \<Longrightarrow> quiet p p'" by (simp add: evaluateWords_def)
qed

lemma quiet_string_tokens: "string_tokens sys str ts v s p = Inr (v', s', p') \<Longrightarrow> quiet p p'"
proof (induction sys str ts v s p rule: string_tokens.induct)
  case (2 sys str t ts valid val p)
  then obtain v p1 ok s p2 where 1: "withVariable t p = Inr (v, p1)"
      and 2: "(case v of None \<Rightarrow> Inr (False, [], p1)
               | Some (name, info) \<Rightarrow> checkStringOrFilenameVariable (getLocation t) str name info [] p1) =
              Inr (ok, s, p2)"
      and 3: "string_tokens sys str ts (valid \<and> ok) (val @ s) p2 = Inr (v', s', p')"
    by (auto simp: bind_res_eq_Inr)
  have "quiet p2 p'" using "2.IH" 3 by blast
  moreover have "quiet p1 p2" using 2 quiet_string_var by (auto split: option.splits)
  ultimately show ?case using quiet_with [OF 1] quiet_trans by blast
next
  case (3 sys str t ts valid val p)
  then show ?case using quiet_env quiet_trans by (auto simp: bind_res_eq_Inr) blast
next
  case (4 sys str t ts valid val p)
  then show ?case using quiet_param quiet_trans by (auto simp: bind_res_eq_Inr) blast
qed simp_all

lemma quiet_string_arg: "checkStringOrFilenameArgument sys a str p = Inr (v, s, p') \<Longrightarrow> quiet p p'"
  unfolding checkStringOrFilenameArgument_def
  by (auto simp: bind_res_eq_Inr quiet_perror_trans split: nt_argument.splits list.splits if_splits
      dest!: quiet_string_tokens)

lemma quiet_boolean: "evaluateBooleanVariable t ev p = Inr (v, b, p') \<Longrightarrow> quiet p p' \<and> (\<not> ev \<longrightarrow> \<not> b)"
  unfolding evaluateBooleanVariable_def
  by (auto simp: bind_res_eq_Inr split: if_splits option.splits
      dest!: quiet_with quiet_bool_var intro: quiet_trans)

lemma quiet_contains: "containsMatch regex l ws pat p = (v, b, p') \<Longrightarrow> quiet p p'"
  by (auto simp: containsMatch_def split: option.splits)

lemma quiet_equals: "evaluateFunctionEquals sys a1 a2 p = Inr (v, b, p') \<Longrightarrow> quiet p p'"
  unfolding evaluateFunctionEquals_def checkStringArgument_def
  by (auto simp: bind_res_eq_Inr dest!: quiet_string_arg intro: quiet_trans)

lemma quiet_matches: "evaluateFunctionMatches sys regex a1 a2 p = Inr (v, b, p') \<Longrightarrow> quiet p p'"
  unfolding evaluateFunctionMatches_def checkStringArgument_def
  by (auto simp: bind_res_eq_Inr split: if_splits dest!: quiet_string_arg quiet_contains intro: quiet_trans)

text \<open>The mutually recursive functions, and that nothing is true that is not evaluated.\<close>

lemma quiet_functions:
  "evaluateFunction sys regex f ev p = Inr (v, b, p') \<Longrightarrow> quiet p p' \<and> (\<not> ev \<longrightarrow> \<not> b)"
  "evaluate_call sys regex name as p = Inr (v, b, p') \<Longrightarrow> quiet p p'"
  "checkBooleanArgument sys regex a p = Inr (v, b, p') \<Longrightarrow> quiet p p'"
  "checkWordsArgument sys regex a p = Inr (ws, p') \<Longrightarrow> quiet p p'"
  "checkNestedFunctions sys regex as p = Inr (v, p') \<Longrightarrow> quiet p p'"
proof (induction sys regex f ev p and sys regex name as p and sys regex a p and sys regex a p and sys regex as p
    arbitrary: v b p' and v b p' and v b p' and ws p' and v p'
    rule: evaluateFunction_evaluate_call_checkBooleanArgument_checkWordsArgument_checkNestedFunctions.induct)
  case (1 sys regex t arguments evaluating p)
  obtain name where name: "getFunctionName t = Inr name" using "1.prems" by (auto simp: bind_res_eq_Inr)
  obtain valid p1 where c: "(case om_get function_num_arguments name of
             Some n \<Rightarrow> checkNumArguments (getLocation t) name (length arguments) n p
           | None \<Rightarrow> (False, perror (getLocation t) (''unknown function '' @ name) p)) = (valid, p1)"
    by fastforce
  have q: "quiet p p1" using c by (auto simp: checkNumArguments_def split: option.splits if_splits)
  show ?case
  proof (cases "valid \<and> evaluating")
    case True
    then have e: "evaluate_call sys regex name arguments p1 = Inr (v, b, p')"
      using "1.prems" name c by simp
    then show ?thesis using "1.IH"(1) [OF refl c [symmetric] True e] q True quiet_trans by blast
  next
    case False
    then obtain ok where "checkNestedFunctions sys regex arguments p1 = Inr (ok, p')" "\<not> b"
      using "1.prems" name c by (auto simp: bind_res_eq_Inr)
    then show ?thesis using "1.IH"(2) [OF refl c [symmetric] False] q quiet_trans by blast
  qed
next
  case (2 sys regex name a p)
  then show ?case by (auto simp: bind_res_eq_Inr)
next
  case (3 sys regex name a1 a2 p)
  consider (bool) "name = ''and'' \<or> name = ''or''" | (equals) "name = ''equals''" | (matches) "name = ''matches''"
    | (words) "\<not> (name = ''and'' \<or> name = ''or'')" "name \<noteq> ''equals''" "name \<noteq> ''matches''" by blast
  then show ?case
  proof cases
    case bool
    note prems = "3.prems" [unfolded evaluate_call.simps if_P [OF bool]]
    obtain v1 b1 p1 where 1: "checkBooleanArgument sys regex a1 p = Inr (v1, b1, p1)"
        and rest: "bind_res (checkBooleanArgument sys regex a2 p1) (\<lambda>(v2, b2, p).
          Inr (v1 \<and> v2, v1 \<and> v2 \<and> (if name = ''and'' then b1 \<and> b2 else b1 \<or> b2), p)) = Inr (v, b, p')"
      using prems by (rule bind3E) (simp only: prod.case)
    obtain v2 b2 where 2: "checkBooleanArgument sys regex a2 p1 = Inr (v2, b2, p')"
      using rest by (rule bind3E) simp
    then show ?thesis using "3.IH"(1) [OF bool 1] "3.IH"(2) [OF bool 2] quiet_trans by blast
  next
    case equals
    then show ?thesis using "3.prems" quiet_equals by simp
  next
    case matches
    then show ?thesis using "3.prems" quiet_matches by simp
  next
    case words
    note prems = "3.prems" [unfolded evaluate_call.simps if_not_P [OF words(1)] if_not_P [OF words(2)]
        if_not_P [OF words(3)]]
    obtain ws p1 where 1: "checkWordsArgument sys regex a1 p = Inr (ws, p1)"
        and rest: "bind_res (checkStringArgument sys a2 p1) (\<lambda>(v2, s, p).
          case ws of
            None \<Rightarrow> Inr (False, False, p)
          | Some list \<Rightarrow>
              if \<not> v2 then Inr (False, False, p)
              else bind_res (evaluateWords sys list p) (\<lambda>(words, p).
                Inr (if name = ''contains'' then (True, s \<in> set words, p)
                     else containsMatch regex (argument_location a2) words s p))) = Inr (v, b, p')"
      using prems by (rule bind2E) (simp only: prod.case)
    obtain v2 s p2 where 2: "checkStringArgument sys a2 p1 = Inr (v2, s, p2)"
        and 3: "(case ws of None \<Rightarrow> Inr (False, False, p2)
          | Some list \<Rightarrow> if \<not> v2 then Inr (False, False, p2)
              else bind_res (evaluateWords sys list p2) (\<lambda>(words, p).
                Inr (if name = ''contains'' then (True, s \<in> set words, p)
                     else containsMatch regex (argument_location a2) words s p))) = Inr (v, b, p')"
      using rest by (rule bind3E) simp
    have "quiet p2 p'"
      using 3 by (auto simp: bind_res_eq_Inr split: option.splits if_splits
          dest!: quiet_words quiet_contains intro: quiet_trans)
    moreover have "quiet p1 p2" using 2 quiet_string_arg by (simp add: checkStringArgument_def)
    moreover have "quiet p p1" using "3.IH"(3) [OF words 1] .
    ultimately show ?thesis using quiet_trans by blast
  qed
next
  case (6 sys regex ws p)
  then show ?case using quiet_boolean by (auto split: option.splits)
next
  case (8 sys regex f p)
  then show ?case using quiet_trans [OF quiet_perror] by (auto simp: bind_res_eq_Inr)
next
  case (11 sys regex f as p)
  obtain v1 b1 p1 where 1: "evaluateFunction sys regex f False p = Inr (v1, b1, p1)"
      and rest: "bind_res (checkNestedFunctions sys regex as p1) (\<lambda>(vs, p). Inr (v1 \<and> vs, p)) = Inr (v, p')"
    using "11.prems" unfolding checkNestedFunctions.simps by (rule bind3E) (simp only: prod.case)
  obtain vs where 2: "checkNestedFunctions sys regex as p1 = Inr (vs, p')" using rest by (rule bind2E) simp
  show ?case using "11.IH"(1) [OF 1] "11.IH"(2) [OF 2] 1 quiet_trans by blast
qed simp_all

lemma quiet_conditional:
  "evaluateConditional sys regex c ev p = Inr (v, b, p') \<Longrightarrow> quiet p p' \<and> (\<not> ev \<longrightarrow> \<not> b)"
  unfolding evaluateConditional_def
  by (auto simp: bind_res_eq_Inr split: option.splits nt_conditional.splits
      dest!: quiet_boolean quiet_functions(1))

lemma quiet_clauses:
  "evaluate_clauses sys regex ev cs p = Inr (bs, errs, p') \<Longrightarrow>
   quiet p p' \<and> length bs = length cs \<and> (\<not> ev \<longrightarrow> (\<forall>b \<in> set bs. \<not> b))"
proof (induction sys regex ev cs p arbitrary: bs errs rule: evaluate_clauses.induct)
  case (2 sys regex ev okay cond blocks cs p)
  show ?case
  proof (cases okay)
    case True
    obtain v b p1 bs1 errs1 where 1: "evaluateConditional sys regex cond ev p = Inr (v, b, p1)"
        and 2: "evaluate_clauses sys regex ev cs p1 = Inr (bs1, errs1, p')" "bs = (v \<and> b) # bs1"
    proof -
      note prems = "2.prems" [unfolded evaluate_clauses.simps if_P [OF True]]
      show thesis using prems
      proof (rule bind3E)
        fix v b p1
        assume 1: "evaluateConditional sys regex cond ev p = Inr (v, b, p1)"
          and "(case (v, b, p1) of (valid, truth, p) \<Rightarrow>
                bind_res (evaluate_clauses sys regex ev cs p) (\<lambda>(bs, errs, p).
                  Inr ((valid \<and> truth) # bs, \<not> valid \<or> errs, p))) = Inr (bs, errs, p')"
        then have "bind_res (evaluate_clauses sys regex ev cs p1) (\<lambda>(bs, errs, p).
                  Inr ((v \<and> b) # bs, \<not> v \<or> errs, p)) = Inr (bs, errs, p')" by simp
        then show thesis by (rule bind3E) (use 1 that in simp)
      qed
    qed
    show ?thesis
      using quiet_conditional [OF 1] "2.IH"(1) [OF True 2(1)] quiet_trans 2(2) by auto
  next
    case False
    then obtain bs1 errs1 where "evaluate_clauses sys regex ev cs p = Inr (bs1, errs1, p')" "bs = False # bs1"
      using "2.prems" by (auto simp: bind_res_eq_Inr)
    then show ?thesis using "2.IH"(2) [OF False] by auto
  qed
qed simp

lemma selected_false: "\<forall>b \<in> set bs. \<not> b \<Longrightarrow> \<forall>b \<in> set (selected bs errs). \<not> b"
proof -
  have "\<forall>b \<in> set bs. \<not> b \<Longrightarrow> \<forall>b \<in> set (first_true any bs). \<not> b" for any
    by (induction bs arbitrary: any) auto
  then show "\<forall>b \<in> set bs. \<not> b \<Longrightarrow> \<forall>b \<in> set (selected bs errs). \<not> b" by (auto simp: selected_def)
qed

lemma quiet_assignment: "evaluateAssignment sys a False p = Inr p' \<Longrightarrow> quiet p p'"
  by (auto simp: evaluateAssignment_def Let_def split: option.splits if_splits)

lemma quiet_after_build: "evaluateAfterBuild sys w False p = Inr p' \<Longrightarrow> quiet p p'"
  by (auto simp: evaluateAfterBuild_def Let_def split: if_splits)

lemma quiet_target_type: "evaluateTargetType t False p = Inr p' \<Longrightarrow> quiet p p'"
  by (auto simp: evaluateTargetType_def Let_def assert_res_eq_Inr split: if_splits)

lemma quiet_blocks:
  "evaluateBlocks sys regex blocks ev p = Inr p' \<Longrightarrow> \<not> ev \<Longrightarrow> quiet p p'"
  "evaluateBlock sys regex b ev p = Inr p' \<Longrightarrow> \<not> ev \<Longrightarrow> quiet p p'"
  "clauses_loop sys regex cs bs p = Inr p' \<Longrightarrow> \<forall>b \<in> set bs. \<not> b \<Longrightarrow> quiet p p'"
proof (induction sys regex blocks ev p and sys regex b ev p and sys regex cs bs p
    arbitrary: p' and p' and p' rule: evaluateBlocks_evaluateBlock_clauses_loop.induct)
  case (2 sys regex b bs ev p)
  then obtain p1 where "evaluateBlock sys regex b ev p = Inr p1" "evaluateBlocks sys regex bs ev p1 = Inr p'"
    by (auto simp: bind_res_eq_Inr)
  then show ?case using 2 quiet_trans by blast
next
  case (3 sys regex clauses ev p)
  then obtain bs errs p1 where 1: "evaluate_clauses sys regex ev clauses p = Inr (bs, errs, p1)"
      and 2: "clauses_loop sys regex clauses (selected bs errs) p1 = Inr p'"
    by (auto simp: bind_res_eq_Inr)
  then have "\<forall>b \<in> set (selected bs errs). \<not> b"
    using quiet_clauses [OF 1] 3(3) by (intro selected_false) blast
  then show ?case using 3(1) [OF 2] quiet_clauses [OF 1] quiet_trans by blast
next
  case (9 sys regex okay cond blocks cs b bs p)
  then obtain p1 where "evaluateBlocks sys regex blocks b p = Inr p1" "clauses_loop sys regex cs bs p1 = Inr p'"
    by (auto simp: bind_res_eq_Inr)
  then show ?case using 9 quiet_trans by auto
qed (auto simp: evaluateReset_def evaluateDeclaration_def
    dest: quiet_assignment quiet_after_build quiet_target_type)

section \<open>Evaluation without errors\<close>

text \<open>No error is taken back, and without errors the interface has gone through successful operations.\<close>

definition sound :: "os \<Rightarrow> parser \<Rightarrow> parser \<Rightarrow> bool" where
  "sound sys p p' \<longleftrightarrow> num_errors (p_error p) \<le> num_errors (p_error p') \<and>
     (num_errors (p_error p') = num_errors (p_error p) \<longrightarrow>
        (op_step sys)\<^sup>*\<^sup>* (p_interface p) (p_interface p'))"

lemma quiet_sound: "quiet p p' \<Longrightarrow> sound sys p p'"
  by (auto simp: quiet_def sound_def)

lemma sound_refl [simp]: "sound sys p p"
  by (simp add: sound_def)

lemma sound_trans:
  assumes "sound sys p q" and "sound sys q r"
  shows "sound sys p r"
proof (cases "num_errors (p_error r) = num_errors (p_error p)")
  case True
  then have "num_errors (p_error q) = num_errors (p_error p)" "num_errors (p_error r) = num_errors (p_error q)"
    using assms unfolding sound_def by linarith+
  then show ?thesis using assms unfolding sound_def by (auto intro: rtranclp_trans)
qed (use assms in \<open>auto simp: sound_def\<close>)

lemma sound_assign:
  assumes "assignVariable_as sys (p_error p) l name vs t f n pl (p_interface p) = Inr (s, i, e)"
  shows "sound sys p (p\<lparr>p_interface := i, p_error := e\<rparr>)"
proof -
  have "op_step sys (p_interface p) i" if s
    using assms that by (intro step_assign) simp
  then show ?thesis using assign_errors [OF assms] by (auto simp: sound_def)
qed

lemma sound_declare:
  assumes "declareVariable_in (p_error p) l tt name scope type lt (p_interface p) = (s, i, e)"
  shows "sound sys p (p\<lparr>p_interface := i, p_error := e\<rparr>)"
proof -
  have "op_step sys (p_interface p) i" if s
    using assms that by (intro step_declare) simp
  then show ?thesis using declare_errors [OF assms] by (auto simp: sound_def)
qed

lemma sound_reset:
  assumes "resetVariable_as (p_error p) l name n pl c (p_interface p) = (s, i, e)"
  shows "sound sys p (p\<lparr>p_interface := i, p_error := e\<rparr>)"
proof -
  have "op_step sys (p_interface p) i" if s
    using assms that by (intro step_reset) simp
  then show ?thesis using reset_errors [OF assms] by (auto simp: sound_def)
qed

lemma sound_reset_loop: "sound sys p (reset_loop l names p)"
proof (induction names arbitrary: p)
  case (Cons name names)
  obtain s i e where r: "resetVariable_as (p_error p) l name (item_name (p_interface p))
      (item_platform (p_interface p)) True (p_interface p) = (s, i, e)" by (metis prod_cases3)
  show ?case
    using Cons.IH sound_trans [OF sound_reset [OF r] Cons.IH] by (simp add: resetVariable_def r)
qed simp

lemma sound_fields: "sound sys p q \<Longrightarrow> p_error q' = p_error q \<Longrightarrow> p_interface q' = p_interface q \<Longrightarrow> sound sys p q'"
  by (simp add: sound_def)

lemma sound_evaluate_reset:
  assumes "evaluateReset r ev p = Inr p'"
  shows "sound sys p p'"
proof (cases "ev \<and> \<not> isNegate r")
  case True
  then have "p' = (reset_loop (reset_location r)
      (if reset_identifier r = [] then getVariableNames (p_interface p) else [reset_identifier r]) p)
      \<lparr>protected_from_reset := {}\<rparr>"
    using assms by (simp add: evaluateReset_def Let_def)
  then show ?thesis
    using sound_fields [OF sound_reset_loop, of p' "reset_location r" _ p] by (simp del: reset_loop.simps)
next
  case False
  then show ?thesis
    using assms by (auto simp: evaluateReset_def Let_def assert_res_eq_Inr split: if_splits
        intro: sound_fields [OF sound_refl] quiet_sound)
qed

lemma sound_evaluate_assignment:
  assumes "evaluateAssignment sys a ev p = Inr p'"
  shows "sound sys p p'"
proof -
  define flag where "flag = (case getFlag a of None \<Rightarrow> [] | Some t \<Rightarrow> getValue t)"
  define q where "q = (case getFlag a of None \<Rightarrow> p | Some t \<Rightarrow>
                 if flag \<in> supported_flags p then p
                 else perror (getLocation t) (''flag '' @ flag @ '' is not supported by this build item'') p)"
  have q: "quiet p q" by (simp add: q_def split: option.splits)
  note body = assms [unfolded evaluateAssignment_def Let_def, folded flag_def, folded q_def]
  show ?thesis
  proof (cases ev)
    case True
    obtain vals p1 where 1: "evaluateWords sys (as_words a) q = Inr (vals, p1)"
        and rest: "bind_res (assignVariable sys (p_error p1) (as_location a) (as_identifier a) vals
                    (getAssignmentType a) flag (p_interface p1)) (\<lambda>(_, i, e).
          Inr (p1\<lparr>p_interface := i, p_error := e\<rparr>)) = Inr p'"
      using body [unfolded if_P [OF True]] by (rule bind2E) (simp only: prod.case)
    obtain s i e where 2: "assignVariable_as sys (p_error p1) (as_location a) (as_identifier a) vals
        (getAssignmentType a) flag (item_name (p_interface p1)) (item_platform (p_interface p1))
        (p_interface p1) = Inr (s, i, e)" "p' = p1\<lparr>p_interface := i, p_error := e\<rparr>"
      using rest by (rule bind3E) (simp add: assignVariable_def)
    show ?thesis
      using sound_trans [OF quiet_sound [OF quiet_trans [OF q quiet_words [OF 1]]] sound_assign [OF 2(1)]] 2(2) by simp
  next
    case False
    then show ?thesis using body q by (auto intro: quiet_sound)
  qed
qed

lemma sound_evaluate_declaration:
  assumes "evaluateDeclaration sys d ev p = Inr p'"
  shows "sound sys p p'"
proof (cases ev)
  case False
  then show ?thesis using assms by (simp add: evaluateDeclaration_def)
next
  case True
  obtain s i e where d: "declareVariable_in (p_error p) (decl_location d) (target_type (p_interface p))
      (nt_declaration.getVariableName d) (getScope d) (getType d) (getListType d) (p_interface p) = (s, i, e)"
    by (metis prod_cases3)
  define q where "q = p\<lparr>p_interface := i, p_error := e\<rparr>"
  have q: "sound sys p q" using sound_declare [OF d] by (simp add: q_def)
  note body = assms [unfolded evaluateDeclaration_def declareVariable_def d if_P [OF True] Let_def prod.case,
      folded q_def]
  show ?thesis
  proof (cases "getInitializer d")
    case None
    then show ?thesis using body q by simp
  next
    case (Some words)
    obtain vals p1 where 1: "evaluateWords sys words q = Inr (vals, p1)"
        and rest: "bind_res (assignVariable sys (p_error p1) (words_location words)
           (nt_declaration.getVariableName d) vals a_normal [] (p_interface p1)) (\<lambda>(_, i, e).
          Inr (p1\<lparr>p_interface := i, p_error := e\<rparr>)) = Inr p'"
      using body [unfolded Some option.case] by (rule bind2E) (simp only: prod.case)
    obtain s i e where 2: "assignVariable_as sys (p_error p1) (words_location words)
        (nt_declaration.getVariableName d) vals a_normal [] (item_name (p_interface p1))
        (item_platform (p_interface p1)) (p_interface p1) = Inr (s, i, e)"
        "p' = p1\<lparr>p_interface := i, p_error := e\<rparr>"
      using rest by (rule bind3E) (simp add: assignVariable_def)
    show ?thesis
      using sound_trans [OF q sound_trans [OF quiet_sound [OF quiet_words [OF 1]] sound_assign [OF 2(1)]]] 2(2)
      by simp
  qed
qed

lemma sound_evaluate_after_build:
  assumes "evaluateAfterBuild sys w ev p = Inr p'"
  shows "sound sys p p'"
proof (cases ev)
  case True
  let ?q = "if allow_after_build p then p
            else perror (word_location w) ''after-build files are not permitted in this interface file'' p"
  have q: "quiet p ?q" by simp
  obtain ok f p1 where 1: "checkFilenameArgument sys (Arg_words (Words (word_location w) [w])) ?q = Inr (ok, f, p1)"
      and 2: "(if ok then bind_res (normalizeFilename sys (p_interface p1) f) (\<lambda>f.
            Inr (p1\<lparr>after_builds := after_builds p1 @ [f]\<rparr>)) else Inr p1) = Inr p'"
    using assms [unfolded evaluateAfterBuild_def Let_def if_P [OF True]]
    by (rule bind3E) (simp only: prod.case)
  have "quiet ?q p1" using 1 quiet_string_arg by (simp only: checkFilenameArgument_def)
  then have "sound sys p p1" using quiet_trans [OF q] quiet_sound by blast
  then show ?thesis
    using 2 by (auto simp: bind_res_eq_Inr split: if_splits intro: sound_fields)
next
  case False
  then show ?thesis using assms quiet_after_build quiet_sound by simp
qed

lemma target_steps: "(op_step sys)\<^sup>*\<^sup>* i (setTargetType t i)"
  by (rule r_into_rtranclp) (rule step_target)

lemma sound_evaluate_target_type:
  assumes "evaluateTargetType t ev p = Inr p'"
  shows "sound sys p p'"
proof (cases ev)
  case True
  let ?val = "getValue t"
  have val: "?val \<noteq> []" using assms by (simp add: evaluateTargetType_def Let_def assert_res_eq_Inr)
  note body = assms [unfolded evaluateTargetType_def Let_def assert_res_def if_P [OF val] if_P [OF True]]
  obtain check v q where 1: "(if ?val ! 0 = CHR ''$'' then
           bind_res (withVariable t p) (\<lambda>(v, p). case v of
                 None \<Rightarrow> Inr (True, ?val, p)
               | Some (name, info) \<Rightarrow>
                   checkStringOrFilenameVariable (getLocation t) True name info ?val p)
         else Inr (True, ?val, p)) = Inr (check, v, q)"
      and 2: "(if check \<and> \<not> isValid v
           then Inr (perror (getLocation t) ((if v = [] then ''the empty string'' else v) @ '' is not a valid target type'') q)
           else bind_res (getID v) (\<lambda>tt. Inr (q\<lparr>p_interface := setTargetType tt (p_interface q)\<rparr>))) = Inr p'"
    using body by (rule bind3E) (simp only: prod.case)
  have "quiet p q"
    using 1 by (auto simp: bind_res_eq_Inr split: if_splits option.splits
        dest!: quiet_with quiet_string_var intro: quiet_trans)
  moreover have "sound sys q p'"
    using 2 target_steps by (auto simp: bind_res_eq_Inr sound_def perror_def split: if_splits)
  ultimately show ?thesis using quiet_sound sound_trans by blast
next
  case False
  then show ?thesis using assms quiet_target_type quiet_sound by simp
qed

lemma sound_blocks:
  "evaluateBlocks sys regex blocks ev p = Inr p' \<Longrightarrow> sound sys p p'"
  "evaluateBlock sys regex b ev p = Inr p' \<Longrightarrow> sound sys p p'"
  "clauses_loop sys regex cs bs p = Inr p' \<Longrightarrow> sound sys p p'"
proof (induction sys regex blocks ev p and sys regex b ev p and sys regex cs bs p
    arbitrary: p' and p' and p' rule: evaluateBlocks_evaluateBlock_clauses_loop.induct)
  case (2 sys regex b bs ev p)
  then obtain p1 where "evaluateBlock sys regex b ev p = Inr p1" "evaluateBlocks sys regex bs ev p1 = Inr p'"
    by (auto simp: bind_res_eq_Inr)
  then show ?case using 2 sound_trans by blast
next
  case (3 sys regex clauses ev p)
  then obtain bs errs p1 where 1: "evaluate_clauses sys regex ev clauses p = Inr (bs, errs, p1)"
      and 2: "clauses_loop sys regex clauses (selected bs errs) p1 = Inr p'"
    by (auto simp: bind_res_eq_Inr)
  then show ?case using 3(1) [OF 2] quiet_clauses [OF 1] quiet_sound sound_trans by blast
next
  case (9 sys regex okay cond blocks cs b bs p)
  then obtain p1 where "evaluateBlocks sys regex blocks b p = Inr p1" "clauses_loop sys regex cs bs p1 = Inr p'"
    by (auto simp: bind_res_eq_Inr)
  then show ?case using 9 sound_trans by blast
qed (auto dest: sound_evaluate_reset sound_evaluate_assignment sound_evaluate_declaration
    sound_evaluate_after_build sound_evaluate_target_type)

lemma sound_syntax_errors:
  "sound sys p (fold (\<lambda>(l, msg). perror l msg) errs p) \<and>
   (errs \<noteq> [] \<longrightarrow> num_errors (p_error p) < num_errors (p_error (fold (\<lambda>(l, msg). perror l msg) errs p)))"
proof (induction errs arbitrary: p)
  case (Cons a errs)
  obtain l msg where a: "a = (l, msg)" by fastforce
  have "num_errors (p_error p) < num_errors (p_error (perror l msg p))" by (simp add: perror_def)
  moreover have "sound sys (perror l msg p) (fold (\<lambda>(l, msg). perror l msg) errs (perror l msg p))"
    using Cons.IH by blast
  ultimately show ?case by (simp add: a sound_def)
qed simp

text \<open>
  C14: when \<open>parse\<close> reports success for an interface file, the parser found no syntax error and the
  interface has gone through successful operations only, so that every value that can be read has
  the declared type.
\<close>

theorem parse_typed:
  assumes "reachable_interface sys (p_interface p)" and "isAbsolutePath (os_cwd sys)"
    and "parse sys regex filename allow tree syntax_errors p = Inr (True, p')"
  shows "syntax_errors = [] \<and> reachable_interface sys (p_interface p') \<and>
    (\<forall>name flags info v. getVariable (p_interface p') name flags = Some info \<longrightarrow> v \<in> set (i_value info) \<longrightarrow>
       typed_value sys (i_type info) v)"
proof -
  obtain p1 where 1: "startFile sys filename (p\<lparr>allow_after_build := allow\<rparr>) = Inr p1"
    using assms(3) by (auto simp: parse_def bind_res_eq_Inr Let_def)
  define p2 where "p2 = fold (\<lambda>(l, msg). perror l msg) syntax_errors p1"
  have 2: "(case tree of None \<Rightarrow> Inr p2 | Some blocks \<Rightarrow> evaluateBlocks sys regex blocks True p2) = Inr p'"
      and n: "num_errors (p_error p') = num_errors (p_error p)"
    using assms(3) [unfolded parse_def Let_def 1 bind_res_Inr, folded p2_def]
    by (auto simp: bind_res_eq_Inr)
  have "op_step sys (p_interface p) (p_interface p1)" and n1: "num_errors (p_error p1) = num_errors (p_error p)"
    using 1 by (auto simp: startFile_def bind_res_eq_Inr intro: step_directory)
  then have "reachable_interface sys (p_interface p1)" using assms(1) reachable_step by blast
  moreover have s: "sound sys p1 p2" using sound_syntax_errors p2_def by blast
  moreover have s': "sound sys p2 p'"
    using 2 sound_blocks(1) by (cases tree) auto
  moreover have "num_errors (p_error p2) = num_errors (p_error p1)"
    using n n1 s s' unfolding sound_def by linarith
  ultimately have "(op_step sys)\<^sup>*\<^sup>* (p_interface p1) (p_interface p2)"
      "(op_step sys)\<^sup>*\<^sup>* (p_interface p2) (p_interface p')"
      "reachable_interface sys (p_interface p1)"
      and n2: "num_errors (p_error p2) = num_errors (p_error p1)"
    using n n1 unfolding sound_def by simp_all
  then have r: "reachable_interface sys (p_interface p')"
    unfolding reachable_interface_def by (meson rtranclp_trans)
  have "syntax_errors = []"
    using sound_syntax_errors [of sys p1 syntax_errors] n2
    by (auto simp: p2_def)
  then show ?thesis using r reachable_typed [OF r assms(2)] by blast
qed

section \<open>Examples\<close>

definition tok :: "string \<Rightarrow> nat \<Rightarrow> token" where
  "tok s n = Token s (loc n)"

definition var_words :: "string \<Rightarrow> nat \<Rightarrow> nt_words" where
  "var_words name n = Words (loc n) [Word (loc n) [(tok (''$('' @ name @ '')'') n, w_variable)]]"

definition text_words :: "string \<Rightarrow> nat \<Rightarrow> nt_words" where
  "text_words s n = Words (loc n) [Word (loc n) [(tok s n, w_string)]]"

definition assign_x :: "string \<Rightarrow> nat \<Rightarrow> nt_block" where
  "assign_x s n = B_assignment (Assignment (loc n) ''X'' None (text_words s n) a_normal)"

text \<open>
  \<open>declare B boolean = true\<close>, \<open>declare X string\<close>, and an if block with the conditions
  \<open>not($(B))\<close> and \<open>and($(B), $(B))\<close>.
\<close>

definition example_clauses :: "nt_if_clause list" where
  "example_clauses =
     [createIfClause (Some (Cond_function (Function (tok ''not('' 3) [Arg_words (var_words ''B'' 3)])))
        [assign_x ''a'' 4] True,
      createIfClause (Some (Cond_function (Function (tok ''and('' 5)
          [Arg_words (var_words ''B'' 5), Arg_words (var_words ''B'' 5)])))
        [assign_x ''b'' 6] True,
      createIfClause None [assign_x ''c'' 7] False]"

definition example_declarations :: "nt_block list" where
  "example_declarations =
     [B_declaration (Declaration (loc 1) ''B'' s_recursive t_boolean l_scalar (Some (text_words ''true'' 1))),
      B_declaration (Declaration (loc 2) ''X'' s_recursive t_string l_scalar None)]"

definition example_parser :: "parser res" where
  "example_parser = new_parser start_error ''p'' ''native'' ''/work'' []"

definition run_blocks :: "nt_block list \<Rightarrow> parser res" where
  "run_blocks blocks = bind_res example_parser (evaluateBlocks plain_os (\<lambda>_. None) blocks True)"

definition x_value :: "parser res \<Rightarrow> (int \<times> string list) option" where
  "x_value r = (case r of Inl e \<Rightarrow> None
     | Inr p \<Rightarrow> map_option (\<lambda>info. (num_errors (p_error p), i_value info)) (getVariable (p_interface p) ''X'' []))"

lemma example_parse:
  "case bind_res example_parser (parse plain_os (\<lambda>_. None) ''/work/Abuild.interface'' False
     (Some (example_declarations @ [B_ifblock example_clauses])) []) of
     Inl e \<Rightarrow> False | Inr (ok, p) \<Rightarrow> ok \<and> x_value (Inr p) = Some (0, [''b''])"
  by code_simp

theorem parse_typed_witness:
  "\<exists>p p' info. parse plain_os (\<lambda>_. None) ''/work/Abuild.interface'' False
       (Some (example_declarations @ [B_ifblock example_clauses])) [] p = Inr (True, p')
     \<and> getVariable (p_interface p') ''X'' [] = Some info \<and> i_value info = [''b'']
     \<and> reachable_interface plain_os (p_interface p')"
proof -
  obtain p where p: "example_parser = Inr p" "reachable_interface plain_os (p_interface p)"
  proof -
    obtain i where i: "new_interface ''p'' ''native'' ''/work'' = Inr i"
      by (simp add: new_interface_def setLocalDirectory_def isAbsolutePath_def)
    then have "reachable_interface plain_os i" unfolding reachable_interface_def by blast
    then show thesis using that by (simp add: example_parser_def new_parser_def i)
  qed
  obtain p' where p': "parse plain_os (\<lambda>_. None) ''/work/Abuild.interface'' False
       (Some (example_declarations @ [B_ifblock example_clauses])) [] p = Inr (True, p')"
      "x_value (Inr p') = Some (0, [''b''])"
    using example_parse unfolding p(1) bind_res_Inr by (auto split: sum.splits prod.splits)
  then show ?thesis
    using parse_typed [OF p(2) conjunct1 [OF plain_os_absolute] p'(1)] by (auto simp: x_value_def)
qed

section \<open>If blocks\<close>

fun clause_blocks :: "nt_if_clause \<Rightarrow> nt_block list" where
  "clause_blocks (If_clause okay cond blocks) = blocks"

lemma clauses_loop_one:
  "clauses_loop sys regex cs bs p = Inr p' \<Longrightarrow> length bs = length cs \<Longrightarrow> k < length bs \<Longrightarrow> bs ! k \<Longrightarrow>
   \<forall>j < length bs. j \<noteq> k \<longrightarrow> \<not> bs ! j \<Longrightarrow>
   \<exists>q q'. quiet p q \<and> evaluateBlocks sys regex (clause_blocks (cs ! k)) True q = Inr q' \<and> quiet q' p'"
proof (induction cs arbitrary: bs p k)
  case (Cons c cs)
  obtain okay cond blocks where c: "c = If_clause okay cond blocks" by (cases c)
  obtain b bs' where bs: "bs = b # bs'" using Cons.prems(2) by (cases bs) auto
  obtain p1 where 1: "evaluateBlocks sys regex blocks b p = Inr p1" "clauses_loop sys regex cs bs' p1 = Inr p'"
    using Cons.prems(1) by (auto simp: c bs bind_res_eq_Inr)
  show ?case
  proof (cases k)
    case 0
    have "\<forall>b \<in> set bs'. \<not> b"
    proof
      fix b' assume "b' \<in> set bs'"
      then obtain j where "j < length bs'" "bs' ! j = b'" by (metis in_set_conv_nth)
      then show "\<not> b'" using Cons.prems(5) bs 0 by (metis Suc_less_eq length_Cons nat.distinct(1) nth_Cons_Suc)
    qed
    then have "quiet p1 p'" using quiet_blocks(3) 1(2) by blast
    moreover have "evaluateBlocks sys regex (clause_blocks ((c # cs) ! k)) True p = Inr p1"
      using 1(1) Cons.prems(4) by (simp add: 0 bs c)
    ultimately show ?thesis using quiet_refl by blast
  next
    case (Suc i)
    have "\<not> b" using Cons.prems(5) bs Suc by fastforce
    then have "quiet p p1" using quiet_blocks(1) 1(1) by blast
    moreover have "\<exists>q q'. quiet p1 q \<and> evaluateBlocks sys regex (clause_blocks (cs ! i)) True q = Inr q' \<and> quiet q' p'"
    proof (rule Cons.IH [OF 1(2)])
      show "\<forall>j < length bs'. j \<noteq> i \<longrightarrow> \<not> bs' ! j"
        using Cons.prems(5) bs Suc by (metis Suc_inject Suc_less_eq length_Cons nth_Cons_Suc)
    qed (use Cons.prems bs Suc in auto)
    ultimately show ?thesis using quiet_trans Suc by auto
  qed
qed simp

lemma first_true_nth:
  "k < length bs \<Longrightarrow> first_true any bs ! k \<longleftrightarrow> bs ! k \<and> \<not> any \<and> (\<forall>j < k. \<not> bs ! j)"
proof (induction bs arbitrary: any k)
  case (Cons b bs)
  then show ?case by (cases k) (auto simp: less_Suc_eq_0_disj)
qed simp

lemma length_first_true [simp]: "length (first_true any bs) = length bs"
  by (induction bs arbitrary: any) auto


lemma example_ifblock:
  "case run_blocks example_declarations of Inl e \<Rightarrow> False | Inr p \<Rightarrow>
     (case evaluate_clauses plain_os (\<lambda>_. None) True example_clauses p of Inl e \<Rightarrow> False
      | Inr (bs, errs, p1) \<Rightarrow> bs = [False, True, True] \<and> \<not> errs) \<and>
     x_value (evaluateBlock plain_os (\<lambda>_. None) (B_ifblock example_clauses) True p) = Some (0, [''b''])"
  by code_simp


section \<open>Errors in conditions and target types\<close>

text \<open>
  against the comment in \<open>evaluateIfBlock\<close>, an error in a condition does not make all conditions
  false when it is an unknown variable: the error is reported, the condition counts as valid and
  false, and the else clause is evaluated.
\<close>

theorem unknown_condition_takes_else:
  "x_value (run_blocks (example_declarations @ [B_ifblock
      [createIfClause (Some (Cond_variable (tok ''$(NOPE)'' 3))) [assign_x ''a'' 4] True,
       createIfClause None [assign_x ''c'' 5] False]])) = Some (1, [''c''])
   \<and> x_value (run_blocks (example_declarations @ [B_ifblock
      [createIfClause (Some (Cond_variable (tok ''$(X)'' 3))) [assign_x ''a'' 4] True,
       createIfClause None [assign_x ''c'' 5] False]])) = Some (1, [''c''])
   \<and> x_value (run_blocks (example_declarations @ [assign_x ''s'' 3, B_ifblock
      [createIfClause (Some (Cond_variable (tok ''$(X)'' 4))) [assign_x ''a'' 5] True,
       createIfClause None [assign_x ''c'' 6] False]])) = Some (1, [''s''])"
  by code_simp

text \<open>
  three interface files that stop abuild or report a wrong error: a target type given by a variable
  that is not a string, and an after-build file whose name is empty, fail an assertion; a target
  type given by an unknown variable is reported twice.
\<close>

theorem evaluation_aborts:
  "run_blocks (example_declarations @ [B_targettype (tok ''$(B)'' 3)])
     = Inl (Assertion ''target_type_ids.count(target_type) > 0'')
   \<and> run_blocks [B_after_build (Word (loc 1) [(tok ''$(ENV:NOPE:)'' 1, w_environment)])]
     = Inl (Assertion ''! filename.empty()'')
   \<and> x_value (run_blocks (example_declarations @ [B_targettype (tok ''$(NOPE)'' 3)])) = Some (2, [])"
  by code_simp

end
