(* ===== verification/Platform_Data_Correct.thy ===== *)
theory Platform_Data_Correct
  imports Platform_Load Dependency_Graph_Properties Util_Strings_Correct
begin

text \<open>
  The invariant of a \<open>PlatformData\<close> object while platform types and platforms are added, also by
  calls that throw: the dependency graph has an item for every type and every platform, a type
  depends on at most one type, which is older, and on its platforms; the declaration numbers are
  different.
\<close>

section \<open>Items\<close>

definition is_name :: "string \<Rightarrow> bool" where
  "is_name s \<longleftrightarrow> s \<noteq> [] \<and> list_all (\<lambda>c. \<not> isspace c) s"

abbreviation type_item :: "string \<Rightarrow> item" where "type_item t \<equiv> PLATFORM_TYPE_PREFIX @ t"
abbreviation platform_item :: "string \<Rightarrow> item" where "platform_item p \<equiv> PLATFORM_PREFIX @ p"

lemma type_prefix: "PLATFORM_TYPE_PREFIX = PLATFORM_PREFIX @ ''type ''"
  by (simp add: PLATFORM_TYPE_PREFIX_def PLATFORM_PREFIX_def)

lemma type_not_platform:
  assumes "is_name p"
  shows "type_item t \<noteq> platform_item p"
proof
  assume "type_item t = platform_item p"
  then have "p = ''type '' @ t" by (simp only: type_prefix append_assoc same_append_eq)
  then have "CHR '' '' \<in> set p" by simp
  moreover have "isspace (CHR '' '')" by (simp add: isspace_def)
  ultimately show False using assms by (auto simp: is_name_def list_all_iff)
qed

lemma item_nonempty [simp]: "type_item t \<noteq> []" "platform_item p \<noteq> []"
  by (simp_all add: PLATFORM_TYPE_PREFIX_def PLATFORM_PREFIX_def)

lemma after_own_prefix [simp]:
  "is_name t \<Longrightarrow> after_prefix PLATFORM_TYPE_PREFIX (type_item t) = Some t"
  "is_name p \<Longrightarrow> after_prefix PLATFORM_PREFIX (platform_item p) = Some p"
  by (simp_all add: after_prefix_def starts_with_def is_name_def Let_def)

lemma after_other_prefix [simp]:
  "after_prefix PLATFORM_PREFIX (type_item t) = None"
  "is_name p \<Longrightarrow> after_prefix PLATFORM_TYPE_PREFIX (platform_item p) = None"
proof -
  show "after_prefix PLATFORM_PREFIX (type_item t) = None"
    by (simp add: after_prefix_def starts_with_def PLATFORM_PREFIX_def PLATFORM_TYPE_PREFIX_def
        isspace_def)
  assume "is_name p"
  then have "\<not> starts_with PLATFORM_TYPE_PREFIX (platform_item p)"
    using type_not_platform [of p] unfolding starts_with_def by (metis append_take_drop_id)
  then show "after_prefix PLATFORM_TYPE_PREFIX (platform_item p) = None"
    by (simp add: after_prefix_def)
qed

lemma map_filter_map_Some: "(\<And>x. x \<in> set xs \<Longrightarrow> f (g x) = Some x) \<Longrightarrow> List.map_filter f (map g xs) = xs"
  by (induction xs) (auto simp: List.map_filter_simps)

lemma map_filter_map_None: "(\<And>x. x \<in> set xs \<Longrightarrow> f (g x) = None) \<Longrightarrow> List.map_filter f (map g xs) = []"
  by (induction xs) (auto simp: List.map_filter_simps)

lemma map_filter_append: "List.map_filter f (xs @ ys) = List.map_filter f xs @ List.map_filter f ys"
  by (simp add: List.map_filter_def)

section \<open>The graph operations\<close>

lemma built_addItem:
  assumes "built g" and "\<not> om_has (dependencies g) i" and "i \<noteq> []"
  shows "\<exists>g'. addItem i g = Inr g' \<and> built g' \<and> dependencies g' = om_put i [] (dependencies g)"
proof -
  obtain g' where g': "addItem i g = Inr g'" "dependencies g' = om_put i [] (dependencies g)"
    using assms(2,3) by (simp add: addItem_def Let_def)
  then show ?thesis using built_item [OF assms(1)] by blast
qed

lemma built_addDependency:
  assumes "built g" and "om_has (dependencies g) i" and "d \<noteq> []"
  shows "\<exists>g'. addDependency i d g = Inr g' \<and> built g'
     \<and> dependencies g' = om_push_back i d (dependencies g)"
proof -
  obtain g' where g': "addDependency i d g = Inr g'"
      "dependencies g' = om_push_back i d (dependencies g)"
    using assms(2,3) by (simp add: addDependency_def Let_def)
  then show ?thesis using built_dep [OF assms(1)] by blast
qed

lemma length_om_put_fresh: "\<not> om_has m k \<Longrightarrow> length (om_put k v m) = Suc (length m)"
  by (induction k v m rule: om_put.induct) (auto simp: om_has_def split: if_splits)

section \<open>The invariant\<close>

definition five_fields :: "string \<Rightarrow> bool" where
  "five_fields p \<longleftrightarrow> length (split (CHR ''.'') p) = 4 \<or> length (split (CHR ''.'') p) = 5"

text \<open>What a type depends on: at most one other type, then its platforms.\<close>

definition type_deps ::
    "item_map \<Rightarrow> (string, target_type_e) omap \<Rightarrow> (string, string) omap \<Rightarrow> string \<Rightarrow> bool" where
  "type_deps D T P t \<longleftrightarrow>
     (\<exists>par ms. succs D (type_item t) = map (\<lambda>q. type_item q) par @ map (\<lambda>p. platform_item p) ms
        \<and> length par \<le> 1 \<and> distinct ms \<and> set ms = {p. om_get P p = Some t}
        \<and> (\<forall>q \<in> set par. om_get T t = Some tt_object_code \<and> om_get T q = Some tt_object_code))"

definition older :: "item_map \<Rightarrow> (string \<Rightarrow> nat) \<Rightarrow> bool" where
  "older D rank \<longleftrightarrow> (\<forall>t q. edge D (type_item t) (type_item q) \<longrightarrow> q = t \<or> rank q < rank t)"

definition shape ::
    "item_map \<Rightarrow> (string, target_type_e) omap \<Rightarrow> (string, string) omap \<Rightarrow> (string, int) omap \<Rightarrow> bool" where
  "shape D T P N \<longleftrightarrow> om_ok T
     \<and> (\<forall>x. om_has D x \<longleftrightarrow> (\<exists>t. x = type_item t \<and> om_has T t)
                          \<or> (\<exists>p. x = platform_item p \<and> om_has N p))
     \<and> (\<forall>t. om_has T t \<longrightarrow> is_name t) \<and> (\<forall>p. om_has N p \<longrightarrow> is_name p)
     \<and> (\<forall>p. is_name p \<longrightarrow> succs D (platform_item p) = [])
     \<and> (\<forall>t. type_deps D T P t)
     \<and> (\<forall>p t. om_get P p = Some t \<longrightarrow> om_has N p \<and> om_has T t
           \<and> (om_get T t = Some tt_object_code \<longrightarrow> five_fields p))
     \<and> (\<forall>p n. om_get N p = Some n \<longrightarrow> \<bar>n\<bar> < int (length N))
     \<and> (\<forall>p q m n. om_get N p = Some m \<longrightarrow> om_get N q = Some n \<longrightarrow> \<bar>m\<bar> = \<bar>n\<bar> \<longrightarrow> p = q)
     \<and> (\<exists>rank. older D rank)"

lemma shapeD:
  assumes "shape D T P N"
  shows "om_ok T"
    and "om_has D x \<longleftrightarrow> (\<exists>t. x = type_item t \<and> om_has T t) \<or> (\<exists>p. x = platform_item p \<and> om_has N p)"
    and "om_has T t \<Longrightarrow> is_name t" and "om_has N p \<Longrightarrow> is_name p"
    and "is_name p \<Longrightarrow> succs D (platform_item p) = []"
    and "type_deps D T P t"
    and "om_get P p = Some t \<Longrightarrow> om_has N p \<and> om_has T t
           \<and> (om_get T t = Some tt_object_code \<longrightarrow> five_fields p)"
    and "om_get N p = Some n \<Longrightarrow> \<bar>n\<bar> < int (length N)"
    and "om_get N p = Some m \<Longrightarrow> om_get N q = Some n \<Longrightarrow> \<bar>m\<bar> = \<bar>n\<bar> \<Longrightarrow> p = q"
    and "\<exists>rank. older D rank"
  using assms unfolding shape_def by blast+

lemma shapeI:
  assumes "om_ok T"
    and "\<And>x. om_has D x \<longleftrightarrow> (\<exists>t. x = type_item t \<and> om_has T t) \<or> (\<exists>p. x = platform_item p \<and> om_has N p)"
    and "\<And>t. om_has T t \<Longrightarrow> is_name t" and "\<And>p. om_has N p \<Longrightarrow> is_name p"
    and "\<And>p. is_name p \<Longrightarrow> succs D (platform_item p) = []"
    and "\<And>t. type_deps D T P t"
    and "\<And>p t. om_get P p = Some t \<Longrightarrow> om_has N p \<and> om_has T t
           \<and> (om_get T t = Some tt_object_code \<longrightarrow> five_fields p)"
    and "\<And>p n. om_get N p = Some n \<Longrightarrow> \<bar>n\<bar> < int (length N)"
    and "\<And>p q m n. om_get N p = Some m \<Longrightarrow> om_get N q = Some n \<Longrightarrow> \<bar>m\<bar> = \<bar>n\<bar> \<Longrightarrow> p = q"
    and "older D rank"
  shows "shape D T P N"
proof -
  have "\<forall>p t. om_get P p = Some t \<longrightarrow> om_has N p \<and> om_has T t
      \<and> (om_get T t = Some tt_object_code \<longrightarrow> five_fields p)"
    using assms(7) by blast
  moreover have "\<forall>p q m n. om_get N p = Some m \<longrightarrow> om_get N q = Some n \<longrightarrow> \<bar>m\<bar> = \<bar>n\<bar> \<longrightarrow> p = q"
    using assms(9) by blast
  moreover have "\<exists>rank. older D rank" using assms(10) by blast
  moreover have "\<forall>t. type_deps D T P t" using assms(6) by blast
  ultimately show ?thesis using assms(1-5,8) unfolding shape_def by simp
qed

section \<open>A new platform type\<close>

lemma type_depsE:
  assumes "type_deps D T P t"
  obtains par ms where "succs D (type_item t) = map (\<lambda>q. type_item q) par @ map (\<lambda>p. platform_item p) ms"
    and "length par \<le> 1" and "distinct ms" and "set ms = {p. om_get P p = Some t}"
    and "\<And>q. q \<in> set par \<Longrightarrow> om_get T t = Some tt_object_code \<and> om_get T q = Some tt_object_code"
  using assms unfolding type_deps_def by blast

lemma type_edge:
  assumes "shape D T P N" and "edge D (type_item t) (type_item q)"
  shows "om_get T t = Some tt_object_code \<and> om_get T q = Some tt_object_code"
proof -
  obtain par ms where d: "succs D (type_item t) = map (\<lambda>q. type_item q) par @ map (\<lambda>p. platform_item p) ms"
      "set ms = {p. om_get P p = Some t}"
      "\<And>q. q \<in> set par \<Longrightarrow> om_get T t = Some tt_object_code \<and> om_get T q = Some tt_object_code"
    using shapeD(6) [OF assms(1), of t] by (rule type_depsE) blast
  have "type_item q \<noteq> platform_item p" if "p \<in> set ms" for p
    using that d(2) shapeD(7,4) [OF assms(1)] type_not_platform by blast
  then have "q \<in> set par" using assms(2) unfolding edge_def d(1) by auto
  then show ?thesis by (rule d(3))
qed

lemma shape_new_type:
  assumes "shape D T P N" and "is_name t" and "\<not> om_has T t"
  shows "shape (om_put (type_item t) [] D) (om_put t tt T) P N"
proof -
  note inv = shapeD [OF assms(1)]
  let ?D = "om_put (type_item t) [] D" and ?T = "om_put t tt T"
  obtain rank where rank: "older D rank" using inv(10) by blast
  have members: "{p. om_get P p = Some t} = {}" using inv(7) assms(3) by blast
  have deps: "type_deps ?D ?T P t'" for t'
  proof (cases "t' = t")
    case True
    then have "succs ?D (type_item t') = map (\<lambda>q. type_item q) [] @ map (\<lambda>p. platform_item p) []" by simp
    then show ?thesis unfolding type_deps_def using True members by (intro exI [of _ "[]"]) simp
  next
    case False
    obtain par ms where d: "succs D (type_item t') = map (\<lambda>q. type_item q) par @ map (\<lambda>p. platform_item p) ms"
      "length par \<le> 1" "distinct ms" "set ms = {p. om_get P p = Some t'}"
      "\<And>q. q \<in> set par \<Longrightarrow> om_get T t' = Some tt_object_code \<and> om_get T q = Some tt_object_code"
      using inv(6) [of t'] by (rule type_depsE) blast
    then have "succs ?D (type_item t') = map (\<lambda>q. type_item q) par @ map (\<lambda>p. platform_item p) ms"
      using False by simp
    then show ?thesis unfolding type_deps_def using d(2-5) False
      using assms(3) by (intro exI [of _ par] exI [of _ ms]) (auto simp: om_has_def)
  qed
  show ?thesis
  proof (rule shapeI [where rank = rank])
    show "om_has ?D x \<longleftrightarrow> (\<exists>t. x = type_item t \<and> om_has ?T t) \<or> (\<exists>p. x = platform_item p \<and> om_has N p)" for x
      using inv(2) [of x] by auto
    show "succs ?D (platform_item p) = []" if "is_name p" for p
      using inv(5) [OF that] by simp
    show "older ?D rank" using rank by (auto simp: older_def edge_def)
    show "om_has N p \<and> om_has ?T t' \<and> (om_get ?T t' = Some tt_object_code \<longrightarrow> five_fields p)"
      if "om_get P p = Some t'" for p t'
      using inv(7) [OF that] assms(3) by (cases "t' = t") simp_all
    show "om_ok ?T" using inv(1) by simp
    show "is_name t'" if "om_has ?T t'" for t'
      using that inv(3) [of t'] assms(2) by (auto simp only: om_has_put)
  qed (rule deps | erule (2) inv(9) | erule inv(4,8))+
qed

lemma shape_link:
  assumes "shape D T P N" and "succs D (type_item t) = []"
    and "om_get T t = Some tt_object_code" and "om_get T q = Some tt_object_code"
    and "\<And>t'. \<not> edge D (type_item t') (type_item t)"
  shows "shape (om_push_back (type_item t) (type_item q) D) T P N"
proof -
  note inv = shapeD [OF assms(1)]
  let ?D = "om_push_back (type_item t) (type_item q) D"
  have succs: "succs ?D x = (if x = type_item t then [type_item q] else succs D x)" for x
    using assms(2) by simp
  obtain rank where rank: "older D rank" using inv(10) by blast
  have deps: "type_deps ?D T P t'" for t'
  proof -
    obtain par ms where d: "succs D (type_item t') = map (\<lambda>q. type_item q) par @ map (\<lambda>p. platform_item p) ms"
      "length par \<le> 1" "distinct ms" "set ms = {p. om_get P p = Some t'}"
      "\<And>q. q \<in> set par \<Longrightarrow> om_get T t' = Some tt_object_code \<and> om_get T q = Some tt_object_code"
      using inv(6) [of t'] by (rule type_depsE) blast
    define par' where "par' = (if t' = t then [q] else par)"
    have "ms = []" if "t' = t" using that d(1) assms(2) by simp
    then have "succs ?D (type_item t') = map (\<lambda>q. type_item q) par' @ map (\<lambda>p. platform_item p) ms"
      using d(1) unfolding succs par'_def by simp
    then show ?thesis unfolding type_deps_def using d(2-5) assms(3,4)
      by (intro exI [of _ par'] exI [of _ ms]) (auto simp: par'_def)
  qed
  show ?thesis
  proof (rule shapeI [where rank = "rank(t := if q = t then rank t else Suc (rank q))"])
    have "om_has T t" using assms(3) by (simp add: om_has_def)
    then show "om_has ?D x \<longleftrightarrow> (\<exists>t. x = type_item t \<and> om_has T t) \<or> (\<exists>p. x = platform_item p \<and> om_has N p)" for x
      using inv(2) [of x] by auto
    show "succs ?D (platform_item p) = []" if "is_name p" for p
      using inv(5) [OF that] type_not_platform [OF that, of t] unfolding succs by (simp del: append_same_eq)
    show "older ?D (rank(t := if q = t then rank t else Suc (rank q)))"
      unfolding older_def
    proof (intro allI impI)
      fix t' q'
      assume e: "edge ?D (type_item t') (type_item q')"
      show "q' = t' \<or> (rank(t := if q = t then rank t else Suc (rank q))) q'
          < (rank(t := if q = t then rank t else Suc (rank q))) t'"
      proof (cases "t' = t")
        case True
        then have "q' = q" using e unfolding edge_def succs by simp
        then show ?thesis using True by simp
      next
        case False
        then have e': "edge D (type_item t') (type_item q')" using e unfolding edge_def succs by simp
        then have "q' \<noteq> t" using assms(5) by blast
        then show ?thesis using e' rank False unfolding older_def by simp
      qed
    qed
  qed (rule inv(1) deps | erule (2) inv(9) | erule inv(3,4,7,8))+
qed

section \<open>A new platform\<close>

lemma shape_new_platform:
  assumes "shape D T P N" and "is_name p" and "\<not> om_has N p" and "\<bar>n\<bar> = int (length N)"
  shows "shape (om_put (platform_item p) [] D) T P (om_put p n N)"
proof -
  note inv = shapeD [OF assms(1)]
  let ?D = "om_put (platform_item p) [] D" and ?N = "om_put p n N"
  obtain rank where rank: "older D rank" using inv(10) by blast
  have succs: "succs ?D x = succs D x" for x
    using inv(5) [OF assms(2)] by simp
  show ?thesis
  proof (rule shapeI [where rank = rank])
    show "om_has ?D x \<longleftrightarrow> (\<exists>t. x = type_item t \<and> om_has T t) \<or> (\<exists>p. x = platform_item p \<and> om_has ?N p)" for x
      using inv(2) [of x] by auto
    show "succs ?D (platform_item p') = []" if "is_name p'" for p'
      unfolding succs by (rule inv(5) [OF that])
    show "older ?D rank" using rank by (simp only: older_def edge_def succs)
    show "type_deps ?D T P t" for t using inv(6) by (simp only: type_deps_def succs)
    show "om_has ?N p' \<and> om_has T t' \<and> (om_get T t' = Some tt_object_code \<longrightarrow> five_fields p')"
      if "om_get P p' = Some t'" for p' t'
      using inv(7) [OF that] by simp
    show "\<bar>m\<bar> < int (length ?N)" if "om_get ?N p' = Some m" for p' m
      using that inv(8) [of p' m] assms(4) length_om_put_fresh [OF assms(3)] by (auto split: if_splits)
    show "p1 = p2" if "om_get ?N p1 = Some m1" "om_get ?N p2 = Some m2" "\<bar>m1\<bar> = \<bar>m2\<bar>" for p1 p2 m1 m2
      using that inv(8) [of p1 m1] inv(8) [of p2 m2] inv(9) [of p1 m1 p2 m2] assms(4)
      by (auto split: if_splits)
    show "is_name p'" if "om_has ?N p'" for p'
      using that inv(4) [of p'] assms(2) by (auto simp only: om_has_put)
  qed (rule inv(1) | erule inv(3))+
qed

lemma shape_member:
  assumes "shape D T P N" and "om_has N p" and "om_get P p = None" and "om_has T t"
    and "om_get T t = Some tt_object_code \<longrightarrow> five_fields p"
  shows "shape (om_push_back (type_item t) (platform_item p) D) T (om_put p t P) N"
proof -
  note inv = shapeD [OF assms(1)]
  let ?D = "om_push_back (type_item t) (platform_item p) D" and ?P = "om_put p t P"
  have p: "is_name p" using assms(2) by (rule inv(4))
  have succs: "succs ?D x = (if x = type_item t then succs D x @ [platform_item p] else succs D x)" for x
    by simp
  obtain rank where rank: "older D rank" using inv(10) by blast
  have deps: "type_deps ?D T ?P t'" for t'
  proof -
    obtain par ms where d: "succs D (type_item t') = map (\<lambda>q. type_item q) par @ map (\<lambda>p. platform_item p) ms"
      "length par \<le> 1" "distinct ms" "set ms = {p. om_get P p = Some t'}"
      "\<And>q. q \<in> set par \<Longrightarrow> om_get T t' = Some tt_object_code \<and> om_get T q = Some tt_object_code"
      using inv(6) [of t'] by (rule type_depsE) blast
    define ms' where "ms' = (if t' = t then ms @ [p] else ms)"
    have 1: "succs ?D (type_item t') = map (\<lambda>q. type_item q) par @ map (\<lambda>p. platform_item p) ms'"
      using d(1) by (cases "t' = t") (simp_all add: ms'_def)
    have "p \<notin> set ms" using d(4) assms(3) by simp
    then have "distinct ms'" "set ms' = {x. om_get ?P x = Some t'}"
      using d(3,4) assms(3) by (auto simp: ms'_def)
    with 1 show ?thesis unfolding type_deps_def using d(2,5)
      by (intro exI [of _ par] exI [of _ ms']) simp
  qed
  show ?thesis
  proof (rule shapeI [where rank = rank])
    show "om_has ?D x \<longleftrightarrow> (\<exists>t. x = type_item t \<and> om_has T t) \<or> (\<exists>p. x = platform_item p \<and> om_has N p)" for x
      using inv(2) [of x] assms(4) by auto
    show "succs ?D (platform_item p') = []" if "is_name p'" for p'
      using inv(5) [OF that] type_not_platform [OF that, of t] unfolding succs by (simp del: append_same_eq)
    have "edge ?D (type_item t') (type_item q') \<longleftrightarrow> edge D (type_item t') (type_item q')" for t' q'
      using type_not_platform [OF p, of q'] unfolding edge_def succs
      by (simp del: append_same_eq add: if_distrib [of set])
    then show "older ?D rank" using rank by (simp add: older_def)
    show "om_has N p' \<and> om_has T t' \<and> (om_get T t' = Some tt_object_code \<longrightarrow> five_fields p')"
      if "om_get ?P p' = Some t'" for p' t'
      using that inv(7) [of p' t'] assms(2,4,5) by (auto split: if_splits)
  qed (rule inv(1) deps | erule (2) inv(9) | erule inv(3,4,8))+
qed

section \<open>The operations keep it\<close>

definition pd_inv :: "platform_data \<Rightarrow> bool" where
  "pd_inv pd \<longleftrightarrow> \<not> pd_initializing pd \<and> built (platform_graph pd) \<and> compatible_platform_types pd = []
     \<and> shape (dependencies (platform_graph pd)) (target_types pd) (platform_types pd)
             (platform_declaration pd)
     \<and> length (platform_declaration pd) \<ge> 2
     \<and> om_get (target_types pd) pt_INDEP = Some tt_platform_independent"

text \<open>The outcome of an operation that fails no assertion.\<close>

definition only_general :: "'a res \<Rightarrow> bool" where
  "only_general r \<longleftrightarrow> (case r of Inr x \<Rightarrow> True | Inl a \<Rightarrow> (case a of Qexc_General msg \<Rightarrow> True | _ \<Rightarrow> False))"

lemma only_general_simps [simp]:
  "only_general (Inr x)" "only_general (Inl (Qexc_General msg))" "\<not> only_general (Inl (Assertion a))"
  "\<not> only_general (Inl (Qexc_Internal a))" "\<not> only_general (Inl (Undefined a))"
  by (simp_all add: only_general_def)

lemma type_item_fresh:
  assumes "shape D T P N" and "\<not> om_has T t"
  shows "\<not> om_has D (type_item t)"
proof
  assume "om_has D (type_item t)"
  then obtain p where "type_item t = platform_item p" "om_has N p"
    using shapeD(2) [OF assms(1), of "type_item t"] assms(2) by auto
  then show False using shapeD(4) [OF assms(1)] type_not_platform by blast
qed

lemma platform_item_fresh:
  assumes "shape D T P N" and "is_name p" and "\<not> om_has N p"
  shows "\<not> om_has D (platform_item p)"
  using shapeD(2) [OF assms(1), of "platform_item p"] assms(3) type_not_platform [OF assms(2)]
  by (metis same_append_eq)

lemma addPlatformType_inv:
  assumes "pd_inv pd" and "is_name t"
  shows "pd_inv (fst (addPlatformType t tt_object_code parent pd))
     \<and> only_general (snd (addPlatformType t tt_object_code parent pd))"
proof (cases "om_has (target_types pd) t")
  case True
  then show ?thesis using assms(1) by (simp add: addPlatformType_def Let_def pd_inv_def)
next
  case new: False
  let ?D = "dependencies (platform_graph pd)" and ?T = "om_put t tt_object_code (target_types pd)"
  have sh: "shape ?D (target_types pd) (platform_types pd) (platform_declaration pd)"
    and b: "built (platform_graph pd)" using assms(1) by (simp_all add: pd_inv_def)
  have fresh: "\<not> om_has ?D (type_item t)" using sh new by (rule type_item_fresh)
  then obtain g where g: "addItem (type_item t) (platform_graph pd) = Inr g" "built g"
      "dependencies g = om_put (type_item t) [] ?D"
    using built_addItem [OF b] item_nonempty(1) by blast
  let ?pd = "pd\<lparr>pd_checked := False, target_types := ?T,
      platform_type_parents := om_put t parent (platform_type_parents pd), platform_graph := g\<rparr>"
  have sh': "shape (dependencies g) ?T (platform_types pd) (platform_declaration pd)"
    unfolding g(3) using sh assms(2) new by (rule shape_new_type)
  have indep: "om_get ?T pt_INDEP = Some tt_platform_independent"
    using assms(1) new by (auto simp: pd_inv_def om_has_def)
  have inv': "pd_inv ?pd" using assms(1) g(2) sh' indep by (simp add: pd_inv_def)
  have run: "addPlatformType t tt_object_code parent pd =
      (if parent = [] then (?pd, Inr ()) else set_parent t tt_object_code parent ?pd)"
    using new g(1) by (simp add: addPlatformType_def Let_def on_graph_def and_then_def)
  have link: "pd_inv (fst (set_parent t tt_object_code parent ?pd))
      \<and> only_general (snd (set_parent t tt_object_code parent ?pd))"
  proof (cases "om_get ?T parent = Some tt_object_code")
    case False
    then show ?thesis using inv' by (auto simp: set_parent_def split: option.splits)
  next
    case True
    have "om_has (dependencies g) (type_item t)" by (simp add: g(3))
    then obtain g' where g': "addDependency (type_item t) (type_item parent) g = Inr g'" "built g'"
        "dependencies g' = om_push_back (type_item t) (type_item parent) (dependencies g)"
      using built_addDependency [OF g(2)] item_nonempty(1) by blast
    have "\<not> edge ?D (type_item t') (type_item t)" for t'
      using type_edge [OF sh] new by (auto simp: om_has_def)
    then have none: "\<not> edge (dependencies g) (type_item t') (type_item t)" for t'
      unfolding g(3) edge_def by (cases "t' = t") simp_all
    have "shape (dependencies g') ?T (platform_types pd) (platform_declaration pd)"
      unfolding g'(3) by (rule shape_link [OF sh' _ _ True none]) (simp_all add: g(3))
    then have "pd_inv (?pd\<lparr>platform_graph := g'\<rparr>)"
      using assms(1) g'(2) indep by (simp add: pd_inv_def)
    moreover have "set_parent t tt_object_code parent ?pd = (?pd\<lparr>platform_graph := g'\<rparr>, Inr ())"
      using True g'(1) by (simp add: set_parent_def on_graph_def)
    ultimately show ?thesis by simp
  qed
  show ?thesis unfolding run using inv' link by (cases "parent = []") simp_all
qed

lemma addPlatform_inv:
  assumes "pd_inv pd" and "is_name p" and "five_fields p"
  shows "pd_inv (fst (addPlatform p t lowpri pd)) \<and> only_general (snd (addPlatform p t lowpri pd))"
proof (cases "om_has (platform_declaration pd) p")
  case True
  then show ?thesis using assms(1) by (simp add: addPlatform_def Let_def pd_inv_def)
next
  case new: False
  let ?D = "dependencies (platform_graph pd)" and ?n = "int (length (platform_declaration pd))"
  let ?N = "om_put p (if lowpri then - ?n else ?n) (platform_declaration pd)"
  have sh: "shape ?D (target_types pd) (platform_types pd) (platform_declaration pd)"
    and b: "built (platform_graph pd)" using assms(1) by (simp_all add: pd_inv_def)
  have fresh: "\<not> om_has ?D (platform_item p)" using sh assms(2) new by (rule platform_item_fresh)
  then obtain g where g: "addItem (platform_item p) (platform_graph pd) = Inr g" "built g"
      "dependencies g = om_put (platform_item p) [] ?D"
    using built_addItem [OF b] item_nonempty(2) by blast
  let ?pd = "pd\<lparr>pd_checked := False, platform_declaration := ?N, platform_graph := g\<rparr>"
  have sh': "shape (dependencies g) (target_types pd) (platform_types pd) ?N"
    unfolding g(3) using sh assms(2) new by (rule shape_new_platform) simp
  have len: "length ?N \<ge> 2" using assms(1) length_om_put_fresh [OF new] by (simp add: pd_inv_def)
  have inv': "pd_inv ?pd" using assms(1) g(2) sh' len by (simp add: pd_inv_def)
  show ?thesis
  proof (cases "om_has (target_types pd) t")
    case False
    then have "fst (addPlatform p t lowpri pd) = ?pd" "only_general (snd (addPlatform p t lowpri pd))"
      using new g(1) by (simp_all add: addPlatform_def Let_def on_graph_def and_then_def)
    then show ?thesis using inv' by (simp only:)
  next
    case True
    have "om_has (dependencies g) (type_item t)"
      using True shapeD(2) [OF sh'] by blast
    then obtain g' where g': "addDependency (type_item t) (platform_item p) g = Inr g'" "built g'"
        "dependencies g' = om_push_back (type_item t) (platform_item p) (dependencies g)"
      using built_addDependency [OF g(2)] item_nonempty(2) by blast
    let ?pd' = "?pd\<lparr>platform_graph := g', platform_types := om_put p t (platform_types pd)\<rparr>"
    have "om_get (platform_types pd) p = None"
      using shapeD(7) [OF sh, of p] new by (cases "om_get (platform_types pd) p") auto
    then have "shape (dependencies g') (target_types pd) (om_put p t (platform_types pd)) ?N"
      unfolding g'(3) using True assms(3) by (intro shape_member [OF sh']) simp_all
    then have "pd_inv ?pd'" using assms(1) g'(2) len by (simp add: pd_inv_def)
    moreover have "addPlatform p t lowpri pd = (?pd', Inr ())"
      using new True g(1) g'(1) by (simp add: addPlatform_def Let_def on_graph_def and_then_def)
    ultimately show ?thesis by simp
  qed
qed

section \<open>The object of the constructor\<close>

definition platform_data0 :: platform_data where
  "platform_data0 = fst PlatformData"

lemma PlatformData_returns: "PlatformData = (platform_data0, Inr ())"
proof -
  have "snd PlatformData = Inr ()" by code_simp
  then show ?thesis by (metis platform_data0_def prod.collapse)
qed

lemma shape_empty: "shape [] [] [] []"
  by (rule shapeI [where rank = "\<lambda>t. 0"]) (simp_all add: type_deps_def older_def edge_def)

lemma platform_data0_inv: "pd_inv platform_data0"
proof -
  let ?T = "om_put pt_JAVA tt_java (om_put pt_NATIVE tt_object_code
      (om_put pt_INDEP tt_platform_independent []))"
  let ?D1 = "om_put (type_item pt_JAVA) [] (om_put (type_item pt_NATIVE) []
      (om_put (type_item pt_INDEP) [] ([] :: item_map)))"
  let ?D2 = "om_push_back (type_item pt_INDEP) (platform_item PLATFORM_INDEP)
      (om_put (platform_item PLATFORM_INDEP) [] ?D1)"
  let ?D3 = "om_push_back (type_item pt_JAVA) (platform_item PLATFORM_JAVA)
      (om_put (platform_item PLATFORM_JAVA) [] ?D2)"
  have names: "is_name pt_INDEP" "is_name pt_NATIVE" "is_name pt_JAVA" "is_name PLATFORM_INDEP"
      "is_name PLATFORM_JAVA" by code_simp+
  have "shape ?D1 ?T [] []"
    by (intro shape_new_type shape_empty names)
       (simp_all add: pt_INDEP_def pt_NATIVE_def pt_JAVA_def om_has_def)
  then have "shape (om_put (platform_item PLATFORM_INDEP) [] ?D1) ?T [] (om_put PLATFORM_INDEP 0 [])"
    by (rule shape_new_platform) (simp_all add: names)
  then have "shape ?D2 ?T (om_put PLATFORM_INDEP pt_INDEP []) (om_put PLATFORM_INDEP 0 [])"
    by (rule shape_member) (simp_all add: pt_INDEP_def pt_NATIVE_def pt_JAVA_def om_has_def)
  then have "shape (om_put (platform_item PLATFORM_JAVA) [] ?D2) ?T (om_put PLATFORM_INDEP pt_INDEP [])
      (om_put PLATFORM_JAVA 1 (om_put PLATFORM_INDEP 0 []))"
    by (rule shape_new_platform)
       (simp_all add: names, simp_all add: PLATFORM_INDEP_def PLATFORM_JAVA_def om_has_def)
  then have "shape ?D3 ?T (om_put PLATFORM_JAVA pt_JAVA (om_put PLATFORM_INDEP pt_INDEP []))
      (om_put PLATFORM_JAVA 1 (om_put PLATFORM_INDEP 0 []))"
    by (rule shape_member) (simp_all add: pt_INDEP_def pt_NATIVE_def pt_JAVA_def
        PLATFORM_INDEP_def PLATFORM_JAVA_def om_has_def)
  moreover have "dependencies (platform_graph platform_data0) = ?D3"
    "target_types platform_data0 = ?T"
    "platform_types platform_data0 = om_put PLATFORM_JAVA pt_JAVA (om_put PLATFORM_INDEP pt_INDEP [])"
    "platform_declaration platform_data0 = om_put PLATFORM_JAVA 1 (om_put PLATFORM_INDEP 0 [])"
    by code_simp+
  moreover have "built (platform_graph platform_data0)"
  proof -
    let ?r = "bind_res (bind_res (bind_res (bind_res (bind_res (bind_res (bind_res (Inr new_graph)
        (addItem (type_item pt_INDEP))) (addItem (type_item pt_NATIVE))) (addItem (type_item pt_JAVA)))
        (addItem (platform_item PLATFORM_INDEP)))
        (addDependency (type_item pt_INDEP) (platform_item PLATFORM_INDEP)))
        (addItem (platform_item PLATFORM_JAVA)))
        (addDependency (type_item pt_JAVA) (platform_item PLATFORM_JAVA))"
    have "built_res (Inr new_graph)" by (simp add: built_res_def built_new)
    then have "built_res ?r" by (intro built_res_item built_res_dep)
    moreover have "?r = Inr (platform_graph platform_data0)" by code_simp
    ultimately show ?thesis by (simp only: built_res_def)
  qed
  moreover have "\<not> pd_initializing platform_data0" "compatible_platform_types platform_data0 = []"
    "2 \<le> length (platform_declaration platform_data0)"
    "om_get (target_types platform_data0) pt_INDEP = Some tt_platform_independent"
    by code_simp+
  ultimately show ?thesis unfolding pd_inv_def by simp
qed

section \<open>Objects that are filled\<close>

text \<open>All that is reached by adding, whether or not the calls throw.\<close>

inductive filled :: "platform_data \<Rightarrow> bool" where
  filled_new: "filled platform_data0"
| filled_type: "filled pd \<Longrightarrow> is_name t \<Longrightarrow> filled (fst (addPlatformType t tt_object_code parent pd))"
| filled_platform: "filled pd \<Longrightarrow> is_name p \<Longrightarrow> five_fields p \<Longrightarrow> filled (fst (addPlatform p t lowpri pd))"

lemma filled_inv: "filled pd \<Longrightarrow> pd_inv pd"
  by (induction rule: filled.induct) (simp_all add: platform_data0_inv addPlatformType_inv addPlatform_inv)

end
