(* ===== verification/Platform_Data_Check.thy ===== *)
theory Platform_Data_Check
  imports Platform_Data_Correct
begin

text \<open>
  What \<open>check\<close> computes from a filled object: the graph has an error exactly when a type is its
  own parent; otherwise the platforms of a type are those added to it, the latest first, and the
  compatible types are the parents up to the root.
\<close>

section \<open>The parent in the graph\<close>

text \<open>
  The parent that a type depends on. It need not be the one in \<open>platform_type_parents\<close>, which is
  also recorded when \<open>addPlatformType\<close> rejects it.
\<close>

definition linked_parent :: "platform_data \<Rightarrow> string \<Rightarrow> string option" where
  "linked_parent pd t =
     (case List.map_filter (after_prefix PLATFORM_TYPE_PREFIX)
             (succs (dependencies (platform_graph pd)) (type_item t)) of
        [] \<Rightarrow> None | q # _ \<Rightarrow> Some q)"

definition members :: "platform_data \<Rightarrow> string \<Rightarrow> string list" where
  "members pd t = List.map_filter (after_prefix PLATFORM_PREFIX)
     (succs (dependencies (platform_graph pd)) (type_item t))"

text \<open>A list of parents, each of the one before, that goes on to a type without parent.\<close>

fun parent_chain :: "platform_data \<Rightarrow> string \<Rightarrow> string list \<Rightarrow> bool" where
  "parent_chain pd t [] = (linked_parent pd t = None)"
| "parent_chain pd t (q # qs) = (linked_parent pd t = Some q \<and> parent_chain pd q qs)"

definition self_parent :: "platform_data \<Rightarrow> bool" where
  "self_parent pd \<longleftrightarrow> (\<exists>t. linked_parent pd t = Some t)"

lemma type_succs:
  assumes "pd_inv pd"
  defines "D \<equiv> dependencies (platform_graph pd)"
  shows "succs D (type_item t) =
     (case linked_parent pd t of None \<Rightarrow> [] | Some q \<Rightarrow> [type_item q]) @
     map (\<lambda>p. platform_item p) (members pd t)"
    and "distinct (members pd t)" and "set (members pd t) = {p. om_get (platform_types pd) p = Some t}"
proof -
  have sh: "shape D (target_types pd) (platform_types pd) (platform_declaration pd)"
    using assms(1) by (simp add: pd_inv_def D_def)
  obtain par ms where d: "succs D (type_item t) = map (\<lambda>q. type_item q) par @ map (\<lambda>p. platform_item p) ms"
      "length par \<le> 1" "distinct ms" "set ms = {p. om_get (platform_types pd) p = Some t}"
      "\<And>q. q \<in> set par \<Longrightarrow> om_get (target_types pd) t = Some tt_object_code
           \<and> om_get (target_types pd) q = Some tt_object_code"
    using shapeD(6) [OF sh, of t] by (rule type_depsE) blast
  have names: "is_name q" if "q \<in> set par" for q
    using d(5) [OF that] shapeD(3) [OF sh, of q] by (simp add: om_has_def)
  have names': "is_name p" if "p \<in> set ms" for p
    using that d(4) shapeD(7) [OF sh, of p t] shapeD(4) [OF sh, of p] by simp
  have ms: "members pd t = ms"
    unfolding members_def D_def [symmetric] d(1) map_filter_append
    using names' by (simp add: map_filter_map_Some map_filter_map_None)
  have "List.map_filter (after_prefix PLATFORM_TYPE_PREFIX) (succs D (type_item t)) = par"
    unfolding d(1) map_filter_append using names names'
    by (simp add: map_filter_map_Some map_filter_map_None)
  then have "linked_parent pd t = (case par of [] \<Rightarrow> None | q # _ \<Rightarrow> Some q)"
    by (simp add: linked_parent_def D_def)
  moreover have "par = [] \<or> (\<exists>q. par = [q])" using d(2) by (cases par) auto
  ultimately show "succs D (type_item t) =
     (case linked_parent pd t of None \<Rightarrow> [] | Some q \<Rightarrow> [type_item q]) @
     map (\<lambda>p. platform_item p) (members pd t)"
    unfolding d(1) ms by auto
  show "distinct (members pd t)" "set (members pd t) = {p. om_get (platform_types pd) p = Some t}"
    using d(3,4) by (simp_all add: ms)
qed

lemma pd_inv_shape:
  "pd_inv pd \<Longrightarrow> shape (dependencies (platform_graph pd)) (target_types pd) (platform_types pd)
     (platform_declaration pd)"
  by (simp add: pd_inv_def)

lemma member_name:
  assumes "pd_inv pd" and "p \<in> set (members pd t)"
  shows "is_name p \<and> om_has (platform_declaration pd) p"
  using assms(2) type_succs(3) [OF assms(1), of t] shapeD(4,7) [OF pd_inv_shape [OF assms(1)]] by auto

lemma edge_from_type:
  assumes "pd_inv pd"
  shows "edge (dependencies (platform_graph pd)) (type_item t) y \<longleftrightarrow>
     (\<exists>q. linked_parent pd t = Some q \<and> y = type_item q) \<or> (\<exists>p \<in> set (members pd t). y = platform_item p)"
  using type_succs(1) [OF assms, of t] by (auto simp: edge_def split: option.splits)

lemma type_edge_linked:
  assumes "pd_inv pd"
  shows "edge (dependencies (platform_graph pd)) (type_item t) (type_item q) \<longleftrightarrow> linked_parent pd t = Some q"
  unfolding edge_from_type [OF assms] using member_name [OF assms] type_not_platform by auto

lemma linked_types:
  assumes "pd_inv pd" and "linked_parent pd t = Some q"
  shows "om_get (target_types pd) t = Some tt_object_code" and "om_get (target_types pd) q = Some tt_object_code"
  using type_edge [OF pd_inv_shape [OF assms(1)], of t q] type_edge_linked [OF assms(1), of t q] assms(2) by simp_all

lemma edge_cases:
  assumes "pd_inv pd" and "edge (dependencies (platform_graph pd)) x y"
  shows "\<exists>t. x = type_item t \<and> om_has (target_types pd) t"
proof -
  note sh = pd_inv_shape [OF assms(1)]
  have "om_has (dependencies (platform_graph pd)) x" using assms(2) by (rule edge_has)
  then consider t where "x = type_item t" "om_has (target_types pd) t"
    | p where "x = platform_item p" "om_has (platform_declaration pd) p"
    using shapeD(2) [OF sh, of x] by blast
  then show ?thesis
  proof cases
    case 2
    then have "succs (dependencies (platform_graph pd)) x = []" using shapeD(4,5) [OF sh] by simp
    then show ?thesis using assms(2) by (simp add: edge_def)
  qed blast
qed

section \<open>Errors of the graph\<close>

lemma platform_graph_closed:
  assumes "pd_inv pd"
  shows "closed_deps (dependencies (platform_graph pd))"
  unfolding closed_deps_def
proof (intro allI impI)
  fix x y
  assume e: "edge (dependencies (platform_graph pd)) x y"
  note sh = pd_inv_shape [OF assms]
  obtain t where t: "x = type_item t" using edge_cases [OF assms e] by blast
  have "(\<exists>q. linked_parent pd t = Some q \<and> y = type_item q) \<or> (\<exists>p \<in> set (members pd t). y = platform_item p)"
    using e edge_from_type [OF assms] unfolding t by blast
  then show "om_has (dependencies (platform_graph pd)) y"
  proof (elim disjE exE bexE conjE)
    fix q assume "linked_parent pd t = Some q" "y = type_item q"
    then show ?thesis using linked_types(2) [OF assms] shapeD(2) [OF sh, of y] by (auto simp: om_has_def)
  next
    fix p assume "p \<in> set (members pd t)" "y = platform_item p"
    then show ?thesis using member_name [OF assms] shapeD(2) [OF sh, of y] by blast
  qed
qed

definition type_rank :: "(string \<Rightarrow> nat) \<Rightarrow> item \<Rightarrow> nat" where
  "type_rank rank x = (case after_prefix PLATFORM_TYPE_PREFIX x of None \<Rightarrow> 0 | Some t \<Rightarrow> Suc (rank t))"

lemma linked_older:
  assumes "pd_inv pd"
  shows "\<exists>rank. \<forall>t q. linked_parent pd t = Some q \<longrightarrow> q = t \<or> rank q < (rank t :: nat)"
proof -
  obtain rank where "older (dependencies (platform_graph pd)) rank"
    using shapeD(10) [OF pd_inv_shape [OF assms]] by blast
  then show ?thesis unfolding older_def type_edge_linked [OF assms] by blast
qed

lemma platform_graph_acyclic:
  assumes "pd_inv pd"
  shows "acyclic_deps (dependencies (platform_graph pd)) \<longleftrightarrow> \<not> self_parent pd"
proof
  let ?D = "dependencies (platform_graph pd)"
  assume "acyclic_deps ?D"
  then show "\<not> self_parent pd"
    unfolding acyclic_deps_def self_parent_def using type_edge_linked [OF assms] by blast
next
  let ?D = "dependencies (platform_graph pd)"
  assume no: "\<not> self_parent pd"
  obtain rank where rank: "\<And>t q. linked_parent pd t = Some q \<Longrightarrow> q = t \<or> rank q < (rank t :: nat)"
    using linked_older [OF assms] by blast
  note sh = pd_inv_shape [OF assms]
  have step: "type_rank rank y < type_rank rank x" if e: "edge ?D x y" for x y
  proof -
    obtain t where t: "x = type_item t" "om_has (target_types pd) t" using edge_cases [OF assms e] by blast
    then have x: "type_rank rank x = Suc (rank t)" using shapeD(3) [OF sh] by (simp add: type_rank_def)
    have "(\<exists>q. linked_parent pd t = Some q \<and> y = type_item q) \<or> (\<exists>p \<in> set (members pd t). y = platform_item p)"
      using e edge_from_type [OF assms] unfolding t(1) by blast
    then show ?thesis
    proof (elim disjE exE bexE conjE)
      fix q assume q: "linked_parent pd t = Some q" "y = type_item q"
      then have "is_name q" using linked_types(2) [OF assms] shapeD(3) [OF sh, of q] by (simp add: om_has_def)
      moreover have "rank q < rank t" using rank [OF q(1)] no q(1) by (auto simp: self_parent_def)
      ultimately show ?thesis unfolding x q(2) by (simp add: type_rank_def)
    next
      fix p assume p: "p \<in> set (members pd t)" "y = platform_item p"
      then show ?thesis using member_name [OF assms p(1)] unfolding x p(2) by (simp add: type_rank_def)
    qed
  qed
  have "(edge ?D)\<^sup>+\<^sup>+ x y \<Longrightarrow> type_rank rank y < type_rank rank x" for x y
    by (induction rule: tranclp_induct) (auto dest: step)
  then show "acyclic_deps ?D" unfolding acyclic_deps_def by blast
qed

text \<open>The invariant speaks about the object as far as \<open>check\<close> leaves it alone.\<close>

lemma check_graph:
  assumes "pd_inv pd"
  obtains g b where "check (platform_graph pd) = Inr (g, b)" and "b \<longleftrightarrow> \<not> self_parent pd"
    and "dependencies g = dependencies (platform_graph pd)" and "b \<Longrightarrow> graph_ready g" and "checked g"
proof -
  obtain g b where "check (platform_graph pd) = Inr (g, b)" "checked g"
      "dependencies g = dependencies (platform_graph pd)" "b \<longleftrightarrow> graph_state g = GS_READY"
      "b \<longleftrightarrow> closed_deps (dependencies (platform_graph pd)) \<and> acyclic_deps (dependencies (platform_graph pd))"
    using check_built assms unfolding pd_inv_def by blast
  then show ?thesis
    using that platform_graph_closed [OF assms] platform_graph_acyclic [OF assms] by (auto simp: graph_ready_def)
qed

section \<open>The order of the parents\<close>

lemma parent_chain_exists:
  assumes "pd_inv pd" and "\<not> self_parent pd"
  shows "\<exists>qs. parent_chain pd t qs"
proof -
  obtain rank where rank: "\<And>t q. linked_parent pd t = Some q \<Longrightarrow> q = t \<or> rank q < (rank t :: nat)"
    using linked_older [OF assms(1)] by blast
  show ?thesis
  proof (induction "rank t" arbitrary: t rule: less_induct)
    case less
    show ?case
    proof (cases "linked_parent pd t")
      case None
      then have "parent_chain pd t []" by simp
      then show ?thesis by blast
    next
      case (Some q)
      then have "rank q < rank t" using rank [OF Some] assms(2) by (auto simp: self_parent_def)
      then obtain qs where "parent_chain pd q qs" using less by blast
      then have "parent_chain pd t (q # qs)" using Some by simp
      then show ?thesis by blast
    qed
  qed
qed

text \<open>The types that can be reached from a type are those of its chain.\<close>

lemma chain_reach:
  assumes "pd_inv pd" and "parent_chain pd t qs"
  shows "(edge (dependencies (platform_graph pd)))\<^sup>*\<^sup>* (type_item t) (type_item u) \<longleftrightarrow> u = t \<or> u \<in> set qs"
proof -
  let ?E = "edge (dependencies (platform_graph pd))"
  have up: "u \<in> set qs \<Longrightarrow> ?E\<^sup>*\<^sup>* (type_item t) (type_item u)" for u
    using assms(2)
  proof (induction qs arbitrary: t)
    case (Cons q qs)
    have first: "?E (type_item t) (type_item q)" using Cons.prems(2) type_edge_linked [OF assms(1)] by simp
    show ?case
    proof (cases "u = q")
      case True
      then show ?thesis using first by blast
    next
      case False
      then have "?E\<^sup>*\<^sup>* (type_item q) (type_item u)" using Cons by simp
      then show ?thesis using first by (rule converse_rtranclp_into_rtranclp [rotated])
    qed
  qed simp
  have down: "(\<exists>v. y = type_item v \<and> (v = t \<or> v \<in> set qs)) \<or> (\<exists>p. is_name p \<and> y = platform_item p)"
    if "?E\<^sup>*\<^sup>* (type_item t) y" for y
    using that
  proof (induction rule: rtranclp_induct)
    case base
    then show ?case by blast
  next
    case (step y z)
    obtain v where v: "y = type_item v" using edge_cases [OF assms(1) step.hyps(2)] by blast
    then have "v = t \<or> v \<in> set qs" using step.IH type_not_platform by auto
    moreover have "(\<exists>q. linked_parent pd v = Some q \<and> z = type_item q)
        \<or> (\<exists>p \<in> set (members pd v). z = platform_item p)"
      using step.hyps(2) edge_from_type [OF assms(1)] unfolding v by blast
    moreover have "q \<in> set qs" if "linked_parent pd v = Some q" "v = t \<or> v \<in> set qs" for q v
      using assms(2) that
    proof (induction qs arbitrary: t)
      case (Cons r qs)
      then show ?case by (cases "v = t") auto
    qed auto
    ultimately show ?case using member_name [OF assms(1)] by blast
  qed
  show ?thesis
  proof
    assume "?E\<^sup>*\<^sup>* (type_item t) (type_item u)"
    then show "u = t \<or> u \<in> set qs" using down type_not_platform by auto
  qed (use up in auto)
qed

definition type_names :: "item list \<Rightarrow> string list" where
  "type_names xs = List.map_filter (after_prefix PLATFORM_TYPE_PREFIX) xs"

lemma type_names_simps [simp]:
  "type_names [] = []" "type_names (xs @ ys) = type_names xs @ type_names ys"
  by (simp_all add: type_names_def map_filter_append List.map_filter_simps)

text \<open>A sorted list of dependencies has the parents before their children.\<close>

lemma type_names_order:
  assumes "pd_inv pd" and "checked g" and "dependencies g = dependencies (platform_graph pd)"
    and "deps_first xs (succs (dependencies g))"
    and "\<And>x. x \<in> set xs \<Longrightarrow> om_has (dependencies g) x"
    and "distinct xs" and "parent_chain pd t qs"
    and "\<And>u. type_item u \<in> set xs \<longleftrightarrow> u = t \<or> u \<in> set qs"
  shows "type_names xs = rev qs @ [t]"
proof -
  note sh = pd_inv_shape [OF assms(1)]
  let ?f = "\<lambda>u. index_of xs (type_item u)"
  have kinds: "(\<exists>u. x = type_item u \<and> is_name u) \<or> (\<exists>p. x = platform_item p \<and> is_name p)"
    if "x \<in> set xs" for x
    using assms(5) [OF that] shapeD(2) [OF sh, of x] shapeD(3,4) [OF sh] unfolding assms(3) by blast
  have mem: "u \<in> set (type_names ys) \<longleftrightarrow> type_item u \<in> set ys" if "set ys \<subseteq> set xs" for u ys
    using that
  proof (induction ys)
    case (Cons y ys)
    then show ?case
      using kinds [of y] type_not_platform
      by (auto simp: type_names_def List.map_filter_simps)
  qed (simp add: type_names_def List.map_filter_simps)
  have sorted_names: "sorted_wrt (<) (map ?f (type_names ys))" if "xs = zs @ ys" for ys zs
    using that
  proof (induction ys arbitrary: zs)
    case (Cons y ys)
    then have rest: "sorted_wrt (<) (map ?f (type_names ys))" by (metis append.assoc append_Cons append_Nil)
    have sub: "set (y # ys) \<subseteq> set xs" and ysub: "set ys \<subseteq> set xs" using Cons.prems by auto
    show ?case
    proof (cases "\<exists>u. y = type_item u \<and> is_name u")
      case True
      then obtain u where u: "y = type_item u" "is_name u" by blast
      have "?f u < ?f v" if "v \<in> set (type_names ys)" for v
      proof -
        have "type_item v \<in> set ys" using that mem [OF ysub] by blast
        then show ?thesis using Cons.prems assms(6) u(1) by (auto simp: index_of_append)
      qed
      then show ?thesis using rest u by (simp add: type_names_def List.map_filter_simps)
    next
      case False
      then obtain p where "y = platform_item p" "is_name p" using kinds [of y] sub by auto
      then show ?thesis using rest by (simp add: type_names_def List.map_filter_simps)
    qed
  qed (simp add: type_names_def List.map_filter_simps)
  have chain_order: "sorted_wrt (\<lambda>u v. ?f v < ?f u) (t # qs)"
  proof -
    have "successively (\<lambda>u v. ?f v < ?f u) (t # qs)"
      if "parent_chain pd t qs" "set (t # qs) \<subseteq> {u. type_item u \<in> set xs}" for t qs
      using that
    proof (induction qs arbitrary: t)
      case (Cons q qs)
      have "edge (dependencies g) (type_item t) (type_item q)"
        using Cons.prems(1) type_edge_linked [OF assms(1)] unfolding assms(3) by simp
      then have "?f q < ?f t"
        using deps_first_index [OF assms(4)] Cons.prems(2) by (simp add: edge_def)
      then show ?case using Cons by simp
    qed simp
    moreover have "set (t # qs) \<subseteq> {u. type_item u \<in> set xs}" using assms(8) by auto
    ultimately have "successively (\<lambda>u v. ?f v < ?f u) (t # qs)" using assms(7) by blast
    then show ?thesis by (subst (asm) successively_conv_sorted_wrt) (auto simp: transp_def)
  qed
  have 1: "sorted_wrt (<) (map ?f (type_names xs))" by (rule sorted_names [of "[]"]) simp
  have 2: "sorted_wrt (<) (map ?f (rev qs @ [t]))"
  proof -
    have "sorted_wrt (\<lambda>u v. ?f u < ?f v) (rev (t # qs))"
      using chain_order by (simp only: sorted_wrt_rev)
    then show ?thesis by (simp only: sorted_wrt_map rev.simps)
  qed
  have sets: "set (type_names xs) = set (rev qs @ [t])" using mem [of xs] assms(8) by auto
  have "map ?f (type_names xs) = map ?f (rev qs @ [t])"
  proof (rule sorted_distinct_set_unique)
    show "sorted (map ?f (type_names xs))" "distinct (map ?f (type_names xs))"
      using 1 unfolding strict_sorted_iff by blast+
    show "sorted (map ?f (rev qs @ [t]))" "distinct (map ?f (rev qs @ [t]))"
      using 2 unfolding strict_sorted_iff by blast+
    show "set (map ?f (type_names xs)) = set (map ?f (rev qs @ [t]))"
      by (simp only: set_map sets)
  qed
  moreover have "inj_on ?f (set (type_names xs) \<union> set (rev qs @ [t]))"
  proof (rule inj_onI)
    fix u v
    assume "u \<in> set (type_names xs) \<union> set (rev qs @ [t])" "v \<in> set (type_names xs) \<union> set (rev qs @ [t])"
      and eq: "?f u = ?f v"
    then have "type_item u \<in> set xs" "type_item v \<in> set xs" using sets mem [of xs] by auto
    then have "type_item u = type_item v" using eq by (rule index_of_inj)
    then show "u = v" by simp
  qed
  ultimately show ?thesis by (rule map_inj_on)
qed

section \<open>One platform type\<close>

text \<open>The platforms of a type, the latest declaration first.\<close>

definition ranked :: "platform_data \<Rightarrow> string \<Rightarrow> string list" where
  "ranked pd t = sort_key (\<lambda>p. - declared_at pd p) (members pd t)"

lemma ranked_correct:
  assumes "pd_inv pd"
  shows "set (ranked pd t) = {p. om_get (platform_types pd) p = Some t}"
    and "sorted_wrt (\<lambda>p q. declared_at pd p > declared_at pd q) (ranked pd t)"
proof -
  let ?f = "\<lambda>p. - declared_at pd p"
  show set: "set (ranked pd t) = {p. om_get (platform_types pd) p = Some t}"
    using type_succs(3) [OF assms] by (simp add: ranked_def)
  have inj: "inj_on ?f (set (members pd t))"
  proof (rule inj_onI)
    fix p q
    assume "p \<in> set (members pd t)" "q \<in> set (members pd t)" and eq: "?f p = ?f q"
    then obtain m n where mn: "om_get (platform_declaration pd) p = Some m"
        "om_get (platform_declaration pd) q = Some n"
      using member_name [OF assms] by (fastforce simp: om_has_def)
    then have "\<bar>m\<bar> = \<bar>n\<bar>" using eq by (simp add: declared_at_def om_get_default_def)
    then show "p = q" using shapeD(9) [OF pd_inv_shape [OF assms] mn] by blast
  qed
  have "sorted (map ?f (ranked pd t))" by (simp add: ranked_def)
  moreover have "distinct (map ?f (ranked pd t))"
    using inj type_succs(2) [OF assms, of t] by (simp add: ranked_def distinct_map)
  ultimately have "sorted_wrt (<) (map ?f (ranked pd t))" by (simp add: strict_sorted_iff)
  then show "sorted_wrt (\<lambda>p q. declared_at pd p > declared_at pd q) (ranked pd t)"
    by (simp add: sorted_wrt_map)
qed

lemma sort_key_map_pair: "sort_key (\<lambda>p. f (fst p)) (map (\<lambda>p. (p, b)) xs) = map (\<lambda>p. (p, b)) (sort_key f xs)"
proof -
  have "insort_key (\<lambda>p. f (fst p)) (x, b) (map (\<lambda>p. (p, b)) ys) = map (\<lambda>p. (p, b)) (insort_key f x ys)" for x ys
    by (induction ys) auto
  then show ?thesis by (induction xs) simp_all
qed

text \<open>
  What \<open>check\<close> has when it comes to the types: the object of the caller with the checked graph. The
  maps that are filled have no entry yet for the types to come.
\<close>

definition ready_for :: "platform_data \<Rightarrow> platform_data \<Rightarrow> bool" where
  "ready_for pd pd' \<longleftrightarrow> graph_ready (platform_graph pd')
     \<and> dependencies (platform_graph pd') = dependencies (platform_graph pd)
     \<and> target_types pd' = target_types pd \<and> platform_types pd' = platform_types pd
     \<and> platform_declaration pd' = platform_declaration pd
     \<and> platform_type_parents pd' = platform_type_parents pd \<and> pd_checked pd'"

definition bad_selector :: "platform_selector option \<Rightarrow> target_type_e \<Rightarrow> bool" where
  "bad_selector ps target_type \<longleftrightarrow>
     (case ps of None \<Rightarrow> False | Some ps \<Rightarrow> \<not> isSkip ps \<and> target_type \<noteq> tt_object_code)"

definition use_selector ::
    "(string \<times> platform_selector) option \<Rightarrow> bool \<Rightarrow> (string, string) omap \<Rightarrow> (string, string) omap" where
  "use_selector found used unused =
     (case found of None \<Rightarrow> unused | Some (which, _) \<Rightarrow> if used then om_erase which unused else unused)"

lemma check_type_eq:
  assumes "pd_inv pd" and "ready_for pd pd'" and "om_has (target_types pd) t"
    and "om_get (platforms_by_type pd') t = None" and "om_get (compatible_platform_types pd') t = None"
    and "parent_chain pd t qs" and found_def: "found = find_selector selectors t tt"
  shows "check_type selectors (t, tt) (pd', unused) =
     (if bad_selector (map_option snd found) tt
      then Inl (Qexc_General (''platform selectors for non-object-code platform types'' @
                              '' may only specify skip''))
      else bind_res (select_platforms (map_option snd found) (map (\<lambda>p. (p, False)) (ranked pd t)))
        (\<lambda>(platforms, used).
           Inr (pd'\<lparr>platforms_by_type := om_put t platforms (platforms_by_type pd'),
                    compatible_platform_types := om_put t qs (compatible_platform_types pd')\<rparr>,
                use_selector found used unused)))"
proof -
  let ?g = "platform_graph pd'" and ?D = "dependencies (platform_graph pd)"
  note sh = pd_inv_shape [OF assms(1)]
  have g: "graph_ready ?g" "dependencies ?g = ?D" "platform_declaration pd' = platform_declaration pd"
    using assms(2) by (simp_all add: ready_for_def)
  have ch: "checked ?g" using g(1) by (simp add: graph_ready_def)
  have has: "om_has (dependencies ?g) (type_item t)"
    unfolding g(2) using shapeD(2) [OF sh, of "type_item t"] assms(3) by blast
  then have inorder: "type_item t \<in> set (in_order ?g)"
    using ch by (auto simp: checked_def om_has_iff)
  obtain xs where xs: "om_get (sorted_dependencies ?g) (type_item t) = Some xs"
      "sorted_entry (dependencies ?g) (type_item t) xs" "deps_first xs (succs (dependencies ?g))"
    using ch g(1) inorder unfolding checked_def graph_ready_def by blast
  have direct: "getDirectDependencies ?g (type_item t) = Inr (succs ?D (type_item t))"
    using queries_ready(1) [OF g(1) inorder] by (simp add: direct_deps_def g(2))
  have sorted: "getSortedDependencies ?g (type_item t) = Inr xs"
    using xs(1) g(1) by (simp add: getSortedDependencies_def assertChecked_def lookup_item_def graph_ready_def)
  have entry: "distinct xs" "xs \<noteq> []" "last xs = type_item t"
      "\<And>x. x \<in> set xs \<Longrightarrow> om_has ?D x \<and> (edge ?D)\<^sup>*\<^sup>* (type_item t) x"
    using xs(2) unfolding sorted_entry_def g(2) by blast+
  have closed: "y \<in> set xs" if "(edge ?D)\<^sup>*\<^sup>* (type_item t) y" for y
    using that
  proof (induction rule: rtranclp_induct)
    case base
    then show ?case using entry(2,3) last_in_set by metis
  next
    case (step y z)
    then show ?case using deps_first_closed [OF xs(3)] by (auto simp: edge_def g(2))
  qed
  have "type_names xs = rev qs @ [t]"
  proof (rule type_names_order [OF assms(1) ch g(2) xs(3) _ entry(1) assms(6)])
    show "om_has (dependencies ?g) x" if "x \<in> set xs" for x using entry(4) [OF that] g(2) by simp
    show "type_item u \<in> set xs \<longleftrightarrow> u = t \<or> u \<in> set qs" for u
      using entry(4) closed chain_reach [OF assms(1,6), of u] by blast
  qed
  moreover have "xs = butlast xs @ [type_item t]" using entry(2,3) append_butlast_last_id by metis
  ultimately have "type_names (butlast xs) @ type_names [type_item t] = rev qs @ [t]"
    by (metis type_names_simps(2))
  moreover have "type_names [type_item t] = [t]"
    using shapeD(3) [OF sh assms(3)] by (simp add: type_names_def List.map_filter_simps)
  ultimately have but: "type_names (butlast xs) = rev qs" by simp
  have types: "List.map_filter (after_prefix PLATFORM_TYPE_PREFIX) (rev (butlast xs)) = qs"
  proof -
    have "List.map_filter f (rev ys) = rev (List.map_filter f ys)" for f :: "item \<Rightarrow> string option" and ys
      by (simp add: List.map_filter_def rev_map rev_filter)
    then show ?thesis using but by (simp add: type_names_def)
  qed
  have decl: "om_has (platform_declaration pd') p" if "p \<in> set (members pd t)" for p
    using member_name [OF assms(1) that] g(3) by simp
  have sort: "sort_platforms pd' (map (\<lambda>p. (p, False)) (members pd t)) =
      Inr (map (\<lambda>p. (p, False)) (ranked pd t))"
  proof -
    have "declared_at pd' = declared_at pd" by (simp add: fun_eq_iff declared_at_def g(3))
    then show ?thesis
      using decl sort_key_map_pair [of "\<lambda>p. - declared_at pd p" False "members pd t"]
      by (simp add: sort_platforms_def ranked_def list_all_iff)
  qed
  have plats: "om_get_default [] (platforms_by_type pd') t = []"
    "om_get_default [] (compatible_platform_types pd') t = []"
    using assms(4,5) by (simp_all add: om_get_default_def)
  show ?thesis
    unfolding check_type_def Let_def prod.case found_def [symmetric] bad_selector_def [symmetric]
      direct sorted bind_res_Inr plats append_Nil types members_def [symmetric] sort
      use_selector_def
    by (rule refl)
qed

section \<open>Selection\<close>

text \<open>The fields of a platform; the option is empty if there are four.\<close>

definition fields_of :: "string \<Rightarrow> string list" where
  "fields_of p = (let fs = split (CHR ''.'') p in if length fs = 5 then fs else fs @ [[]])"

definition selector_fields :: "platform_selector \<Rightarrow> string list" where
  "selector_fields s = [ps_os s, ps_cpu s, ps_toolset s, ps_compiler s, ps_option s]"

text \<open>
  A field of the selector is the wildcard, or the field of the platform, or empty while the
  platform has the field of the first platform; for the option, while it has none.
\<close>

definition selects :: "platform_selector \<Rightarrow> string \<Rightarrow> string \<Rightarrow> bool" where
  "selects s first p \<longleftrightarrow>
     (\<forall>i < 5. let f = selector_fields s ! i; x = fields_of p ! i
              in f = ANY \<or> f = x \<or> f = [] \<and> x = (if i < 4 then fields_of first ! i else []))"

definition chosen :: "platform_selector option \<Rightarrow> string list \<Rightarrow> string \<Rightarrow> bool" where
  "chosen sel ps p =
     (case sel of
        None \<Rightarrow> p = hd ps
      | Some s \<Rightarrow>
          if isSkip s then False
          else if \<not> isDefault s \<and> list_ex (selects s (hd ps)) ps then selects s (hd ps) p
          else p = hd ps)"

definition selector_used :: "platform_selector option \<Rightarrow> string list \<Rightarrow> bool" where
  "selector_used sel ps \<longleftrightarrow> ps \<noteq> [] \<and>
     (case sel of None \<Rightarrow> False
      | Some s \<Rightarrow> isSkip s \<or> isDefault s \<or> list_ex (selects s (hd ps)) ps)"

lemma five_fieldsE:
  assumes "five_fields p"
  obtains a b c d e where "fields_of p = [a, b, c, d, e]" and "split_platform p [] = Inr (a, b, c, d, e)"
proof -
  obtain fs where fs: "split (CHR ''.'') p = fs" by blast
  then have "length fs = 4 \<or> length fs = 5" using assms by (simp add: five_fields_def)
  then consider a b c d where "fs = [a, b, c, d]" | a b c d e where "fs = [a, b, c, d, e]"
    by (auto simp: length_Suc_conv eval_nat_numeral)
  then show ?thesis
    by cases (use fs that in \<open>simp_all add: fields_of_def split_platform_def\<close>)
qed

lemma All_less_5: "(\<forall>i < 5. P i) \<longleftrightarrow> P 0 \<and> P 1 \<and> P 2 \<and> P 3 \<and> P (4::nat)"
proof -
  have "i < 5 \<longleftrightarrow> i = 0 \<or> i = 1 \<or> i = 2 \<or> i = 3 \<or> i = 4" for i :: nat by arith
  then show ?thesis by auto
qed

lemma matcher_selects:
  assumes "five_fields first" and "\<not> isDefault s"
  shows "\<exists>m. new_matcher first s = Inr m \<and> (\<forall>p. five_fields p \<longrightarrow> matches m p = Inr (selects s first p))"
proof -
  obtain a b c d e where f: "fields_of first = [a, b, c, d, e]" "split_platform first [] = Inr (a, b, c, d, e)"
    using five_fieldsE [OF assms(1)] by blast
  let ?m = "\<lparr>default_os = a, default_cpu = b, default_toolset = c, default_compiler = d,
      default_option = [], selector_of = s\<rparr>"
  have "new_matcher first s = Inr ?m" using assms(2) f(2) by (simp add: new_matcher_def)
  moreover have "matches ?m p = Inr (selects s first p)" if p: "five_fields p" for p
  proof -
    obtain a' b' c' d' e' where "fields_of p = [a', b', c', d', e']"
        "split_platform p [] = Inr (a', b', c', d', e')"
      using five_fieldsE [OF p] by blast
    then show ?thesis
      unfolding matches_def selects_def All_less_5 f(1) selector_fields_def
      by (auto simp: fieldsMatch_def Let_def)
  qed
  ultimately show ?thesis by blast
qed

lemma mark_matching_map:
  assumes "\<And>p. p \<in> set ps \<Longrightarrow> matches m p = Inr (f p)"
  shows "mark_matching m (map (\<lambda>p. (p, False)) ps) = Inr (map (\<lambda>p. (p, f p)) ps)"
  using assms by (induction ps) simp_all

lemma select_platforms_chosen:
  assumes "distinct ps"
    and "\<And>s p. sel = Some s \<Longrightarrow> \<not> isSkip s \<Longrightarrow> p \<in> set ps \<Longrightarrow> five_fields p"
  shows "select_platforms sel (map (\<lambda>p. (p, False)) ps) =
     Inr (map (\<lambda>p. (p, chosen sel ps p)) ps, selector_used sel ps)"
proof (cases ps)
  case Nil
  then show ?thesis by (simp add: select_platforms_def selector_used_def)
next
  case (Cons x xs)
  have first: "select_first (map (\<lambda>p. (p, False)) ps) = map (\<lambda>p. (p, p = hd ps)) ps"
    using assms(1) Cons by (auto simp: select_first_def)
  have ne: "map (\<lambda>p. (p, False)) ps \<noteq> []" "fst (hd (map (\<lambda>p. (p, False)) ps)) = hd ps"
    using Cons by simp_all
  show ?thesis
  proof (cases sel)
    case None
    then show ?thesis using ne(1) first by (simp add: select_platforms_def chosen_def selector_used_def)
  next
    case (Some s)
    show ?thesis
    proof (cases "isSkip s \<or> isDefault s")
      case True
      then show ?thesis using Some ne(1) first Cons
        by (auto simp: select_platforms_def chosen_def selector_used_def)
    next
      case False
      have five: "five_fields p" if "p \<in> set ps" for p using assms(2) [OF Some _ that] False by blast
      then have "five_fields (hd ps)" using Cons by simp
      then obtain m where m: "new_matcher (hd ps) s = Inr m"
          "\<And>p. five_fields p \<Longrightarrow> matches m p = Inr (selects s (hd ps) p)"
        using matcher_selects False by blast
      have "mark_matching m (map (\<lambda>p. (p, False)) ps) = Inr (map (\<lambda>p. (p, selects s (hd ps) p)) ps)"
        using m(2) five by (intro mark_matching_map) blast
      then have run: "select_platforms sel (map (\<lambda>p. (p, False)) ps) =
          (if list_ex (selects s (hd ps)) ps then Inr (map (\<lambda>p. (p, selects s (hd ps) p)) ps, True)
           else Inr (select_first (map (\<lambda>p. (p, selects s (hd ps) p)) ps), False))"
        unfolding select_platforms_def Some using False ne m(1)
        by (simp add: list_ex_iff)
      show ?thesis
      proof (cases "list_ex (selects s (hd ps)) ps")
        case True
        then show ?thesis using run False Some Cons by (auto simp: chosen_def selector_used_def)
      next
        case none: False
        then have "map (\<lambda>p. (p, selects s (hd ps) p)) ps = map (\<lambda>p. (p, False)) ps"
          by (simp add: list_ex_iff)
        then have "select_first (map (\<lambda>p. (p, selects s (hd ps) p)) ps) = map (\<lambda>p. (p, p = hd ps)) ps"
          using first by (simp only:)
        then have "select_platforms sel (map (\<lambda>p. (p, False)) ps) = Inr (map (\<lambda>p. (p, p = hd ps)) ps, False)"
          using run none by (simp only: if_False)
        then show ?thesis using False Some none by (simp add: chosen_def selector_used_def)
      qed
    qed
  qed
qed

section \<open>All types\<close>

abbreviation found_for ::
    "(string, platform_selector) omap \<Rightarrow> string \<times> target_type_e \<Rightarrow> platform_selector option" where
  "found_for selectors t \<equiv> map_option snd (find_selector selectors (fst t) (snd t))"

definition bad_types :: "(string, platform_selector) omap \<Rightarrow> (string \<times> target_type_e) list \<Rightarrow> bool" where
  "bad_types selectors ts \<longleftrightarrow> (\<exists>t \<in> set ts. bad_selector (found_for selectors t) (snd t))"

text \<open>What the maps hold for a type when its round of the loop is over.\<close>

definition type_done ::
    "(string, platform_selector) omap \<Rightarrow> platform_data \<Rightarrow> string \<times> target_type_e \<Rightarrow> platform_data \<Rightarrow> bool" where
  "type_done selectors pd t pd' \<longleftrightarrow>
     om_get (platforms_by_type pd') (fst t) =
       Some (map (\<lambda>p. (p, chosen (found_for selectors t) (ranked pd (fst t)) p)) (ranked pd (fst t)))
     \<and> (\<exists>qs. parent_chain pd (fst t) qs \<and> om_get (compatible_platform_types pd') (fst t) = Some qs)"

definition uses_key ::
    "(string, platform_selector) omap \<Rightarrow> platform_data \<Rightarrow> string \<times> target_type_e \<Rightarrow> string \<Rightarrow> bool" where
  "uses_key selectors pd t k \<longleftrightarrow>
     map_option fst (find_selector selectors (fst t) (snd t)) = Some k
     \<and> selector_used (found_for selectors t) (ranked pd (fst t))"

lemma ranked_five:
  assumes "pd_inv pd" and "om_get (target_types pd) t = Some tt_object_code" and "p \<in> set (ranked pd t)"
  shows "five_fields p"
  using assms ranked_correct(1) [OF assms(1), of t] shapeD(7) [OF pd_inv_shape [OF assms(1)], of p t] by auto

lemma ranked_distinct: "pd_inv pd \<Longrightarrow> distinct (ranked pd t)"
  using type_succs(2) by (simp add: ranked_def)

lemma check_type_step:
  assumes "pd_inv pd" and "\<not> self_parent pd" and "ready_for pd pd'"
    and "om_get (target_types pd) t = Some tt"
    and "om_get (platforms_by_type pd') t = None" and "om_get (compatible_platform_types pd') t = None"
    and "\<not> bad_selector (found_for selectors (t, tt)) tt"
  shows "\<exists>pd'' unused'. check_type selectors (t, tt) (pd', unused) = Inr (pd'', unused')
     \<and> ready_for pd pd'' \<and> type_done selectors pd (t, tt) pd''
     \<and> (\<forall>u. u \<noteq> t \<longrightarrow> om_get (platforms_by_type pd'') u = om_get (platforms_by_type pd') u
            \<and> om_get (compatible_platform_types pd'') u = om_get (compatible_platform_types pd') u)
     \<and> (\<forall>k. om_get unused' k = (if uses_key selectors pd (t, tt) k then None else om_get unused k))"
proof -
  obtain qs where qs: "parent_chain pd t qs" using parent_chain_exists [OF assms(1,2)] by blast
  have has: "om_has (target_types pd) t" using assms(4) by (simp add: om_has_def)
  let ?found = "find_selector selectors t tt" and ?r = "ranked pd t"
  have bad: "\<not> bad_selector (map_option snd ?found) tt" using assms(7) by simp
  have five: "five_fields p" if "map_option snd ?found = Some s" "\<not> isSkip s" "p \<in> set ?r" for s p
  proof -
    have "tt = tt_object_code" using bad that(1,2) by (auto simp: bad_selector_def split: option.splits)
    then show ?thesis using ranked_five [OF assms(1)] assms(4) that(3) by blast
  qed
  have sel: "select_platforms (map_option snd ?found) (map (\<lambda>p. (p, False)) ?r) =
      Inr (map (\<lambda>p. (p, chosen (map_option snd ?found) ?r p)) ?r, selector_used (map_option snd ?found) ?r)"
    using ranked_distinct [OF assms(1)] five by (intro select_platforms_chosen) blast+
  let ?pd = "pd'\<lparr>platforms_by_type := om_put t (map (\<lambda>p. (p, chosen (map_option snd ?found) ?r p)) ?r)
                    (platforms_by_type pd'),
                 compatible_platform_types := om_put t qs (compatible_platform_types pd')\<rparr>"
  let ?u = "use_selector ?found (selector_used (map_option snd ?found) ?r) unused"
  have "check_type selectors (t, tt) (pd', unused) = Inr (?pd, ?u)"
    using check_type_eq [OF assms(1,3) has assms(5,6) qs refl, of selectors tt unused] bad sel by simp
  moreover have "ready_for pd ?pd" using assms(3) by (simp add: ready_for_def)
  moreover have "type_done selectors pd (t, tt) ?pd" using qs by (simp add: type_done_def)
  moreover have "om_get ?u k = (if uses_key selectors pd (t, tt) k then None else om_get unused k)" for k
    by (cases ?found) (auto simp: use_selector_def uses_key_def)
  ultimately show ?thesis by (intro exI [of _ ?pd] exI [of _ ?u]) simp
qed

lemma check_types_correct:
  assumes "pd_inv pd" and "\<not> self_parent pd" and "ready_for pd pd'" and "distinct (map fst ts)"
    and "\<And>t. t \<in> set ts \<Longrightarrow> om_get (target_types pd) (fst t) = Some (snd t)
       \<and> om_get (platforms_by_type pd') (fst t) = None
       \<and> om_get (compatible_platform_types pd') (fst t) = None"
  shows "if bad_types selectors ts then \<exists>msg. check_types selectors ts (pd', unused) = Inl (Qexc_General msg)
     else \<exists>pd'' unused'. check_types selectors ts (pd', unused) = Inr (pd'', unused') \<and> ready_for pd pd''
       \<and> (\<forall>t \<in> set ts. type_done selectors pd t pd'')
       \<and> (\<forall>u. u \<notin> fst ` set ts \<longrightarrow> om_get (platforms_by_type pd'') u = om_get (platforms_by_type pd') u
            \<and> om_get (compatible_platform_types pd'') u = om_get (compatible_platform_types pd') u)
       \<and> (\<forall>k. om_get unused' k =
            (if \<exists>t \<in> set ts. uses_key selectors pd t k then None else om_get unused k))"
  using assms(3-5)
proof (induction ts arbitrary: pd' unused)
  case Nil
  then show ?case by (simp add: bad_types_def)
next
  case (Cons x ts)
  obtain t tt where x: "x = (t, tt)" by (cases x)
  have t: "om_get (target_types pd) t = Some tt" "om_get (platforms_by_type pd') t = None"
      "om_get (compatible_platform_types pd') t = None" using Cons.prems(3) [of x] by (simp_all add: x)
  show ?case
  proof (cases "bad_selector (found_for selectors x) tt")
    case True
    obtain qs where qs: "parent_chain pd t qs" using parent_chain_exists [OF assms(1,2)] by blast
    have has: "om_has (target_types pd) t" using t(1) by (simp add: om_has_def)
    have "\<exists>msg. check_type selectors (t, tt) (pd', unused) = Inl (Qexc_General msg)"
      using check_type_eq [OF assms(1) Cons.prems(1) has t(2,3) qs refl, of selectors tt unused] True
      by (simp add: x)
    moreover have "bad_types selectors (x # ts)" using True by (simp add: bad_types_def x)
    ultimately show ?thesis by (auto simp: x)
  next
    case good: False
    then obtain pd1 u1 where s: "check_type selectors (t, tt) (pd', unused) = Inr (pd1, u1)"
        "ready_for pd pd1" "type_done selectors pd (t, tt) pd1"
        "\<And>u. u \<noteq> t \<Longrightarrow> om_get (platforms_by_type pd1) u = om_get (platforms_by_type pd') u
            \<and> om_get (compatible_platform_types pd1) u = om_get (compatible_platform_types pd') u"
        "\<And>k. om_get u1 k = (if uses_key selectors pd (t, tt) k then None else om_get unused k)"
      using check_type_step [OF assms(1,2) Cons.prems(1) t, of selectors unused] unfolding x by blast
    have tn: "t \<notin> fst ` set ts" and dist: "distinct (map fst ts)"
      using Cons.prems(2) by (simp_all add: x)
    have fresh: "om_get (target_types pd) (fst y) = Some (snd y)
       \<and> om_get (platforms_by_type pd1) (fst y) = None
       \<and> om_get (compatible_platform_types pd1) (fst y) = None" if "y \<in> set ts" for y
    proof -
      have "fst y \<noteq> t" using that tn by auto
      then show ?thesis using Cons.prems(3) [of y] s(4) [of "fst y"] that by simp
    qed
    have bad: "bad_types selectors (x # ts) \<longleftrightarrow> bad_types selectors ts"
      using good by (simp add: bad_types_def x)
    have run: "check_types selectors (x # ts) (pd', unused) = check_types selectors ts (pd1, u1)"
      by (simp add: x s(1))
    note IH = Cons.IH [OF s(2) dist fresh, of u1]
    show ?thesis
    proof (cases "bad_types selectors ts")
      case True
      then show ?thesis using IH unfolding bad run by simp
    next
      case False
      then obtain pd2 u2 where e: "check_types selectors ts (pd1, u1) = Inr (pd2, u2)" "ready_for pd pd2"
          "\<And>y. y \<in> set ts \<Longrightarrow> type_done selectors pd y pd2"
          "\<And>u. u \<notin> fst ` set ts \<Longrightarrow> om_get (platforms_by_type pd2) u = om_get (platforms_by_type pd1) u
            \<and> om_get (compatible_platform_types pd2) u = om_get (compatible_platform_types pd1) u"
          "\<And>k. om_get u2 k = (if \<exists>y \<in> set ts. uses_key selectors pd y k then None else om_get u1 k)"
        using IH by (metis (no_types, lifting))
      have "type_done selectors pd x pd2" using s(3) e(4) [OF tn] by (simp add: type_done_def x)
      then have "\<forall>y \<in> set (x # ts). type_done selectors pd y pd2" using e(3) by simp
      moreover have "\<forall>u. u \<notin> fst ` set (x # ts) \<longrightarrow>
          om_get (platforms_by_type pd2) u = om_get (platforms_by_type pd') u
            \<and> om_get (compatible_platform_types pd2) u = om_get (compatible_platform_types pd') u"
        using e(4) s(4) by (simp add: x)
      moreover have "\<forall>k. om_get u2 k =
          (if \<exists>y \<in> set (x # ts). uses_key selectors pd y k then None else om_get unused k)"
        using e(5) s(5) by (simp add: x)
      ultimately show ?thesis unfolding bad run e(1) using False e(2) by simp
    qed
  qed
qed

text \<open>What \<open>check\<close> does with a filled object.\<close>

lemma check_platforms_correct:
  assumes "pd_inv pd"
  shows "if self_parent pd \<or> bad_types selectors (target_types pd)
     then \<exists>msg. check_platforms selectors unused pd = Inl (Qexc_General msg)
     else \<exists>pd' unused'. check_platforms selectors unused pd = Inr (pd', unused') \<and> ready_for pd pd'
       \<and> (\<forall>t \<in> set (target_types pd). type_done selectors pd t pd')
       \<and> (\<forall>k. om_get unused' k =
            (if \<exists>t \<in> set (target_types pd). uses_key selectors pd t k then None else om_get unused k))"
proof -
  obtain g b where g: "check (platform_graph pd) = Inr (g, b)" "b \<longleftrightarrow> \<not> self_parent pd"
      "dependencies g = dependencies (platform_graph pd)" "b \<Longrightarrow> graph_ready g" "checked g"
    by (rule check_graph [OF assms]) blast
  show ?thesis
  proof (cases "self_parent pd")
    case True
    have "getErrors g = Inr (unknowns g, cycles g)"
      using g(5) by (simp add: getErrors_def assertChecked_def checked_def)
    then show ?thesis using True g(1,2) by (simp add: check_platforms_def)
  next
    case False
    let ?pd = "pd\<lparr>pd_checked := True, platform_graph := g, platforms_by_type := []\<rparr>"
    have ready: "ready_for pd ?pd" using g(2-4) False by (simp add: ready_for_def)
    have run: "check_platforms selectors unused pd = check_types selectors (target_types pd) (?pd, unused)"
      using g(1,2) False by (simp add: check_platforms_def)
    have ok: "om_ok (target_types pd)" using shapeD(1) [OF pd_inv_shape [OF assms]] .
    then have dist: "distinct (map fst (target_types pd))"
      using om_ok_distinct by (simp add: om_keys_def)
    then have "om_get (target_types pd) (fst t) = Some (snd t)
       \<and> om_get (platforms_by_type ?pd) (fst t) = None
       \<and> om_get (compatible_platform_types ?pd) (fst t) = None" if "t \<in> set (target_types pd)" for t
      using assms that by (simp add: pd_inv_def)
    from check_types_correct [OF assms False ready dist this, of selectors unused] show ?thesis
      unfolding run using False by (cases "bad_types selectors (target_types pd)") auto
  qed
qed

end
