(* ===== verification/Platform_Properties.thy ===== *)
theory Platform_Properties
  imports Platform_Data_Check
begin

text \<open>
  The properties of platform selectors and of the platform data, up to \<open>loadPlatformData\<close>, with
  their instances on a small set of platforms.
\<close>

section \<open>Names\<close>

lemma word_char_no_space: "word_char c \<Longrightarrow> \<not> isspace c"
  by (auto simp: word_char_def isspace_def)

lemma word_char_plain: "word_char c \<Longrightarrow> c \<noteq> CHR ''.'' \<and> c \<noteq> CHR ''='' \<and> c \<noteq> CHR '':''"
  by (auto simp: word_char_def)

lemma name_word_name: "name_word s \<Longrightarrow> is_name s"
  by (auto simp: name_word_def is_name_def list_all_iff word_char_no_space)

lemma dotted_chars:
  assumes "dotted component n s" and "c \<in> set s"
  shows "c = CHR ''.'' \<or> (\<exists>f. component f \<and> c \<in> set f)"
proof -
  have "list_all component (split (CHR ''.'') s)" using assms(1) by (simp add: dotted_def Let_def)
  then have all: "\<And>f. f \<in> set (split (CHR ''.'') s) \<Longrightarrow> component f" by (simp add: list_all_iff)
  have "c = CHR ''.'' \<or> (\<exists>f \<in> set (split (CHR ''.'') s). c \<in> set f)"
    using assms(2) split_chars [of s "CHR ''.''"] by blast
  then show ?thesis using all by blast
qed

lemma name_word_chars: "name_word s \<Longrightarrow> c \<in> set s \<Longrightarrow> word_char c"
  by (simp add: name_word_def list_all_iff)

lemma dotted_no_space:
  assumes "dotted name_word n s"
  shows "\<forall>c \<in> set s. \<not> isspace c"
proof
  fix c
  assume "c \<in> set s"
  then have "c = CHR ''.'' \<or> word_char c" using dotted_chars [OF assms] name_word_chars by blast
  moreover have "\<not> isspace (CHR ''.'')" by (simp add: isspace_def)
  ultimately show "\<not> isspace c" using word_char_no_space by blast
qed

lemma dotted_name:
  assumes "dotted name_word n s" and "n \<ge> 2"
  shows "is_name s"
proof -
  have "length (split (CHR ''.'') s) \<ge> 2" using assms by (auto simp: dotted_def Let_def)
  then have "s \<noteq> []" by auto
  then show ?thesis using dotted_no_space [OF assms(1)] by (simp add: is_name_def list_all_iff)
qed

lemma dotted_five: "dotted component 4 s \<Longrightarrow> five_fields s"
  by (auto simp: dotted_def Let_def five_fields_def)

lemma native_platform:
  assumes "CHR ''.'' \<notin> set os" "CHR ''.'' \<notin> set cpu" "CHR ''.'' \<notin> set toolset"
    and "is_name os" "is_name cpu" "is_name toolset" and "dotted name_word 1 compiler"
  defines "p \<equiv> os @ ''.'' @ cpu @ ''.'' @ toolset @ ''.'' @ compiler"
  shows "is_name p \<and> five_fields p"
proof -
  have "split (CHR ''.'') p = [os, cpu, toolset] @ split (CHR ''.'') compiler"
    using assms(1-3) by (simp add: p_def)
  moreover have "length (split (CHR ''.'') compiler) = 1 \<or> length (split (CHR ''.'') compiler) = 2"
    using assms(7) by (auto simp: dotted_def Let_def)
  ultimately have "five_fields p" by (auto simp: five_fields_def)
  moreover have "is_name p"
    using assms(4-6) dotted_no_space [OF assms(7)] unfolding p_def is_name_def list_all_iff
    by (simp add: isspace_def ball_Un)
  ultimately show ?thesis by blast
qed

section \<open>Selectors\<close>

lemma component_plain: "selector_component s \<Longrightarrow> c \<in> set s \<Longrightarrow> c \<noteq> CHR ''=''"
  unfolding selector_component_def
proof (elim disjE)
  show "name_word s \<Longrightarrow> c \<in> set s \<Longrightarrow> c \<noteq> CHR ''=''"
    using name_word_chars [of s c] word_char_plain [of c] by blast
  show "s = ANY \<Longrightarrow> c \<in> set s \<Longrightarrow> c \<noteq> CHR ''=''" by (simp add: ANY_def)
qed

lemma dotted_plain:
  assumes "dotted selector_component n s"
  shows "CHR ''='' \<notin> set s"
proof
  assume "CHR ''='' \<in> set s"
  then have "\<exists>f. selector_component f \<and> CHR ''='' \<in> set f" using dotted_chars [OF assms] by auto
  then show False using component_plain by blast
qed

lemma starts_withD: "starts_with prefix s \<Longrightarrow> s = prefix @ drop (length prefix) s"
  unfolding starts_with_def by (metis append_take_drop_id)

lemma set_fields_total:
  assumes "selector_body s" and "s \<noteq> ''all''" and "s \<noteq> ''skip''" and "s \<noteq> ''default''"
  shows "\<exists>p'. set_fields s p = Inr p'"
proof -
  consider (opt) rest where "s = ''option='' @ rest" "rest = [] \<or> selector_component rest"
    | (comp) rest where "s = ''compiler='' @ rest" "dotted selector_component 1 rest"
    | (plat) rest where "s = ''platform='' @ rest" "dotted selector_component 4 rest"
  proof -
    have lengths: "length ''option='' = 7" "length ''compiler='' = 9" "length ''platform='' = 9"
      by simp_all
    note parts = starts_withD [of "''option=''" s, unfolded lengths(1)]
      starts_withD [of "''compiler=''" s, unfolded lengths(2)]
      starts_withD [of "''platform=''" s, unfolded lengths(3)]
    show ?thesis using assms that parts unfolding selector_body_def by blast
  qed
  then show ?thesis
  proof cases
    case opt
    have "CHR ''='' \<notin> set rest"
      using opt(2) component_plain by auto
    then have "split (CHR ''='') s = [''option'', rest]"
      using split_append [of "CHR ''=''" "''option''" rest] by (simp add: opt(1))
    then show ?thesis by (simp add: set_fields_def Let_def)
  next
    case comp
    have "CHR ''='' \<notin> set rest" using comp(2) by (rule dotted_plain)
    then have "split (CHR ''='') s = [''compiler'', rest]"
      using split_append [of "CHR ''=''" "''compiler''" rest] by (simp add: comp(1))
    moreover have "length (split (CHR ''.'') rest) = 1 \<or> length (split (CHR ''.'') rest) = 2"
      using comp(2) by (auto simp: dotted_def Let_def)
    ultimately show ?thesis by (auto simp: set_fields_def Let_def)
  next
    case plat
    have "CHR ''='' \<notin> set rest" using plat(2) by (rule dotted_plain)
    then have "split (CHR ''='') s = [''platform'', rest]"
      using split_append [of "CHR ''=''" "''platform''" rest] by (simp add: plat(1))
    moreover have "\<exists>a b c d e. split_platform rest (ps_option p) = Inr (a, b, c, d, e)"
    proof -
      obtain fs where fs: "split (CHR ''.'') rest = fs" by blast
      then have "length fs = 4 \<or> length fs = 5" using dotted_five [OF plat(2)] by (simp add: five_fields_def)
      then consider a b c d where "fs = [a, b, c, d]" | a b c d e where "fs = [a, b, c, d, e]"
        by (auto simp: length_Suc_conv eval_nat_numeral)
      then show ?thesis by cases (use fs in \<open>simp_all add: split_platform_def\<close>)
    qed
    ultimately show ?thesis by (auto simp: set_fields_def Let_def)
  qed
qed

lemma initialize_returns:
  shows "\<exists>p' okay. initialize str p = Inr (p', okay)
     \<and> (okay \<longleftrightarrow> (\<exists>t body. selector_groups str = Some (t, body) \<and> \<not> (t = None \<and> body = ''default'')))"
proof (cases "selector_groups str")
  case None
  then show ?thesis by (intro exI [of _ p] exI [of _ False]) (simp add: initialize_def)
next
  case (Some g)
  obtain t body where g: "g = (t, body)" by (cases g)
  have body: "selector_body body" and word: "\<And>w. t = Some w \<Longrightarrow> name_word w"
    using Some by (auto simp: g selector_groups_def Let_def split: if_splits)
  have "w \<noteq> ANY" if "t = Some w" for w
    using word [OF that] by (auto simp: name_word_def ANY_def word_char_def)
  then have any: "(case t of None \<Rightarrow> ANY | Some t \<Rightarrow> t) = ANY \<longleftrightarrow> t = None"
    by (cases t) auto
  show ?thesis
  proof (cases "body = ''all'' \<or> body = ''skip'' \<or> body = ''default''")
    case True
    then show ?thesis using Some any by (auto simp: initialize_def g Let_def)
  next
    case False
    then have "\<exists>p'. set_fields body (p\<lparr>ps_platform_type := case t of None \<Rightarrow> ANY | Some t \<Rightarrow> t\<rparr>) = Inr p'"
      using set_fields_total [OF body] by blast
    then show ?thesis using Some False by (auto simp: initialize_def g Let_def)
  qed
qed

text \<open>
  the initialisation of a platform selector from any text returns: the expression
  it is matched against excludes the failure of every assertion and the internal error. The text
  is accepted exactly when it matches and is not \<open>default\<close> without a platform type.
\<close>

theorem initialize_total:
  shows "\<exists>p' okay. initialize str p = Inr (p', okay)
     \<and> (okay \<longleftrightarrow> (\<exists>t body. selector_groups str = Some (t, body) \<and> \<not> (t = None \<and> body = ''default'')))"
  by (rule initialize_returns)

section \<open>Declaration order\<close>

lemma sorted_by_unique:
  fixes f :: "'a \<Rightarrow> int"
  assumes "sorted_wrt (\<lambda>p q. f p > f q) xs" and "sorted_wrt (\<lambda>p q. f p > f q) ys" and "set xs = set ys"
  shows "xs = ys"
proof -
  have s: "sorted_wrt (<) (map (\<lambda>p. - f p) zs)" if "sorted_wrt (\<lambda>p q. f p > f q) zs" for zs
    using that by (simp add: sorted_wrt_map)
  have "map (\<lambda>p. - f p) xs = map (\<lambda>p. - f p) ys"
    using s [OF assms(1)] s [OF assms(2)] assms(3) unfolding strict_sorted_iff
    by (intro sorted_distinct_set_unique) simp_all
  moreover have "inj_on (\<lambda>p. - f p) (set xs \<union> set ys)"
    using s [OF assms(1)] assms(3) by (simp add: strict_sorted_iff distinct_map)
  ultimately show ?thesis by (rule map_inj_on)
qed

lemma declared_bound:
  assumes "pd_inv pd"
  shows "\<bar>declared_at pd q\<bar> < int (length (platform_declaration pd))"
proof (cases "om_get (platform_declaration pd) q")
  case None
  then show ?thesis using assms by (auto simp: declared_at_def om_get_default_def pd_inv_def)
next
  case (Some n)
  then show ?thesis using shapeD(8) [OF pd_inv_shape [OF assms] Some]
    by (simp add: declared_at_def om_get_default_def)
qed

text \<open>
  a platform added to a type comes before all earlier platforms of the type, or after
  them if it is declared with low priority; the order of the others does not change.
\<close>

theorem addPlatform_ranks:
  assumes "filled pd" and "is_name p" and "five_fields p" and "addPlatform p t lowpri pd = (pd', Inr ())"
  shows "ranked pd' u =
     (if u \<noteq> t then ranked pd u else if lowpri then ranked pd u @ [p] else p # ranked pd u)"
proof -
  have inv: "pd_inv pd" using assms(1) by (rule filled_inv)
  have inv': "pd_inv pd'" using addPlatform_inv [OF inv assms(2,3), of t lowpri] assms(4) by simp
  let ?n = "int (length (platform_declaration pd))"
  have new: "\<not> om_has (platform_declaration pd) p"
    using assms(4) by (auto simp: addPlatform_def Let_def)
  have ops: "platform_declaration pd' = om_put p (if lowpri then - ?n else ?n) (platform_declaration pd)
      \<and> platform_types pd' = om_put p t (platform_types pd)"
    using assms(4) new
    by (auto simp: addPlatform_def Let_def and_then_def on_graph_def split: sum.splits if_splits)
  have none: "om_get (platform_types pd) p = None"
    using shapeD(7) [OF pd_inv_shape [OF inv], of p] new by (cases "om_get (platform_types pd) p") auto
  have at: "declared_at pd' q = (if q = p then if lowpri then - ?n else ?n else declared_at pd q)" for q
    using ops by (simp add: declared_at_def)
  note old = ranked_correct [OF inv, of u] and after = ranked_correct [OF inv', of u]
  have notin: "p \<notin> set (ranked pd u)" using old(1) none by simp
  have same: "sorted_wrt (\<lambda>p q. declared_at pd' p > declared_at pd' q) (ranked pd u)"
    by (rule sorted_wrt_mono_rel [OF _ old(2)]) (use notin at in auto)
  let ?ys = "if u \<noteq> t then ranked pd u else if lowpri then ranked pd u @ [p] else p # ranked pd u"
  have bound: "- ?n < declared_at pd q \<and> declared_at pd q < ?n" for q
    using declared_bound [OF inv, of q] by linarith
  have "if lowpri then declared_at pd' p < declared_at pd' q else declared_at pd' p > declared_at pd' q"
    if "q \<in> set (ranked pd u)" for q
    using that notin at bound [of q] by (cases "q = p") auto
  then have "sorted_wrt (\<lambda>p q. declared_at pd' p > declared_at pd' q) ?ys"
    using same by (cases "u = t"; cases lowpri) (simp_all add: sorted_wrt_append)
  moreover have "set ?ys = set (ranked pd' u)" unfolding after(1) using old(1) ops none by auto
  ultimately have "?ys = ranked pd' u" by (intro sorted_by_unique [OF _ after(2)])
  then show ?thesis by (rule sym)
qed

section \<open>Checking\<close>

text \<open>
  \<open>check\<close> of a filled object fails no assertion. It throws if a platform type has been
  declared as its own parent, or if a selector for a type that is not object code does not say
  \<open>skip\<close>; otherwise it returns. Longer cycles of types cannot occur.
\<close>

theorem check_platforms_outcome:
  assumes "filled pd"
  shows "if self_parent pd \<or> bad_types selectors (target_types pd)
     then \<exists>msg. check_platforms selectors unused pd = Inl (Qexc_General msg)
     else \<exists>pd' unused'. check_platforms selectors unused pd = Inr (pd', unused')"
proof (cases "self_parent pd \<or> bad_types selectors (target_types pd)")
  case True
  then show ?thesis
    using check_platforms_correct [OF filled_inv [OF assms], of selectors unused] by simp
next
  case False
  then show ?thesis
    using check_platforms_correct [OF filled_inv [OF assms], of selectors unused] by (simp, blast)
qed

lemma check_platforms_done:
  assumes "filled pd" and "check_platforms selectors unused pd = Inr (pd', unused')"
  shows "ready_for pd pd'" and "t \<in> set (target_types pd) \<Longrightarrow> type_done selectors pd t pd'"
    and "om_get unused' k =
       (if \<exists>t \<in> set (target_types pd). uses_key selectors pd t k then None else om_get unused k)"
proof -
  have ok: "\<not> (self_parent pd \<or> bad_types selectors (target_types pd))"
    using check_platforms_correct [OF filled_inv [OF assms(1)], of selectors unused] assms(2)
    by (auto split: if_splits)
  then obtain pd2 unused2 where r: "check_platforms selectors unused pd = Inr (pd2, unused2)"
      "ready_for pd pd2" "\<forall>t \<in> set (target_types pd). type_done selectors pd t pd2"
      "\<forall>k. om_get unused2 k =
         (if \<exists>t \<in> set (target_types pd). uses_key selectors pd t k then None else om_get unused k)"
    using check_platforms_correct [OF filled_inv [OF assms(1)], of selectors unused]
    unfolding if_not_P [OF ok] by blast
  then have "pd2 = pd'" "unused2 = unused'" using assms(2) by simp_all
  then show "ready_for pd pd'" and "t \<in> set (target_types pd) \<Longrightarrow> type_done selectors pd t pd'"
    and "om_get unused' k =
       (if \<exists>t \<in> set (target_types pd). uses_key selectors pd t k then None else om_get unused k)"
    using r(2-4) by simp_all
qed

lemma om_get_mem: "om_get m k = Some v \<Longrightarrow> (k, v) \<in> set m"
  by (rule map_of_SomeD)



section \<open>Loading\<close>

definition load_ok :: "load_state \<times> unit res \<Rightarrow> bool" where
  "load_ok r \<longleftrightarrow> filled (fst (fst r)) \<and> only_general (snd r)"

lemma catch_general_ok:
  assumes "filled (fst r)" and "only_general (snd r)"
  shows "load_ok (catch_general location e r) \<and> snd (catch_general location e r) = Inr ()"
  using assms by (cases r) (auto simp: load_ok_def catch_general_def split: sum.splits abort.splits)

lemma load_type_line_ok:
  assumes "filled pd"
  shows "load_ok (load_type_line filename n line (pd, e))
     \<and> snd (load_type_line filename n line (pd, e)) = Inr ()"
proof (cases "platform_type_line line")
  case None
  then show ?thesis using assms by (simp add: load_type_line_def load_ok_def Let_def)
next
  case (Some tp)
  obtain t parent where tp: "tp = (t, parent)" by (cases tp)
  have "name_word t"
    using Some by (auto simp: tp platform_type_line_def split: list.splits if_splits)
  then have t: "is_name t" by (rule name_word_name)
  let ?r = "addPlatformType t tt_object_code parent pd"
  have "filled (fst ?r)" using assms t by (rule filled_type)
  moreover have "only_general (snd ?r)" using addPlatformType_inv [OF filled_inv [OF assms] t] by blast
  ultimately show ?thesis
    using catch_general_ok [of ?r "FileLocation filename (int n) 0" e] assms
    by (cases "ignored_line line") (simp_all add: load_type_line_def Some tp load_ok_def Let_def)
qed

lemma load_types_ok:
  "filled pd \<Longrightarrow> load_ok (load_types filename n lines (pd, e)) \<and> snd (load_types filename n lines (pd, e)) = Inr ()"
proof (induction lines arbitrary: n pd e)
  case Nil
  then show ?case by (simp add: load_ok_def)
next
  case (Cons line lines)
  obtain pd' e' where s: "load_type_line filename (n + 1) line (pd, e) = ((pd', e'), Inr ())" "filled pd'"
    using load_type_line_ok [OF Cons.prems, of filename "n + 1" line e]
    by (cases "load_type_line filename (n + 1) line (pd, e)") (auto simp: load_ok_def)
  then show ?case using Cons.IH [OF s(2)] by (simp add: and_then_def)
qed

text \<open>Operating system, CPU and toolset of the host: words without a dot.\<close>

definition native_ok :: "string \<times> string \<times> string \<Rightarrow> bool" where
  "native_ok native \<longleftrightarrow>
     (let (os, cpu, toolset) = native
      in list_all (\<lambda>w. is_name w \<and> CHR ''.'' \<notin> set w) [os, cpu, toolset])"

lemma addPlatform_caught:
  assumes "filled pd" and "is_name p" and "five_fields p"
  shows "load_ok (catch_general location e (addPlatform p t lowpri pd))
     \<and> snd (catch_general location e (addPlatform p t lowpri pd)) = Inr ()"
  using catch_general_ok filled_platform [OF assms] addPlatform_inv [OF filled_inv [OF assms(1)] assms(2,3)]
  by blast

lemma load_platform_line_ok:
  assumes "filled pd" and "native_ok native"
  shows "load_ok (load_platform_line native location line (pd, e))
     \<and> snd (load_platform_line native location line (pd, e)) = Inr ()"
proof -
  obtain os cpu toolset where nat: "native = (os, cpu, toolset)" by (cases native)
  show ?thesis
  proof (cases "ignored_line line")
    case True
    then show ?thesis using assms(1) by (simp add: load_platform_line_def nat load_ok_def)
  next
    case False
    show ?thesis
    proof (cases "platform_line line")
      case (Some x)
      obtain lowpri p t where x: "x = (lowpri, p, t)" by (cases x)
      have "dotted name_word 4 p"
        using Some by (auto simp: x platform_line_def split: list.splits if_splits)
      then have "is_name p" "five_fields p" by (simp_all add: dotted_name dotted_five)
      then show ?thesis
        using False addPlatform_caught [OF assms(1)] by (simp add: load_platform_line_def nat Some x)
    next
      case none: None
      show ?thesis
      proof (cases "native_compiler_line line")
        case None
        then show ?thesis
          using assms(1) False none by (simp add: load_platform_line_def nat load_ok_def)
      next
        case (Some x)
        obtain lowpri c where x: "x = (lowpri, c)" by (cases x)
        have "dotted name_word 1 c"
          using Some by (auto simp: x native_compiler_line_def split: list.splits if_splits)
        then have "is_name (os @ ''.'' @ cpu @ ''.'' @ toolset @ ''.'' @ c)"
            "five_fields (os @ ''.'' @ cpu @ ''.'' @ toolset @ ''.'' @ c)"
          using native_platform [of os cpu toolset c] assms(2) by (simp_all add: nat native_ok_def)
        from addPlatform_caught [OF assms(1) this] show ?thesis
          using False none by (simp add: load_platform_line_def nat Some x)
      qed
    qed
  qed
qed

lemma load_platforms_ok:
  "filled pd \<Longrightarrow> native_ok native \<Longrightarrow>
   load_ok (load_platforms native location lines (pd, e))
   \<and> snd (load_platforms native location lines (pd, e)) = Inr ()"
proof (induction lines arbitrary: pd e)
  case Nil
  then show ?case by (simp add: load_ok_def)
next
  case (Cons line lines)
  obtain pd' e' where s: "load_platform_line native location line (pd, e) = ((pd', e'), Inr ())" "filled pd'"
    using load_platform_line_ok [OF Cons.prems, of location line e]
    by (cases "load_platform_line native location line (pd, e)") (auto simp: load_ok_def)
  then show ?case using Cons.IH [OF s(2) Cons.prems(2)] by (simp add: and_then_def)
qed

lemma load_list_platforms_ok:
  assumes "filled pd" and "native_ok native" and "\<And>script a. program = Some (script, Inl a) \<Longrightarrow> \<exists>msg. a = Qexc_General msg"
  shows "load_ok (load_list_platforms native filename program (pd, e))"
proof (cases program)
  case None
  then show ?thesis using assms(1) by (simp add: load_list_platforms_def load_ok_def)
next
  case (Some p)
  obtain script printed where p: "p = (script, printed)" by (cases p)
  show ?thesis
  proof (cases printed)
    case (Inl a)
    then obtain msg where "a = Qexc_General msg" using assms(3) Some p by blast
    then show ?thesis using assms(1) by (simp add: load_list_platforms_def Some p Inl load_ok_def Let_def)
  next
    case (Inr content)
    then show ?thesis
      using load_platforms_ok [OF assms(1,2)] by (simp add: load_list_platforms_def Some p Let_def)
  qed
qed


section \<open>An example\<close>

text \<open>
  A type \<open>rt\<close> with two platforms, one of low priority, and its child \<open>rt2\<close>; the user asks for the
  compiler \<open>gcc\<close> on every type. \<open>odd\<close> has itself as parent.
\<close>

definition odd_platforms :: platform_data where
  "odd_platforms = fst (addPlatformType ''odd'' tt_object_code ''odd'' platform_data0)"

definition rt_types :: platform_data where
  "rt_types = fst (addPlatformType ''rt2'' tt_object_code ''rt''
     (fst (addPlatformType ''rt'' tt_object_code [] platform_data0)))"

definition rt_platforms1 :: platform_data where
  "rt_platforms1 = fst (addPlatform ''rtos.x86.t.gcc'' ''rt'' False rt_types)"

definition rt_platforms :: platform_data where
  "rt_platforms = fst (addPlatform ''rtos.x86.t.cc'' ''rt2'' False
     (fst (addPlatform ''rtos.x86.t.gcc.debug'' ''rt'' True rt_platforms1)))"

definition gcc_selectors :: "(string, platform_selector) omap" where
  "gcc_selectors = [(ANY, new_selector\<lparr>ps_platform_type := ANY, ps_compiler := ''gcc'', ps_option := ANY\<rparr>)]"

definition load_error :: error where
  "load_error = new_error NO_JOB ''abuild'' \<lparr>any_errors = False, deprecate_is_error = False,
     error_callback = False, error_log = [], callback_log = []\<rparr>"

definition gcc_checked :: "platform_data \<times> (string, string) omap" where
  "gcc_checked = projr (check_platforms gcc_selectors [(ANY, ''compiler=gcc.*'')] rt_platforms)"

lemma odd_filled: "filled odd_platforms"
  unfolding odd_platforms_def by (rule filled_type [OF filled_new]) code_simp

lemma rt_filled1: "filled rt_platforms1"
  unfolding rt_platforms1_def rt_types_def
  by (intro filled_platform filled_type filled_new) code_simp+

lemma rt_filled: "filled rt_platforms"
  unfolding rt_platforms_def by (intro filled_platform rt_filled1) code_simp+

lemma gcc_run:
  "case check_platforms gcc_selectors [(ANY, ''compiler=gcc.*'')] rt_platforms of
     Inl e \<Rightarrow> False
   | Inr (p, selected) \<Rightarrow>
       getPlatformsByType p ''rt'' = Inr [(''rtos.x86.t.gcc'', True), (''rtos.x86.t.gcc.debug'', True)] \<and>
       selected = []"
  by code_simp

lemma gcc_check:
  "check_platforms gcc_selectors [(ANY, ''compiler=gcc.*'')] rt_platforms = Inr (fst gcc_checked, snd gcc_checked)"
  "getPlatformsByType (fst gcc_checked) ''rt'' =
     Inr [(''rtos.x86.t.gcc'', True), (''rtos.x86.t.gcc.debug'', True)]"
  "snd gcc_checked = []"
  using gcc_run
  by (cases "check_platforms gcc_selectors [(ANY, ''compiler=gcc.*'')] rt_platforms"; auto simp: gcc_checked_def)+

theorem addPlatform_ranks_witness:
  "ranked rt_platforms1 ''rt'' = ''rtos.x86.t.gcc'' # ranked rt_types ''rt''"
proof -
  have "filled rt_types" unfolding rt_types_def by (intro filled_type filled_new) code_simp+
  moreover have "is_name ''rtos.x86.t.gcc''" "five_fields ''rtos.x86.t.gcc''"
    "addPlatform ''rtos.x86.t.gcc'' ''rt'' False rt_types = (rt_platforms1, Inr ())"
    by code_simp+
  ultimately show ?thesis by (simp add: addPlatform_ranks)
qed

theorem check_platforms_outcome_witness:
  "\<exists>msg. check_platforms [] [] odd_platforms = Inl (Qexc_General msg)"
proof -
  have "linked_parent odd_platforms ''odd'' = Some ''odd''" by code_simp
  then have "self_parent odd_platforms" unfolding self_parent_def by blast
  then show ?thesis using check_platforms_outcome [OF odd_filled, of "[]" "[]"] by simp
qed




section \<open>What a rejected or repeated call leaves behind\<close>

text \<open>
  A type whose parent is unknown is reported and kept, without the dependency on the parent but
  with its name, so that a parent of this name declared later is returned by
  \<open>getPlatformTypeParent\<close> though the types are not compatible.
\<close>

lemma rejected_parent_remains:
  "let (pd1, r1) = addPlatformType ''a'' tt_object_code ''b'' platform_data0;
       (pd2, r2) = addPlatformType ''b'' tt_object_code [] pd1;
       (pd3, r3) = addPlatform ''a.b.c.d'' ''a'' False pd2;
       (pd4, unused) = projr (check_platforms [] [] pd3)
   in r1 = Inl (Qexc_General (''platform type \"a\" has unknown parent type \"b\"''))
    \<and> r2 = Inr () \<and> r3 = Inr ()
    \<and> getPlatformTypeParent pd4 ''a'' = Inr ''b''
    \<and> getCompatiblePlatformTypes pd4 ''a.b.c.d'' = Inr [''indep'']"
  by code_simp

text \<open>\<open>check\<close> clears the platforms of the types before it fills them, but not the compatible types.\<close>

lemma second_check_repeats_types:
  "let pd = fst (projr (check_platforms [] [] (fst gcc_checked)))
   in getCompatiblePlatformTypes pd ''rtos.x86.t.cc'' = Inr [''rt'', ''rt'', ''indep'']"
  by code_simp

end
