(* ===== verification/Key_Val_Properties.thy ===== *)
theory Key_Val_Properties
  imports Key_Val Util_Strings_Correct
begin

text \<open>
  Properties of \<open>KeyVal\<close>: reading a file and writing it without changes gives the file again, a file
  of plain lines gives its values, and which keys have a value afterwards.
\<close>

section \<open>No text is lost\<close>

definition entry_text :: "orig_data \<Rightarrow> string" where
  "entry_text od = od_before od @ od_key od @ od_after od"

definition kv_text :: "kv_state \<Rightarrow> string" where
  "kv_text st = concat (map entry_text (kv_orig_data (kvs st)))"

definition kv_inv :: "kv_state \<Rightarrow> bool" where
  "kv_inv st \<longleftrightarrow> kv_orig_data (kvs st) \<noteq> []
     \<and> (\<not> in_after st \<longrightarrow> od_key (last (kv_orig_data (kvs st))) = [] \<and> od_after (last (kv_orig_data (kvs st))) = [])
     \<and> (value_ptr st = Null_Value \<longleftrightarrow> \<not> in_after st)"

lemma kv_groups_text: "kv_groups s = Some (l, k, t, v) \<Longrightarrow> l @ k @ t = s"
  by (auto simp: kv_groups_def Let_def split: if_splits)

lemma accumulate_text:
  assumes "kv_inv st"
  shows "kv_inv (accumulate s st) \<and> kv_text (accumulate s st) = kv_text st @ s"
proof -
  obtain ys b where od: "kv_orig_data (kvs st) = ys @ [b]"
    using assms unfolding kv_inv_def by (metis rev_exhaust)
  show ?thesis
    using assms by (cases "in_after st") (simp_all add: kv_inv_def kv_text_def accumulate_def add_text_def entry_text_def od)
qed

lemma append_value_text [simp]:
  "kv_text (append_value s st) = kv_text st" "kv_inv (append_value s st) = kv_inv st"
  by (simp_all add: append_value_def kv_text_def kv_inv_def split: value_ptr.splits)

lemma end_entry_text: "kv_inv st \<Longrightarrow> kv_inv (end_entry st) \<and> kv_text (end_entry st) = kv_text st"
  by (simp add: end_entry_def kv_inv_def kv_text_def new_orig_data_def entry_text_def)

lemma key_line_text:
  assumes "kv_inv st" and "\<not> in_after st" and "kv_groups s = Some (l, k, t, v)"
  shows "kv_inv (key_line location c (l, k, t, v) st) \<and> kv_text (key_line location c (l, k, t, v) st) = kv_text st @ s"
proof -
  obtain ys b where od: "kv_orig_data (kvs st) = ys @ [b]"
    using assms(1) unfolding kv_inv_def by (metis rev_exhaust)
  have b: "od_key b = []" "od_after b = []" using assms(1,2) by (simp_all add: kv_inv_def od)
  let ?st = "key_line location c (l, k, t, v) st"
  have new: "kv_orig_data (kvs ?st) = ys @ [b\<lparr>od_before := od_before b @ l, od_key := k, od_after := t\<rparr>]"
    "in_after ?st" "value_ptr ?st \<noteq> Null_Value"
    using assms(2) b by (simp_all add: key_line_def put_value_def report_duplicate_def start_after_def accumulate_def add_text_def kv_report_def od)
  then show ?thesis
    using kv_groups_text [OF assms(3)] b by (simp add: kv_inv_def kv_text_def entry_text_def od)
qed

lemma kv_inv_kvs: "kv_orig_data kv = kv_orig_data (kvs st) \<Longrightarrow> kv_inv (st\<lparr>kvs := kv\<rparr>) = kv_inv st"
  by (simp add: kv_inv_def)

lemma kv_text_kvs: "kv_orig_data kv = kv_orig_data (kvs st) \<Longrightarrow> kv_text (st\<lparr>kvs := kv\<rparr>) = kv_text st"
  by (simp add: kv_text_def)

lemma end_unless_text:
  "kv_inv x \<Longrightarrow> kv_text x = t \<Longrightarrow> \<exists>st'. end_unless b x = Inr st' \<and> kv_inv st' \<and> kv_text st' = t"
  using end_entry_text by (simp add: end_unless_def)

lemma process_line_text:
  assumes "kv_inv st"
  shows "\<exists>st'. process_line location s comment continuation content st = Inr st' \<and> kv_inv st'
     \<and> kv_text st' = kv_text st @ s"
proof (cases "value_ptr st \<noteq> Null_Value")
  case True
  show ?thesis
    unfolding process_line_def if_P [OF True]
    by (rule end_unless_text) (simp_all add: accumulate_text [OF assms])
next
  case False
  then have before: "\<not> in_after st" using assms by (simp add: kv_inv_def)
  show ?thesis
  proof (cases "content = [] \<or> comment")
    case True
    show ?thesis
      unfolding process_line_def if_not_P [OF False] if_P [OF True]
      by (rule end_unless_text) (simp_all add: accumulate_text [OF assms])
  next
    case no: False
    show ?thesis
    proof (cases "kv_groups s")
      case None
      let ?st = "st\<lparr>kvs := kv_report location ''syntax error'' (kvs st)\<rparr>"
      have "kv_inv ?st" "kv_text ?st = kv_text st"
        using assms by (simp_all add: kv_inv_kvs kv_text_kvs kv_report_def)
      then show ?thesis
        unfolding process_line_def if_not_P [OF False] if_not_P [OF no] None option.case
        by (intro end_unless_text) (simp_all add: accumulate_text)
    next
      case (Some g)
      obtain l k t v where g: "g = (l, k, t, v)" by (cases g)
      note key = key_line_text [OF assms before Some [unfolded g], of location continuation]
      have "process_line location s comment continuation content st =
          end_unless continuation (key_line location continuation (l, k, t, v) st)"
        using before unfolding process_line_def if_not_P [OF False] if_not_P [OF no] Some option.case g by simp
      then show ?thesis using end_unless_text [of _ "kv_text st @ s"] key by simp
    qed
  qed
qed

lemma read_line_process:
  "read_line (n, s) st =
     process_line (FileLocation (kv_filename (kvs st)) (int n) 0) s (comment_line s)
       (snd (read_content s (comment_line s) (content_groups s)))
       (fst (read_content s (comment_line s) (content_groups s))) (set_preferred_eol n s st)"
  by (simp add: read_line_def split_def)

lemma read_line_text:
  assumes "kv_inv st"
  shows "\<exists>st'. read_line (n, s) st = Inr st' \<and> kv_inv st' \<and> kv_text st' = kv_text st @ s"
proof -
  have "kv_inv (set_preferred_eol n s st)" "kv_text (set_preferred_eol n s st) = kv_text st"
    using assms by (simp_all add: set_preferred_eol_def kv_inv_kvs kv_text_kvs)
  then show ?thesis unfolding read_line_process using process_line_text by metis
qed

lemma read_lines_text:
  "kv_inv st \<Longrightarrow> \<exists>st'. read_lines ls st = Inr st' \<and> kv_inv st' \<and> kv_text st' = kv_text st @ concat (map snd ls)"
proof (induction ls arbitrary: st)
  case (Cons l ls)
  obtain n s where l: "l = (n, s)" by (cases l)
  obtain st1 where st1: "read_line (n, s) st = Inr st1" "kv_inv st1" "kv_text st1 = kv_text st @ s"
    using read_line_text [OF Cons.prems] by blast
  then show ?case using Cons.IH [OF st1(2)] by (simp add: l)
qed simp

section \<open>Defaults\<close>

lemma fill_default_frame:
  "kv_orig_data (fst (fill_default k s)) = kv_orig_data (fst s)"
  "kv_error (fst (fill_default k s)) = kv_error (fst s)" "kv_keys (fst (fill_default k s)) = kv_keys (fst s)"
  "kv_defaults (fst (fill_default k s)) = kv_defaults (fst s)"
  "kv_filename (fst (fill_default k s)) = kv_filename (fst s)"
  "preferred_eol (fst (fill_default k s)) = preferred_eol (fst s)"
  "explicit_keys (fst (fill_default k s)) = explicit_keys (fst s)"
  by (cases s, simp add: fill_default_def split: option.splits)+

lemma fill_defaults_frame:
  defines "r ks s \<equiv> fst (fold fill_default ks s)"
  shows "kv_orig_data (r ks s) = kv_orig_data (fst s)" and "kv_error (r ks s) = kv_error (fst s)"
    and "kv_keys (r ks s) = kv_keys (fst s)" and "kv_defaults (r ks s) = kv_defaults (fst s)"
    and "kv_filename (r ks s) = kv_filename (fst s)" and "preferred_eol (r ks s) = preferred_eol (fst s)"
    and "explicit_keys (r ks s) = explicit_keys (fst s)"
  unfolding r_def by (induction ks arbitrary: s) (simp_all add: fill_default_frame)

lemma fill_defaults_correct:
  assumes "distinct ks" and "\<And>k. k \<in> set ks \<Longrightarrow> k \<notin> set missing"
    and r_def: "r = fold fill_default ks (kv, missing)"
  shows "om_get (kv_data (fst r)) k =
       (if k \<in> set ks \<and> \<not> om_has (kv_data kv) k then om_get (kv_defaults kv) k else om_get (kv_data kv) k)
     \<and> snd r = missing @ filter (\<lambda>k. \<not> om_has (kv_data kv) k \<and> \<not> om_has (kv_defaults kv) k) ks"
  unfolding r_def using assms(1,2)
proof (induction ks arbitrary: kv missing)
  case (Cons x ks)
  consider (has) "om_has (kv_data kv) x" | (dflt) v where "\<not> om_has (kv_data kv) x" "om_get (kv_defaults kv) x = Some v"
    | (none) "\<not> om_has (kv_data kv) x" "om_get (kv_defaults kv) x = None"
    by (cases "om_get (kv_defaults kv) x") auto
  then show ?case
  proof cases
    case has
    have "fold fill_default (x # ks) (kv, missing) = fold fill_default ks (kv, missing)"
      using has by (simp add: fill_default_def)
    then show ?thesis using Cons.IH [of missing kv] Cons.prems has by (cases "k = x") auto
  next
    case dflt
    let ?kv = "kv\<lparr>kv_data := om_put x v (kv_data kv)\<rparr>"
    have run: "fold fill_default (x # ks) (kv, missing) = fold fill_default ks (?kv, missing)"
      using dflt by (simp add: fill_default_def)
    have same: "filter (\<lambda>k. \<not> om_has (kv_data ?kv) k \<and> \<not> om_has (kv_defaults ?kv) k) ks =
        filter (\<lambda>k. \<not> om_has (kv_data kv) k \<and> \<not> om_has (kv_defaults kv) k) ks"
      using Cons.prems(1) by (intro filter_cong) auto
    have "om_has (kv_defaults kv) x" using dflt(2) by (simp add: om_has_def)
    then show ?thesis
      using Cons.IH [of missing ?kv] Cons.prems dflt unfolding run same by (cases "k = x") (auto simp: om_has_def)
  next
    case none
    have run: "fold fill_default (x # ks) (kv, missing) = fold fill_default ks (kv, missing @ [x])"
      using none by (simp add: fill_default_def)
    have "k \<notin> set (missing @ [x])" if "k \<in> set ks" for k using Cons.prems that by auto
    from Cons.IH [OF _ this, of kv] show ?thesis
      using Cons.prems none unfolding run by (cases "k = x") (auto simp: om_has_def)
  qed
qed simp

section \<open>Reading a file\<close>

lemma kv_start_inv: "kv_inv (start_state kv)"
  "kv_text (start_state kv) = concat (map entry_text (kv_orig_data kv))"
  by (simp_all add: start_state_def kv_inv_def kv_text_def new_orig_data_def entry_text_def)

lemma readFile_returns:
  "\<exists>st. read_lines (enumerate 1 (readLinesFromFile content False)) (start_state kv) = Inr st \<and> kv_inv st
     \<and> kv_text st = concat (map entry_text (kv_orig_data kv)) @ content
     \<and> readFile content kv = Inr (finish_file (num_errors (kv_error kv)) st)"
proof -
  have "map snd (enumerate 1 (readLinesFromFile content False)) = readLinesFromFile content False" by simp
  then show ?thesis
    using read_lines_text [OF kv_start_inv(1) [of kv], of "enumerate 1 (readLinesFromFile content False)"]
      readLines_concat [of content] kv_start_inv(2) [of kv]
    by (auto simp: readFile_def)
qed

lemma kv_report_frame [simp]:
  "kv_orig_data (kv_report l msg kv) = kv_orig_data kv" "kv_data (kv_report l msg kv) = kv_data kv"
  "kv_keys (kv_report l msg kv) = kv_keys kv" "kv_defaults (kv_report l msg kv) = kv_defaults kv"
  "kv_filename (kv_report l msg kv) = kv_filename kv" "preferred_eol (kv_report l msg kv) = preferred_eol kv"
  "explicit_keys (kv_report l msg kv) = explicit_keys kv"
  "num_errors (kv_error (kv_report l msg kv)) = num_errors (kv_error kv) + 1"
  by (simp_all add: kv_report_def)

lemma finish_file_frame:
  "kv_orig_data (fst (finish_file n st)) = kv_orig_data (kvs st)"
  "kv_keys (fst (finish_file n st)) = kv_keys (kvs st)"
  "explicit_keys (fst (finish_file n st)) = explicit_keys (kvs st)"
  "preferred_eol (fst (finish_file n st)) = preferred_eol (kvs st)"
  by (simp_all add: finish_file_def with_status_def report_missing_def fill_defaults_def report_continuation_def
      split_def fill_defaults_frame)

text \<open>
  C20: \<open>readFile\<close> returns for every content of the file, faulty lines included, and writing the
  result without changes gives the content again, character by character.
\<close>

theorem write_restores_file:
  assumes "KeyVal e filename ks ds = Inr kv"
  shows "\<exists>kv' okay. readFile content kv = Inr (kv', okay) \<and> writeFile [] [] {} [] kv' = content"
proof -
  have new: "kv_orig_data kv = []" using assms by (auto simp: KeyVal_def Let_def res_simps)
  obtain st where st: "kv_text st = content"
      "readFile content kv = Inr (finish_file (num_errors (kv_error kv)) st)"
    using readFile_returns [of content kv] new by auto
  have "write_entry [] [] {} = entry_text"
    by (rule ext) (simp add: write_entry_def entry_text_def)
  then have "writeFile [] [] {} [] (fst (finish_file (num_errors (kv_error kv)) st)) = content"
    using st(1) by (simp add: writeFile_def finish_file_frame kv_text_def)
  then show ?thesis using st(2) by (metis prod.collapse)
qed

section \<open>Which keys have a value\<close>

definition data_inv :: "keyval \<Rightarrow> kv_state \<Rightarrow> bool" where
  "data_inv kv st \<longleftrightarrow> kv_keys (kvs st) = kv_keys kv \<and> kv_defaults (kvs st) = kv_defaults kv
     \<and> (\<forall>k. om_has (kv_data (kvs st)) k \<longleftrightarrow> k \<in> explicit_keys (kvs st))
     \<and> explicit_keys (kvs st) \<subseteq> kv_keys kv
     \<and> (\<forall>k. value_ptr st = Value_Of k \<longrightarrow> k \<in> explicit_keys (kvs st))"

lemma accumulate_frame [simp]:
  "kv_keys (kvs (accumulate s st)) = kv_keys (kvs st)" "kv_defaults (kvs (accumulate s st)) = kv_defaults (kvs st)"
  "kv_data (kvs (accumulate s st)) = kv_data (kvs st)"
  "explicit_keys (kvs (accumulate s st)) = explicit_keys (kvs st)"
  "value_ptr (accumulate s st) = value_ptr st" "in_after (accumulate s st) = in_after st"
  "kv_filename (kvs (accumulate s st)) = kv_filename (kvs st)"
  "kv_error (kvs (accumulate s st)) = kv_error (kvs st)"
  by (simp_all add: accumulate_def)

lemma data_inv_accumulate [simp]: "data_inv kv (accumulate s st) = data_inv kv st"
  by (simp add: data_inv_def)

lemma data_inv_append:
  assumes "data_inv kv st"
  shows "data_inv kv (append_value s st)"
  using assms by (auto simp: data_inv_def append_value_def split: value_ptr.splits)

lemma data_inv_end: "data_inv kv st \<Longrightarrow> data_inv kv (end_entry st)"
  by (simp add: data_inv_def end_entry_def)

lemma data_inv_key_line:
  assumes "data_inv kv st"
  shows "data_inv kv (key_line location c g st)"
proof -
  obtain l k t v where g: "g = (l, k, t, v)" by (cases g)
  let ?r = "key_line location c (l, k, t, v) st"
  have "kv_keys (kvs ?r) = kv_keys (kvs st)" "kv_defaults (kvs ?r) = kv_defaults (kvs st)"
    by (simp_all add: key_line_def put_value_def report_duplicate_def start_after_def)
  moreover have "k \<in> kv_keys (kvs st) \<Longrightarrow> (\<forall>x. om_has (kv_data (kvs ?r)) x \<longleftrightarrow> x = k \<or> om_has (kv_data (kvs st)) x)
      \<and> explicit_keys (kvs ?r) = insert k (explicit_keys (kvs st)) \<and> value_ptr ?r = Value_Of k"
    "k \<notin> kv_keys (kvs st) \<Longrightarrow> kv_data (kvs ?r) = kv_data (kvs st)
      \<and> explicit_keys (kvs ?r) = explicit_keys (kvs st) \<and> value_ptr ?r = Trash"
    by (simp_all add: key_line_def put_value_def report_duplicate_def start_after_def)
  ultimately show ?thesis using assms unfolding g data_inv_def by (cases "k \<in> kv_keys (kvs st)") auto
qed

text \<open>What every step of a round keeps, the round keeps.\<close>

lemma read_line_keeps:
  assumes "read_line (n, s) st = Inr st'" and eol: "Q (set_preferred_eol n s st)"
    and acc: "\<And>x. Q x \<Longrightarrow> Q (accumulate s x)" and app: "\<And>x c. Q x \<Longrightarrow> Q (append_value c x)"
    and end_: "\<And>x. Q x \<Longrightarrow> Q (end_entry x)"
    and key: "\<And>x l c g. Q x \<Longrightarrow> Q (key_line l c g x)"
    and rep: "\<And>x l msg. Q x \<Longrightarrow> Q (x\<lparr>kvs := kv_report l msg (kvs x)\<rparr>)"
  shows "Q st'"
proof -
  have fin: "Q st'" if "end_unless b x = Inr st'" "Q x" for b x
    using that end_ by (cases b) (auto simp: end_unless_def)
  have "Q st'" if "process_line location s comment continuation content x = Inr st'" "Q x"
    for location comment continuation content x
    using that(1) acc [OF that(2)] acc [OF rep [OF that(2)]] app [OF acc [OF that(2)]] key [OF that(2)]
    unfolding process_line_def assert_res_eq_Inr
    by (auto simp: assert_res_eq_Inr split: if_splits option.splits elim!: fin)
  then show ?thesis using assms(1) eol unfolding read_line_process by blast
qed

lemma data_inv_read_line:
  assumes "data_inv kv st" and "read_line l st = Inr st'"
  shows "data_inv kv st'"
proof -
  obtain n s where l: "l = (n, s)" by (cases l)
  show ?thesis
    by (rule read_line_keeps [OF assms(2) [unfolded l], where Q = "data_inv kv"])
       (use assms(1) data_inv_append data_inv_end data_inv_key_line in
          \<open>simp_all, simp_all add: data_inv_def set_preferred_eol_def\<close>)
qed

lemma data_inv_read_lines: "data_inv kv st \<Longrightarrow> read_lines ls st = Inr st' \<Longrightarrow> data_inv kv st'"
  by (induction ls arbitrary: st) (auto simp: res_simps intro: data_inv_read_line)

definition errors_from :: "int \<Rightarrow> kv_state \<Rightarrow> bool" where
  "errors_from n st \<longleftrightarrow> num_errors (kv_error (kvs st)) \<ge> n"

lemma errors_from_steps:
  "errors_from n st \<Longrightarrow> errors_from n (accumulate s st)" "errors_from n st \<Longrightarrow> errors_from n (append_value s st)"
  "errors_from n st \<Longrightarrow> errors_from n (end_entry st)"
  "errors_from n st \<Longrightarrow> errors_from n (st\<lparr>kvs := kv_report l msg (kvs st)\<rparr>)"
  "errors_from n st \<Longrightarrow> errors_from n (key_line l c g st)"
  by (simp add: errors_from_def, simp add: errors_from_def append_value_def split: value_ptr.splits,
      simp add: errors_from_def end_entry_def, simp add: errors_from_def,
      cases g, simp add: errors_from_def key_line_def put_value_def report_duplicate_def start_after_def)

lemma errors_from_read_lines:
  "errors_from n st \<Longrightarrow> read_lines ls st = Inr st' \<Longrightarrow> errors_from n st'"
proof (induction ls arbitrary: st)
  case (Cons l ls)
  obtain i s where l: "l = (i, s)" by (cases l)
  obtain st1 where st1: "read_line (i, s) st = Inr st1" "read_lines ls st1 = Inr st'"
    using Cons.prems(2) by (auto simp: l res_simps)
  have "errors_from n st1"
    by (rule read_line_keeps [OF st1(1), where Q = "errors_from n"])
       (use Cons.prems(1) in \<open>simp_all add: errors_from_steps\<close>, simp add: errors_from_def set_preferred_eol_def)
  then show ?case using Cons.IH st1(2) by blast
qed simp

lemma finish_file_data:
  assumes "finite (kv_keys (kvs st))"
  defines "kv \<equiv> kvs st"
  shows "om_get (kv_data (fst (finish_file n st))) k =
       (if k \<in> kv_keys kv \<and> \<not> om_has (kv_data kv) k then om_get (kv_defaults kv) k else om_get (kv_data kv) k)"
    and "snd (finish_file n st) \<longleftrightarrow>
       num_errors (kv_error kv) + (if in_after st then 1 else 0) +
       (if \<exists>k \<in> kv_keys kv. \<not> om_has (kv_data kv) k \<and> \<not> om_has (kv_defaults kv) k then 1 else 0) = n"
proof -
  define kv1 where "kv1 = report_continuation st"
  have kv1: "kv_data kv1 = kv_data kv" "kv_defaults kv1 = kv_defaults kv" "kv_keys kv1 = kv_keys kv"
      "num_errors (kv_error kv1) = num_errors (kv_error kv) + (if in_after st then 1 else 0)"
    by (simp_all add: kv1_def report_continuation_def kv_def)
  let ?ks = "sorted_list_of_set (kv_keys kv)"
  define r where "r = fill_defaults kv1"
  have r_fold: "r = fold fill_default ?ks (kv1, [])" by (simp add: r_def fill_defaults_def kv1(3))
  have r: "om_get (kv_data (fst r)) x =
        (if x \<in> set ?ks \<and> \<not> om_has (kv_data kv) x then om_get (kv_defaults kv) x else om_get (kv_data kv) x)"
      "snd r = filter (\<lambda>k. \<not> om_has (kv_data kv) k \<and> \<not> om_has (kv_defaults kv) k) ?ks" for x
    using fill_defaults_correct [of ?ks "[]" r kv1 x] by (simp_all add: r_fold kv1(1,2))
  have r_file: "kv_filename (fst r) = kv_filename kv"
    by (simp add: r_fold fill_defaults_frame) (simp add: kv1_def report_continuation_def kv_def)
  have ks: "set ?ks = kv_keys kv" using assms(1) by (simp add: kv_def)
  have fin: "finish_file n st =
      (let kv2 = (if snd r \<noteq> [] then kv_report (FileLocation (kv_filename kv) 0 0)
          (''no values for the following keys: '' @ join '' '' (snd r)) (fst r) else fst r)
       in (kv2, num_errors (kv_error kv2) = n))"
    unfolding finish_file_def kv1_def [symmetric] r_def [symmetric]
    by (simp add: with_status_def report_missing_def split_def r_file Let_def)
  have "kv_data (fst (finish_file n st)) = kv_data (fst r)" unfolding fin by (simp add: Let_def)
  then show "om_get (kv_data (fst (finish_file n st))) k =
       (if k \<in> kv_keys kv \<and> \<not> om_has (kv_data kv) k then om_get (kv_defaults kv) k else om_get (kv_data kv) k)"
    using r(1) [of k] by (simp only: ks)
  have "snd r \<noteq> [] \<longleftrightarrow> (\<exists>k \<in> kv_keys kv. \<not> om_has (kv_data kv) k \<and> \<not> om_has (kv_defaults kv) k)"
    unfolding r(2) using ks by (auto simp: filter_empty_conv)
  moreover have "num_errors (kv_error (fst r)) = num_errors (kv_error kv) + (if in_after st then 1 else 0)"
    by (simp add: r_fold fill_defaults_frame kv1(4))
  ultimately show "snd (finish_file n st) \<longleftrightarrow>
       num_errors (kv_error kv) + (if in_after st then 1 else 0) +
       (if \<exists>k \<in> kv_keys kv. \<not> om_has (kv_data kv) k \<and> \<not> om_has (kv_defaults kv) k then 1 else 0) = n"
    unfolding fin Let_def snd_conv
    by (cases "\<exists>k \<in> kv_keys kv. \<not> om_has (kv_data kv) k \<and> \<not> om_has (kv_defaults kv) k")
       (simp_all only: if_True if_False kv_report_frame simp_thms add_0_right)
qed

lemma KeyVal_fields:
  assumes "KeyVal e filename ks ds = Inr kv"
  shows "kv_keys kv = ks \<union> set (om_keys ds)" "kv_defaults kv = ds" "kv_data kv = []" "explicit_keys kv = {}"
    "kv_orig_data kv = []" "\<And>k. k \<in> ks \<Longrightarrow> \<not> om_has ds k"
  using assms by (auto simp: KeyVal_def Let_def res_simps list_ex_iff om_has_iff)

text \<open>
  C37: when \<open>readFile\<close> reports success, every key has a value. Only known keys have values, and a
  key that the file does not mention has its default.
\<close>

theorem readFile_values:
  assumes "KeyVal e filename ks ds = Inr kv" and "finite ks" and "readFile content kv = Inr (kv', okay)"
  shows "getKeys kv' = ks \<union> set (om_keys ds)
     \<and> (okay \<longrightarrow> (\<forall>k \<in> getKeys kv'. \<exists>v. getVal kv' k = Inr v))
     \<and> (\<forall>k v. getVal kv' k = Inr v \<longrightarrow> k \<in> getKeys kv' \<and> (k \<in> getExplicitKeys kv' \<or> om_get ds k = Some v))"
proof -
  note f = KeyVal_fields [OF assms(1)]
  obtain st where st: "read_lines (enumerate 1 (readLinesFromFile content False)) (start_state kv) = Inr st"
      "(kv', okay) = finish_file (num_errors (kv_error kv)) st"
    using readFile_returns [of content kv] assms(3) by auto
  have "data_inv kv (start_state kv)" by (simp add: data_inv_def start_state_def f)
  then have inv: "data_inv kv st" using st(1) by (rule data_inv_read_lines)
  have keys: "kv_keys (kvs st) = ks \<union> set (om_keys ds)" and dflt: "kv_defaults (kvs st) = ds"
    and has: "\<And>k. om_has (kv_data (kvs st)) k \<longleftrightarrow> k \<in> explicit_keys (kvs st)"
    and sub: "explicit_keys (kvs st) \<subseteq> ks \<union> set (om_keys ds)"
    using inv by (simp_all add: data_inv_def f)
  have "errors_from (num_errors (kv_error kv)) (start_state kv)" by (simp add: errors_from_def start_state_def)
  then have more: "num_errors (kv_error (kvs st)) \<ge> num_errors (kv_error kv)"
    using st(1) errors_from_read_lines by (auto simp: errors_from_def)
  have "finite (kv_keys (kvs st))" using assms(2) by (simp add: keys)
  note d = finish_file_data [OF this, of "num_errors (kv_error kv)", folded st(2), unfolded fst_conv snd_conv keys dflt]
  have kv': "kv_keys kv' = ks \<union> set (om_keys ds)" "explicit_keys kv' = explicit_keys (kvs st)"
    using finish_file_frame [of "num_errors (kv_error kv)" st, folded st(2)] keys by simp_all
  have val: "getVal kv' k = Inr v \<longleftrightarrow> om_get (kv_data kv') k = Some v" for k v
    by (simp add: getVal_def split: option.splits)
  have "\<exists>v. getVal kv' k = Inr v" if okay "k \<in> ks \<union> set (om_keys ds)" for k
  proof -
    have "om_has (kv_data (kvs st)) k \<or> om_has ds k"
      using d(2) more that by (auto split: if_splits)
    then show ?thesis unfolding val d(1) using that(2) by (auto simp: om_has_def)
  qed
  moreover have "k \<in> ks \<union> set (om_keys ds) \<and> (k \<in> explicit_keys kv' \<or> om_get ds k = Some v)"
    if "getVal kv' k = Inr v" for k v
  proof (cases "om_has (kv_data (kvs st)) k")
    case True
    then show ?thesis using has sub kv'(2) by auto
  next
    case False
    then have "om_get (kv_data (kvs st)) k = None" by (simp add: om_has_def)
    then show ?thesis using that d(1) [of k] unfolding val by (auto split: if_splits)
  qed
  ultimately show ?thesis by (simp add: getKeys_def getExplicitKeys_def kv')
qed

section \<open>Plain files\<close>

definition plain_key :: "string \<Rightarrow> bool" where
  "plain_key k \<longleftrightarrow> k \<noteq> [] \<and> list_all (\<lambda>c. \<not> isspace c \<and> c \<noteq> CHR '':'') k \<and> hd k \<noteq> CHR ''#''"

definition plain_value :: "string \<Rightarrow> bool" where
  "plain_value v \<longleftrightarrow> newline \<notin> set v
     \<and> (v = [] \<or> \<not> isspace (hd v) \<and> \<not> isspace (last v) \<and> last v \<noteq> backslash)"

definition plain_line :: "string \<times> string \<Rightarrow> string" where
  "plain_line p = fst p @ '': '' @ snd p"

lemma isspace_chars [simp]: "isspace (CHR '' '')" "isspace newline" "\<not> isspace (CHR '':'')"
  "\<not> isspace backslash"
  by (simp_all add: isspace_def)

lemma strip_end_snoc: "isspace c \<Longrightarrow> strip_end (s @ [c]) = strip_end s"
  by (simp add: strip_end_def)

lemma strip_end_id: "s \<noteq> [] \<Longrightarrow> \<not> isspace (last s) \<Longrightarrow> strip_end s = s"
  by (cases s rule: rev_cases) (simp_all add: strip_end_def)

lemma strip_front_id: "s \<noteq> [] \<Longrightarrow> \<not> isspace (hd s) \<Longrightarrow> strip_front (s @ t) = s @ t"
  by (cases s) (simp_all add: strip_front_def)

lemma content_value:
  assumes "plain_value v"
  shows "content_groups (CHR '' '' # v @ [newline]) = (v, False)"
proof (cases "v = []")
  case True
  then show ?thesis by (simp add: content_groups_def strip_front_def strip_end_def)
next
  case False
  then have "strip_end (strip_front (CHR '' '' # v @ [newline])) = v"
    using assms strip_front_id [of v "[newline]"] strip_end_snoc [of newline v] strip_end_id [of v]
    by (simp add: plain_value_def strip_front_def)
  then show ?thesis using assms False by (simp add: content_groups_def plain_value_def)
qed

lemma plain_content:
  assumes "plain_key k" and "plain_value v"
  shows "snd (content_groups (plain_line (k, v) @ [newline])) = False"
    and "fst (content_groups (plain_line (k, v) @ [newline])) \<noteq> []"
    and "\<not> comment_line (plain_line (k, v) @ [newline])"
    and "kv_groups (plain_line (k, v) @ [newline]) = Some ([], k, '': '' @ v @ [newline], v)"
proof -
  have k: "k \<noteq> []" "\<not> isspace (hd k)" "hd k \<noteq> CHR ''#''"
    using assms(1) by (cases k; simp add: plain_key_def)+
  have front: "strip_front (plain_line (k, v) @ [newline]) = plain_line (k, v) @ [newline]"
    using strip_front_id [OF k(1,2), of "'': '' @ v @ [newline]"] by (simp add: plain_line_def)
  have r: "\<exists>r. strip_end (plain_line (k, v) @ [newline]) = k @ r \<and> last (k @ r) \<noteq> backslash"
  proof (cases "v = []")
    case True
    have "strip_end (plain_line (k, v) @ [newline]) = k @ '':''"
      using strip_end_snoc [of newline "k @ '': ''"] strip_end_snoc [of "CHR '' ''" "k @ '':''"]
        strip_end_id [of "k @ '':''"] True by (simp add: plain_line_def)
    then show ?thesis by (intro exI [of _ "'':''"]) simp
  next
    case False
    then have "strip_end (plain_line (k, v) @ [newline]) = k @ '': '' @ v"
      using strip_end_snoc [of newline "k @ '': '' @ v"] strip_end_id [of "k @ '': '' @ v"] assms(2)
      by (simp add: plain_line_def plain_value_def)
    then show ?thesis using False assms(2) by (intro exI [of _ "'': '' @ v"]) (simp add: plain_value_def)
  qed
  then show "snd (content_groups (plain_line (k, v) @ [newline])) = False"
    and "fst (content_groups (plain_line (k, v) @ [newline])) \<noteq> []"
    using k(1) by (auto simp: content_groups_def front)
  show "\<not> comment_line (plain_line (k, v) @ [newline])"
    using k front by (simp add: comment_line_def plain_line_def)
  have "takeWhile isspace (k @ x) = []" "dropWhile isspace (k @ x) = k @ x" for x
    using k by (cases k; simp)+
  moreover have "takeWhile (\<lambda>c. \<not> isspace c \<and> c \<noteq> CHR '':'') (k @ CHR '':'' # x) = k"
    "dropWhile (\<lambda>c. \<not> isspace c \<and> c \<noteq> CHR '':'') (k @ CHR '':'' # x) = CHR '':'' # x" for x
    using assms(1) by (simp_all add: plain_key_def list_all_iff takeWhile_append2 dropWhile_append2)
  ultimately show "kv_groups (plain_line (k, v) @ [newline]) = Some ([], k, '': '' @ v @ [newline], v)"
    using k(1) content_value [OF assms(2)] by (simp add: kv_groups_def plain_line_def Let_def)
qed

lemma readLines_unterminated:
  "newline \<notin> set l \<Longrightarrow> fold (readLines_step False) l (ls @ [b], True) = (ls @ [b @ l], True)"
  by (induction l arbitrary: b) (auto simp: readLines_step_def Let_def)

lemma readLines_line:
  assumes "newline \<notin> set l"
  shows "fold (readLines_step False) (l @ [newline]) (ls, False) = (ls @ [l @ [newline]], False)"
proof (cases l)
  case Nil
  then show ?thesis by (simp add: readLines_step_def)
next
  case (Cons c l')
  then have "fold (readLines_step False) l (ls, False) = (ls @ [l], True)"
    using assms readLines_unterminated [of l' ls "[c]"] by (auto simp: readLines_step_def Let_def)
  then show ?thesis by (simp add: readLines_step_def)
qed

lemma readLines_lines:
  assumes "\<And>l. l \<in> set ls \<Longrightarrow> newline \<notin> set l"
  shows "readLinesFromFile (concat (map (\<lambda>l. l @ [newline]) ls)) False = map (\<lambda>l. l @ [newline]) ls"
proof -
  have "fold (readLines_step False) (concat (map (\<lambda>l. l @ [newline]) ls)) (xs, False) =
      (xs @ map (\<lambda>l. l @ [newline]) ls, False)" for xs
    using assms
  proof (induction ls arbitrary: xs)
    case (Cons l ls)
    have "fold (readLines_step False) (concat (map (\<lambda>l. l @ [newline]) (l # ls))) (xs, False) =
        fold (readLines_step False) (concat (map (\<lambda>l. l @ [newline]) ls))
          (fold (readLines_step False) (l @ [newline]) (xs, False))"
      by simp
    also have "\<dots> = fold (readLines_step False) (concat (map (\<lambda>l. l @ [newline]) ls)) (xs @ [l @ [newline]], False)"
      using Cons.prems by (subst readLines_line) simp_all
    also have "\<dots> = (xs @ map (\<lambda>l. l @ [newline]) (l # ls), False)"
      using Cons.IH [of "xs @ [l @ [newline]]"] Cons.prems by simp
    finally show ?case .
  qed simp
  then show ?thesis by (simp add: readLinesFromFile_def)
qed

text \<open>One plain line with a new key.\<close>

definition between_entries :: "kv_state \<Rightarrow> bool" where
  "between_entries st \<longleftrightarrow> value_ptr st = Null_Value \<and> \<not> in_after st"

lemma read_plain_line:
  assumes "plain_key k" and "plain_value v" and "between_entries st"
    and "\<not> om_has (kv_data (kvs st)) k" and "k \<in> kv_keys (kvs st)"
  shows "\<exists>st'. read_line (n, plain_line (k, v) @ [newline]) st = Inr st' \<and> between_entries st'
     \<and> kv_data (kvs st') = om_put k v (kv_data (kvs st)) \<and> kv_keys (kvs st') = kv_keys (kvs st)
     \<and> kv_defaults (kvs st') = kv_defaults (kvs st) \<and> kv_error (kvs st') = kv_error (kvs st)"
proof -
  let ?s = "plain_line (k, v) @ [newline]"
  note c = plain_content [OF assms(1,2)]
  let ?st = "set_preferred_eol n ?s st"
  have st: "value_ptr ?st = Null_Value" "\<not> in_after ?st" "kv_data (kvs ?st) = kv_data (kvs st)"
      "kv_keys (kvs ?st) = kv_keys (kvs st)" "kv_defaults (kvs ?st) = kv_defaults (kvs st)"
      "kv_error (kvs ?st) = kv_error (kvs st)"
    using assms(3) by (simp_all add: between_entries_def set_preferred_eol_def)
  have run: "read_line (n, ?s) st =
      Inr (end_entry (key_line (FileLocation (kv_filename (kvs st)) (int n) 0) False ([], k, '': '' @ v @ [newline], v) ?st))"
    using st(1,2) c unfolding read_line_process process_line_def
    by (simp add: read_content_def end_unless_def)
  show ?thesis
    unfolding run using assms(4,5) st
    by (simp add: between_entries_def end_entry_def key_line_def put_value_def report_duplicate_def start_after_def)
qed

lemma read_plain_lines:
  assumes "distinct (map fst ps)" and "\<And>k v. (k, v) \<in> set ps \<Longrightarrow> plain_key k \<and> plain_value v \<and> k \<in> kv_keys (kvs st)
       \<and> \<not> om_has (kv_data (kvs st)) k"
    and "between_entries st"
  shows "\<exists>st'. read_lines (enumerate n (map (\<lambda>p. plain_line p @ [newline]) ps)) st = Inr st' \<and> between_entries st'
     \<and> (\<forall>k. om_get (kv_data (kvs st')) k =
          (case map_of ps k of Some v \<Rightarrow> Some v | None \<Rightarrow> om_get (kv_data (kvs st)) k))
     \<and> kv_keys (kvs st') = kv_keys (kvs st) \<and> kv_defaults (kvs st') = kv_defaults (kvs st)
     \<and> kv_error (kvs st') = kv_error (kvs st)"
  using assms
proof (induction ps arbitrary: st n)
  case (Cons p ps)
  obtain k v where p: "p = (k, v)" by (cases p)
  have kv: "plain_key k" "plain_value v" "k \<in> kv_keys (kvs st)" "\<not> om_has (kv_data (kvs st)) k"
    using Cons.prems(2) [of k v] by (simp_all add: p)
  obtain st1 where st1: "read_line (n, plain_line (k, v) @ [newline]) st = Inr st1" "between_entries st1"
      "kv_data (kvs st1) = om_put k v (kv_data (kvs st))" "kv_keys (kvs st1) = kv_keys (kvs st)"
      "kv_defaults (kvs st1) = kv_defaults (kvs st)" "kv_error (kvs st1) = kv_error (kvs st)"
    using read_plain_line [OF kv(1,2) Cons.prems(3) kv(4,3)] by blast
  have notin: "k \<notin> fst ` set ps" using Cons.prems(1) by (simp add: p)
  have rest: "plain_key k' \<and> plain_value v' \<and> k' \<in> kv_keys (kvs st1) \<and> \<not> om_has (kv_data (kvs st1)) k'"
    if "(k', v') \<in> set ps" for k' v'
  proof -
    have "k' \<noteq> k" using notin that by force
    then show ?thesis using Cons.prems(2) [of k' v'] that st1(3,4) by simp
  qed
  have "distinct (map fst ps)" using Cons.prems(1) by simp
  from Cons.IH [OF this rest st1(2), of "Suc n"] obtain st2 where st2:
      "read_lines (enumerate (Suc n) (map (\<lambda>p. plain_line p @ [newline]) ps)) st1 = Inr st2" "between_entries st2"
      "\<And>k. om_get (kv_data (kvs st2)) k = (case map_of ps k of Some v \<Rightarrow> Some v | None \<Rightarrow> om_get (kv_data (kvs st1)) k)"
      "kv_keys (kvs st2) = kv_keys (kvs st1)" "kv_defaults (kvs st2) = kv_defaults (kvs st1)"
      "kv_error (kvs st2) = kv_error (kvs st1)" by blast
  have none: "map_of ps k = None" using notin by (simp add: map_of_eq_None_iff)
  show ?case
    using st1 st2 none by (simp add: p split: option.splits)
qed simp

text \<open>
  C22: a file of lines \<open>key: value\<close> with different valid keys is read without a report, and gives the
  values that were written; the other keys have their defaults. It is refused exactly if a key
  without default is missing.
\<close>

theorem plain_file_values:
  assumes "KeyVal e filename ks ds = Inr kv" and "finite ks" and "distinct (map fst ps)"
    and "\<And>k v. (k, v) \<in> set ps \<Longrightarrow> plain_key k \<and> plain_value v \<and> k \<in> ks \<union> set (om_keys ds)"
  shows "\<exists>kv' okay. readFile (concat (map (\<lambda>p. plain_line p @ [newline]) ps)) kv = Inr (kv', okay)
     \<and> (\<forall>k \<in> ks \<union> set (om_keys ds). \<forall>fallback.
          getVal_or kv' k fallback = Inr (case map_of ps k of Some v \<Rightarrow> v
             | None \<Rightarrow> (case om_get ds k of Some v \<Rightarrow> v | None \<Rightarrow> fallback)))
     \<and> (okay \<longleftrightarrow> ks \<subseteq> fst ` set ps)"
proof -
  note f = KeyVal_fields [OF assms(1)]
  let ?content = "concat (map (\<lambda>p. plain_line p @ [newline]) ps)"
  have nonl: "newline \<notin> set (plain_line p)" if "p \<in> set ps" for p
  proof -
    obtain k v where p: "p = (k, v)" by (cases p)
    have "plain_key k" "plain_value v" using assms(4) [of k v] that unfolding p by blast+
    then have "newline \<notin> set k" "newline \<notin> set v"
      using isspace_chars(2) unfolding plain_key_def plain_value_def list_all_iff by blast+
    then show ?thesis by (simp add: p plain_line_def)
  qed
  have "readLinesFromFile (concat (map (\<lambda>l. l @ [newline]) (map plain_line ps))) False =
      map (\<lambda>l. l @ [newline]) (map plain_line ps)"
    by (rule readLines_lines) (use nonl in auto)
  then have lines: "readLinesFromFile ?content False = map (\<lambda>p. plain_line p @ [newline]) ps"
    by (simp only: map_map comp_def)
  have start: "between_entries (start_state kv)" "kv_data (kvs (start_state kv)) = []"
      "kv_keys (kvs (start_state kv)) = ks \<union> set (om_keys ds)" "kv_defaults (kvs (start_state kv)) = ds"
      "kv_error (kvs (start_state kv)) = kv_error kv"
    by (simp_all add: between_entries_def start_state_def f)
  have pre: "plain_key k \<and> plain_value v \<and> k \<in> kv_keys (kvs (start_state kv))
      \<and> \<not> om_has (kv_data (kvs (start_state kv))) k" if "(k, v) \<in> set ps" for k v
    using assms(4) [OF that] start(2,3) by simp
  obtain st where "read_lines (enumerate 1 (map (\<lambda>p. plain_line p @ [newline]) ps)) (start_state kv) = Inr st
      \<and> between_entries st
      \<and> (\<forall>k. om_get (kv_data (kvs st)) k = (case map_of ps k of Some v \<Rightarrow> Some v
         | None \<Rightarrow> om_get (kv_data (kvs (start_state kv))) k))
      \<and> kv_keys (kvs st) = kv_keys (kvs (start_state kv))
      \<and> kv_defaults (kvs st) = kv_defaults (kvs (start_state kv))
      \<and> kv_error (kvs st) = kv_error (kvs (start_state kv))"
    using read_plain_lines [OF assms(3) pre start(1), of 1] by (rule exE)
  note st' = this [THEN conjunct1] this [THEN conjunct2, THEN conjunct1]
    this [THEN conjunct2, THEN conjunct2, THEN conjunct1, rule_format]
    this [THEN conjunct2, THEN conjunct2, THEN conjunct2, THEN conjunct1]
    this [THEN conjunct2, THEN conjunct2, THEN conjunct2, THEN conjunct2, THEN conjunct1]
    this [THEN conjunct2, THEN conjunct2, THEN conjunct2, THEN conjunct2, THEN conjunct2]
  have data: "om_get (kv_data (kvs st)) k = map_of ps k" for k
    using st'(3) [of k] unfolding start(2) by (simp split: option.splits)
  note st = st'(1,2) data st'(4) [unfolded start(3)] st'(5) [unfolded start(4)] st'(6) [unfolded start(5)]
  obtain kv' okay where r: "(kv', okay) = finish_file (num_errors (kv_error kv)) st"
    by (metis prod.collapse)
  have run: "readFile ?content kv = Inr (kv', okay)"
    unfolding readFile_def lines st(1) bind_res_Inr r by (rule refl)
  have "finite (kv_keys (kvs st))" using assms(2) by (simp add: st(4))
  note d = finish_file_data [OF this, of "num_errors (kv_error kv)", folded r, unfolded fst_conv snd_conv st(3-6)]
  have has: "om_has (kv_data (kvs st)) k \<longleftrightarrow> k \<in> fst ` set ps" for k
    by (simp add: om_has_def st(3) map_of_eq_None_iff)
  have vals: "getVal_or kv' k fallback = Inr (case map_of ps k of Some v \<Rightarrow> v
             | None \<Rightarrow> (case om_get ds k of Some v \<Rightarrow> v | None \<Rightarrow> fallback))"
    if "k \<in> ks \<union> set (om_keys ds)" for k fallback
  proof -
    have "om_get (kv_data kv') k = (if map_of ps k = None then om_get ds k else map_of ps k)"
      using d(1) [of k] that by (simp add: om_has_def st(3))
    then show ?thesis by (auto simp: getVal_or_def getVal_def om_has_def split: option.splits)
  qed
  have "okay \<longleftrightarrow> \<not> (\<exists>k \<in> ks \<union> set (om_keys ds). k \<notin> fst ` set ps \<and> \<not> om_has ds k)"
    using d(2) st(2) by (simp add: between_entries_def has)
  also have "\<dots> \<longleftrightarrow> ks \<subseteq> fst ` set ps"
    using f(6) by (auto simp: om_has_iff)
  finally show ?thesis using run vals by blast
qed

section \<open>An example\<close>

text \<open>
  The keys \<open>name\<close> and \<open>deps\<close>, the second with an empty default. The faulty file has a continued value
  with a comment in it and no end of line, and does not have \<open>name\<close>.
\<close>

definition kv_start_error :: error where
  "kv_start_error = new_error NO_JOB ''abuild'' \<lparr>any_errors = False, deprecate_is_error = False,
     error_callback = False, error_log = [], callback_log = []\<rparr>"

definition conf0 :: keyval where
  "conf0 = projr (KeyVal kv_start_error ''Abuild.conf'' {''name''} [(''deps'', [])])"

definition faulty_conf :: string where
  "faulty_conf = ''deps : a '' @ [backslash, newline] @ ''#'' @ [newline] @ ''  b''"

lemma conf0_created: "KeyVal kv_start_error ''Abuild.conf'' {''name''} [(''deps'', [])] = Inr conf0"
  unfolding conf0_def by code_simp

definition faulty_read :: "keyval \<times> bool" where
  "faulty_read = projr (readFile faulty_conf conf0)"

lemma faulty_values:
  "case readFile faulty_conf conf0 of Inl e \<Rightarrow> False
   | Inr (kv', okay) \<Rightarrow> \<not> okay \<and> getVal kv' ''deps'' = Inr ''a  b'' \<and> num_errors (kv_error kv') = 1"
  by code_simp

lemma faulty_run: "readFile faulty_conf conf0 = Inr (fst faulty_read, snd faulty_read)"
  using faulty_values by (cases "readFile faulty_conf conf0") (simp_all add: faulty_read_def)

theorem write_restores_file_witness:
  "\<exists>kv' okay. readFile faulty_conf conf0 = Inr (kv', okay) \<and> writeFile [] [] {} [] kv' = faulty_conf"
  by (rule write_restores_file [OF conf0_created])

theorem readFile_values_witness:
  "getKeys (fst faulty_read) = {''name'', ''deps''}"
proof -
  have fin: "finite {''name''}" by simp
  have "getKeys (fst faulty_read) = {''name''} \<union> set (om_keys [(''deps'', [] :: string)])"
    using readFile_values [OF conf0_created fin faulty_run] by (rule conjunct1)
  also have "set (om_keys [(''deps'', [] :: string)]) = {''deps''}" by code_simp
  finally show ?thesis by (simp only: insert_is_Un [symmetric])
qed

definition good_pairs :: "(string \<times> string) list" where
  "good_pairs = [(''name'', ''x.y''), (''deps'', ''a b'')]"

theorem plain_file_values_witness:
  "\<exists>kv' okay. readFile (concat (map (\<lambda>p. plain_line p @ [newline]) good_pairs)) conf0 = Inr (kv', okay)
     \<and> okay \<and> getVal_or kv' ''deps'' [] = Inr ''a b''"
proof -
  let ?ds = "[(''deps'', [])] :: (string, string) omap"
  have plain: "plain_key k \<and> plain_value v \<and> k \<in> {''name''} \<union> set (om_keys ?ds)"
    if "(k, v) \<in> set good_pairs" for k v
  proof -
    have "list_all (\<lambda>(k, v). plain_key k \<and> plain_value v \<and> k \<in> {''name''} \<union> set (om_keys ?ds)) good_pairs"
      by code_simp
    then show ?thesis using that by (auto simp: list_all_iff)
  qed
  have dist: "distinct (map fst good_pairs)" by code_simp
  have fin: "finite {''name''}" by simp
  have "\<exists>kv' okay. readFile (concat (map (\<lambda>p. plain_line p @ [newline]) good_pairs)) conf0 = Inr (kv', okay)
     \<and> (\<forall>k \<in> {''name''} \<union> set (om_keys ?ds). \<forall>fallback.
          getVal_or kv' k fallback = Inr (case map_of good_pairs k of Some v \<Rightarrow> v
             | None \<Rightarrow> (case om_get ?ds k of Some v \<Rightarrow> v | None \<Rightarrow> fallback)))
     \<and> (okay \<longleftrightarrow> {''name''} \<subseteq> fst ` set good_pairs)"
    by (rule plain_file_values [OF conf0_created fin dist]) (rule plain)
  then obtain kv' okay where "readFile (concat (map (\<lambda>p. plain_line p @ [newline]) good_pairs)) conf0 = Inr (kv', okay)
     \<and> (\<forall>k \<in> {''name''} \<union> set (om_keys ?ds). \<forall>fallback.
          getVal_or kv' k fallback = Inr (case map_of good_pairs k of Some v \<Rightarrow> v
             | None \<Rightarrow> (case om_get ?ds k of Some v \<Rightarrow> v | None \<Rightarrow> fallback)))
     \<and> (okay \<longleftrightarrow> {''name''} \<subseteq> fst ` set good_pairs)"
    by (elim exE)
  note r = this [THEN conjunct1] this [THEN conjunct2, THEN conjunct1, rule_format, of "''deps''" "[]"]
    this [THEN conjunct2, THEN conjunct2]
  have "okay" using r(3) by (simp add: good_pairs_def)
  moreover have "getVal_or kv' ''deps'' [] = Inr ''a b''"
    using r(2) by (simp add: om_keys_def good_pairs_def)
  ultimately show ?thesis using r(1) by (intro exI conjI)
qed

end
