(* ===== verification/Item_Config_Safe.thy ===== *)
theory Item_Config_Safe
  imports Item_Config_Read Key_Val_Properties Platform_Properties
begin

text \<open>
  Every check of \<open>ItemConfig\<close> returns when every key has a value: what the checks need of a
  configuration is its \<open>core\<close>, the key-value file and the compatibility level, which no check changes.
\<close>

definition needed_keys :: "bool \<Rightarrow> string list" where
  "needed_keys allow_1_0 = (if allow_1_0 then keys_1_0 else []) @ keys_1_1"

definition keys_present :: "bool \<Rightarrow> keyval \<Rightarrow> bool" where
  "keys_present allow_1_0 kv \<longleftrightarrow> (\<forall>k \<in> set (needed_keys allow_1_0). om_has (kv_data kv) k)
     \<and> explicit_keys kv \<subseteq> set (needed_keys allow_1_0)"

definition core :: "item_config \<Rightarrow> bool \<times> keyval" where
  "core ic = (ic_allow_1_0 ic, ic_kv ic)"

definition core_ok :: "bool \<times> keyval \<Rightarrow> bool" where
  "core_ok c \<longleftrightarrow> keys_present (fst c) (snd c)"

definition safe :: "(item_config \<Rightarrow> item_config res) \<Rightarrow> bool" where
  "safe f \<longleftrightarrow> (\<forall>ic. core_ok (core ic) \<longrightarrow> (\<exists>ic'. f ic = Inr ic' \<and> core ic' = core ic))"

lemma core_updates [simp]:
  "core (ic\<lparr>ic_error := a1\<rparr>) = core ic" "core (ic\<lparr>ic_parent_dir := a2\<rparr>) = core ic"
  "core (ic\<lparr>ic_is_root := a3\<rparr>) = core ic" "core (ic\<lparr>ic_is_forest_root := a3\<rparr>) = core ic"
  "core (ic\<lparr>ic_is_child_only := a3\<rparr>) = core ic" "core (ic\<lparr>ic_deprecated := a3\<rparr>) = core ic"
  "core (ic\<lparr>ic_external_symlinks := a3\<rparr>) = core ic" "core (ic\<lparr>ic_buildfile := a2\<rparr>) = core ic"
  "core (ic\<lparr>ic_name := a2\<rparr>) = core ic" "core (ic\<lparr>ic_children := a4\<rparr>) = core ic"
  "core (ic\<lparr>ic_build_also := a5\<rparr>) = core ic" "core (ic\<lparr>ic_deps := a4\<rparr>) = core ic"
  "core (ic\<lparr>ic_tree_deps := a4\<rparr>) = core ic" "core (ic\<lparr>ic_flag_data := a6\<rparr>) = core ic"
  "core (ic\<lparr>ic_visible_to := a2\<rparr>) = core ic" "core (ic\<lparr>ic_platform_types := a7\<rparr>) = core ic"
  "core (ic\<lparr>ic_tree_name := a2\<rparr>) = core ic" "core (ic\<lparr>ic_externals := a4\<rparr>) = core ic"
  "core (ic\<lparr>ic_supported_flags := a7\<rparr>) = core ic" "core (ic\<lparr>ic_supported_traits := a7\<rparr>) = core ic"
  "core (ic\<lparr>ic_trait_data := a8\<rparr>) = core ic" "core (ic\<lparr>ic_deleted := a7\<rparr>) = core ic"
  "core (ic\<lparr>ic_description := a2\<rparr>) = core ic" "core (ic\<lparr>ic_plugins := a4\<rparr>) = core ic"
  "core (ic\<lparr>ic_dep_platform_types := a9\<rparr>) = core ic" "core (ic\<lparr>ic_dep_platform_selectors := a10\<rparr>) = core ic"
  "core (ic\<lparr>ic_optional_deps := a7\<rparr>) = core ic" "core (ic\<lparr>ic_optional_tree_deps := a7\<rparr>) = core ic"
  "core (ic\<lparr>ic_optional_children := a7\<rparr>) = core ic" "core (ic\<lparr>ic_global_plugins := a7\<rparr>) = core ic"
  "core (ic\<lparr>ic_serial := a3\<rparr>) = core ic"
  by (simp_all add: core_def)

lemma core_reports [simp]:
  "core (ic_report m ic) = core ic" "core (ic_warning m ic) = core ic" "core (ic_deprecate m ic) = core ic"
  by (simp_all add: ic_report_def ic_warning_def ic_deprecate_def)

section \<open>The helpers keep the core\<close>

lemma core_fold: "(\<And>x ic. core (f x ic) = core ic) \<Longrightarrow> core (fold f xs ic) = core ic"
  by (induction xs arbitrary: ic) simp_all

lemma core_validName [simp]: "core (fst (validName v d ic)) = core ic"
  by (simp add: validName_def)

lemma core_filterInvalidNames [simp]: "core (fst (filterInvalidNames ns d ic)) = core ic"
proof (induction ns arbitrary: ic)
  case (Cons n ns)
  then show ?case using core_validName [of n d ic] by (simp add: split_def)
qed simp

lemma core_checkKeyPresent [simp]: "core (checkKeyPresent k m ic) = core ic"
  by (simp add: checkKeyPresent_def)

lemma core_checkDuplicates [simp]: "core (fst (checkDuplicates ds f t ic)) = core ic"
  by (induction ds arbitrary: f ic) simp_all

lemma core_checkRelativePaths [simp]: "core (fst (checkRelativePaths ps d ic)) = core ic"
  by (induction ps arbitrary: ic) (simp_all add: split_def)

lemma core_interleaved [simp]: "core (interleaved sys w p ic) = core ic"
  by (simp add: interleaved_def)

lemma core_fold_interleaved [simp]: "core (fold (interleaved sys w) ps ic) = core ic"
  by (rule core_fold) simp

lemma core_children_loop [simp]: "core (fst (children_loop sys cs l ic)) = core ic"
  by (induction cs arbitrary: l ic) (simp_all add: split_def Let_def)

lemma core_tree_deps_loop [simp]: "core (fst (tree_deps_loop ws seen l ic)) = core ic"
  by (induction ws arbitrary: seen l ic) (simp_all add: split_def)

lemma core_plugins_loop [simp]: "core (fst (plugins_loop ws l ic)) = core ic"
  by (induction ws arbitrary: l ic) (simp_all add: split_def)

lemma core_checkUnnamed [simp]: "core (checkUnnamed ic) = core ic"
  unfolding checkUnnamed_def by (rule core_fold) simp

lemma core_detectRoot [simp]: "core (detectRoot ic) = core ic"
  by (simp add: detectRoot_def Let_def)

lemma core_checkRoot [simp]: "core (checkRoot sys ic) = core ic"
  by (simp add: checkRoot_def Let_def)

lemma core_build_also_option [simp]: "core (build_also_option arg ic) = core ic"
  by (simp add: build_also_option_def Let_def)

lemma core_external_word [simp]: "core (external_word sys w ic) = core ic"
  by (simp add: external_word_def Let_def)

lemma core_attribute_word [simp]: "core (attribute_word a ic) = core ic"
  by (simp add: attribute_word_def)

lemma core_trait_word [simp]: "core (snd (trait_word w s)) = core (snd s)"
  by (cases s) (simp add: trait_word_def split: option.split)

lemma core_fold_trait [simp]: "core (snd (fold trait_word ws s)) = core (snd s)"
  by (induction ws arbitrary: s) simp_all

lemma core_maybeSetBuildFile [simp]: "core (fst (maybeSetBuildFile sys f s)) = core (fst s)"
  by (cases s) (simp add: maybeSetBuildFile_def)

lemma core_fold_maybe [simp]: "core (fst (fold (maybeSetBuildFile sys) fs s)) = core (fst s)"
  by (induction fs arbitrary: s) simp_all

lemma core_checkBuildfile [simp]: "core (checkBuildfile sys ic) = core ic"
  using core_fold_maybe [of sys "[FILE_MK, FILE_ANT, FILE_ANT_BUILD, FILE_GROOVY]" "(ic, 0)"]
  by (simp only: checkBuildfile_def Let_def split_def if_distrib [of core] core_reports fst_conv if_cancel)

section \<open>The checks return\<close>

lemma explicit_core: "explicit ic k = (k \<in> explicit_keys (snd (core ic)))"
  by (simp add: explicit_def getExplicitKeys_def core_def)

lemma getVal_core: "getVal (ic_kv ic) k = getVal (snd (core ic)) k"
  by (simp add: core_def)

lemma core_value: "core_ok (core ic) \<Longrightarrow> k \<in> set (needed_keys (ic_allow_1_0 ic)) \<Longrightarrow> \<exists>v. getVal (ic_kv ic) k = Inr v"
  by (auto simp: core_ok_def keys_present_def core_def om_has_def getVal_def split: option.split)

lemma safe_value:
  assumes "k \<in> set keys_1_1" and "\<And>v ic. core_ok (core ic) \<Longrightarrow> \<exists>ic'. f v ic = Inr ic' \<and> core ic' = core ic"
  shows "safe (with_value k f)"
  unfolding safe_def
proof (intro allI impI)
  fix ic
  assume ok: "core_ok (core ic)"
  then obtain v where "getVal (ic_kv ic) k = Inr v"
    using core_value [OF ok, of k] assms(1) by (auto simp: needed_keys_def)
  then show "\<exists>ic'. with_value k f ic = Inr ic' \<and> core ic' = core ic"
    using assms(2) [OF ok] by (simp add: with_value_def)
qed

lemma safe_value_1_0:
  assumes "k \<in> set keys_1_0" and "core_ok (core ic)" and "ic_allow_1_0 ic"
    and "\<And>v. \<exists>ic'. f v ic = Inr ic' \<and> core ic' = core ic"
  shows "\<exists>ic'. with_value k f ic = Inr ic' \<and> core ic' = core ic"
  using core_value [OF assms(2), of k] assms(1,3,4) by (auto simp: needed_keys_def with_value_def)

lemma safe_words:
  assumes "k \<in> set keys_1_1"
    and "\<And>s ic. core_ok (core ic) \<Longrightarrow> \<exists>ic'. f (splitBySpace s) ic = Inr ic' \<and> core ic' = core ic"
  shows "safe (with_words k f)"
  unfolding with_words_def by (rule safe_value [OF assms(1)]) (rule assms(2))

lemma safe_words_1_0:
  assumes "k \<in> set keys_1_0" and "core_ok (core ic)" and "ic_allow_1_0 ic"
    and "\<And>s. \<exists>ic'. f (splitBySpace s) ic = Inr ic' \<and> core ic' = core ic"
  shows "\<exists>ic'. with_words k f ic = Inr ic' \<and> core ic' = core ic"
  unfolding with_words_def by (rule safe_value_1_0 [OF assms(1-3)]) (rule assms(4))

lemma checkDeprecated_total:
  assumes "core_ok (core ic)" and "\<not> ic_deprecated ic"
  shows "\<exists>ic'. checkDeprecated (detectRoot ic) = Inr ic' \<and> core ic' = core ic"
proof -
  have dep: "core (set_deprecated b ic) = core ic" "ic_allow_1_0 (set_deprecated b ic) = ic_allow_1_0 ic"
    "explicit (set_deprecated b ic) = explicit ic"
    "ic_deprecated (set_deprecated b ic) \<longleftrightarrow> b \<or> ic_deprecated ic" for b ic
    by (simp_all add: set_deprecated_def core_def explicit_def fun_eq_iff)
  have root: "ic_allow_1_0 (detectRoot ic) = ic_allow_1_0 ic" "explicit (detectRoot ic) = explicit ic"
    "ic_deprecated (detectRoot ic) = ic_deprecated ic"
    "\<not> ic_allow_1_0 ic \<Longrightarrow> ic_is_root (detectRoot ic) \<longleftrightarrow> explicit ic k_TREENAME"
    by (simp_all add: detectRoot_def Let_def explicit_def fun_eq_iff)
  have "\<not> explicit ic k" if "\<not> ic_allow_1_0 ic" "k \<notin> set keys_1_1" for k
    using assms that
    by (auto simp: core_ok_def core_def keys_present_def needed_keys_def explicit_def getExplicitKeys_def)
  moreover have "k_THIS \<notin> set keys_1_1" "k_PARENT \<notin> set keys_1_1" "k_DELETED \<notin> set keys_1_1"
    by code_simp+
  ultimately have no: "\<not> explicit ic k_THIS \<and> \<not> explicit ic k_PARENT \<and> \<not> explicit ic k_DELETED"
    if "\<not> ic_allow_1_0 ic" using that by blast
  show ?thesis
    using no root assms(2) by (auto simp: checkDeprecated_def Let_def dep)
qed

lemma build_also_loop_total:
  "\<forall>w \<in> set ws. w \<noteq> [] \<Longrightarrow> \<exists>ic'. build_also_loop ws ic = Inr ic' \<and> core ic' = core ic"
proof (induction ws arbitrary: ic)
  case (Cons w ws)
  then have "\<exists>ic1. build_also_step w ic = Inr ic1 \<and> core ic1 = core ic"
    by (auto simp: build_also_step_def split: option.split)
  then obtain ic1 where ic1: "build_also_step w ic = Inr ic1" "core ic1 = core ic" by (elim exE conjE)
  obtain ic2 where "build_also_loop ws ic1 = Inr ic2" "core ic2 = core ic1"
    using Cons.IH [of ic1] Cons.prems by auto
  then show ?case using ic1 by simp
qed simp

lemma platform_word_total: "\<exists>ic'. platform_word l dup pt ic = Inr ic' \<and> core ic' = core ic"
proof -
  obtain p okay where "initialize pt new_selector = Inr (p, okay)"
    using initialize_returns [of pt new_selector] by blast
  then show ?thesis by (simp add: platform_word_def set_platform_type_def Let_def)
qed

lemma dep_option_total: "\<exists>ic'. dep_option l dup w ic = Inr ic' \<and> core ic' = core ic"
  by (auto simp: dep_option_def platform_word_total split: option.split)

lemma deps_loop_total:
  "\<exists>ic' ds. deps_loop ws seen dup l ic = Inr (ic', ds) \<and> core ic' = core ic"
proof (induction ws arbitrary: seen dup l ic)
  case (Cons w ws)
  have rep: "core (repeated_dep w ic) = core ic" by (simp add: repeated_dep_def Let_def)
  consider (old) "isNameValid w" "w \<in> seen" | (new) "isNameValid w" "w \<notin> seen" | (opt) "\<not> isNameValid w" by blast
  then show ?case
  proof cases
    case old
    then show ?thesis using Cons.IH [of seen "insert w dup" w "repeated_dep w ic"] rep by simp
  next
    case new
    obtain ic' ds where "deps_loop ws (insert w seen) dup w ic = Inr (ic', ds)" "core ic' = core ic"
      using Cons.IH [of "insert w seen" dup w ic] by (elim exE conjE)
    then show ?thesis using new by simp
  next
    case opt
    obtain ic1 where ic1: "dep_option l dup w ic = Inr ic1" "core ic1 = core ic"
      using dep_option_total [of l dup w ic] by (elim exE conjE)
    then show ?thesis using opt Cons.IH [of seen dup l ic1] by simp
  qed
qed simp

lemma name_or_this_total:
  assumes "core_ok (core ic)"
  shows "\<exists>ic'. name_or_this ic = Inr ic' \<and> core ic' = core ic"
proof (cases "ic_allow_1_0 ic \<and> explicit ic k_THIS")
  case True
  define ic1 where "ic1 = (if explicit ic k_NAME
              then ic_report (''\"'' @ k_THIS @ ''\" and \"'' @ k_NAME @
                     ''\" may not appear in the same '' @ FILE_CONF @ '' file'') ic
              else ic)"
  have c: "core ic1 = core ic" by (simp add: ic1_def)
  then have "ic_allow_1_0 ic1" using True by (simp add: core_def)
  moreover have "k_THIS \<in> set keys_1_0" by code_simp
  ultimately have "\<exists>ic'. with_value k_THIS (\<lambda>v ic. Inr (ic\<lparr>ic_name := v\<rparr>)) ic1 = Inr ic' \<and> core ic' = core ic1"
    using assms c by (intro safe_value_1_0) simp_all
  then show ?thesis using True c unfolding name_or_this_def ic1_def by simp
qed (auto simp: name_or_this_def)

lemma safe_bind:
  assumes "safe f" and "\<And>ic. core_ok (core ic) \<Longrightarrow> \<exists>ic'. g ic = Inr ic' \<and> core ic' = core ic"
  shows "safe (\<lambda>ic. bind_res (f ic) g)"
  unfolding safe_def
proof (intro allI impI)
  fix ic
  assume ok: "core_ok (core ic)"
  then obtain ic1 where ic1: "f ic = Inr ic1" "core ic1 = core ic" using assms(1) unfolding safe_def by blast
  then show "\<exists>ic'. bind_res (f ic) g = Inr ic' \<and> core ic' = core ic" using assms(2) [of ic1] ok by simp
qed

lemma keys_1_1_member:
  "k_NAME \<in> set keys_1_1" "k_TREENAME \<in> set keys_1_1" "k_DESCRIPTION \<in> set keys_1_1"
  "k_CHILDREN \<in> set keys_1_1" "k_BUILD_ALSO \<in> set keys_1_1" "k_DEPS \<in> set keys_1_1"
  "k_TREEDEPS \<in> set keys_1_1" "k_VISIBLE_TO \<in> set keys_1_1" "k_PLATFORM \<in> set keys_1_1"
  "k_SUPPORTED_FLAGS \<in> set keys_1_1" "k_SUPPORTED_TRAITS \<in> set keys_1_1" "k_TRAITS \<in> set keys_1_1"
  "k_PLUGINS \<in> set keys_1_1" "k_ATTRIBUTES \<in> set keys_1_1"
  "k_PARENT \<in> set keys_1_0" "k_EXTERNAL \<in> set keys_1_0" "k_DELETED \<in> set keys_1_0"
  unfolding keys_1_1_def keys_1_0_def list.set by blast+

lemma safe_checkName: "safe checkName"
  unfolding checkName_def
proof (rule safe_bind)
  show "safe (with_value k_NAME (\<lambda>v ic. Inr (ic\<lparr>ic_name := v\<rparr>)))"
    by (rule safe_value) (simp_all add: keys_1_1_member)
  fix ic
  assume "core_ok (core ic)"
  then obtain ic1 where "name_or_this ic = Inr ic1" "core ic1 = core ic"
    using name_or_this_total by blast
  then show "\<exists>ic'. bind_res (name_or_this ic) (\<lambda>ic. Inr (if ic_name ic = [] then checkUnnamed ic
            else fst (validName (ic_name ic) ''build item names'' ic))) = Inr ic' \<and> core ic' = core ic"
    by simp
qed

lemma safe_checkTreeName: "safe checkTreeName"
  unfolding checkTreeName_def by (rule safe_value) (simp_all add: keys_1_1_member Let_def)

lemma safe_checkParent: "safe (checkParent sys)"
  unfolding safe_def checkParent_def
  by (auto simp: Let_def keys_1_1_member intro!: safe_value_1_0)

lemma safe_checkChildren: "safe (checkChildren sys)"
  unfolding checkChildren_def
  by (rule safe_words) (simp_all add: keys_1_1_member split_def)

lemma safe_checkBuildAlso: "safe checkBuildAlso"
  unfolding checkBuildAlso_def
proof (rule safe_words)
  fix s ic
  show "\<exists>ic'. build_also_loop (splitBySpace s) ic = Inr ic' \<and> core ic' = core ic"
    using splitBySpace_sound [of s] by (intro build_also_loop_total) (auto simp: is_word_def)
qed (simp add: keys_1_1_member)

lemma safe_checkDeps: "safe checkDeps"
  unfolding checkDeps_def
proof (rule safe_words)
  fix s ic
  obtain ic' ds where "deps_loop (splitBySpace s) {} {} [] ic = Inr (ic', ds)" "core ic' = core ic"
    using deps_loop_total [of "splitBySpace s" "{}" "{}" "[]" ic] by (elim exE conjE)
  then show "\<exists>ic'. bind_res (deps_loop (splitBySpace s) {} {} [] ic) (\<lambda>(ic, ds). Inr (ic\<lparr>ic_deps := ds\<rparr>)) = Inr ic'
      \<and> core ic' = core ic" by simp
qed (simp add: keys_1_1_member)

lemma safe_checkTreeDeps: "safe checkTreeDeps"
  unfolding checkTreeDeps_def by (rule safe_words) (simp_all add: keys_1_1_member split_def)

lemma safe_checkVisibleTo: "safe checkVisibleTo"
  unfolding checkVisibleTo_def by (rule safe_value) (simp_all add: keys_1_1_member split_def Let_def)

lemma safe_checkPlatforms: "safe (checkPlatforms sys)"
  unfolding checkPlatforms_def by (rule safe_words) (simp_all add: keys_1_1_member split_def Let_def)

lemma safe_checkExternals: "safe (checkExternals sys)"
  unfolding safe_def checkExternals_def
  by (auto simp: keys_1_1_member core_fold intro!: safe_words_1_0)

lemma safe_checkSupportedFlags: "safe checkSupportedFlags"
  unfolding checkSupportedFlags_def by (rule safe_words) (simp_all add: keys_1_1_member split_def)

lemma safe_checkSupportedTraits: "safe checkSupportedTraits"
  unfolding checkSupportedTraits_def by (rule safe_words) (simp_all add: keys_1_1_member split_def)

lemma safe_checkTraits: "safe checkTraits"
  unfolding checkTraits_def by (rule safe_words) (simp_all add: keys_1_1_member)

lemma safe_checkDeleted: "safe checkDeleted"
  unfolding safe_def checkDeleted_def
  by (auto simp: keys_1_1_member split_def intro!: safe_words_1_0)

lemma safe_checkPlugins: "safe checkPlugins"
  unfolding checkPlugins_def by (rule safe_words) (simp_all add: keys_1_1_member split_def)

lemma safe_checkAttributes: "safe checkAttributes"
  unfolding checkAttributes_def by (rule safe_words) (simp_all add: keys_1_1_member core_fold)

lemma safe_set_description: "safe set_description"
  unfolding set_description_def by (rule safe_value) (simp_all add: keys_1_1_member)

lemmas safe_checks = safe_checkName safe_checkTreeName safe_checkParent safe_checkChildren
  safe_checkBuildAlso safe_checkDeps safe_checkTreeDeps safe_checkVisibleTo safe_checkPlatforms
  safe_checkExternals safe_checkSupportedFlags safe_checkSupportedTraits safe_checkTraits
  safe_checkDeleted safe_checkPlugins safe_checkAttributes safe_set_description

lemma safe_pure: "(\<And>ic. core (f ic) = core ic) \<Longrightarrow> safe (\<lambda>ic. Inr (f ic))"
  by (simp add: safe_def)

lemma run_checks_total:
  "\<forall>f \<in> set fs. safe f \<Longrightarrow> core_ok (core ic) \<Longrightarrow> \<exists>ic'. run_checks fs ic = Inr ic' \<and> core ic' = core ic"
proof (induction fs arbitrary: ic)
  case (Cons f fs)
  obtain ic1 where "f ic = Inr ic1" "core ic1 = core ic" using Cons.prems unfolding safe_def by auto
  then show ?case using Cons.IH [of ic1] Cons.prems by simp
qed simp

lemma all_checks_total:
  assumes "core_ok (core ic)" and "\<not> ic_deprecated ic"
  shows "\<exists>ic'. run_checks (all_checks sys) ic = Inr ic' \<and> core ic' = core ic"
proof -
  obtain ic1 where ic1: "checkDeprecated (detectRoot ic) = Inr ic1" "core ic1 = core ic"
    using checkDeprecated_total [OF assms] by (elim exE conjE)
  have "\<forall>f \<in> set (tl (tl (all_checks sys))). safe f"
    unfolding all_checks_def list.sel list.set using safe_checks
    by (auto intro!: safe_pure)
  then obtain ic2 where "run_checks (tl (tl (all_checks sys))) ic1 = Inr ic2" "core ic2 = core ic1"
    using run_checks_total [of "tl (tl (all_checks sys))" ic1] assms(1) ic1(2) by auto
  moreover have "run_checks (all_checks sys) ic =
      bind_res (checkDeprecated (detectRoot ic)) (run_checks (tl (tl (all_checks sys))))"
    by (simp add: all_checks_def)
  ultimately show ?thesis using ic1 by simp
qed

section \<open>Reading\<close>

definition statics_ok :: "bool \<Rightarrow> config_state \<Rightarrow> bool" where
  "statics_ok allow_1_0 st \<longleftrightarrow>
     (if cs_statics_initialized st
      then set (om_keys (cs_valid_keys st)) = set (needed_keys allow_1_0)
      else cs_valid_keys st = [])"

definition cache_ok :: "bool \<Rightarrow> config_state \<Rightarrow> bool" where
  "cache_ok allow_1_0 st \<longleftrightarrow>
     (\<forall>dir kv. om_get (cs_kv_cache st) dir = Some kv \<longrightarrow> keys_present allow_1_0 kv)"

definition config_ok :: "bool \<Rightarrow> config_state \<Rightarrow> bool" where
  "config_ok allow_1_0 st \<longleftrightarrow> statics_ok allow_1_0 st \<and> cache_ok allow_1_0 st"

lemma initializeStatics_ok:
  assumes "config_ok allow st"
  shows "config_ok allow (initializeStatics allow st)
     \<and> set (om_keys (cs_valid_keys (initializeStatics allow st))) = set (needed_keys allow)"
proof (cases "cs_statics_initialized st")
  case True
  then show ?thesis using assms by (simp add: initializeStatics_def config_ok_def statics_ok_def)
next
  case False
  then have "cs_valid_keys st = []" using assms by (simp add: config_ok_def statics_ok_def)
  then have "set (om_keys (cs_valid_keys (initializeStatics allow st))) = set (needed_keys allow)"
    using False om.keys_fold_put [of id "\<lambda>k. []" "needed_keys allow" "[]"]
    by (simp add: initializeStatics_def needed_keys_def)
  then show ?thesis using assms False by (simp add: config_ok_def statics_ok_def initializeStatics_def cache_ok_def)
qed

lemma readFile_keys:
  assumes "KeyVal e f {} ds = Inr kv"
  shows "\<exists>kv' okay. readFile content kv = Inr (kv', okay)
     \<and> (\<forall>k \<in> set (om_keys ds). om_has (kv_data kv') k) \<and> explicit_keys kv' \<subseteq> set (om_keys ds)"
proof -
  note k = KeyVal_fields [OF assms]
  obtain st where st: "read_lines (enumerate 1 (readLinesFromFile content False)) (start_state kv) = Inr st"
      "readFile content kv = Inr (finish_file (num_errors (kv_error kv)) st)"
    using readFile_returns [of content kv] by (elim exE conjE)
  have "data_inv kv (start_state kv)" by (simp add: data_inv_def start_state_def k)
  then have inv: "data_inv kv st" using st(1) by (rule data_inv_read_lines)
  then have keys: "kv_keys (kvs st) = set (om_keys ds)" "kv_defaults (kvs st) = ds"
    "explicit_keys (kvs st) \<subseteq> set (om_keys ds)"
    by (simp_all add: data_inv_def k)
  then have "finite (kv_keys (kvs st))" by simp
  note d = finish_file_data(1) [OF this, of "num_errors (kv_error kv)"]
  have "om_has (kv_data (fst (finish_file (num_errors (kv_error kv)) st))) x" if "x \<in> set (om_keys ds)" for x
    using d [of x] that keys by (auto simp: om_has_def set_om_keys)
  then show ?thesis
    using st(2) keys(3) finish_file_frame(3) [of "num_errors (kv_error kv)" st]
    by (cases "finish_file (num_errors (kv_error kv)) st") auto
qed

lemma readKeyVal_total:
  assumes "config_ok allow st" and "fs_read sys (conf_file dir) = Inr content"
  shows "\<exists>kv st'. readKeyVal sys allow dir st = Inr (kv, st') \<and> keys_present allow kv \<and> config_ok allow st'"
proof (cases "om_get (cs_kv_cache st) dir")
  case (Some kv)
  then show ?thesis using assms(1) by (auto simp: readKeyVal_def config_ok_def cache_ok_def)
next
  case None
  define st1 where "st1 = initializeStatics allow st"
  have st1: "config_ok allow st1" "set (om_keys (cs_valid_keys st1)) = set (needed_keys allow)"
    using initializeStatics_ok [OF assms(1)] by (simp_all add: st1_def)
  obtain kv where kv: "KeyVal (cs_error st1) (conf_file dir) {} (cs_valid_keys st1) = Inr kv"
    by (simp add: KeyVal_def list_ex_iff)
  obtain kv' okay where kv': "readFile content kv = Inr (kv', okay)"
      "\<forall>k \<in> set (om_keys (cs_valid_keys st1)). om_has (kv_data kv') k"
      "explicit_keys kv' \<subseteq> set (om_keys (cs_valid_keys st1))"
    using readFile_keys [OF kv, of content] by (elim exE conjE)
  have ok: "keys_present allow kv'" using kv'(2,3) by (simp add: keys_present_def st1(2))
  let ?st = "st1\<lparr>cs_error := kv_error kv', cs_kv_cache := om_put dir kv' (cs_kv_cache st1)\<rparr>"
  have "config_ok allow ?st"
    using st1(1) ok by (simp add: config_ok_def statics_ok_def cache_ok_def)
  moreover have "readKeyVal sys allow dir st = Inr (kv', ?st)"
    using None kv kv'(1) assms(2) by (simp add: readKeyVal_def Let_def st1_def [symmetric])
  ultimately show ?thesis using ok by blast
qed

lemma parent_search_exists:
  "parent_search sys p = [] \<or> fs_exists sys (conf_file (parent_search sys p))"
  by (induction sys p rule: parent_search.induct)
     (subst (1 2) parent_search.simps, simp add: Let_def)

lemma has_child_total: "\<exists>b. has_child sys c dir ws = Inr b"
proof (induction ws)
  case (Cons w ws)
  obtain p where "canonicalizePath (os.truncate sys) (c @ ''/'' @ w) = Inr p"
    by (simp add: canonicalizePath_def Let_def)
  then show ?case using Cons.IH by (cases "p = dir") auto
qed auto

definition readable :: "'a file_system_scheme \<Rightarrow> bool" where
  "readable sys \<longleftrightarrow> (\<forall>dir. fs_exists sys (conf_file dir) \<longrightarrow> (\<exists>content. fs_read sys (conf_file dir) = Inr content))"

lemma findParentDir_total:
  assumes ok: "config_ok allow st" and allow: "ic_allow_1_0 ic = allow" and r: "readable sys"
  shows "\<exists>p st'. findParentDir sys ic st = Inr (ic\<lparr>ic_parent_dir := p\<rparr>, st') \<and> config_ok allow st'"
proof (cases "ic_parent_dir ic \<noteq> [] \<or> parent_search sys (ic_dir ic) = []")
  case True
  then have "findParentDir sys ic st = Inr (ic\<lparr>ic_parent_dir := ic_parent_dir ic\<rparr>, st)"
    by (auto simp: findParentDir_def Let_def)
  then show ?thesis using ok by blast
next
  case False
  let ?p = "parent_search sys (ic_dir ic)"
  obtain content where "fs_read sys (conf_file ?p) = Inr content"
    using parent_search_exists [of sys "ic_dir ic"] False r by (auto simp: readable_def)
  then obtain kv st' where kv: "readKeyVal sys allow ?p st = Inr (kv, st')" "keys_present allow kv" "config_ok allow st'"
    using readKeyVal_total [OF ok] by blast
  have "k_CHILDREN \<in> set (needed_keys allow)" using keys_1_1_member by (simp add: needed_keys_def)
  then obtain v where v: "getVal kv k_CHILDREN = Inr v"
    using kv(2) by (auto simp: keys_present_def om_has_def getVal_def)
  obtain b where b: "has_child sys ?p (ic_dir ic) (splitBySpace v) = Inr b" using has_child_total by blast
  have "findParentDir sys ic st = Inr (ic\<lparr>ic_parent_dir := if b then ?p else ic_parent_dir ic\<rparr>, st')"
    using False allow kv(1) v b by (simp add: findParentDir_def Let_def)
  then show ?thesis using kv(3) by blast
qed

lemma new_item_total:
  assumes ok: "config_ok allow st" and r: "readable sys" and e: "fs_exists sys (conf_file dir)"
  shows "\<exists>ic st'. new_item sys allow dir parent_dir st = Inr (ic, st') \<and> config_ok allow st'
     \<and> om_get (cs_ic_cache st') dir = Some ic"
proof -
  obtain content where c: "fs_read sys (conf_file dir) = Inr content" using r e by (auto simp: readable_def)
  have "config_ok allow (initializeStatics allow st)" using initializeStatics_ok [OF ok] by blast
  then obtain kv st1 where kv: "readKeyVal sys allow dir (initializeStatics allow st) = Inr (kv, st1)"
      "keys_present allow kv" "config_ok allow st1"
    using readKeyVal_total [OF _ c] by blast
  define ic where "ic = ItemConfig (cs_error st1) allow (FileLocation (conf_file dir) 0 0) kv dir parent_dir"
  have ic: "ic_allow_1_0 ic = allow" "core ic = (allow, kv)" "\<not> ic_deprecated ic"
    by (simp_all add: ic_def ItemConfig_def core_def)
  obtain p st2 where st2: "findParentDir sys ic st1 = Inr (ic\<lparr>ic_parent_dir := p\<rparr>, st2)" "config_ok allow st2"
    using findParentDir_total [OF kv(3) ic(1) r] by blast
  let ?ic = "ic\<lparr>ic_parent_dir := p, ic_error := cs_error st2\<rparr>"
  obtain ic' where ic': "run_checks (all_checks sys) ?ic = Inr ic'"
    using all_checks_total [of ?ic sys] ic kv(2) by (auto simp: core_ok_def)
  let ?st = "st2\<lparr>cs_error := ic_error ic', cs_ic_cache := om_put dir ic' (cs_ic_cache st2)\<rparr>"
  have "new_item sys allow dir parent_dir st = Inr (ic', ?st)"
    using kv(1) st2(1) ic' by (simp add: new_item_def validate_def ic_def)
  moreover have "config_ok allow ?st"
    using st2(2) by (simp add: config_ok_def statics_ok_def cache_ok_def)
  ultimately show ?thesis by (intro exI [of _ ic'] exI [of _ ?st]) simp
qed

end
