(* ===== verification/Item_Config_Properties.thy ===== *)
theory Item_Config_Properties
  imports Item_Config_Safe "HOL-Library.Sublist"
begin

text \<open>
  What reading an \<open>Abuild.conf\<close> file guarantees: it never fails after the file was read, a second
  request returns the cached object, the dependencies with their options are those of the file, and
  the outcome of the check of \<open>visible-to\<close>.
\<close>

section \<open>Dependencies\<close>

definition first_occurrences :: "'a list \<Rightarrow> 'a list" where
  "first_occurrences xs = rev (remdups (rev xs))"

text \<open>The options of a list of words, each with the name it applies to.\<close>

fun option_pairs :: "string \<Rightarrow> string list \<Rightarrow> (string \<times> string) list" where
  "option_pairs d [] = []"
| "option_pairs d (w # ws) =
     (if isNameValid w then option_pairs w ws
      else if d = [] then option_pairs d ws else (d, w) # option_pairs d ws)"

definition put_platform :: "string \<times> string \<Rightarrow> (string, string) omap \<Rightarrow> (string, string) omap" where
  "put_platform = (\<lambda>(d, w) m. case after_prefix ''-platform='' w of Some pt \<Rightarrow> om_put d pt m | None \<Rightarrow> m)"

text \<open>What the loop does to the four members, as a function of the pairs that are left.\<close>

definition deps_result :: "(string \<times> string) list \<Rightarrow> item_config \<Rightarrow> item_config \<Rightarrow> bool" where
  "deps_result ps ic ic' \<longleftrightarrow>
     ic_dep_platform_types ic' = fold put_platform ps (ic_dep_platform_types ic)
   \<and> ic_optional_deps ic' = ic_optional_deps ic \<union> {d. (d, ''-optional'') \<in> set ps}
   \<and> (\<forall>d f. isSet (ic_flag_data ic') d f \<longleftrightarrow> isSet (ic_flag_data ic) d f
        \<or> (\<exists>w. (d, w) \<in> set ps \<and> after_prefix ''-flag='' w = Some f))"

lemma deps_result_Nil: "ic_dep_platform_types ic' = ic_dep_platform_types ic \<Longrightarrow>
    ic_optional_deps ic' = ic_optional_deps ic \<Longrightarrow> ic_flag_data ic' = ic_flag_data ic \<Longrightarrow> deps_result [] ic ic'"
  by (simp add: deps_result_def)

lemma deps_result_trans: "deps_result ps a b \<Longrightarrow> deps_result qs b c \<Longrightarrow> deps_result (ps @ qs) a c"
  unfolding deps_result_def by auto

lemma ic_report_frame [simp]:
  "ic_dep_platform_types (ic_report m ic) = ic_dep_platform_types ic"
  "ic_optional_deps (ic_report m ic) = ic_optional_deps ic" "ic_flag_data (ic_report m ic) = ic_flag_data ic"
  "ic_dep_platform_types (ic_warning m ic) = ic_dep_platform_types ic"
  "ic_optional_deps (ic_warning m ic) = ic_optional_deps ic" "ic_flag_data (ic_warning m ic) = ic_flag_data ic"
  by (simp_all add: ic_report_def ic_warning_def)

lemma platform_word_result:
  assumes "platform_word l dup pt ic = Inr ic'"
  shows "ic_dep_platform_types ic' = om_put l pt (ic_dep_platform_types ic)
    \<and> ic_optional_deps ic' = ic_optional_deps ic \<and> ic_flag_data ic' = ic_flag_data ic"
proof -
  obtain p okay where "initialize pt new_selector = Inr (p, okay)"
    using initialize_returns [of pt new_selector] by blast
  then show ?thesis
    using assms by (auto simp: platform_word_def set_platform_type_def Let_def split: if_splits)
qed

lemma after_prefix_nth:
  assumes "after_prefix p w = Some f" and "i < length p"
  shows "w ! i = p ! i"
proof -
  have "take (length p) w = p"
    using assms(1) by (simp add: after_prefix_def starts_with_def Let_def split: if_splits)
  then show ?thesis using assms(2) by (metis nth_take)
qed

lemma prefixes_differ:
  assumes "after_prefix ''-flag='' w = Some f"
  shows "after_prefix ''-platform='' w = None" and "w \<noteq> ''-optional''"
proof -
  have f: "w ! 1 = CHR ''f''" using after_prefix_nth [OF assms, of 1] by simp
  have "after_prefix ''-platform='' w \<noteq> Some g" for g
    using f after_prefix_nth [of "''-platform=''" w g 1] by auto
  then show "after_prefix ''-platform='' w = None" by (cases "after_prefix ''-platform='' w") blast+
  show "w \<noteq> ''-optional''" using f by auto
qed

lemma platform_not_optional:
  assumes "after_prefix ''-platform='' w = Some f"
  shows "w \<noteq> ''-optional''"
  using after_prefix_nth [OF assms, of 1] by auto

lemma dep_option_result:
  assumes "dep_option l dup w ic = Inr ic'"
  shows "deps_result (if l = [] then [] else [(l, w)]) ic ic'"
proof (cases "after_prefix ''-flag='' w")
  case (Some f)
  then show ?thesis using assms prefixes_differ [OF Some]
    by (cases "l = []") (auto simp: dep_option_def deps_result_def put_platform_def)
next
  case None
  show ?thesis
  proof (cases "after_prefix ''-platform='' w")
    case (Some pt)
    then show ?thesis
      using assms None platform_not_optional [OF Some] platform_word_result [of l dup pt ic ic']
      by (cases "l = []") (auto simp: dep_option_def deps_result_def put_platform_def)
  next
    case no: None
    then show ?thesis using assms None
      by (cases "l = []"; cases "w = ''-optional''") (auto simp: dep_option_def deps_result_def put_platform_def)
  qed
qed

lemma first_occurrences_Cons: "first_occurrences (x # xs) = x # filter (\<lambda>y. y \<noteq> x) (first_occurrences xs)"
proof -
  have "remdups (ys @ [x]) = filter (\<lambda>y. y \<noteq> x) (remdups ys) @ [x]" for ys :: "'a list"
    by (induction ys) auto
  then show ?thesis by (simp add: first_occurrences_def rev_filter)
qed

lemma deps_loop_result:
  assumes "deps_loop ws seen dup l ic = Inr (ic', ds)"
  shows "ds = filter (\<lambda>d. d \<notin> seen) (first_occurrences (filter isNameValid ws))
     \<and> deps_result (option_pairs l ws) ic ic'"
  using assms
proof (induction ws arbitrary: seen dup l ic ds)
  case Nil
  then show ?case by (simp add: first_occurrences_def deps_result_Nil)
next
  case (Cons w ws)
  have rep: "deps_result [] ic (repeated_dep w ic)" by (simp add: deps_result_def repeated_dep_def Let_def)
  consider (old) "isNameValid w" "w \<in> seen" | (new) "isNameValid w" "w \<notin> seen" | (opt) "\<not> isNameValid w" by blast
  then show ?case
  proof cases
    case old
    then have run: "deps_loop ws seen (insert w dup) w (repeated_dep w ic) = Inr (ic', ds)"
      using Cons.prems by simp
    from Cons.IH [OF run] deps_result_trans [OF rep] old show ?thesis
      by (auto simp: first_occurrences_Cons intro!: filter_cong)
  next
    case new
    then obtain rest where run: "deps_loop ws (insert w seen) dup w ic = Inr (ic', rest)" "ds = w # rest"
      using Cons.prems by (auto simp: res_simps)
    from Cons.IH [OF run(1)] run(2) new show ?thesis
      by (auto simp: first_occurrences_Cons intro!: filter_cong)
  next
    case opt
    then obtain ic1 where ic1: "dep_option l dup w ic = Inr ic1" "deps_loop ws seen dup l ic1 = Inr (ic', ds)"
      using Cons.prems by (auto simp: res_simps)
    have "option_pairs l (w # ws) = (if l = [] then [] else [(l, w)]) @ option_pairs l ws"
      using opt by simp
    then show ?thesis
      using opt Cons.IH [OF ic1(2)] deps_result_trans [OF dep_option_result [OF ic1(1)]] by simp
  qed
qed

text \<open>
  C21: the dependencies of a build item are the valid names in the value of \<open>deps\<close>, each once and
  in the order of their first appearance. Every option applies to the last name before it: the
  dependencies with \<open>-optional\<close> are the optional ones, \<open>-flag=\<close> sets a flag, and the last
  \<open>-platform=\<close> gives the platform type.
\<close>

theorem checkDeps_result:
  assumes "getVal (ic_kv ic) k_DEPS = Inr v"
    and "ic_dep_platform_types ic = []" and "ic_optional_deps ic = {}" and "ic_flag_data ic = []"
  defines "pairs \<equiv> option_pairs [] (splitBySpace v)"
  shows "\<exists>ic'. checkDeps ic = Inr ic'
     \<and> ic_deps ic' = first_occurrences (filter isNameValid (splitBySpace v))
     \<and> ic_dep_platform_types ic' = fold put_platform pairs []
     \<and> ic_optional_deps ic' = {d. (d, ''-optional'') \<in> set pairs}
     \<and> (\<forall>d f. isSet (ic_flag_data ic') d f \<longleftrightarrow>
          (\<exists>w. (d, w) \<in> set pairs \<and> after_prefix ''-flag='' w = Some f))"
proof -
  obtain ic1 ds where run: "deps_loop (splitBySpace v) {} {} [] ic = Inr (ic1, ds)"
    using deps_loop_total [of "splitBySpace v" "{}" "{}" "[]" ic] by blast
  note r = deps_loop_result [OF run]
  have "checkDeps ic = Inr (ic1\<lparr>ic_deps := ds\<rparr>)"
    using run assms(1) by (simp add: checkDeps_def with_words_def with_value_def)
  then show ?thesis
    using r assms(2-4) unfolding deps_result_def pairs_def by auto
qed

section \<open>Visibility\<close>

lemma scope_prefix:
  assumes "scope \<noteq> []" and "\<forall>c \<in> set scope. CHR ''.'' \<notin> set c"
  shows "prefix (join ''.'' scope @ ''.'') name \<longleftrightarrow> strict_prefix scope (split (CHR ''.'') name)"
proof
  assume "prefix (join ''.'' scope @ ''.'') name"
  then obtain rest where "name = join ''.'' scope @ CHR ''.'' # rest" by (auto simp: prefix_def)
  then have "split (CHR ''.'') name = scope @ split (CHR ''.'') rest"
    using split_join [OF assms] by (simp add: split_between)
  then show "strict_prefix scope (split (CHR ''.'') name)" by (simp add: strict_prefix_def)
next
  assume "strict_prefix scope (split (CHR ''.'') name)"
  then obtain ds where ds: "split (CHR ''.'') name = scope @ ds" "ds \<noteq> []"
    by (auto simp: strict_prefix_def prefix_def)
  have "name = join ''.'' (scope @ ds)" using join_split [of "CHR ''.''" name] ds(1) by simp
  then show "prefix (join ''.'' scope @ ''.'') name"
    using join_append [OF assms(1) ds(2), of "''.''"] by (simp add: prefix_def)
qed

text \<open>The scope is a proper ancestor: it leaves at least two components of the name.\<close>

definition ancestor_scope :: "string list \<Rightarrow> string list \<Rightarrow> bool" where
  "ancestor_scope scope name \<longleftrightarrow> prefix scope name \<and> length scope + 2 \<le> length name"

lemma scope_okay_iff:
  assumes "\<forall>c \<in> set scope. CHR ''.'' \<notin> set c" and "length (split (CHR ''.'') name) > 1"
  shows "scope_okay scope (split (CHR ''.'') name) name \<longleftrightarrow> ancestor_scope scope (split (CHR ''.'') name)"
proof (cases "scope = []")
  case True
  then show ?thesis using assms(2) by (auto simp: scope_okay_def ancestor_scope_def)
next
  case False
  let ?s = "join ''.'' scope @ ''.''"
  have "?s = take (length ?s) name \<longleftrightarrow> prefix ?s name" by (metis prefix_def append_eq_conv_conj append_take_drop_id)
  then have "scope_okay scope (split (CHR ''.'') name) name \<longleftrightarrow>
      length scope \<le> length (split (CHR ''.'') name) - 2 \<and> strict_prefix scope (split (CHR ''.'') name)"
    using False scope_prefix [OF False assms(1), of name] unfolding scope_okay_def Let_def by auto
  then show ?thesis using assms(2)
    by (auto simp: ancestor_scope_def strict_prefix_def)
qed

text \<open>
  the check of \<open>visible-to\<close>. A value is accepted without an error exactly for a name of more
  than one component and a value that ends with a star after an ancestor scope that is higher than
  the item's own scope. With any other value there is one error. The value is then discarded if the
  name has one component or the star is missing; a value with a star whose scope is no such ancestor is kept.
\<close>

theorem checkVisibleTo_result:
  assumes "getVal (ic_kv ic) k_VISIBLE_TO = Inr v"
  defines "name \<equiv> split (CHR ''.'') (ic_name ic)" and "scope \<equiv> split (CHR ''.'') v"
  shows "\<exists>ic'. checkVisibleTo ic = Inr ic'
     \<and> ic_visible_to ic' = (if length name > 1 \<and> last scope = ''*'' then v else [])
     \<and> num_errors (ic_error ic') = num_errors (ic_error ic)
         + (if v = [] \<or> length name > 1 \<and> last scope = ''*'' \<and> ancestor_scope (butlast scope) name
            then 0 else 1)"
proof -
  have "\<forall>c \<in> set (butlast scope). CHR ''.'' \<notin> set c"
    unfolding scope_def using split_pieces by (metis in_set_butlastD)
  note so = scope_okay_iff [OF this, of "ic_name ic", folded name_def]
  have rep: "num_errors (ic_error (ic_report m x)) = num_errors (ic_error x) + 1"
    "ic_visible_to (ic_report m x) = ic_visible_to x" for m x
    by (simp_all add: ic_report_def)
  show ?thesis
  proof (cases "v = []")
    case True
    then show ?thesis using assms(1) by (simp add: checkVisibleTo_def with_value_def scope_def)
  next
    case False
    then show ?thesis
      using assms(1) so
      by (cases "length name > 1"; cases "last scope = ''*''"; cases "ancestor_scope (butlast scope) name")
         (simp_all add: checkVisibleTo_def with_value_def Let_def name_def [symmetric] scope_def [symmetric] rep)
  qed
qed

section \<open>Children\<close>

definition own_child :: "string \<Rightarrow> bool" where
  "own_child c \<longleftrightarrow> c \<noteq> ''-optional'' \<and> ''..'' \<notin> set (split slash (stripTrailingSlash c))"

lemma relative_paths_filter: "snd (checkRelativePaths ps d ic) = filter (\<lambda>p. \<not> isAbsolutePath p) ps"
  by (induction ps arbitrary: ic) (simp_all add: split_def)

lemma children_loop_filter:
  "snd (children_loop sys cs l ic) = map stripTrailingSlash (filter own_child cs)"
  by (induction cs arbitrary: l ic) (simp_all add: split_def Let_def own_child_def)

text \<open>
  the children of a build item are the relative paths in the value of \<open>child-dirs\<close> that do not
  point up, without a trailing slash and in the order of the file, whatever the file system holds;
  no child has a component \<open>..\<close>.
\<close>

theorem checkChildren_result:
  assumes "getVal (ic_kv ic) k_CHILDREN = Inr v"
  shows "\<exists>ic'. checkChildren sys ic = Inr ic'
     \<and> ic_children ic' = map stripTrailingSlash (filter own_child (filter (\<lambda>p. \<not> isAbsolutePath p) (splitBySpace v)))
     \<and> (\<forall>c \<in> set (ic_children ic'). ''..'' \<notin> set (split slash c))"
proof -
  obtain ic1 ws where 1: "checkRelativePaths (splitBySpace v) (k_CHILDREN @ '' entries'') ic = (ic1, ws)"
    by (metis surj_pair)
  obtain ic2 cs where 2: "children_loop sys ws [] ic1 = (ic2, cs)" by (metis surj_pair)
  have "cs = map stripTrailingSlash (filter own_child (filter (\<lambda>p. \<not> isAbsolutePath p) (splitBySpace v)))"
    using relative_paths_filter [of "splitBySpace v" _ ic] 1 2 children_loop_filter [of sys ws "[]" ic1]
    by (metis snd_conv)
  moreover have "checkChildren sys ic = Inr (ic2\<lparr>ic_children := cs\<rparr>)"
    using assms 1 2 by (simp add: checkChildren_def with_words_def with_value_def)
  ultimately show ?thesis by (auto simp: own_child_def)
qed

section \<open>Reading\<close>

text \<open>
  C16: reading the configuration of a directory that has a configuration file succeeds whatever the
  files contain, if the configuration files that exist can be read: faulty contents only add to the
  errors, and no assertion fails and no internal error is thrown. The caches stay as \<open>config_ok\<close> says, so
  that the next call succeeds as well, and every later call for the same directory returns the same
  object and changes nothing.
\<close>

theorem readConfig_safe:
  assumes "config_ok allow st" and "readable sys"
    and "canonicalizePath (os.truncate sys) odir = Inr dir" and "fs_exists sys (conf_file dir)"
  shows "\<exists>ic st'. readConfig sys allow odir parent_dir st = Inr (ic, st') \<and> config_ok allow st'
     \<and> (canonicalizePath (os.truncate sys') odir' = Inr dir \<longrightarrow>
          readConfig sys' allow' odir' parent_dir' st' = Inr (ic, st'))"
proof (cases "om_get (cs_ic_cache st) dir")
  case (Some ic)
  then show ?thesis using assms(1,3) by (intro exI [of _ ic] exI [of _ st]) (simp add: readConfig_def)
next
  case None
  obtain ic st' where "new_item sys allow dir parent_dir st = Inr (ic, st')" "config_ok allow st'"
      "om_get (cs_ic_cache st') dir = Some ic"
    using new_item_total [OF assms(1,2,4), of parent_dir] by (elim exE conjE)
  then show ?thesis using None assms(3) by (intro exI [of _ ic] exI [of _ st']) (simp add: readConfig_def)
qed

section \<open>Concrete runs\<close>

definition example_error :: error where
  "example_error = new_error NO_JOB [] \<lparr>any_errors = False, deprecate_is_error = False,
     error_callback = False, error_log = [], callback_log = []\<rparr>"

definition example_item :: "(string \<times> string) list \<Rightarrow> item_config" where
  "example_item values =
     ItemConfig example_error False (FileLocation ''/w/Abuild.conf'' 0 0)
       \<lparr>kv_error = example_error, kv_filename = ''/w/Abuild.conf'', preferred_eol = [newline],
        kv_keys = fst ` set values, explicit_keys = fst ` set values, kv_defaults = [],
        kv_data = values, kv_orig_data = []\<rparr> ''/w'' []"

lemma example_value: "getVal (ic_kv (example_item [(k, v)])) k = Inr v"
  by (simp add: example_item_def ItemConfig_def getVal_def)

definition example_deps :: string where
  "example_deps = ''a -platform=native b -optional a -flag=x -bad''"

lemma example_pairs:
  "option_pairs [] (splitBySpace example_deps) =
     [(''a'', ''-platform=native''), (''b'', ''-optional''), (''a'', ''-flag=x''), (''a'', ''-bad'')]"
  "first_occurrences (filter isNameValid (splitBySpace example_deps)) = [''a'', ''b'']"
  "fold put_platform [(''a'', ''-platform=native''), (''b'', ''-optional''), (''a'', ''-flag=x''), (''a'', ''-bad'')] []
     = [(''a'', ''native'')]"
  by code_simp+

theorem checkDeps_result_witness:
  "\<exists>ic'. checkDeps (example_item [(k_DEPS, example_deps)]) = Inr ic' \<and> ic_deps ic' = [''a'', ''b'']
     \<and> ic_dep_platform_types ic' = [(''a'', ''native'')] \<and> ic_optional_deps ic' = {''b''}"
proof -
  have "ic_dep_platform_types (example_item vs) = []" "ic_optional_deps (example_item vs) = {}"
    "ic_flag_data (example_item vs) = []" for vs by (simp_all add: example_item_def ItemConfig_def)
  from checkDeps_result [OF example_value [of k_DEPS example_deps] this, unfolded example_pairs]
  obtain ic' where "checkDeps (example_item [(k_DEPS, example_deps)]) = Inr ic'" "ic_deps ic' = [''a'', ''b'']"
     "ic_dep_platform_types ic' = [(''a'', ''native'')]"
     "ic_optional_deps ic' = {d. (d, ''-optional'') \<in>
        set [(''a'', ''-platform=native''), (''b'', ''-optional''), (''a'', ''-flag=x''), (''a'', ''-bad'')]}"
    by (elim exE conjE)
  moreover have "{d. (d, ''-optional'') \<in>
        set [(''a'', ''-platform=native''), (''b'', ''-optional''), (''a'', ''-flag=x''), (''a'', ''-bad'')]} = {''b''}"
    by auto
  ultimately show ?thesis by blast
qed

definition example_named :: item_config where
  "example_named = (example_item [(k_VISIBLE_TO, ''z.*'')])\<lparr>ic_name := ''a.b.c''\<rparr>"

text \<open>A scope that is not an ancestor of the name is reported and kept.\<close>

theorem checkVisibleTo_result_witness:
  "\<exists>ic'. checkVisibleTo example_named = Inr ic' \<and> ic_visible_to ic' = ''z.*''
     \<and> num_errors (ic_error ic') = num_errors (ic_error example_named) + 1"
proof -
  have "getVal (ic_kv example_named) k_VISIBLE_TO = Inr ''z.*''"
    by (simp add: example_named_def example_item_def ItemConfig_def getVal_def)
  moreover have "split (CHR ''.'') (ic_name example_named) = [''a'', ''b'', ''c'']"
    "split (CHR ''.'') ''z.*'' = [''z'', ''*'']" by code_simp+
  ultimately show ?thesis
    using checkVisibleTo_result [of example_named "''z.*''"] by (simp add: ancestor_scope_def)
qed

definition example_os :: file_system where
  "example_os = \<lparr>os_cwd = ''/'', os_links = [], os_file = \<lambda>p. p = ''/w/Abuild.conf'', os_directory = \<lambda>p. True,
     os_executable = \<lambda>p. False, os_env = \<lambda>v. None, fs_exists = \<lambda>p. p = ''/w/Abuild.conf'',
     fs_symlink = \<lambda>p. False, fs_read = \<lambda>p. Inr (''name: -a'' @ [newline] @ ''nonsense'')\<rparr>"

lemma example_child_words: "filter own_child (filter (\<lambda>p. \<not> isAbsolutePath p) (splitBySpace ''a/ -optional ../b /c d''))
    = [''a/'', ''d'']" "map stripTrailingSlash [''a/'', ''d''] = [''a'', ''d'']"
  by code_simp+

theorem checkChildren_result_witness:
  "\<exists>ic'. checkChildren example_os (example_item [(k_CHILDREN, ''a/ -optional ../b /c d'')]) = Inr ic'
     \<and> ic_children ic' = [''a'', ''d'']"
  using checkChildren_result [OF example_value [of k_CHILDREN "''a/ -optional ../b /c d''"], of example_os]
  unfolding example_child_words by blast

theorem readConfig_safe_witness:
  "\<exists>ic st'. readConfig example_os True ''w/.'' [] (new_config_state example_error) = Inr (ic, st')
     \<and> readConfig example_os False ''/w'' ''/'' st' = Inr (ic, st')"
proof -
  have "config_ok True (new_config_state example_error)"
    by (simp add: config_ok_def statics_ok_def cache_ok_def new_config_state_def)
  moreover have "readable example_os" by (simp add: readable_def example_os_def)
  moreover have paths: "canonicalizePath (os.truncate example_os) ''w/.'' = Inr ''/w''"
    "canonicalizePath (os.truncate example_os) ''/w'' = Inr ''/w''" by code_simp+
  moreover have "fs_exists example_os (conf_file ''/w'')" by (simp add: example_os_def conf_file_def FILE_CONF_def)
  ultimately show ?thesis
    using readConfig_safe [where allow = True and st = "new_config_state example_error" and sys = example_os
        and odir = "''w/.''" and dir = "''/w''" and parent_dir = "[]" and sys' = example_os
        and odir' = "''/w''" and parent_dir' = "''/''" and allow' = False] by blast
qed

end
