(* ===== verification/Backing_Config.thy ===== *)
theory Backing_Config
  imports Item_Config
begin

text \<open>
  The class \<open>BackingConfig\<close> (\<open>src/src/BackingConfig.cc\<close>): the contents of an \<open>Abuild.backing\<close> file,
  in the format of key-value files or, in 1.0-compatibility mode, as a single line. The error object
  that all objects share is threaded through; \<open>cache\<close> maps a directory to its object.
\<close>

definition k_BACKING_AREAS :: string where "k_BACKING_AREAS = ''backing-areas''"
definition k_DELETED_ITEMS :: string where "k_DELETED_ITEMS = ''deleted-items''"
definition k_DELETED_TREES :: string where "k_DELETED_TREES = ''deleted-trees''"

record backing_config =
  bc_location :: file_location
  bc_dir :: string
  bc_deprecated :: bool
  bc_backing_areas :: "string list"
  bc_deleted_trees :: "string set"
  bc_deleted_items :: "string set"

definition BackingConfig :: "file_location \<Rightarrow> string \<Rightarrow> backing_config" where
  "BackingConfig location dir =
     \<lparr>bc_location = location, bc_dir = dir, bc_deprecated = False, bc_backing_areas = [],
      bc_deleted_trees = {}, bc_deleted_items = {}\<rparr>"

text \<open>What \<open>initializeStatics\<close> sets.\<close>

definition required_keys :: "string set" where
  "required_keys = {k_BACKING_AREAS}"

definition defaulted_keys :: "(string, string) omap" where
  "defaulted_keys = om_put k_DELETED_TREES [] (om_put k_DELETED_ITEMS [] [])"

definition backing_file :: "string \<Rightarrow> string" where
  "backing_file dir = dir @ ''/'' @ FILE_BACKING"

section \<open>Reading\<close>

text \<open>
  The lines that are neither empty nor a comment. If there is exactly one, and it has no colon behind
  its third character, it is the backing area.
\<close>

definition significant_lines :: "string \<Rightarrow> string list" where
  "significant_lines content = filter (\<lambda>l. l \<noteq> [] \<and> hd l \<noteq> CHR ''#'') (readLinesFromFile content True)"

definition readOldFormat :: "string \<Rightarrow> backing_config \<Rightarrow> backing_config \<times> bool" where
  "readOldFormat content bc =
     (let bc = (case significant_lines content of
          [line] \<Rightarrow>
            (let pos = length (takeWhile (\<lambda>c. c \<noteq> CHR '':'') line) in
             if pos = length line \<or> pos \<le> 2
             then bc\<lparr>bc_backing_areas := bc_backing_areas bc @ [line], bc_deprecated := True\<rparr> else bc)
        | _ \<Rightarrow> bc)
      in (bc, bc_deprecated bc))"

text \<open>The new format; the flag says whether \<open>validate\<close> goes on.\<close>

definition read_key_values ::
    "string \<Rightarrow> error \<Rightarrow> backing_config \<Rightarrow> (backing_config \<times> bool \<times> error) res" where
  "read_key_values content e bc =
     bind_res (KeyVal e (backing_file (bc_dir bc)) required_keys defaulted_keys) (\<lambda>kv.
     bind_res (readFile content kv) (\<lambda>(kv, okay).
       if \<not> okay then Inr (bc, False, kv_error kv)
       else
         bind_res (getVal kv k_BACKING_AREAS) (\<lambda>areas.
         bind_res (getVal kv k_DELETED_ITEMS) (\<lambda>items.
         bind_res (getVal kv k_DELETED_TREES) (\<lambda>trees.
           Inr (bc\<lparr>bc_backing_areas := splitBySpace areas,
                   bc_deleted_items := bc_deleted_items bc \<union> set (splitBySpace items),
                   bc_deleted_trees := bc_deleted_trees bc \<union> set (splitBySpace trees)\<rparr>,
                True, kv_error kv))))))"

section \<open>Checking\<close>

definition area_path :: "'a file_system_scheme \<Rightarrow> string \<Rightarrow> string \<Rightarrow> string res" where
  "area_path sys dir decl =
     canonicalizePath (os.truncate sys) (if isAbsolutePath decl then decl else dir @ ''/'' @ decl)"

definition check_area ::
    "'a file_system_scheme \<Rightarrow> file_location \<Rightarrow> string \<Rightarrow> string \<Rightarrow> error \<Rightarrow> bool \<times> error" where
  "check_area sys location decl area e =
     (if \<not> os_directory sys area
      then (False, report location (''backing area \"'' @ decl @ ''\" does not exist'') e)
      else if \<not> os_file sys (area @ ''/'' @ FILE_CONF)
      then (False, report location (''backing area \"'' @ decl @ ''\" does not contain'' @
              '' an '' @ FILE_CONF @ '' file'') e)
      else (True, e))"

text \<open>The loop of \<open>validate\<close>: the areas that remain.\<close>

fun check_areas ::
    "'a file_system_scheme \<Rightarrow> file_location \<Rightarrow> string \<Rightarrow> string list \<Rightarrow> error \<Rightarrow> (string list \<times> error) res" where
  "check_areas sys location dir [] e = Inr ([], e)"
| "check_areas sys location dir (decl # decls) e =
     bind_res (area_path sys dir decl) (\<lambda>area.
       case check_area sys location decl area e of (keep, e) \<Rightarrow>
         bind_res (check_areas sys location dir decls e) (\<lambda>(rest, e).
           Inr (if keep then area # rest else rest, e)))"

definition read_backing_file ::
    "'a file_system_scheme \<Rightarrow> bool \<Rightarrow> error \<Rightarrow> backing_config \<Rightarrow> (backing_config \<times> bool \<times> error) res" where
  "read_backing_file sys allow_1_0 e bc =
     bind_res (fs_read sys (backing_file (bc_dir bc))) (\<lambda>content.
       case (if allow_1_0 then readOldFormat content bc else (bc, False)) of (bc, old) \<Rightarrow>
         if old then Inr (bc, True, e) else read_key_values content e bc)"

definition validate_backing ::
    "'a file_system_scheme \<Rightarrow> bool \<Rightarrow> error \<Rightarrow> backing_config \<Rightarrow> (backing_config \<times> error) res" where
  "validate_backing sys allow_1_0 e bc =
     bind_res (read_backing_file sys allow_1_0 e bc) (\<lambda>(bc, continue, e).
       if \<not> continue then Inr (bc, e)
       else bind_res (check_areas sys (bc_location bc) (bc_dir bc) (bc_backing_areas bc) e) (\<lambda>(areas, e).
              Inr (bc\<lparr>bc_backing_areas := areas\<rparr>, e)))"

type_synonym backing_cache = "(string, backing_config) omap"

definition readBacking ::
    "'a file_system_scheme \<Rightarrow> bool \<Rightarrow> string \<Rightarrow> backing_cache \<times> error \<Rightarrow>
     (backing_config \<times> backing_cache \<times> error) res" where
  "readBacking sys allow_1_0 dir = (\<lambda>(cache, e).
     (case om_get cache dir of
        Some bc \<Rightarrow> Inr (bc, cache, e)
      | None \<Rightarrow>
          bind_res (validate_backing sys allow_1_0 e (BackingConfig (FileLocation (backing_file dir) 0 0) dir))
            (\<lambda>(bc, e). Inr (bc, om_put dir bc cache, e))))"

section \<open>Queries\<close>

definition isDeprecated :: "backing_config \<Rightarrow> bool" where
  "isDeprecated bc = bc_deprecated bc"

definition appendDeleted :: "backing_config \<Rightarrow> string set \<times> string set \<Rightarrow> string set \<times> string set" where
  "appendDeleted bc = (\<lambda>(dt, di). (dt \<union> bc_deleted_trees bc, di \<union> bc_deleted_items bc))"

end
