(* ===== verification/Logger.thy ===== *)
theory Logger
  imports Thread_Safe_Queue Basic_Data Util_Strings
begin

text \<open>
  The class \<open>Logger\<close> with its nested class \<open>JobData\<close> (\<open>src/src/Logger.cc\<close>). Jobs hand their output
  over in pieces; it is cut into lines, which go to a queue, at once or when the job is closed. One
  thread takes the messages from the queue and writes them. What it writes to the two streams is the
  list \<open>lg_printed\<close>, in the order of the writes; \<open>True\<close> stands for the stream of errors.

  \<open>closeJob\<close> takes a job from the map before it flushes it, so the operations of \<open>JobData\<close> are
  functions of a job and the logger.
\<close>

section \<open>State\<close>

datatype message_type = m_shutdown | m_info | m_error

type_synonym log_message = "message_type \<times> string"

record job_data =
  jd_job :: int
  buffer_output :: bool
  job_prefix :: string
  job_header :: string
  output_line :: string
  error_line :: string
  jd_buffer :: "log_message list"

text \<open>\<open>loggerMain\<close> waits for the head of the queue, handles it, and then removes it; \<open>P_dequeue\<close> holds
  the local variable \<open>done\<close>.\<close>

datatype printer = P_head | P_dequeue bool | P_ended

record logger =
  lg_output_prefix :: string
  lg_error_prefix :: string
  logger_queue :: "log_message ts_queue"
  next_job :: int
  lg_jobs :: "(int, job_data) omap"
  lg_printer :: printer
  lg_printed :: "(bool \<times> string) list"

definition new_logger :: logger where
  "new_logger = \<lparr>lg_output_prefix = [], lg_error_prefix = [], logger_queue = [], next_job = 1,
     lg_jobs = [], lg_printer = P_head, lg_printed = []\<rparr>"

definition JobData :: "int \<Rightarrow> bool \<Rightarrow> string \<Rightarrow> job_data" where
  "JobData job buffered prefix = \<lparr>jd_job = job, buffer_output = buffered, job_prefix = prefix,
     job_header = [], output_line = [], error_line = [], jd_buffer = []\<rparr>"

definition getInstance :: "logger option \<Rightarrow> logger" where
  "getInstance the_instance = (case the_instance of None \<Rightarrow> new_logger | Some lg \<Rightarrow> lg)"

definition setPrefixes :: "string \<Rightarrow> string \<Rightarrow> logger \<Rightarrow> logger" where
  "setPrefixes output_prefix error_prefix lg =
     lg\<lparr>lg_output_prefix := output_prefix, lg_error_prefix := error_prefix\<rparr>"

section \<open>Writing to the queue\<close>

definition prefixMessage :: "string \<Rightarrow> int \<Rightarrow> logger \<Rightarrow> string" where
  "prefixMessage msg job lg =
     (case om_get (lg_jobs lg) job of None \<Rightarrow> msg | Some j \<Rightarrow> job_prefix j @ msg)"

definition writeToLogger :: "message_type \<Rightarrow> string \<Rightarrow> int \<Rightarrow> logger \<Rightarrow> logger" where
  "writeToLogger message_type msg job lg =
     lg\<lparr>logger_queue := enqueue (message_type, prefixMessage msg job lg) False (logger_queue lg)\<rparr>"

definition writeAllToLogger :: "log_message list \<Rightarrow> int \<Rightarrow> logger \<Rightarrow> logger" where
  "writeAllToLogger messages job lg = fold (\<lambda>(t, msg). writeToLogger t msg job) messages lg"

section \<open>JobData\<close>

text \<open>The last part of \<open>handleMessage\<close>, after the header.\<close>

definition put_message :: "bool \<Rightarrow> string \<Rightarrow> job_data \<times> logger \<Rightarrow> job_data \<times> logger" where
  "put_message is_error line = (\<lambda>(j, lg).
     let message_type = (if is_error then m_error else m_info) in
     if buffer_output j then (j\<lparr>jd_buffer := jd_buffer j @ [(message_type, line)]\<rparr>, lg)
     else (j, writeToLogger message_type line (jd_job j) lg))"

text \<open>The header is cleared before the recursive call, which therefore does not call itself again.\<close>

definition jd_handleMessage :: "bool \<Rightarrow> string \<Rightarrow> job_data \<times> logger \<Rightarrow> job_data \<times> logger" where
  "jd_handleMessage is_error line = (\<lambda>(j, lg).
     put_message is_error line
       (if job_header j \<noteq> [] then put_message False (job_header j @ [newline]) (j\<lparr>job_header := []\<rparr>, lg)
        else (j, lg)))"

definition line_of :: "bool \<Rightarrow> job_data \<Rightarrow> string" where
  "line_of is_error j = (if is_error then error_line j else output_line j)"

definition set_line :: "bool \<Rightarrow> string \<Rightarrow> job_data \<Rightarrow> job_data" where
  "set_line is_error line j = (if is_error then j\<lparr>error_line := line\<rparr> else j\<lparr>output_line := line\<rparr>)"

definition completeLine :: "bool \<Rightarrow> job_data \<times> logger \<Rightarrow> job_data \<times> logger" where
  "completeLine is_error = (\<lambda>(j, lg).
     case jd_handleMessage is_error (line_of is_error j) (j, lg) of (j, lg) \<Rightarrow> (set_line is_error [] j, lg))"

definition output_char :: "bool \<Rightarrow> char \<Rightarrow> job_data \<times> logger \<Rightarrow> job_data \<times> logger" where
  "output_char is_error c = (\<lambda>(j, lg).
     let j = set_line is_error (line_of is_error j @ [c]) j
     in if c = newline then completeLine is_error (j, lg) else (j, lg))"

definition no_newline :: string where
  "no_newline = ''[no newline]'' @ [newline]"

definition handle_output :: "bool \<Rightarrow> string \<Rightarrow> job_data \<times> logger \<Rightarrow> job_data \<times> logger" where
  "handle_output is_error data = (\<lambda>(j, lg).
     if data = [] then
       (let line = line_of is_error j;
            j = (if line \<noteq> [] \<and> last line \<noteq> newline then set_line is_error (line @ no_newline) j else j)
        in if line_of is_error j \<noteq> [] then completeLine is_error (j, lg) else (j, lg))
     else fold (output_char is_error) data (j, lg))"

definition flush :: "job_data \<times> logger \<Rightarrow> job_data \<times> logger" where
  "flush s =
     (case handle_output True [] (handle_output False [] s) of (j, lg) \<Rightarrow>
        if jd_buffer j = [] then (j, lg)
        else (j\<lparr>jd_buffer := []\<rparr>, writeAllToLogger (jd_buffer j) (jd_job j) lg))"

section \<open>Operations of the clients\<close>

definition requestJobHandle :: "bool \<Rightarrow> string \<Rightarrow> logger \<Rightarrow> int \<times> logger" where
  "requestJobHandle buffered prefix lg =
     (let job = next_job lg
      in (job, lg\<lparr>next_job := job + 1, lg_jobs := om_put job (JobData job buffered prefix) (lg_jobs lg)\<rparr>))"

definition findJob :: "int \<Rightarrow> logger \<Rightarrow> job_data res" where
  "findJob job lg =
     (case om_get (lg_jobs lg) job of
        None \<Rightarrow> Inl (Qexc_Internal ''Logger::findJob called for non-existent job'')
      | Some j \<Rightarrow> Inr j)"

definition store_job :: "int \<Rightarrow> job_data \<times> logger \<Rightarrow> logger" where
  "store_job job = (\<lambda>(j, lg). lg\<lparr>lg_jobs := om_put job j (lg_jobs lg)\<rparr>)"

definition setJobHeader :: "int \<Rightarrow> string \<Rightarrow> logger \<Rightarrow> logger res" where
  "setJobHeader job header lg =
     (if job = NO_JOB then Inr lg
      else bind_res (findJob job lg) (\<lambda>j. Inr (store_job job (j\<lparr>job_header := header\<rparr>, lg))))"

text \<open>
  The handler is bound to the object of the job: None for \<open>NO_JOB\<close>. A call of it after the job was
  closed uses an object that no longer exists.
\<close>

definition getOutputHandler :: "int \<Rightarrow> logger \<Rightarrow> (bool \<Rightarrow> string \<Rightarrow> logger \<Rightarrow> logger res) option res" where
  "getOutputHandler job lg =
     (if job = NO_JOB then Inr None
      else bind_res (findJob job lg) (\<lambda>_. Inr (Some (\<lambda>is_error data lg.
        case om_get (lg_jobs lg) job of
          None \<Rightarrow> Inl (Undefined ''the job of the output handler is closed'')
        | Some j \<Rightarrow> Inr (store_job job (handle_output is_error data (j, lg)))))))"

definition closeJob :: "int \<Rightarrow> logger \<Rightarrow> logger res" where
  "closeJob job lg =
     (if job = NO_JOB then Inr lg
      else case om_get (lg_jobs lg) job of
             None \<Rightarrow> Inl (Qexc_Internal ''Logger::closeJob called on non-existent job'')
           | Some j \<Rightarrow> Inr (snd (flush (j, lg\<lparr>lg_jobs := om_erase job (lg_jobs lg)\<rparr>))))"

definition lg_handleMessage :: "bool \<Rightarrow> string \<Rightarrow> int \<Rightarrow> logger \<Rightarrow> logger res" where
  "lg_handleMessage is_error msg job lg =
     (if job = NO_JOB then Inr (writeToLogger (if is_error then m_error else m_info) msg job lg)
      else bind_res (findJob job lg) (\<lambda>j. Inr (store_job job (jd_handleMessage is_error msg (j, lg)))))"

definition logInfo :: "string \<Rightarrow> int \<Rightarrow> logger \<Rightarrow> logger res" where
  "logInfo message = lg_handleMessage False (message @ [newline])"

definition logError :: "string \<Rightarrow> int \<Rightarrow> logger \<Rightarrow> logger res" where
  "logError message = lg_handleMessage True (message @ [newline])"

definition flushLog :: "logger \<Rightarrow> unit waiting" where
  "flushLog lg = waitUntilEmpty 0 (logger_queue lg)"

section \<open>Stopping\<close>

text \<open>The loop that closes all jobs: the first job as long as there is one. It need not end if a job has
  the handle \<open>NO_JOB\<close>.\<close>

partial_function (option) close_jobs :: "logger \<Rightarrow> logger res option" where
  "close_jobs lg =
     (case lg_jobs lg of
        [] \<Rightarrow> Some (Inr lg)
      | (job, j) # rest \<Rightarrow>
          (case closeJob job lg of Inl e \<Rightarrow> Some (Inl e) | Inr lg \<Rightarrow> close_jobs lg))"

text \<open>\<open>stopLogger\<close> up to \<open>join\<close>, which waits for \<open>P_ended\<close>, and what it leaves in \<open>the_instance\<close>.\<close>

definition stopLogger :: "string \<Rightarrow> logger \<Rightarrow> logger res option" where
  "stopLogger error_message lg =
     map_option (\<lambda>r. bind_res r (\<lambda>lg.
       bind_res (if error_message \<noteq> [] then logError error_message NO_JOB lg else Inr lg) (\<lambda>lg.
         Inr (writeToLogger m_shutdown [] NO_JOB lg)))) (close_jobs lg)"

definition remaining_instance :: "string \<Rightarrow> logger \<Rightarrow> logger option" where
  "remaining_instance error_message lg = (if error_message = [] then None else Some lg)"

section \<open>The thread of the logger\<close>

definition output_lines :: "string \<Rightarrow> string \<Rightarrow> string" where
  "output_lines prefix msg =
     concat (map (\<lambda>line. prefix @ line @ [newline]) (split newline (stripTrailingNewline msg)))"

definition print_message :: "log_message \<Rightarrow> logger \<Rightarrow> logger" where
  "print_message msg lg =
     (case msg of
        (m_shutdown, text) \<Rightarrow> lg
      | (m_info, text) \<Rightarrow> lg\<lparr>lg_printed := lg_printed lg @ [(False, output_lines (lg_output_prefix lg) text)]\<rparr>
      | (m_error, text) \<Rightarrow> lg\<lparr>lg_printed := lg_printed lg @ [(True, output_lines (lg_error_prefix lg) text)]\<rparr>)"

text \<open>One step of \<open>loggerMain\<close>: None while the queue is empty and after the end.\<close>

definition loggerMain_step :: "logger \<Rightarrow> logger option" where
  "loggerMain_step lg =
     (case lg_printer lg of
        P_head \<Rightarrow>
          (case head 0 (logger_queue lg) of
             Blocked t \<Rightarrow> None
           | Proceeds msg \<Rightarrow> Some ((print_message msg lg)\<lparr>lg_printer := P_dequeue (fst msg = m_shutdown)\<rparr>))
      | P_dequeue finished \<Rightarrow>
          (case dequeue 0 (logger_queue lg) of
             Blocked t \<Rightarrow> None
           | Proceeds (msg, q) \<Rightarrow>
               Some (lg\<lparr>logger_queue := q, lg_printer := (if finished then P_ended else P_head)\<rparr>))
      | P_ended \<Rightarrow> None)"

end
