(* ===== verification/Logger_Correct.thy ===== *)
theory Logger_Correct
  imports Logger Util_Strings_Correct
begin

text \<open>
  The output of one job: which messages it emits for the pieces of output it gets, in whole lines and
  without a loss.
\<close>

section \<open>Emitted messages\<close>

text \<open>
  A job emits messages: they are added to its buffer, or go to the queue at once. The rest of the
  logger is not touched, and only the header and the partial lines of the job change.
\<close>

definition same_job :: "job_data \<Rightarrow> job_data \<Rightarrow> bool" where
  "same_job j j' \<longleftrightarrow> jd_job j' = jd_job j \<and> buffer_output j' = buffer_output j \<and> job_prefix j' = job_prefix j"

definition emits :: "log_message list \<Rightarrow> job_data \<times> logger \<Rightarrow> job_data \<times> logger \<Rightarrow> bool" where
  "emits msgs s s' \<longleftrightarrow> same_job (fst s) (fst s') \<and>
     (if buffer_output (fst s)
      then jd_buffer (fst s') = jd_buffer (fst s) @ msgs \<and> snd s' = snd s
      else jd_buffer (fst s') = jd_buffer (fst s) \<and> snd s' = writeAllToLogger msgs (jd_job (fst s)) (snd s))"

lemma writeAll_simps [simp]:
  "writeAllToLogger [] job lg = lg"
  "writeAllToLogger (a @ b) job lg = writeAllToLogger b job (writeAllToLogger a job lg)"
  "writeAllToLogger [(t, msg)] job lg = writeToLogger t msg job lg"
  by (simp_all add: writeAllToLogger_def)

lemma emits_Nil: "same_job (fst s) (fst s') \<Longrightarrow> jd_buffer (fst s') = jd_buffer (fst s) \<Longrightarrow> snd s' = snd s \<Longrightarrow> emits [] s s'"
  by (simp add: emits_def)

lemma emits_trans: "emits a s s' \<Longrightarrow> emits b s' s'' \<Longrightarrow> emits (a @ b) s s''"
  by (auto simp: emits_def same_job_def split: if_splits)

definition kind_of :: "bool \<Rightarrow> message_type" where
  "kind_of is_error = (if is_error then m_error else m_info)"

lemma put_message_emits: "emits [(kind_of e, line)] s (put_message e line s)"
  by (cases s) (simp add: put_message_def emits_def kind_of_def same_job_def)

definition header_messages :: "job_data \<Rightarrow> log_message list" where
  "header_messages j = (if job_header j \<noteq> [] then [(m_info, job_header j @ [newline])] else [])"

definition same_lines :: "job_data \<Rightarrow> job_data \<Rightarrow> bool" where
  "same_lines j j' \<longleftrightarrow> output_line j' = output_line j \<and> error_line j' = error_line j"

lemma put_message_lines:
  "same_lines (fst s) (fst (put_message e line s))" "job_header (fst (put_message e line s)) = job_header (fst s)"
  by (cases s; simp add: put_message_def same_lines_def)+

lemma handleMessage_emits:
  "emits (header_messages (fst s) @ [(kind_of e, line)]) s (jd_handleMessage e line s) \<and>
   same_lines (fst s) (fst (jd_handleMessage e line s)) \<and> job_header (fst (jd_handleMessage e line s)) = []"
proof -
  obtain j lg where s: "s = (j, lg)" by (cases s)
  show ?thesis
  proof (cases "job_header j = []")
    case True
    then show ?thesis using put_message_emits [of e line s] put_message_lines [where s = s and e = e and line = line]
      by (simp add: s jd_handleMessage_def header_messages_def)
  next
    case False
    let ?h = "(j\<lparr>job_header := []\<rparr>, lg)"
    let ?p = "put_message False (job_header j @ [newline]) ?h"
    have "emits [] s ?h" by (rule emits_Nil) (simp_all add: s same_job_def)
    from emits_trans [OF this put_message_emits [of False "job_header j @ [newline]"]]
    have "emits [(m_info, job_header j @ [newline])] s ?p" by (simp add: kind_of_def)
    from emits_trans [OF this put_message_emits [of e line]]
    have "emits ([(m_info, job_header j @ [newline])] @ [(kind_of e, line)]) s (put_message e line ?p)" .
    moreover have "same_lines (fst s) (fst (put_message e line ?p))" "job_header (fst (put_message e line ?p)) = []"
      using put_message_lines [where s = ?h and e = False and line = "job_header j @ [newline]"]
        put_message_lines [where s = ?p and e = e and line = line]
      by (simp_all add: s same_lines_def)
    ultimately show ?thesis using False by (simp add: s jd_handleMessage_def header_messages_def)
  qed
qed

lemma line_set_line [simp]:
  "line_of e (set_line e' l j) = (if e = e' then l else line_of e j)"
  "job_header (set_line e l j) = job_header j" "jd_buffer (set_line e l j) = jd_buffer j"
  "same_job j' (set_line e l j) = same_job j' j" "jd_job (set_line e l j) = jd_job j"
  "buffer_output (set_line e l j) = buffer_output j" "job_prefix (set_line e l j) = job_prefix j"
  by (auto simp: line_of_def set_line_def same_job_def)

lemma same_lines_iff: "same_lines j j' \<longleftrightarrow> (\<forall>e. line_of e j' = line_of e j)"
  by (metis (full_types) line_of_def same_lines_def)

lemma emits_set_line: "emits m s (set_line e l j, lg) = emits m s (j, lg)"
  by (simp add: emits_def)

lemma emits_from_set_line: "emits m (set_line e l j, lg) s \<Longrightarrow> emits m (j, lg) s"
  by (auto simp: emits_def same_job_def split: if_splits)

lemma completeLine_emits:
  assumes "completeLine e (j, lg) = (j', lg')"
  shows "emits (header_messages j @ [(kind_of e, line_of e j)]) (j, lg) (j', lg') \<and>
    line_of e' j' = (if e' = e then [] else line_of e' j) \<and> job_header j' = []"
proof -
  obtain j1 lg1 where 1: "jd_handleMessage e (line_of e j) (j, lg) = (j1, lg1)"
    by (cases "jd_handleMessage e (line_of e j) (j, lg)")
  note h = handleMessage_emits [of "(j, lg)" e "line_of e j", unfolded 1]
  have "j' = set_line e [] j1" "lg' = lg1" using assms 1 by (simp_all add: completeLine_def)
  then show ?thesis using h by (auto simp: emits_set_line same_lines_iff)
qed

section \<open>Output of a job\<close>

text \<open>The text of one stream, and what a whole line is.\<close>

definition stream :: "bool \<Rightarrow> log_message list \<Rightarrow> string" where
  "stream e msgs = concat (map snd (filter (\<lambda>m. fst m = kind_of e) msgs))"

definition whole_line :: "string \<Rightarrow> bool" where
  "whole_line l \<longleftrightarrow> (\<exists>a. newline \<notin> set a \<and> l = a @ [newline])"

definition partial :: "job_data \<Rightarrow> bool" where
  "partial j \<longleftrightarrow> newline \<notin> set (output_line j) \<and> newline \<notin> set (error_line j)"

lemma partial_iff: "partial j \<longleftrightarrow> (\<forall>e. newline \<notin> set (line_of e j))"
  by (metis (full_types) line_of_def partial_def)

lemma stream_append [simp]: "stream e (a @ b) = stream e a @ stream e b"
  by (simp add: stream_def)

lemma stream_Cons: "stream e (m # ms) = (if fst m = kind_of e then snd m else []) @ stream e ms"
  by (simp add: stream_def)

lemma stream_Nil [simp]: "stream e [] = []"
  by (simp add: stream_def)

lemma kind_of_eq [simp]: "kind_of a = kind_of b \<longleftrightarrow> a = b" "m_shutdown \<noteq> kind_of a" "kind_of a \<noteq> m_shutdown"
  by (auto simp: kind_of_def)

text \<open>No line break in the partial lines and the header of a job; messages that are whole lines.\<close>

definition tidy :: "job_data \<Rightarrow> bool" where
  "tidy j \<longleftrightarrow> partial j \<and> newline \<notin> set (job_header j)"

definition all_lines :: "log_message list \<Rightarrow> bool" where
  "all_lines msgs \<longleftrightarrow> (\<forall>(t, l) \<in> set msgs. t \<noteq> m_shutdown \<and> whole_line l)"

lemma all_lines_simps [simp]:
  "all_lines []" "all_lines ((t, l) # ms) \<longleftrightarrow> (t \<noteq> m_shutdown \<and> whole_line l) \<and> all_lines ms"
  "all_lines (a @ b) \<longleftrightarrow> all_lines a \<and> all_lines b"
  by (auto simp: all_lines_def)

lemma whole_line_newline [simp]: "newline \<notin> set a \<Longrightarrow> whole_line (a @ [newline])"
  by (auto simp: whole_line_def)

lemma header_lines: "tidy j \<Longrightarrow> all_lines (header_messages j)"
  by (simp add: tidy_def header_messages_def)

text \<open>
  \<open>outputs data msgs j j'\<close>: from \<open>j\<close> to \<open>j'\<close>, a job has emitted \<open>msgs\<close> for pieces whose text on each
  stream is \<open>data\<close>: the messages are whole lines, and if there is no header, they and the partial line
  that is left are the text.
\<close>

definition outputs :: "(bool \<Rightarrow> string) \<Rightarrow> log_message list \<Rightarrow> job_data \<Rightarrow> job_data \<Rightarrow> bool" where
  "outputs data msgs j j' \<longleftrightarrow> tidy j' \<and> all_lines msgs \<and>
     (job_header j = [] \<longrightarrow> job_header j' = [] \<and> (\<forall>e. stream e msgs @ line_of e j' = line_of e j @ data e))"

lemma outputs_trans:
  assumes "outputs d msgs j j'" and "outputs d' msgs' j' j''"
  shows "outputs (\<lambda>e. d e @ d' e) (msgs @ msgs') j j''"
proof -
  have "stream e (msgs @ msgs') @ line_of e j'' = line_of e j @ d e @ d' e" if h: "job_header j = []" for e
  proof -
    have "stream e msgs' @ line_of e j'' = line_of e j' @ d' e" "stream e msgs @ line_of e j' = line_of e j @ d e"
      using assms h by (simp_all add: outputs_def)
    then show ?thesis by (metis append.assoc stream_append)
  qed
  then show ?thesis using assms by (simp add: outputs_def)
qed

definition on_stream :: "bool \<Rightarrow> string \<Rightarrow> bool \<Rightarrow> string" where
  "on_stream e data = (\<lambda>e'. if e' = e then data else [])"

lemma on_stream_simps [simp]: "on_stream e d e = d" "e \<noteq> e' \<Longrightarrow> on_stream e d e' = []" "on_stream e [] = (\<lambda>_. [])"
  by (auto simp: on_stream_def)

lemma on_stream_append: "(\<lambda>e'. on_stream e a e' @ on_stream e b e') = on_stream e (a @ b)"
  by (auto simp: on_stream_def)

text \<open>Completing a line whose text has just been finished.\<close>

lemma complete_outputs:
  assumes "completeLine e (set_line e (line_of e j @ d) j, lg) = (j', lg')" and "tidy j"
    and "whole_line (line_of e j @ d)"
  shows "\<exists>msgs. emits msgs (j, lg) (j', lg') \<and> outputs (on_stream e d) msgs j j' \<and> line_of e j' = [] \<and>
    (\<forall>e'. e' \<noteq> e \<longrightarrow> line_of e' j' = line_of e' j)"
proof -
  let ?j = "set_line e (line_of e j @ d) j"
  let ?msgs = "header_messages j @ [(kind_of e, line_of e j @ d)]"
  note c = completeLine_emits [OF assms(1)]
  have h: "header_messages ?j = header_messages j" by (simp add: header_messages_def)
  have "emits ?msgs (j, lg) (j', lg')"
    by (rule emits_from_set_line [where e = e and l = "line_of e j @ d"]) (use c h in simp)
  moreover have lines: "line_of e' j' = (if e' = e then [] else line_of e' j)" for e'
    using completeLine_emits [OF assms(1), of e'] by simp
  moreover have "tidy j'" using assms(2) lines c by (simp add: tidy_def partial_iff)
  moreover have "stream e' ?msgs @ line_of e' j' = line_of e' j @ on_stream e d e'" if "job_header j = []" for e'
    using that lines [of e'] by (simp add: header_messages_def stream_Cons)
  ultimately show ?thesis
    using c assms(3) header_lines [OF assms(2)] by (intro exI [of _ ?msgs]) (simp add: outputs_def)
qed

lemma output_char_outputs:
  assumes "output_char e c (j, lg) = (j', lg')" and "tidy j"
  shows "\<exists>msgs. emits msgs (j, lg) (j', lg') \<and> outputs (on_stream e [c]) msgs j j'"
proof (cases "c = newline")
  case True
  have "newline \<notin> set (line_of e j)" using assms(2) by (simp add: tidy_def partial_iff)
  then have "whole_line (line_of e j @ [c])" using True by simp
  moreover have "completeLine e (set_line e (line_of e j @ [c]) j, lg) = (j', lg')"
    using assms(1) True by (simp add: output_char_def)
  ultimately show ?thesis using complete_outputs assms(2) by blast
next
  case False
  then have j: "j' = set_line e (line_of e j @ [c]) j" "lg' = lg"
    using assms(1) by (auto simp: output_char_def)
  then have "emits [] (j, lg) (j', lg')" by (auto simp: emits_def same_job_def)
  moreover have "outputs (on_stream e [c]) [] j j'"
    using assms(2) False by (auto simp: j outputs_def tidy_def partial_iff on_stream_def)
  ultimately show ?thesis by blast
qed

lemma emits_refl: "emits [] s s"
  by (simp add: emits_def same_job_def)

lemma outputs_refl: "tidy j \<Longrightarrow> outputs (\<lambda>_. []) [] j j"
  by (simp add: outputs_def)

lemma output_chars_outputs:
  assumes "fold (output_char e) data (j, lg) = (j', lg')" and "tidy j"
  shows "\<exists>msgs. emits msgs (j, lg) (j', lg') \<and> outputs (on_stream e data) msgs j j'"
  using assms
proof (induction data arbitrary: j lg)
  case Nil
  then show ?case using emits_refl outputs_refl by fastforce
next
  case (Cons c data)
  obtain j1 lg1 where 1: "output_char e c (j, lg) = (j1, lg1)" by (cases "output_char e c (j, lg)")
  obtain m1 where m1: "emits m1 (j, lg) (j1, lg1)" "outputs (on_stream e [c]) m1 j j1"
    using output_char_outputs [OF 1 Cons.prems(2)] by blast
  then have "tidy j1" by (simp add: outputs_def)
  then obtain m2 where m2: "emits m2 (j1, lg1) (j', lg')" "outputs (on_stream e data) m2 j1 j'"
    using Cons.IH Cons.prems(1) 1 by fastforce
  have "outputs (on_stream e (c # data)) (m1 @ m2) j j'"
    using outputs_trans [OF m1(2) m2(2)] by (simp add: on_stream_append)
  then show ?case using emits_trans [OF m1(1) m2(1)] by blast
qed

text \<open>At the end of a stream, the partial line is completed and marked.\<close>

definition ending :: "string \<Rightarrow> string" where
  "ending line = (if line = [] then [] else no_newline)"

lemma whole_no_newline: "newline \<notin> set l \<Longrightarrow> whole_line (l @ no_newline)"
  unfolding no_newline_def append_assoc [symmetric] by (rule whole_line_newline) simp

lemma end_outputs:
  assumes "handle_output e [] (j, lg) = (j', lg')" and "tidy j"
  shows "\<exists>msgs. emits msgs (j, lg) (j', lg') \<and> outputs (on_stream e (ending (line_of e j))) msgs j j' \<and>
    line_of e j' = [] \<and> (\<forall>e'. e' \<noteq> e \<longrightarrow> line_of e' j' = line_of e' j)"
proof (cases "line_of e j = []")
  case True
  then have "j' = j" "lg' = lg" using assms(1) by (simp_all add: handle_output_def)
  then show ?thesis using True emits_refl outputs_refl [OF assms(2)] by (auto simp: ending_def)
next
  case False
  have n: "newline \<notin> set (line_of e j)" using assms(2) by (simp add: tidy_def partial_iff)
  then have "last (line_of e j) \<noteq> newline" using False last_in_set by metis
  then have "completeLine e (set_line e (line_of e j @ no_newline) j, lg) = (j', lg')"
    using assms(1) False by (simp add: handle_output_def)
  from complete_outputs [OF this assms(2) whole_no_newline [OF n]] show ?thesis using False by (simp add: ending_def)
qed

lemma handle_output_outputs:
  assumes "handle_output e data (j, lg) = (j', lg')" and "tidy j" and "data \<noteq> []"
  shows "\<exists>msgs. emits msgs (j, lg) (j', lg') \<and> outputs (on_stream e data) msgs j j'"
  using output_chars_outputs assms by (simp add: handle_output_def)

text \<open>What \<open>flush\<close> writes: the buffer, and the partial lines as messages.\<close>

lemma flush_outputs:
  assumes "flush (j, lg) = (j', lg')" and "tidy j" and "\<not> buffer_output j \<longrightarrow> jd_buffer j = []"
  shows "\<exists>msgs j1. lg' = writeAllToLogger (jd_buffer j @ msgs) (jd_job j) lg \<and>
    outputs (\<lambda>e. ending (line_of e j)) msgs j j1 \<and> (\<forall>e. line_of e j1 = [])"
proof -
  obtain j1 lg1 where 1: "handle_output False [] (j, lg) = (j1, lg1)" by (cases "handle_output False [] (j, lg)")
  obtain j2 lg2 where 2: "handle_output True [] (j1, lg1) = (j2, lg2)" by (cases "handle_output True [] (j1, lg1)")
  obtain m1 where m1: "emits m1 (j, lg) (j1, lg1)" "outputs (on_stream False (ending (line_of False j))) m1 j j1"
      "line_of False j1 = []" "line_of True j1 = line_of True j"
    using end_outputs [OF 1 assms(2)] by auto
  then have "tidy j1" by (simp add: outputs_def)
  from end_outputs [OF 2 this] obtain m2 where m2: "emits m2 (j1, lg1) (j2, lg2)"
      "outputs (on_stream True (ending (line_of True j))) m2 j1 j2" "line_of True j2 = []" "line_of False j2 = []"
    using m1(3,4) by auto
  have m: "emits (m1 @ m2) (j, lg) (j2, lg2)" by (rule emits_trans [OF m1(1) m2(1)])
  have "lg' = (if jd_buffer j2 = [] then lg2 else writeAllToLogger (jd_buffer j2) (jd_job j2) lg2)"
    using assms(1) by (auto simp: flush_def 1 2 split: if_splits)
  then have "lg' = writeAllToLogger (jd_buffer j @ m1 @ m2) (jd_job j) lg"
    using m assms(3) by (cases "buffer_output j") (auto simp: emits_def same_job_def)
  moreover have "(\<lambda>e. on_stream False (ending (line_of False j)) e @ on_stream True (ending (line_of True j)) e) =
      (\<lambda>e. ending (line_of e j))"
    by (auto simp: on_stream_def)
  moreover have "\<forall>e. line_of e j2 = []" using m2(3,4) by (metis (full_types))
  ultimately show ?thesis using outputs_trans [OF m1(2) m2(2)] by (intro exI [of _ "m1 @ m2"] exI [of _ j2]) simp
qed

end
