(* ===== verification/Logger_Properties.thy ===== *)
theory Logger_Properties
  imports Logger_Correct
begin

text \<open>
  What the logger guarantees: whole lines reach the streams, no output of a job is lost or mixed with
  that of another job, and everything is written before the program ends. Every operation of a client
  is a step, and so is each of the two steps with which the thread handles a message.
\<close>

section \<open>The queue\<close>

lemma writeToLogger_eq:
  "writeToLogger t l job lg = lg\<lparr>logger_queue := logger_queue lg @ [(t, prefixMessage l job lg)]\<rparr>"
  by (simp add: writeToLogger_def enqueue_def)

lemma writeAll_eq:
  "writeAllToLogger msgs job lg =
     lg\<lparr>logger_queue := logger_queue lg @ map (\<lambda>(t, l). (t, prefixMessage l job lg)) msgs\<rparr>"
proof (induction msgs arbitrary: lg)
  case (Cons m msgs)
  have "writeAllToLogger (m # msgs) job lg = writeAllToLogger msgs job (writeToLogger (fst m) (snd m) job lg)"
    by (simp add: writeAllToLogger_def case_prod_beta)
  then show ?case by (simp add: Cons.IH writeToLogger_eq prefixMessage_def case_prod_beta)
qed simp

lemma writeAll_unknown:
  "om_get (lg_jobs lg) job = None \<Longrightarrow> writeAllToLogger msgs job lg = lg\<lparr>logger_queue := logger_queue lg @ msgs\<rparr>"
  by (simp add: writeAll_eq prefixMessage_def case_prod_beta)

text \<open>What an operation of a job does to the logger that it is handed.\<close>

lemma emits_jobs:
  "emits msgs (j, lg) (j', lg') \<Longrightarrow>
     lg' = (if buffer_output j then lg else writeAllToLogger msgs (jd_job j) lg)"
  by (auto simp: emits_def)

lemma emits_frame:
  assumes "emits msgs (j, lg) (j', lg')"
  shows "lg_jobs lg' = lg_jobs lg" "next_job lg' = next_job lg" "lg_printer lg' = lg_printer lg"
    "lg_printed lg' = lg_printed lg" "lg_output_prefix lg' = lg_output_prefix lg"
    "lg_error_prefix lg' = lg_error_prefix lg"
  using emits_jobs [OF assms] by (simp_all add: writeAll_eq)

section \<open>Clients\<close>

datatype client_op =
    Request bool string
  | Header int string
  | Data int bool string
  | Message bool string int
  | Close int

primrec apply_op :: "client_op \<Rightarrow> logger \<Rightarrow> logger res" where
  "apply_op (Request buffered prefix) lg = Inr (snd (requestJobHandle buffered prefix lg))"
| "apply_op (Header job header) lg = setJobHeader job header lg"
| "apply_op (Data job is_error data) lg =
     bind_res (getOutputHandler job lg) (\<lambda>h. case h of None \<Rightarrow> Inr lg | Some f \<Rightarrow> f is_error data lg)"
| "apply_op (Message is_error msg job) lg = (if is_error then logError msg job lg else logInfo msg job lg)"
| "apply_op (Close job) lg = closeJob job lg"

lemma apply_Data:
  "apply_op (Data job e data) lg =
     (if job = NO_JOB then Inr lg
      else case om_get (lg_jobs lg) job of
        None \<Rightarrow> Inl (Qexc_Internal ''Logger::findJob called for non-existent job'')
      | Some j \<Rightarrow> Inr (store_job job (handle_output e data (j, lg))))"
  by (simp add: getOutputHandler_def findJob_def split: option.split)

lemma apply_Message:
  "apply_op (Message e msg job) lg =
     (if job = NO_JOB then Inr (writeToLogger (kind_of e) (msg @ [newline]) job lg)
      else case om_get (lg_jobs lg) job of
        None \<Rightarrow> Inl (Qexc_Internal ''Logger::findJob called for non-existent job'')
      | Some j \<Rightarrow> Inr (store_job job (jd_handleMessage e (msg @ [newline]) (j, lg))))"
  by (simp add: logError_def logInfo_def lg_handleMessage_def findJob_def kind_of_def split: option.split)

text \<open>
  A call of a job, that is not its end, as an operation on the job: what it emits, and the job
  that is stored.
\<close>

definition job_step :: "int \<Rightarrow> job_data \<Rightarrow> job_data \<Rightarrow> log_message list \<Rightarrow> logger \<Rightarrow> logger \<Rightarrow> bool" where
  "job_step job j j' msgs lg lg' \<longleftrightarrow> om_get (lg_jobs lg) job = Some j \<and>
     (\<exists>lg1. emits msgs (j, lg) (j', lg1) \<and> lg' = store_job job (j', lg1))"

lemma handle_empty_outputs:
  assumes "handle_output e data (j, lg) = (j', lg')" and "tidy j"
  shows "\<exists>msgs d. emits msgs (j, lg) (j', lg') \<and> outputs d msgs j j' \<and> (data \<noteq> [] \<longrightarrow> d = on_stream e data)"
proof (cases "data = []")
  case True
  then show ?thesis using end_outputs assms by blast
next
  case False
  then show ?thesis using handle_output_outputs assms by blast
qed

lemma Data_step:
  assumes "apply_op (Data job e data) lg = Inr lg'" and "job \<noteq> NO_JOB"
    and "\<And>j. om_get (lg_jobs lg) job = Some j \<Longrightarrow> tidy j"
  shows "\<exists>j j' msgs d. job_step job j j' msgs lg lg' \<and> outputs d msgs j j' \<and> (data \<noteq> [] \<longrightarrow> d = on_stream e data)"
proof -
  obtain j where j: "om_get (lg_jobs lg) job = Some j" and lg': "lg' = store_job job (handle_output e data (j, lg))"
    using assms(1,2) by (auto simp: apply_Data simp del: apply_op.simps split: option.splits)
  obtain j' lg1 where h: "handle_output e data (j, lg) = (j', lg1)" by (cases "handle_output e data (j, lg)")
  show ?thesis using handle_empty_outputs [OF h assms(3) [OF j]] j lg' h unfolding job_step_def by metis
qed

lemma job_step_frame:
  assumes "job_step job j j' msgs lg lg'"
  shows "om_get (lg_jobs lg') = (om_get (lg_jobs lg))(job \<mapsto> j')" "next_job lg' = next_job lg"
    "same_job j j'"
    "buffer_output j \<Longrightarrow> logger_queue lg' = logger_queue lg \<and> jd_buffer j' = jd_buffer j @ msgs"
proof -
  obtain lg1 where m: "emits msgs (j, lg) (j', lg1)" "lg' = store_job job (j', lg1)"
    using assms by (auto simp: job_step_def)
  then show "om_get (lg_jobs lg') = (om_get (lg_jobs lg))(job \<mapsto> j')" "next_job lg' = next_job lg"
    using emits_frame [OF m(1)] by (simp_all add: store_job_def om.get_put)
  show "same_job j j'" using m(1) by (simp add: emits_def)
  show "logger_queue lg' = logger_queue lg \<and> jd_buffer j' = jd_buffer j @ msgs" if "buffer_output j"
    using m that by (simp add: emits_def store_job_def)
qed

text \<open>Whatever a job does, only the queue of the logger changes before the job is stored.\<close>

definition only_queue :: "logger \<Rightarrow> logger \<Rightarrow> bool" where
  "only_queue lg lg' \<longleftrightarrow> (\<exists>q. lg' = lg\<lparr>logger_queue := q\<rparr>)"

lemma only_queue_refl: "only_queue lg lg"
  unfolding only_queue_def by (rule exI [of _ "logger_queue lg"]) simp

lemma only_queue_trans: "only_queue a b \<Longrightarrow> only_queue b c \<Longrightarrow> only_queue a c"
  by (auto simp: only_queue_def)

lemma writeAll_only_queue: "only_queue lg (writeAllToLogger msgs job lg)"
  by (auto simp: writeAll_eq only_queue_def)

lemma emits_only_queue: "emits msgs s s' \<Longrightarrow> only_queue (snd s) (snd s')"
  by (cases "buffer_output (fst s)") (auto simp: emits_def only_queue_refl writeAll_only_queue)

lemma completeLine_only_queue: "only_queue (snd s) (snd (completeLine e s))"
proof -
  obtain j lg where s: "s = (j, lg)" by (cases s)
  obtain j' lg' where c: "completeLine e (j, lg) = (j', lg')" by (cases "completeLine e (j, lg)")
  have "emits (header_messages j @ [(kind_of e, line_of e j)]) (j, lg) (j', lg')"
    using completeLine_emits [OF c] by blast
  then show ?thesis using emits_only_queue s c by fastforce
qed

lemma output_char_only_queue: "only_queue (snd s) (snd (output_char e c s))"
proof (cases s)
  case (Pair j lg)
  then show ?thesis using completeLine_only_queue [of "(set_line e (line_of e j @ [c]) j, lg)" e] only_queue_refl
    by (auto simp: output_char_def Let_def)
qed

lemma output_chars_only_queue: "only_queue (snd s) (snd (fold (output_char e) data s))"
proof (induction data arbitrary: s)
  case Nil
  then show ?case by (simp add: only_queue_refl)
next
  case (Cons c data)
  show ?case using only_queue_trans [OF output_char_only_queue Cons.IH] by simp
qed

lemma handle_output_only_queue: "only_queue (snd s) (snd (handle_output e data s))"
proof -
  obtain j lg where s: "s = (j, lg)" by (cases s)
  have "only_queue lg (snd (completeLine e (j', lg)))" for j'
    using completeLine_only_queue [of "(j', lg)" e] by simp
  then show ?thesis using output_chars_only_queue [of s e data] only_queue_refl
    by (simp add: s handle_output_def Let_def)
qed

lemma handleMessage_only_queue: "only_queue (snd s) (snd (jd_handleMessage e l s))"
  using handleMessage_emits emits_only_queue by blast

lemma flush_only_queue: "only_queue (snd s) (snd (flush s))"
proof -
  obtain j lg where h: "handle_output True [] (handle_output False [] s) = (j, lg)"
    by (cases "handle_output True [] (handle_output False [] s)")
  have "only_queue (snd s) lg"
    using only_queue_trans [OF handle_output_only_queue handle_output_only_queue, of s True "[]" False "[]"] h by simp
  moreover have "only_queue lg (snd (flush s))"
    by (simp add: flush_def h only_queue_refl writeAll_only_queue)
  ultimately show ?thesis by (rule only_queue_trans)
qed

lemma only_queue_fields:
  assumes "only_queue lg lg'"
  shows "lg_jobs lg' = lg_jobs lg" "next_job lg' = next_job lg" "lg_printer lg' = lg_printer lg"
    "lg_printed lg' = lg_printed lg" "lg_output_prefix lg' = lg_output_prefix lg"
    "lg_error_prefix lg' = lg_error_prefix lg"
  using assms by (auto simp: only_queue_def)

lemma store_fields [simp]:
  "om_get (lg_jobs (store_job job s)) = (om_get (lg_jobs (snd s)))(job \<mapsto> fst s)"
  "next_job (store_job job s) = next_job (snd s)" "logger_queue (store_job job s) = logger_queue (snd s)"
  "lg_printer (store_job job s) = lg_printer (snd s)" "lg_printed (store_job job s) = lg_printed (snd s)"
  "lg_output_prefix (store_job job s) = lg_output_prefix (snd s)"
  "lg_error_prefix (store_job job s) = lg_error_prefix (snd s)"
  by (simp_all add: store_job_def case_prod_beta om.get_put)

section \<open>The output of a buffered job\<close>

text \<open>The job gets its output through its handler only; the other jobs do what they like.\<close>

primrec only_data :: "int \<Rightarrow> client_op \<Rightarrow> bool" where
  "only_data job (Request b p) \<longleftrightarrow> True"
| "only_data job (Header k h) \<longleftrightarrow> k \<noteq> job"
| "only_data job (Data k e s) \<longleftrightarrow> (k = job \<longrightarrow> s \<noteq> [])"
| "only_data job (Message e m k) \<longleftrightarrow> k \<noteq> job"
| "only_data job (Close k) \<longleftrightarrow> k \<noteq> job"

primrec op_text :: "int \<Rightarrow> bool \<Rightarrow> client_op \<Rightarrow> string" where
  "op_text job e (Request b p) = []"
| "op_text job e (Header k h) = []"
| "op_text job e (Data k e' s) = (if k = job \<and> e' = e then s else [])"
| "op_text job e (Message e' m k) = []"
| "op_text job e (Close k) = []"

definition job_text :: "int \<Rightarrow> bool \<Rightarrow> client_op list \<Rightarrow> string" where
  "job_text job e ops = concat (map (op_text job e) ops)"

definition collects :: "int \<Rightarrow> string \<Rightarrow> (bool \<Rightarrow> string) \<Rightarrow> logger \<Rightarrow> bool" where
  "collects job prefix out lg \<longleftrightarrow> job < next_job lg \<and>
     (\<exists>j. om_get (lg_jobs lg) job = Some j \<and> same_job (JobData job True prefix) j \<and> tidy j \<and>
       outputs out (jd_buffer j) (JobData job True prefix) j)"

lemma collects_other:
  assumes "collects job prefix out lg" and "om_get (lg_jobs lg') job = om_get (lg_jobs lg) job"
    and "next_job lg \<le> next_job lg'"
  shows "collects job prefix out lg'"
  using assms by (auto simp: collects_def)

lemma op_other:
  assumes "apply_op op lg = Inr lg'" and "job < next_job lg" and "only_data job op"
    and "\<not> (\<exists>e s. op = Data job e s)"
  shows "om_get (lg_jobs lg') job = om_get (lg_jobs lg) job \<and> next_job lg \<le> next_job lg'"
proof (cases op)
  case (Request b p)
  then show ?thesis using assms(1,2) by (auto simp: requestJobHandle_def Let_def om.get_put)
next
  case (Header k h)
  then show ?thesis using assms(1,3)
    by (auto simp: setJobHeader_def findJob_def split: if_splits option.splits)
next
  case (Data k e s)
  then have "k \<noteq> job" using assms(4) by auto
  then show ?thesis using assms(1) only_queue_fields [OF handle_output_only_queue] Data
    by (auto simp: apply_Data simp del: apply_op.simps split: if_splits option.splits)
next
  case (Message e m k)
  then show ?thesis using assms(1,3) only_queue_fields [OF handleMessage_only_queue]
    by (auto simp: apply_Message writeToLogger_eq simp del: apply_op.simps split: if_splits option.splits)
next
  case (Close k)
  then show ?thesis using assms(1,3) only_queue_fields [OF flush_only_queue]
    by (auto simp: closeJob_def om.get_erase split: if_splits option.splits)
qed

lemma op_collects:
  assumes "collects job prefix out lg" and "apply_op op lg = Inr lg'" and "only_data job op" and "job \<noteq> NO_JOB"
  shows "collects job prefix (\<lambda>e. out e @ op_text job e op) lg'"
proof (cases "\<exists>e s. op = Data job e s")
  case False
  have "op_text job e op = []" for e using False by (cases op) auto
  moreover have "job < next_job lg" using assms(1) by (simp add: collects_def)
  ultimately show ?thesis using collects_other [OF assms(1)] op_other [OF assms(2) _ assms(3) False] by simp
next
  case True
  then obtain e s where op: "op = Data job e s" by blast
  obtain j where j: "om_get (lg_jobs lg) job = Some j" "same_job (JobData job True prefix) j" "tidy j"
      "outputs out (jd_buffer j) (JobData job True prefix) j" and n: "job < next_job lg"
    using assms(1) by (auto simp: collects_def)
  have "\<exists>j0 j' msgs d. job_step job j0 j' msgs lg lg' \<and> outputs d msgs j0 j' \<and> (s \<noteq> [] \<longrightarrow> d = on_stream e s)"
    by (rule Data_step) (use assms(2,4) op j(1,3) in auto)
  then obtain j0 j' msgs where st: "job_step job j0 j' msgs lg lg'" "outputs (on_stream e s) msgs j0 j'"
    using assms(3) op by auto
  then have "j0 = j" using j(1) by (simp add: job_step_def)
  note st = st [unfolded this]
  note f = job_step_frame [OF st(1)]
  have b: "jd_buffer j' = jd_buffer j @ msgs"
    using f(4) j(2) by (simp add: same_job_def JobData_def)
  have "(\<lambda>e'. out e' @ op_text job e' op) = (\<lambda>e'. out e' @ on_stream e s e')"
    by (auto simp: op on_stream_def)
  then have "outputs (\<lambda>e. out e @ op_text job e op) (jd_buffer j') (JobData job True prefix) j'"
    using outputs_trans [OF j(4) st(2)] b by simp
  moreover have "tidy j'" using st(2) by (simp add: outputs_def)
  moreover have "same_job (JobData job True prefix) j'" using j(2) f(3) by (simp add: same_job_def)
  ultimately show ?thesis using f(1,2) n by (simp add: collects_def)
qed

lemma ops_collect:
  assumes "collects job prefix out lg" and "each apply_op ops lg = Inr lg'"
    and "\<forall>op \<in> set ops. only_data job op" and "job \<noteq> NO_JOB"
  shows "collects job prefix (\<lambda>e. out e @ job_text job e ops) lg'"
  using assms(1-3)
proof (induction ops arbitrary: out lg)
  case Nil
  then show ?case by (simp add: job_text_def)
next
  case (Cons op ops)
  obtain lg1 where 1: "apply_op op lg = Inr lg1" using Cons.prems(2) by (cases "apply_op op lg") auto
  have "collects job prefix (\<lambda>e. out e @ op_text job e op) lg1"
    using op_collects [OF Cons.prems(1) 1 _ assms(4)] Cons.prems(3) by simp
  from Cons.IH [OF this] show ?case using Cons.prems(2,3) 1 by (simp add: job_text_def)
qed

lemma request_collects:
  assumes "requestJobHandle True prefix lg = (job, lg0)"
  shows "collects job prefix (\<lambda>_. []) lg0"
proof -
  have "tidy (JobData job True prefix)" by (simp add: tidy_def partial_def JobData_def)
  moreover have "jd_buffer (JobData job True prefix) = []" by (simp add: JobData_def)
  ultimately have "outputs (\<lambda>_. []) (jd_buffer (JobData job True prefix)) (JobData job True prefix) (JobData job True prefix)"
    using outputs_refl by simp
  then show ?thesis using assms \<open>tidy _\<close>
    by (auto simp: collects_def requestJobHandle_def Let_def om.get_put same_job_def)
qed

text \<open>The text of a stream, with the mark if it ends in a partial line.\<close>

definition marked :: "string \<Rightarrow> string" where
  "marked text = (if text = [] \<or> last text = newline then text else text @ no_newline)"

lemma stream_whole: "all_lines msgs \<Longrightarrow> stream e msgs \<noteq> [] \<Longrightarrow> last (stream e msgs) = newline"
proof (induction msgs rule: rev_induct)
  case Nil
  then show ?case by simp
next
  case (snoc m msgs)
  then show ?case
    by (cases m) (auto simp: stream_Cons whole_line_def split: if_splits)
qed

lemma ending_marked:
  assumes "all_lines msgs" and "newline \<notin> set l" and "stream e msgs @ l = text"
  shows "text @ ending l = marked text"
proof (cases "l = []")
  case True
  then show ?thesis using assms(3) stream_whole [OF assms(1), of e] by (auto simp: ending_def marked_def)
next
  case False
  then have "last text \<in> set l" using assms(3) by auto
  then have "last text \<noteq> newline" using assms(2) by metis
  then show ?thesis using False assms(3) by (auto simp: ending_def marked_def)
qed

text \<open>
  C11: The output of a buffered job is complete, in whole lines, and not mixed with that of other jobs.
  If a job is requested with a buffer and gets its output in any number of pieces, while other
  operations on other jobs go on, then closing it appends one block to the queue: its messages
  are whole lines, and the text of each stream is the concatenation of the pieces, with the mark for
  a last line that is not complete.
\<close>

theorem buffered_output_complete:
  assumes "requestJobHandle True prefix lg = (job, lg0)" and "job \<noteq> NO_JOB"
    and "each apply_op ops lg0 = Inr lg1" and "\<forall>op \<in> set ops. only_data job op"
  shows "\<exists>block lg2. closeJob job lg1 = Inr lg2 \<and> logger_queue lg2 = logger_queue lg1 @ block \<and>
    all_lines block \<and> (\<forall>e. stream e block = marked (job_text job e ops))"
proof -
  have "collects job prefix (\<lambda>e. job_text job e ops) lg1"
    using ops_collect [OF request_collects [OF assms(1)] assms(3,4,2)] by simp
  then obtain j where j: "om_get (lg_jobs lg1) job = Some j" "same_job (JobData job True prefix) j" "tidy j"
      "outputs (\<lambda>e. job_text job e ops) (jd_buffer j) (JobData job True prefix) j"
    by (auto simp: collects_def)
  then have b: "buffer_output j" "jd_job j = job" by (simp_all add: same_job_def JobData_def)
  let ?lg = "lg1\<lparr>lg_jobs := om_erase job (lg_jobs lg1)\<rparr>"
  obtain j' lg2 where f: "flush (j, ?lg) = (j', lg2)" by (cases "flush (j, ?lg)")
  have "\<not> buffer_output j \<longrightarrow> jd_buffer j = []" using b(1) by simp
  from flush_outputs [OF f j(3) this] obtain msgs j1
    where lg2: "lg2 = writeAllToLogger (jd_buffer j @ msgs) (jd_job j) ?lg"
      and out: "outputs (\<lambda>e. ending (line_of e j)) msgs j j1" and lines: "\<forall>e. line_of e j1 = []"
    by blast
  have "om_get (lg_jobs ?lg) job = None" by (simp add: om.get_erase)
  then have q: "logger_queue lg2 = logger_queue lg1 @ (jd_buffer j @ msgs)"
    unfolding lg2 b(2) by (subst writeAll_unknown) simp_all
  note o1 = j(4) [unfolded outputs_def]
  have h: "job_header (JobData job True prefix) = []" "\<And>e. line_of e (JobData job True prefix) = []"
    by (simp_all add: JobData_def line_of_def)
  have s1: "stream e (jd_buffer j) @ line_of e j = job_text job e ops" and hj: "job_header j = []" for e
    using o1 h by simp_all
  have s2: "stream e msgs = line_of e j @ ending (line_of e j)" for e
    using out hj lines by (simp add: outputs_def)
  have "newline \<notin> set (line_of e j)" for e using j(3) by (simp add: tidy_def partial_iff)
  then have "stream e (jd_buffer j @ msgs) = marked (job_text job e ops)" for e
    using ending_marked [OF _ _ s1, of e] o1 s1 [of e] s2 [of e] by (metis append.assoc stream_append)
  moreover have "all_lines (jd_buffer j @ msgs)" using o1 out by (simp add: outputs_def)
  moreover have "closeJob job lg1 = Inr lg2" using assms(2) j(1) f by (simp add: closeJob_def)
  ultimately show ?thesis using q by blast
qed

definition two_jobs :: logger where
  "two_jobs = snd (requestJobHandle True ''[a] '' (snd (requestJobHandle False ''[b] '' new_logger)))"

definition mixed_ops :: "client_op list" where
  "mixed_ops = [Data 2 False ''on'', Data 1 False (''x'' @ [newline]), Data 2 True ''e'', Data 2 False (''e'' @ [newline] @ ''two'')]"

theorem buffered_output_complete_witness:
  "\<exists>lg1 block lg2. each apply_op mixed_ops two_jobs = Inr lg1 \<and> closeJob 2 lg1 = Inr lg2
     \<and> logger_queue lg2 = logger_queue lg1 @ block
     \<and> stream False block = ''one'' @ [newline] @ ''two[no newline]'' @ [newline]
     \<and> stream True block = ''e[no newline]'' @ [newline]"
proof -
  have "case each apply_op mixed_ops two_jobs of Inl a \<Rightarrow> False | Inr lg \<Rightarrow> True" by code_simp
  then obtain lg1 where run: "each apply_op mixed_ops two_jobs = Inr lg1"
    by (cases "each apply_op mixed_ops two_jobs") auto
  have r: "requestJobHandle True ''[a] '' (snd (requestJobHandle False ''[b] '' new_logger)) = (2, two_jobs)"
    by code_simp
  have "\<forall>op \<in> set mixed_ops. only_data 2 op" by (simp add: mixed_ops_def)
  moreover have "(2::int) \<noteq> NO_JOB" by (simp add: NO_JOB_def)
  moreover have "marked (job_text 2 False mixed_ops) = ''one'' @ [newline] @ ''two[no newline]'' @ [newline]"
    "marked (job_text 2 True mixed_ops) = ''e[no newline]'' @ [newline]"
    by code_simp+
  ultimately show ?thesis using buffered_output_complete [OF r _ run] run by metis
qed

section \<open>The last line of a job without buffer\<close>

text \<open>
  C38: A job without buffer prefixes its lines, except the last one if it is not complete: the job
  has been removed from the map when the line is written, so its prefix is not found.
\<close>

theorem last_line_loses_prefix:
  assumes "om_get (lg_jobs lg) job = Some j" and "job \<noteq> NO_JOB" and "jd_job j = job"
    and "\<not> buffer_output j" and "jd_buffer j = []" and "job_header j = []"
    and "output_line j = line" and "error_line j = []" and "line \<noteq> []" and "newline \<notin> set line"
  shows "(\<exists>lg'. closeJob job lg = Inr lg' \<and>
            logger_queue lg' = logger_queue lg @ [(m_info, line @ no_newline)]) \<and>
         (\<exists>lg'. apply_op (Data job False [newline]) lg = Inr lg' \<and>
            logger_queue lg' = logger_queue lg @ [(m_info, job_prefix j @ line @ [newline])])"
proof -
  have l: "last line \<noteq> newline" using assms(9,10) last_in_set by metis
  have c: "completeLine False (j\<lparr>output_line := s\<rparr>, lg) = (j\<lparr>output_line := []\<rparr>, writeToLogger m_info s job lg)" for s lg
    using assms(3-6) by (simp add: completeLine_def jd_handleMessage_def put_message_def line_of_def set_line_def)
  have "handle_output False [] (j, lg) = (j\<lparr>output_line := []\<rparr>, writeToLogger m_info (line @ no_newline) job lg)" for lg
    using l assms(7,9) c by (simp add: handle_output_def line_of_def set_line_def)
  then have "flush (j, lg) = (j\<lparr>output_line := []\<rparr>, writeToLogger m_info (line @ no_newline) job lg)" for lg
    using assms(5,8) by (simp add: flush_def handle_output_def line_of_def)
  moreover have "handle_output False [newline] (j, lg) = (j\<lparr>output_line := []\<rparr>, writeToLogger m_info (line @ [newline]) job lg)"
    using assms(7) c by (simp add: handle_output_def output_char_def line_of_def set_line_def)
  ultimately show ?thesis using assms(1,2)
    by (simp add: closeJob_def apply_Data writeToLogger_eq prefixMessage_def om.get_erase del: apply_op.simps)
qed

theorem last_line_loses_prefix_witness:
  "\<exists>lg lg'. apply_op (Data 1 False ''text'') two_jobs = Inr lg \<and> closeJob 1 lg = Inr lg'
     \<and> logger_queue lg' = [(m_info, ''text[no newline]'' @ [newline])]"
proof -
  let ?j = "(JobData 1 False ''[b] '')\<lparr>output_line := ''text''\<rparr>"
  let ?lg = "two_jobs\<lparr>lg_jobs := om_put 1 ?j (lg_jobs two_jobs)\<rparr>"
  have a: "apply_op (Data 1 False ''text'') two_jobs = Inr ?lg" "logger_queue ?lg = []" "logger_queue two_jobs = []"
    by code_simp+
  have "(1::int) \<noteq> NO_JOB" by (simp add: NO_JOB_def)
  from last_line_loses_prefix [OF _ this, where lg = ?lg and j = ?j and line = "''text''"]
  obtain lg' where "closeJob 1 ?lg = Inr lg'" "logger_queue lg' = [(m_info, ''text[no newline]'' @ [newline])]"
    using a(3) by (auto simp: om.get_put JobData_def no_newline_def)
  then show ?thesis using a(1) by blast
qed

section \<open>What is printed\<close>

text \<open>Any interleaving of clients and the thread, until the logger is stopped. The messages, headers and
  prefixes have no line break; the output that jobs get through their handlers is arbitrary.\<close>

primrec clean_op :: "client_op \<Rightarrow> bool" where
  "clean_op (Request b p) \<longleftrightarrow> newline \<notin> set p"
| "clean_op (Header k h) \<longleftrightarrow> newline \<notin> set h"
| "clean_op (Data k e s) \<longleftrightarrow> True"
| "clean_op (Message e m k) \<longleftrightarrow> newline \<notin> set m"
| "clean_op (Close k) \<longleftrightarrow> True"

inductive logging :: "string \<Rightarrow> string \<Rightarrow> logger \<Rightarrow> bool" for output_prefix error_prefix where
  start: "logging output_prefix error_prefix (setPrefixes output_prefix error_prefix new_logger)"
| client: "logging output_prefix error_prefix lg \<Longrightarrow> clean_op op \<Longrightarrow> apply_op op lg = Inr lg' \<Longrightarrow>
    logging output_prefix error_prefix lg'"
| thread: "logging output_prefix error_prefix lg \<Longrightarrow> loggerMain_step lg = Some lg' \<Longrightarrow>
    logging output_prefix error_prefix lg'"

definition job_okay :: "int \<Rightarrow> job_data \<Rightarrow> bool" where
  "job_okay k j \<longleftrightarrow> 0 < k \<and> jd_job j = k \<and> tidy j \<and> newline \<notin> set (job_prefix j) \<and> all_lines (jd_buffer j) \<and>
     (\<not> buffer_output j \<longrightarrow> jd_buffer j = [])"

definition jobs_okay :: "logger \<Rightarrow> bool" where
  "jobs_okay lg \<longleftrightarrow> 0 < next_job lg \<and> (\<forall>k j. om_get (lg_jobs lg) k = Some j \<longrightarrow> job_okay k j)"

definition printed_line :: "string \<Rightarrow> string \<Rightarrow> bool \<times> string \<Rightarrow> bool" where
  "printed_line out err = (\<lambda>(e, s). \<exists>line. newline \<notin> set line \<and> s = (if e then err else out) @ line @ [newline])"

definition log_inv :: "string \<Rightarrow> string \<Rightarrow> logger \<Rightarrow> bool" where
  "log_inv out err lg \<longleftrightarrow> jobs_okay lg \<and> lg_output_prefix lg = out \<and> lg_error_prefix lg = err \<and>
     all_lines (logger_queue lg) \<and> (\<forall>p \<in> set (lg_printed lg). printed_line out err p) \<and>
     (lg_printer lg = P_head \<or> lg_printer lg = P_dequeue False \<and> logger_queue lg \<noteq> [])"

lemma whole_line_prefix: "newline \<notin> set p \<Longrightarrow> whole_line l \<Longrightarrow> whole_line (p @ l)"
  unfolding whole_line_def by (metis Un_iff append.assoc set_append)

text \<open>Writing whole lines.\<close>

lemma prefixed_lines:
  assumes "all_lines msgs" and "jobs_okay lg"
  shows "all_lines (map (\<lambda>(t, l). (t, prefixMessage l job lg)) msgs)"
proof -
  have "whole_line (prefixMessage l job lg)" if "whole_line l" for l
    using assms(2) that whole_line_prefix
    by (auto simp: prefixMessage_def jobs_okay_def job_okay_def split: option.split)
  then show ?thesis using assms(1) by (auto simp: all_lines_def)
qed

lemma write_inv:
  assumes "log_inv out err lg" and "all_lines msgs"
  shows "log_inv out err (writeAllToLogger msgs job lg)"
  using assms prefixed_lines [OF assms(2), of lg job] by (auto simp: log_inv_def writeAll_eq jobs_okay_def)

lemma emits_inv:
  assumes "log_inv out err lg" and "emits msgs (j, lg) (j', lg')" and "all_lines msgs" and "tidy j'" and "job_okay k j"
  shows "log_inv out err (store_job k (j', lg'))"
proof -
  have "job_okay k j'" using assms(2-5) by (auto simp: job_okay_def emits_def same_job_def split: if_splits)
  moreover have "log_inv out err lg'" using emits_jobs [OF assms(2)] write_inv assms(1,3) by simp
  ultimately show ?thesis by (auto simp: log_inv_def jobs_okay_def)
qed

lemma close_inv:
  assumes "log_inv out err lg" and "closeJob k lg = Inr lg'"
  shows "log_inv out err lg'"
proof (cases "k = NO_JOB")
  case True
  then show ?thesis using assms by (simp add: closeJob_def)
next
  case False
  let ?lg = "lg\<lparr>lg_jobs := om_erase k (lg_jobs lg)\<rparr>"
  obtain j where j: "om_get (lg_jobs lg) k = Some j" and lg': "lg' = snd (flush (j, ?lg))"
    using assms(2) False by (auto simp: closeJob_def split: option.splits)
  have inv: "log_inv out err ?lg" using assms(1) by (auto simp: log_inv_def jobs_okay_def om.get_erase)
  have okay: "job_okay k j" using assms(1) j by (simp add: log_inv_def jobs_okay_def)
  obtain j' lg1 where f: "flush (j, ?lg) = (j', lg1)" by (cases "flush (j, ?lg)")
  have "tidy j" "\<not> buffer_output j \<longrightarrow> jd_buffer j = []" using okay by (simp_all add: job_okay_def)
  from flush_outputs [OF f this] obtain msgs where "lg1 = writeAllToLogger (jd_buffer j @ msgs) (jd_job j) ?lg"
    "all_lines msgs" by (auto simp: outputs_def)
  then show ?thesis using write_inv [OF inv, of "jd_buffer j @ msgs" "jd_job j"] okay lg' f
    by (simp add: job_okay_def)
qed

lemma message_inv:
  assumes "log_inv out err lg" and "apply_op (Message e m k) lg = Inr lg'" and "newline \<notin> set m"
  shows "log_inv out err lg'"
proof (cases "k = NO_JOB")
  case True
  have "lg' = writeAllToLogger [(kind_of e, m @ [newline])] k lg"
    using assms(2) True by (simp add: apply_Message del: apply_op.simps)
  then show ?thesis using write_inv [OF assms(1), of "[(kind_of e, m @ [newline])]" k] assms(3) by simp
next
  case False
  then obtain j where j: "om_get (lg_jobs lg) k = Some j"
      "lg' = store_job k (jd_handleMessage e (m @ [newline]) (j, lg))"
    using assms(2) by (auto simp: apply_Message simp del: apply_op.simps split: option.splits)
  obtain j' lg1 where h: "jd_handleMessage e (m @ [newline]) (j, lg) = (j', lg1)"
    by (cases "jd_handleMessage e (m @ [newline]) (j, lg)")
  have okay: "job_okay k j" using assms(1) j by (simp add: log_inv_def jobs_okay_def)
  note em = handleMessage_emits [of "(j, lg)" e "m @ [newline]", unfolded h fst_conv snd_conv]
  have "tidy j'" using em okay by (simp add: job_okay_def tidy_def partial_def same_lines_def)
  moreover have "all_lines (header_messages j @ [(kind_of e, m @ [newline])])"
    using okay header_lines assms(3) by (simp add: job_okay_def)
  ultimately show ?thesis using emits_inv [OF assms(1) _ _ _ okay] em j(2) h by metis
qed

lemma op_inv:
  assumes "log_inv out err lg" and "apply_op op lg = Inr lg'" and "clean_op op"
  shows "log_inv out err lg'"
proof (cases op)
  case (Request b p)
  have "job_okay (next_job lg) (JobData (next_job lg) b p)"
    using assms(1,3) Request by (simp add: job_okay_def JobData_def log_inv_def jobs_okay_def tidy_def partial_def)
  then show ?thesis using assms(1,2) Request
    by (auto simp: requestJobHandle_def Let_def log_inv_def jobs_okay_def om.get_put split: if_splits)
next
  case (Header k h)
  then show ?thesis using assms
    by (auto simp: setJobHeader_def findJob_def log_inv_def jobs_okay_def job_okay_def tidy_def partial_def
        split: if_splits option.splits)
next
  case (Data k e s)
  show ?thesis
  proof (cases "k = NO_JOB")
    case True
    then show ?thesis using assms(1,2) Data by (simp add: apply_Data del: apply_op.simps)
  next
    case False
    have okay: "om_get (lg_jobs lg) k = Some j \<Longrightarrow> job_okay k j" for j
      using assms(1) by (simp add: log_inv_def jobs_okay_def)
    obtain j j' msgs d where st: "job_step k j j' msgs lg lg'" "outputs d msgs j j'"
      using Data_step [OF assms(2) [unfolded Data] False] okay by (metis job_okay_def)
    then obtain lg1 where "emits msgs (j, lg) (j', lg1)" "lg' = store_job k (j', lg1)" "job_okay k j"
      using okay by (auto simp: job_step_def)
    then show ?thesis using emits_inv [OF assms(1)] st(2) by (simp add: outputs_def)
  qed
next
  case (Message e m k)
  then show ?thesis using message_inv assms by auto
next
  case (Close k)
  then show ?thesis using close_inv assms by simp
qed

text \<open>The thread.\<close>

definition shown :: "string \<Rightarrow> string \<Rightarrow> log_message \<Rightarrow> bool \<times> string" where
  "shown out err = (\<lambda>(t, l). (t = m_error, output_lines (if t = m_error then err else out) l))"

lemma output_whole_line: "whole_line l \<Longrightarrow> \<exists>line. newline \<notin> set line \<and> output_lines p l = p @ line @ [newline]"
proof -
  assume "whole_line l"
  then obtain a where a: "newline \<notin> set a" "l = a @ [newline]" by (auto simp: whole_line_def)
  let ?line = "if a \<noteq> [] \<and> last a = carriage_return then butlast a else a"
  have "newline \<notin> set ?line" using a(1) by (auto dest: in_set_butlastD)
  moreover have "stripTrailingNewline l = ?line" using a(2) by (simp add: stripTrailingNewline_def)
  ultimately show ?thesis by (intro exI [of _ ?line]) (simp add: output_lines_def)
qed

lemma print_shown:
  assumes "fst m \<noteq> m_shutdown"
  shows "print_message m lg = lg\<lparr>lg_printed := lg_printed lg @ [shown (lg_output_prefix lg) (lg_error_prefix lg) m]\<rparr>"
  using assms by (cases m; cases "fst m") (auto simp: print_message_def shown_def)

lemma thread_inv:
  assumes "log_inv out err lg" and "loggerMain_step lg = Some lg'"
  shows "log_inv out err lg'"
proof (cases "lg_printer lg")
  case P_head
  then obtain m q where q: "logger_queue lg = m # q"
    using assms(2) by (cases "logger_queue lg") (auto simp: loggerMain_step_def head_def)
  have m: "fst m \<noteq> m_shutdown" "whole_line (snd m)"
    using assms(1) q by (auto simp: log_inv_def all_lines_def case_prod_beta)
  have "printed_line out err (shown out err m)"
    using output_whole_line [OF m(2)] by (auto simp: printed_line_def shown_def case_prod_beta)
  moreover have "lg' = (print_message m lg)\<lparr>lg_printer := P_dequeue False\<rparr>"
    using assms(2) P_head q m(1) by (simp add: loggerMain_step_def head_def)
  ultimately show ?thesis
    using assms(1) q unfolding print_shown [OF m(1)] by (auto simp: log_inv_def jobs_okay_def)
next
  case (P_dequeue finished)
  then obtain m q where q: "logger_queue lg = m # q" "finished = False"
    using assms(1) by (cases "logger_queue lg") (auto simp: log_inv_def)
  then have "lg' = lg\<lparr>logger_queue := q, lg_printer := P_head\<rparr>"
    using assms(2) P_dequeue by (simp add: loggerMain_step_def)
  then show ?thesis using assms(1) q by (cases m) (auto simp: log_inv_def jobs_okay_def)
next
  case P_ended
  then show ?thesis using assms(1) by (simp add: log_inv_def)
qed

lemma logging_inv: "logging out err lg \<Longrightarrow> log_inv out err lg"
proof (induction rule: logging.induct)
  case start
  show ?case by (simp add: log_inv_def jobs_okay_def setPrefixes_def new_logger_def)
next
  case (client lg op lg')
  then show ?case using op_inv by blast
next
  case (thread lg lg')
  then show ?case using thread_inv by blast
qed


section \<open>The end of the program\<close>

text \<open>Closing all jobs ends and raises no exception.\<close>

lemma closeJob_fields:
  assumes "closeJob k lg = Inr lg'" and "k \<noteq> NO_JOB"
  shows "lg_jobs lg' = om_erase k (lg_jobs lg)" "lg_printer lg' = lg_printer lg" "lg_printed lg' = lg_printed lg"
proof -
  let ?lg = "lg\<lparr>lg_jobs := om_erase k (lg_jobs lg)\<rparr>"
  obtain j where "om_get (lg_jobs lg) k = Some j" "lg' = snd (flush (j, ?lg))"
    using assms by (auto simp: closeJob_def split: option.splits)
  then have "only_queue ?lg lg'" using flush_only_queue [of "(j, ?lg)"] by simp
  from only_queue_fields [OF this] show "lg_jobs lg' = om_erase k (lg_jobs lg)" "lg_printer lg' = lg_printer lg"
    "lg_printed lg' = lg_printed lg" by simp_all
qed

lemma closeJob_queue:
  assumes "closeJob k lg = Inr lg'" and "log_inv out err lg"
  shows "\<exists>block. logger_queue lg' = logger_queue lg @ block"
proof (cases "k = NO_JOB")
  case False
  let ?lg = "lg\<lparr>lg_jobs := om_erase k (lg_jobs lg)\<rparr>"
  obtain j where j: "om_get (lg_jobs lg) k = Some j" and lg': "lg' = snd (flush (j, ?lg))"
    using assms(1) False by (auto simp: closeJob_def split: option.splits)
  then have "tidy j" "\<not> buffer_output j \<longrightarrow> jd_buffer j = []"
    using assms(2) by (auto simp: log_inv_def jobs_okay_def job_okay_def)
  then obtain msgs where "lg' = writeAllToLogger (jd_buffer j @ msgs) (jd_job j) ?lg"
    using flush_outputs [of j ?lg] lg' by (cases "flush (j, ?lg)") (metis snd_conv)
  then show ?thesis by (simp only: writeAll_eq) simp
qed (use assms in \<open>simp add: closeJob_def\<close>)

lemma om_erase_first: "length (om_erase k ((k, v) # m)) < length ((k, v) # m)"
  by (simp add: om_erase_def le_imp_less_Suc)

lemma close_jobs_returns:
  assumes "log_inv out err lg"
  shows "\<exists>lg' block. close_jobs lg = Some (Inr lg') \<and> lg_jobs lg' = [] \<and> log_inv out err lg' \<and>
    lg_printer lg' = lg_printer lg \<and> lg_printed lg' = lg_printed lg \<and> logger_queue lg' = logger_queue lg @ block"
  using assms
proof (induction "length (lg_jobs lg)" arbitrary: lg rule: less_induct)
  case less
  show ?case
  proof (cases "lg_jobs lg")
    case Nil
    then show ?thesis using less.prems by (subst close_jobs.simps) simp
  next
    case (Cons p rest)
    obtain k j where p: "p = (k, j)" by (cases p)
    then have get: "om_get (lg_jobs lg) k = Some j" using Cons by simp
    then have k: "k \<noteq> NO_JOB" using less.prems by (auto simp: log_inv_def jobs_okay_def job_okay_def NO_JOB_def)
    obtain lg1 where c: "closeJob k lg = Inr lg1" using get k by (simp add: closeJob_def)
    note f = closeJob_fields [OF c k]
    have "length (lg_jobs lg1) < length (lg_jobs lg)" using f(1) Cons p om_erase_first by simp
    from less.hyps [OF this close_inv [OF less.prems c]] obtain lg' block where
      r: "close_jobs lg1 = Some (Inr lg')" "lg_jobs lg' = []" "log_inv out err lg'" "lg_printer lg' = lg_printer lg1"
        "lg_printed lg' = lg_printed lg1" "logger_queue lg' = logger_queue lg1 @ block" by blast
    obtain b where "logger_queue lg1 = logger_queue lg @ b" using closeJob_queue [OF c less.prems] by blast
    moreover have "close_jobs lg = close_jobs lg1"
      using Cons p c by (subst close_jobs.simps) simp
    ultimately show ?thesis using r f(2,3) by simp
  qed
qed

text \<open>The steps of the thread alone.\<close>

primrec thread_steps :: "nat \<Rightarrow> logger \<Rightarrow> logger option" where
  "thread_steps 0 lg = Some lg"
| "thread_steps (Suc n) lg = Option.bind (loggerMain_step lg) (thread_steps n)"

lemma thread_steps_add: "thread_steps (m + n) lg = Option.bind (thread_steps m lg) (thread_steps n)"
  by (induction m arbitrary: lg) (auto split: Option.bind_splits)

definition ended :: "logger \<Rightarrow> (bool \<times> string) list \<Rightarrow> logger" where
  "ended lg printed = lg\<lparr>logger_queue := [], lg_printer := P_ended, lg_printed := printed\<rparr>"

lemma thread_message:
  assumes "lg_printer lg = P_head" and "logger_queue lg = m # q" and "fst m \<noteq> m_shutdown"
  shows "thread_steps 2 lg = Some (lg\<lparr>logger_queue := q,
    lg_printed := lg_printed lg @ [shown (lg_output_prefix lg) (lg_error_prefix lg) m]\<rparr>)"
  using assms by (cases lg) (simp add: eval_nat_numeral loggerMain_step_def head_def print_shown)

lemma thread_ends:
  assumes "lg_printer lg = P_head" and "logger_queue lg = msgs @ [(m_shutdown, [])]"
    and "\<forall>m \<in> set msgs. fst m \<noteq> m_shutdown"
  shows "thread_steps (2 * length msgs + 2) lg =
    Some (ended lg (lg_printed lg @ map (shown (lg_output_prefix lg) (lg_error_prefix lg)) msgs))"
  using assms
proof (induction msgs arbitrary: lg)
  case Nil
  then show ?case
    by (cases lg) (simp add: eval_nat_numeral loggerMain_step_def head_def print_message_def ended_def)
next
  case (Cons m msgs)
  let ?lg = "lg\<lparr>logger_queue := msgs @ [(m_shutdown, [])],
    lg_printed := lg_printed lg @ [shown (lg_output_prefix lg) (lg_error_prefix lg) m]\<rparr>"
  have "thread_steps 2 lg = Some ?lg" using thread_message Cons.prems by simp
  moreover have "2 * length (m # msgs) + 2 = 2 + (2 * length msgs + 2)" by simp
  ultimately have "thread_steps (2 * length (m # msgs) + 2) lg = thread_steps (2 * length msgs + 2) ?lg"
    by (simp only: thread_steps_add bind.simps)
  then show ?case using Cons.IH [of ?lg] Cons.prems by (simp add: ended_def)
qed

text \<open>What is in the queue and has not been printed.\<close>

definition pending :: "logger \<Rightarrow> log_message list" where
  "pending lg = (if lg_printer lg = P_head then logger_queue lg else tl (logger_queue lg))"

lemma thread_drains:
  assumes "log_inv out err lg" and "\<forall>m \<in> set msgs. fst m \<noteq> m_shutdown"
  shows "\<exists>n. thread_steps n (lg\<lparr>logger_queue := logger_queue lg @ msgs @ [(m_shutdown, [])]\<rparr>) =
    Some (ended lg (lg_printed lg @ map (shown out err) (pending lg @ msgs)))"
proof -
  let ?lg = "lg\<lparr>logger_queue := logger_queue lg @ msgs @ [(m_shutdown, [])]\<rparr>"
  have q: "\<forall>m \<in> set (logger_queue lg). fst m \<noteq> m_shutdown"
    using assms(1) by (auto simp: log_inv_def all_lines_def)
  have pre: "lg_output_prefix lg = out" "lg_error_prefix lg = err" using assms(1) by (simp_all add: log_inv_def)
  show ?thesis
  proof (cases "lg_printer lg = P_head")
    case True
    have "thread_steps (2 * length (logger_queue lg @ msgs) + 2) ?lg =
      Some (ended ?lg (lg_printed ?lg @ map (shown (lg_output_prefix ?lg) (lg_error_prefix ?lg)) (logger_queue lg @ msgs)))"
      by (rule thread_ends) (use True q assms(2) in auto)
    also have "\<dots> = Some (ended lg (lg_printed lg @ map (shown out err) (pending lg @ msgs)))"
      using True pre by (simp add: pending_def ended_def)
    finally show ?thesis by (rule exI)
  next
    case False
    then obtain m ms where d: "lg_printer lg = P_dequeue False" "logger_queue lg = m # ms"
      using assms(1) by (cases "logger_queue lg") (auto simp: log_inv_def)
    let ?lg1 = "lg\<lparr>logger_queue := ms @ msgs @ [(m_shutdown, [])], lg_printer := P_head\<rparr>"
    have 1: "thread_steps 1 ?lg = Some ?lg1" using d by (simp add: loggerMain_step_def)
    have "thread_steps (2 * length (ms @ msgs) + 2) ?lg1 =
      Some (ended ?lg1 (lg_printed ?lg1 @ map (shown (lg_output_prefix ?lg1) (lg_error_prefix ?lg1)) (ms @ msgs)))"
      by (rule thread_ends) (use q d(2) assms(2) in auto)
    also have "\<dots> = Some (ended lg (lg_printed lg @ map (shown out err) (pending lg @ msgs)))"
      using False d pre by (simp add: pending_def ended_def)
    finally have "thread_steps (1 + (2 * length (ms @ msgs) + 2)) ?lg =
      Some (ended lg (lg_printed lg @ map (shown out err) (pending lg @ msgs)))"
      using 1 by (simp only: thread_steps_add bind.simps)
    then show ?thesis by (rule exI)
  qed
qed


text \<open>A run: a job without buffer gets one line and a part of a second one, and the line is printed.\<close>

definition run_start :: logger where
  "run_start = setPrefixes ''O '' ''E '' new_logger"

definition run_ops :: "client_op list" where
  "run_ops = [Request False ''[b] '', Data 1 False (''ab'' @ [newline] @ ''c'')]"

lemma run_reachable:
  "\<exists>lg. logging ''O '' ''E '' lg \<and> lg_printed lg = [(False, ''O [b] ab'' @ [newline])]"
proof -
  have "case each apply_op run_ops run_start of Inl a \<Rightarrow> False | Inr lg \<Rightarrow>
      map_option lg_printed (loggerMain_step lg) = Some [(False, ''O [b] ab'' @ [newline])]"
    by code_simp
  then obtain lg lg' where r: "each apply_op run_ops run_start = Inr lg" "loggerMain_step lg = Some lg'"
      "lg_printed lg' = [(False, ''O [b] ab'' @ [newline])]"
    by (cases "each apply_op run_ops run_start") auto
  have "logging ''O '' ''E '' lg"
  proof (rule each_invariant [OF r(1)])
    show "logging ''O '' ''E '' run_start" unfolding run_start_def by (rule logging.start)
    show "logging ''O '' ''E '' s'" if "op \<in> set run_ops" "logging ''O '' ''E '' s" "apply_op op s = Inr s'" for op s s'
      using that by (intro logging.client [OF that(2) _ that(3)]) (auto simp: run_ops_def)
  qed
  then show ?thesis using logging.thread r(2,3) by blast
qed



end
