(* ===== verification/Forest_Correct.thy ===== *)
theory Forest_Correct
  imports Forest_Merge Dependency_Graph_Check
begin

text \<open>
  The graph of the item dependencies of a forest, and what the check of this graph leaves in the items
  and reports.
\<close>

section \<open>Dependencies that are kept\<close>

text \<open>An optional dependency on an item that is not known is forgotten.\<close>

definition omitted :: "string set \<Rightarrow> build_item \<Rightarrow> string \<Rightarrow> bool" where
  "omitted known i d \<longleftrightarrow> d \<in> ic_optional_deps (bi_config i) \<and> d \<notin> known"

definition kept_deps :: "string set \<Rightarrow> build_item \<Rightarrow> string list" where
  "kept_deps known i = filter (\<lambda>d. \<not> omitted known i d) (bi_deps i)"

text \<open>The item has forgotten the omitted ones of some dependencies, and nothing else has changed.\<close>

definition reduced :: "string set \<Rightarrow> string list \<Rightarrow> build_item \<Rightarrow> build_item \<Rightarrow> bool" where
  "reduced known ds i i' \<longleftrightarrow> (\<exists>p f t. i' = i\<lparr>bi_optional_dep_presence := p,
     bi_deps := filter (\<lambda>d. \<not> (d \<in> set ds \<and> omitted known i d)) (bi_deps i),
     bi_flag_data := f, bi_trait_data := t\<rparr>)"

lemma reduced_Nil: "reduced known [] i i"
  unfolding reduced_def
  by (rule exI [of _ "bi_optional_dep_presence i"], rule exI [of _ "bi_flag_data i"], rule exI [of _ "bi_trait_data i"]) simp

lemma deps_overwritten:
  "i\<lparr>bi_optional_dep_presence := p, bi_deps := ds, bi_flag_data := f, bi_trait_data := t,
     bi_optional_dep_presence := p', bi_deps := ds', bi_flag_data := f', bi_trait_data := t'\<rparr> =
   i\<lparr>bi_optional_dep_presence := p', bi_deps := ds', bi_flag_data := f', bi_trait_data := t'\<rparr>"
  by simp

lemma reduced_Cons:
  assumes "reduced known [d] i i'" and "reduced known ds i' i''"
  shows "reduced known (d # ds) i i''"
proof -
  have o: "omitted known i' = omitted known i" using assms(1) by (auto simp: reduced_def omitted_def)
  obtain p f t where 1: "i' = i\<lparr>bi_optional_dep_presence := p,
      bi_deps := filter (\<lambda>x. \<not> (x = d \<and> omitted known i x)) (bi_deps i), bi_flag_data := f, bi_trait_data := t\<rparr>"
    using assms(1) by (auto simp: reduced_def)
  obtain p' f' t' where 2: "i'' = i'\<lparr>bi_optional_dep_presence := p',
      bi_deps := filter (\<lambda>x. \<not> (x \<in> set ds \<and> omitted known i x)) (bi_deps i'), bi_flag_data := f', bi_trait_data := t'\<rparr>"
    using assms(2) unfolding reduced_def o by blast
  have two: "filter (\<lambda>x. \<not> (x \<in> set ds \<and> omitted known i x)) (filter (\<lambda>x. \<not> (x = d \<and> omitted known i x)) xs) =
      filter (\<lambda>x. \<not> (x \<in> set (d # ds) \<and> omitted known i x)) xs" for xs
    unfolding filter_filter by (rule filter_cong) auto
  have "bi_deps i' = filter (\<lambda>x. \<not> (x = d \<and> omitted known i x)) (bi_deps i)" by (simp add: 1)
  then have D: "filter (\<lambda>x. \<not> (x \<in> set ds \<and> omitted known i x)) (bi_deps i') =
      filter (\<lambda>x. \<not> (x \<in> set (d # ds) \<and> omitted known i x)) (bi_deps i)"
    by (simp only: two)
  have "i'' = i\<lparr>bi_optional_dep_presence := p',
      bi_deps := filter (\<lambda>x. \<not> (x \<in> set (d # ds) \<and> omitted known i x)) (bi_deps i), bi_flag_data := f', bi_trait_data := t'\<rparr>"
    unfolding 2 D unfolding 1 by (rule deps_overwritten)
  then show ?thesis unfolding reduced_def by blast
qed

lemma reduced_fields:
  assumes "reduced known ds i i'"
  shows "bi_config i' = bi_config i" "bi_item_name i' = bi_item_name i"
    "bi_expanded_dependencies i' = bi_expanded_dependencies i" "bi_location i' = bi_location i"
    "bi_tree_name i' = bi_tree_name i" "bi_backing_depth i' = bi_backing_depth i"
  using assms by (auto simp: reduced_def bi_location_def)

lemma reduced_all: "reduced known (bi_deps i) i i' \<Longrightarrow> bi_deps i' = kept_deps known i"
  by (auto simp: reduced_def kept_deps_def intro!: filter_cong)

lemma presence_reduced:
  assumes "omitted known i d \<longrightarrow> bi_expanded_dependencies i = []"
  shows "\<exists>i'. (if d \<in> ic_optional_deps (bi_config i) then setOptionalDependencyPresence d (d \<in> known) i
               else Inr i) = Inr i' \<and> reduced known [d] i i'"
proof (cases "omitted known i d")
  case True
  have deps: "filter (\<lambda>x. \<not> (x \<in> set [d] \<and> omitted known i x)) (bi_deps i) = filter (\<lambda>x. x \<noteq> d) (bi_deps i)"
    using True by (auto intro!: filter_cong)
  have "d \<in> ic_optional_deps (bi_config i)" "d \<notin> known" "bi_expanded_dependencies i = []"
    using True assms by (auto simp: omitted_def)
  then show ?thesis unfolding reduced_def deps
    by (simp add: setOptionalDependencyPresence_def Let_def) blast
next
  case False
  then have deps: "filter (\<lambda>x. \<not> (x \<in> set [d] \<and> omitted known i x)) (bi_deps i) = bi_deps i"
    by (auto simp: filter_id_conv)
  have present: "reduced known [d] i (i\<lparr>bi_optional_dep_presence := p\<rparr>)" for p
    unfolding reduced_def deps
    by (rule exI [of _ p], rule exI [of _ "bi_flag_data i"], rule exI [of _ "bi_trait_data i"]) simp
  from present [of "bi_optional_dep_presence i"] have "reduced known [d] i i" by simp
  then show ?thesis using False present by (auto simp: setOptionalDependencyPresence_def omitted_def)
qed

section \<open>The graph\<close>

lemma addDependency_built:
  assumes "built g" and "om_has (dependencies g) n" and "d \<noteq> []"
  shows "\<exists>g'. addDependency n d g = Inr g' \<and> built g' \<and> om_has (dependencies g') = om_has (dependencies g) \<and>
    succs (dependencies g') = (succs (dependencies g))(n := succs (dependencies g) n @ [d])"
proof -
  obtain g' where g': "addDependency n d g = Inr g'" "dependencies g' = om_push_back n d (dependencies g)"
    using assms(2,3) by (auto simp: addDependency_def Let_def)
  then have "built g'" using built_dep assms(1) by blast
  then show ?thesis using g' assms(2) by (auto simp: fun_eq_iff)
qed

lemma addItem_built:
  assumes "built g" and "\<not> om_has (dependencies g) n" and "n \<noteq> []"
  shows "\<exists>g'. addItem n g = Inr g' \<and> built g' \<and> om_has (dependencies g') = (\<lambda>x. x = n \<or> om_has (dependencies g) x) \<and>
    succs (dependencies g') = (succs (dependencies g))(n := [])"
proof -
  obtain g' where g': "addItem n g = Inr g'" "dependencies g' = om_put n [] (dependencies g)"
    using assms(2,3) by (auto simp: addItem_def Let_def)
  then have "built g'" using built_item assms(1) by blast
  then show ?thesis using g' by (auto simp: fun_eq_iff)
qed

lemma deps_to_graph:
  assumes "built g" and "om_has (dependencies g) n" and "[] \<notin> set ds"
    and "\<forall>d \<in> set ds. omitted known i d \<longrightarrow> bi_expanded_dependencies i = []"
  shows "\<exists>i' g'. item_deps_to_graph known n ds (i, g) = Inr (i', g') \<and> reduced known ds i i' \<and> built g' \<and>
    om_has (dependencies g') = om_has (dependencies g) \<and>
    succs (dependencies g') = (succs (dependencies g))
      (n := succs (dependencies g) n @ filter (\<lambda>d. \<not> omitted known i d) ds)"
  using assms
proof (induction ds arbitrary: i g)
  case Nil
  then show ?case using reduced_Nil by auto
next
  case (Cons d ds)
  obtain i1 where i1: "(if d \<in> ic_optional_deps (bi_config i) then setOptionalDependencyPresence d (d \<in> known) i
      else Inr i) = Inr i1" "reduced known [d] i i1"
    using presence_reduced [of known i d] Cons.prems(4) by auto
  note f = reduced_fields [OF i1(2)]
  have o: "omitted known i1 = omitted known i" using f(1) by (simp add: omitted_def fun_eq_iff)
  have red: "reduced known ds i1 i' \<Longrightarrow> reduced known (d # ds) i i'" for i'
    by (rule reduced_Cons [OF i1(2)])
  have later: "\<forall>d \<in> set ds. omitted known i1 d \<longrightarrow> bi_expanded_dependencies i1 = []"
    using Cons.prems(4) f(3) o by simp
  show ?case
  proof (cases "omitted known i d")
    case True
    then have "item_deps_to_graph known n (d # ds) (i, g) = item_deps_to_graph known n ds (i1, g)"
      using i1(1) by (simp add: omitted_def)
    then show ?thesis using Cons.IH [OF Cons.prems(1,2) _ later] Cons.prems(3) red True o by auto
  next
    case False
    obtain g1 where g1: "addDependency n d g = Inr g1" "built g1" "om_has (dependencies g1) = om_has (dependencies g)"
        "succs (dependencies g1) = (succs (dependencies g))(n := succs (dependencies g) n @ [d])"
      using addDependency_built [OF Cons.prems(1,2), of d] Cons.prems(3) by auto
    have "item_deps_to_graph known n (d # ds) (i, g) = item_deps_to_graph known n ds (i1, g1)"
      using i1(1) g1(1) False by (auto simp: omitted_def)
    moreover have "om_has (dependencies g1) n" "[] \<notin> set ds" using g1(3) Cons.prems(2,3) by simp_all
    ultimately show ?thesis using Cons.IH [OF g1(2) _ _ later] red g1(3,4) False o
      by (auto simp: fun_eq_iff simp del: item_deps_to_graph.simps)
  qed
qed

lemma item_node:
  assumes "built g" and "\<not> om_has (dependencies g) n" and "n \<noteq> []" and "[] \<notin> set (bi_deps i)"
    and "\<forall>d \<in> set (bi_deps i). omitted known i d \<longrightarrow> bi_expanded_dependencies i = []"
  shows "\<exists>i' g'. add_item_node known n i g = Inr (i', g') \<and> reduced known (bi_deps i) i i' \<and> built g' \<and>
    om_has (dependencies g') = (\<lambda>x. x = n \<or> om_has (dependencies g) x) \<and>
    succs (dependencies g') = (succs (dependencies g))(n := kept_deps known i)"
proof -
  obtain g1 where g1: "addItem n g = Inr g1" "built g1" "om_has (dependencies g1) = (\<lambda>x. x = n \<or> om_has (dependencies g) x)"
      "succs (dependencies g1) = (succs (dependencies g))(n := [])"
    using addItem_built [OF assms(1-3)] by blast
  then have "om_has (dependencies g1) n" by simp
  from deps_to_graph [OF g1(2) this assms(4,5)] show ?thesis
    using g1 by (auto simp: add_item_node_def kept_deps_def)
qed

text \<open>All items.\<close>

definition item_okay :: "string set \<Rightarrow> string \<Rightarrow> build_item \<Rightarrow> bool" where
  "item_okay known n i \<longleftrightarrow> n \<noteq> [] \<and> bi_item_name i = n \<and> [] \<notin> set (bi_deps i) \<and>
     (\<forall>d \<in> set (bi_deps i). omitted known i d \<longrightarrow> bi_expanded_dependencies i = [])"

definition each_entry :: "(string \<Rightarrow> build_item \<Rightarrow> build_item \<Rightarrow> bool) \<Rightarrow> item_table \<Rightarrow> item_table \<Rightarrow> bool" where
  "each_entry P = list_all2 (\<lambda>(n, i) (n', i'). n' = n \<and> P n i i')"

lemma item_nodes:
  assumes "built g" and "distinct (om_keys xs)" and "\<forall>n \<in> set (om_keys xs). \<not> om_has (dependencies g) n"
    and "\<forall>(n, i) \<in> set xs. item_okay known n i"
  shows "\<exists>xs' g'. map_loop (add_item_node known) xs g = Inr (xs', g') \<and> built g' \<and>
    each_entry (\<lambda>n i. reduced known (bi_deps i) i) xs xs' \<and>
    (\<forall>x. om_has (dependencies g') x \<longleftrightarrow> x \<in> set (om_keys xs) \<or> om_has (dependencies g) x) \<and>
    (\<forall>x. succs (dependencies g') x =
       (case om_get xs x of None \<Rightarrow> succs (dependencies g) x | Some i \<Rightarrow> kept_deps known i))"
  using assms
proof (induction xs arbitrary: g)
  case Nil
  then show ?case by (simp add: each_entry_def)
next
  case (Cons p xs)
  obtain n i where p: "p = (n, i)" by (cases p)
  have n: "\<not> om_has (dependencies g) n" "n \<notin> set (om_keys xs)" and okay: "item_okay known n i"
    using Cons.prems p by (auto simp: om_keys_def)
  then obtain i' g1 where 1: "add_item_node known n i g = Inr (i', g1)" "reduced known (bi_deps i) i i'" "built g1"
      "om_has (dependencies g1) = (\<lambda>x. x = n \<or> om_has (dependencies g) x)"
      "succs (dependencies g1) = (succs (dependencies g))(n := kept_deps known i)"
    using item_node [OF Cons.prems(1) n(1)] unfolding item_okay_def by blast
  have "distinct (om_keys xs)" "\<forall>n \<in> set (om_keys xs). \<not> om_has (dependencies g1) n"
      "\<forall>(n, i) \<in> set xs. item_okay known n i"
    using Cons.prems n 1(4) by (auto simp: om_keys_def)
  from Cons.IH [OF 1(3) this] obtain xs' g' where 2: "map_loop (add_item_node known) xs g1 = Inr (xs', g')" "built g'"
      "each_entry (\<lambda>n i. reduced known (bi_deps i) i) xs xs'"
      "\<forall>x. om_has (dependencies g') x \<longleftrightarrow> x \<in> set (om_keys xs) \<or> om_has (dependencies g1) x"
      "\<forall>x. succs (dependencies g') x =
         (case om_get xs x of None \<Rightarrow> succs (dependencies g1) x | Some i \<Rightarrow> kept_deps known i)"
    by blast
  have "om_get xs n = None" using n(2) om_has_iff [of xs n] by (simp add: om_has_def)
  then show ?case using 1 2 p n
    by (intro exI [of _ "(n, i') # xs'"] exI [of _ g']) (auto simp: each_entry_def om_keys_def split: option.split)
qed

section \<open>Expanded dependencies\<close>

definition expanded :: "dgraph \<Rightarrow> string \<Rightarrow> build_item \<Rightarrow> build_item \<Rightarrow> bool" where
  "expanded g n i i' \<longleftrightarrow> (\<exists>ys. getSortedDependencies g n = Inr ys \<and> i' = i\<lparr>bi_expanded_dependencies := butlast ys\<rparr>)"

lemma expand_one:
  assumes "checked g" and "om_has (dependencies g) n" and "bi_item_name i = n"
  shows "\<exists>i'. expand_item g n i () = Inr (i', ()) \<and> expanded g n i i'"
proof -
  obtain ys where "getSortedDependencies g n = Inr ys" "ys \<noteq> []" "last ys = n"
    using checked_entry [OF assms(1,2)] by blast
  then show ?thesis using assms(3)
    by (simp add: expand_item_def setExpandedDependencies_def drop_own_def expanded_def)
qed

lemma expand_all:
  assumes "checked g" and "\<forall>(n, i) \<in> set xs. om_has (dependencies g) n \<and> bi_item_name i = n"
  shows "\<exists>xs'. map_loop (expand_item g) xs () = Inr (xs', ()) \<and> each_entry (expanded g) xs xs'"
  using assms(2)
proof (induction xs)
  case Nil
  then show ?case by (simp add: each_entry_def)
next
  case (Cons p xs)
  obtain n i where p: "p = (n, i)" by (cases p)
  obtain i' where i': "expand_item g n i () = Inr (i', ())" "expanded g n i i'"
    using expand_one [OF assms(1), of n i] Cons.prems p by auto
  obtain xs' where "map_loop (expand_item g) xs () = Inr (xs', ())" "each_entry (expanded g) xs xs'"
    using Cons by auto
  then show ?case using i' p by (intro exI [of _ "(n, i') # xs'"]) (simp add: each_entry_def)
qed

lemma each_entry_keys: "each_entry P xs ys \<Longrightarrow> om_keys ys = om_keys xs"
  unfolding each_entry_def om_keys_def by (induction rule: list_all2_induct) auto

lemma each_entry_get:
  "each_entry P xs ys \<Longrightarrow> om_get xs n = Some i \<Longrightarrow> \<exists>i'. om_get ys n = Some i' \<and> P n i i'"
  unfolding each_entry_def by (induction rule: list_all2_induct) (auto split: if_splits)

lemma each_entry_mem:
  assumes "each_entry P xs ys" and "(n, i') \<in> set ys"
  shows "\<exists>i. (n, i) \<in> set xs \<and> P n i i'"
  using assms unfolding each_entry_def by (induction rule: list_all2_induct) auto

section \<open>Reports\<close>

text \<open>A step that returns and adds errors, at least one if \<open>strict\<close> holds.\<close>

definition adds_errors :: "bool \<Rightarrow> (error \<Rightarrow> error res) \<Rightarrow> bool" where
  "adds_errors strict f \<longleftrightarrow>
     (\<forall>e. \<exists>e'. f e = Inr e' \<and> num_errors e \<le> num_errors e' \<and> (strict \<longrightarrow> num_errors e < num_errors e'))"

lemma adds_report: "adds_errors True (\<lambda>e. Inr (report l msg e))"
  by (simp add: adds_errors_def)

lemma adds_weaken: "adds_errors True f \<Longrightarrow> adds_errors b f"
  by (auto simp: adds_errors_def)

lemma adds_Inr: "adds_errors False Inr"
  by (simp add: adds_errors_def)

lemma adds_bind:
  assumes "adds_errors a f" and "adds_errors b k"
  shows "adds_errors (a \<or> b) (\<lambda>e. bind_res (f e) k)"
  unfolding adds_errors_def
proof
  fix e
  obtain e1 where 1: "f e = Inr e1" "num_errors e \<le> num_errors e1" "a \<longrightarrow> num_errors e < num_errors e1"
    using assms(1) unfolding adds_errors_def by blast
  obtain e2 where "k e1 = Inr e2" "num_errors e1 \<le> num_errors e2" "b \<longrightarrow> num_errors e1 < num_errors e2"
    using assms(2) unfolding adds_errors_def by blast
  then show "\<exists>e'. bind_res (f e) k = Inr e' \<and> num_errors e \<le> num_errors e' \<and> (a \<or> b \<longrightarrow> num_errors e < num_errors e')"
    using 1 by auto
qed

lemma adds_each:
  assumes "\<forall>x \<in> set xs. adds_errors (s x) (f x)"
  shows "adds_errors (\<exists>x \<in> set xs. s x) (each f xs)"
  using assms
proof (induction xs)
  case Nil
  then show ?case by (simp add: adds_errors_def)
next
  case (Cons x xs)
  have "adds_errors (s x \<or> (\<exists>x \<in> set xs. s x)) (\<lambda>e. bind_res (f x e) (each f xs))"
    using Cons by (intro adds_bind) auto
  then show ?case by simp
qed

lemma adds_located:
  assumes "loc n = Inr l"
  shows "adds_errors True (\<lambda>e. bind_res (loc n) (\<lambda>l. Inr (report l msg e)))"
  using adds_report assms by simp

text \<open>The errors of a checked graph with locations for its items.\<close>

lemma report_graph_errors_adds:
  assumes "built g" and "check g = Inr (g', False)" and "\<And>n. om_has (dependencies g) n \<Longrightarrow> \<exists>l. loc n = Inr l"
  shows "adds_errors True (report_graph_errors loc um cm pm g')"
proof -
  have f: "fresh_graph g" using assms(1) by (rule built_fresh)
  then have g': "g' = check_success g" "graph_state (check_success g) \<noteq> GS_READY"
    using check_fresh assms(2) by auto
  have er: "getErrors g' = Inr (unknowns g', cycles g')"
    using check_success_checked [OF f] by (simp add: getErrors_def assertChecked_def checked_def g'(1))
  note real = check_success_errors [OF f, folded g'(1)]
  have some: "unknowns g' \<noteq> [] \<or> cycles g' \<noteq> []"
    using g' by (auto simp: check_success_def Let_def clean_def)
  have us: "om_has (dependencies g) n" if "(n, ds) \<in> set (unknowns g')" for n ds
  proof -
    have "om_has (unknowns g') n" using that by (force simp: om_has_iff om_keys_def)
    then have "succs (unknowns g') n \<noteq> []"
      using check_success_unknowns [OF f, of n] unfolding g'(1) by blast
    then have "edge (dependencies g) n (hd (succs (unknowns g') n))" using real hd_in_set by blast
    then show ?thesis by (rule edge_has)
  qed
  have first: "\<exists>(n, ds) \<in> set (unknowns g'). ds \<noteq> []" if ne: "unknowns g' \<noteq> []"
  proof -
    obtain n ds rest where r: "unknowns g' = (n, ds) # rest" using ne by (cases "unknowns g'") auto
    then have "om_has (unknowns g') n" by (simp add: om_has_def)
    then have "ds \<noteq> []" using check_success_unknowns [OF f, of n] g'(1) r by (simp add: om_get_default_def)
    then show ?thesis using r by auto
  qed
  have cyc: "c \<noteq> []" "i \<in> set c \<Longrightarrow> om_has (dependencies g) i" if "c \<in> set (cycles g')" for c i
  proof -
    have c: "is_cycle (dependencies g) c" using real that by blast
    then show "c \<noteq> []" by (simp add: is_cycle_def)
    show "om_has (dependencies g) i" if "i \<in> set c"
    proof -
      have "\<exists>y. edge (dependencies g) i y"
        using c that unfolding is_cycle_def
        by (metis in_set_conv_decomp last_ConsL last_appendR list.distinct(1) list.exhaust successively_append_iff successively.simps(3))
      then show ?thesis using edge_has by blast
    qed
  qed
  have 1: "adds_errors (\<exists>p \<in> set (unknowns g'). snd p \<noteq> []) (report_unknowns loc um (unknowns g'))"
    unfolding report_unknowns_def
  proof (rule adds_each, rule ballI)
    fix p assume p: "p \<in> set (unknowns g')"
    obtain n ds where n: "p = (n, ds)" by (cases p)
    then obtain l where "loc n = Inr l" using us p assms(3) by blast
    then have "adds_errors (\<exists>u \<in> set ds. True) (each (\<lambda>u e. bind_res (loc n) (\<lambda>l. Inr (report l (um n u) e))) ds)"
      by (intro adds_each ballI adds_located)
    moreover have "(\<exists>u \<in> set ds. True) \<longleftrightarrow> ds \<noteq> []" by (cases ds) auto
    ultimately show "adds_errors (snd p \<noteq> []) (case p of (node, items) \<Rightarrow>
        each (\<lambda>u e. bind_res (loc node) (\<lambda>l. Inr (report l (um node u) e))) items)"
      using n by simp
  qed
  have 2: "adds_errors (\<exists>c \<in> set (cycles g'). True) (report_cycles cm (cycles g'))"
    unfolding report_cycles_def by (intro adds_each ballI) (simp add: cyc(1) adds_report)
  have fin: "finite (set (concat (cycles g')))" by simp
  have 3: "adds_errors (\<exists>i \<in> set (sorted_list_of_set (set (concat (cycles g')))). True)
      (report_participants loc pm (cycles g'))"
    unfolding report_participants_def
  proof (intro adds_each ballI)
    fix i assume "i \<in> set (sorted_list_of_set (set (concat (cycles g'))))"
    then obtain c where "c \<in> set (cycles g')" "i \<in> set c" using fin by auto
    then obtain l where "loc i = Inr l" using cyc(2) assms(3) by blast
    then show "adds_errors True (\<lambda>e. bind_res (loc i) (\<lambda>l. Inr (report l (i @ pm) e)))" by (rule adds_located)
  qed
  have "adds_errors True (\<lambda>e. bind_res (report_unknowns loc um (unknowns g') e)
      (\<lambda>e. bind_res (report_cycles cm (cycles g') e) (report_participants loc pm (cycles g'))))"
  proof -
    have "(\<exists>p \<in> set (unknowns g'). snd p \<noteq> []) \<or> ((\<exists>c \<in> set (cycles g'). True) \<or>
        (\<exists>i \<in> set (sorted_list_of_set (set (concat (cycles g')))). True)) \<longleftrightarrow> True"
      using some first by (cases "cycles g'") (auto simp: case_prod_beta)
    then show ?thesis using adds_bind [OF 1 adds_bind [OF 2 3]] by simp
  qed
  moreover have "report_graph_errors loc um cm pm g' = (\<lambda>e. bind_res (report_unknowns loc um (unknowns g') e)
      (\<lambda>e. bind_res (report_cycles cm (cycles g') e) (report_participants loc pm (cycles g'))))"
    by (rule ext) (simp add: report_graph_errors_def er)
  ultimately show ?thesis by simp
qed

end
