(* ===== verification/Forest_Properties.thy ===== *)
theory Forest_Properties
  imports Forest_Correct Build_Set_Properties
begin

text \<open>
  Properties of the validation of forests: what the check of the item dependencies accepts and computes,
  and where it fails an assertion.
\<close>

section \<open>Item dependencies\<close>

definition item_names :: "forest \<Rightarrow> string set" where
  "item_names f = set (om_keys (bf_items f))"

text \<open>A dependency of an item that is not an optional dependency on an unknown item.\<close>

definition depends :: "forest \<Rightarrow> string \<Rightarrow> string \<Rightarrow> bool" where
  "depends f n d \<longleftrightarrow> (\<exists>i. om_get (bf_items f) n = Some i \<and> d \<in> set (kept_deps (item_names f) i))"

definition items_okay :: "forest \<Rightarrow> bool" where
  "items_okay f \<longleftrightarrow> om_ok (bf_items f) \<and> (\<forall>(n, i) \<in> set (bf_items f). item_okay (item_names f) n i)"

text \<open>The list has every name before the names that depend on it.\<close>

definition dependencies_first :: "forest \<Rightarrow> string list \<Rightarrow> bool" where
  "dependencies_first f xs \<longleftrightarrow> (\<forall>ys n zs d. xs = ys @ n # zs \<and> depends f n d \<longrightarrow> d \<in> set ys)"

lemma deps_first_split: "deps_first xs deps \<Longrightarrow> xs = ys @ n # zs \<Longrightarrow> d \<in> set (deps n) \<Longrightarrow> d \<in> set ys"
  by (force simp: deps_first_def dest: spec [of _ "length ys"])

lemma item_graph:
  assumes "items_okay f"
  shows "\<exists>items g. map_loop (add_item_node (item_names f)) (bf_items f) new_graph = Inr (items, g) \<and> built g \<and>
    each_entry (\<lambda>n i. reduced (item_names f) (bi_deps i) i) (bf_items f) items \<and>
    om_has (dependencies g) = om_has (bf_items f) \<and> edge (dependencies g) = depends f"
proof -
  have new: "\<not> om_has (dependencies new_graph) x" "succs (dependencies new_graph) x = []" for x
    by (simp_all add: new_graph_def)
  have "distinct (om_keys (bf_items f))" using assms om_ok_distinct by (auto simp: items_okay_def)
  then obtain items g where g: "map_loop (add_item_node (item_names f)) (bf_items f) new_graph = Inr (items, g)" "built g"
      "each_entry (\<lambda>n i. reduced (item_names f) (bi_deps i) i) (bf_items f) items"
      "\<forall>x. om_has (dependencies g) x \<longleftrightarrow> x \<in> set (om_keys (bf_items f)) \<or> om_has (dependencies new_graph) x"
      "\<forall>x. succs (dependencies g) x = (case om_get (bf_items f) x of
         None \<Rightarrow> succs (dependencies new_graph) x | Some i \<Rightarrow> kept_deps (item_names f) i)"
    using item_nodes [OF built_new, of "bf_items f" "item_names f"] assms new(1) unfolding items_okay_def by blast
  have "om_has (dependencies g) = om_has (bf_items f)" using g(4) new(1) by (auto simp: fun_eq_iff om_has_iff)
  moreover have "edge (dependencies g) = depends f"
    using g(5) new(2) by (auto simp: fun_eq_iff edge_def depends_def split: option.splits)
  ultimately show ?thesis using g(1-3) by blast
qed

lemma closure_below:
  assumes "distinct xs" and "xs \<noteq> []" and "last xs = n" and "set xs = {x. r\<^sup>*\<^sup>* n x}" and "\<not> r\<^sup>+\<^sup>+ n n"
  shows "distinct (butlast xs) \<and> set (butlast xs) = {x. r\<^sup>+\<^sup>+ n x}"
proof -
  have xs: "xs = butlast xs @ [n]" using assms(2,3) by (metis append_butlast_last_id)
  have "distinct (butlast xs @ [n])" using assms(1) by (simp only: xs [symmetric])
  then have d: "distinct (butlast xs)" "n \<notin> set (butlast xs)" by simp_all
  have "set (butlast xs @ [n]) = insert n (set (butlast xs))" by simp
  then have "set xs = insert n (set (butlast xs))" by (simp only: xs [symmetric])
  then have "set (butlast xs) = {x. r\<^sup>*\<^sup>* n x} - {n}" using d(2) assms(4) by auto
  also have "\<dots> = {x. r\<^sup>+\<^sup>+ n x}" using assms(5) by (auto dest: rtranclpD tranclp_into_rtranclp)
  finally show ?thesis using d(1) by simp
qed

text \<open>
  C8: The check of the item dependencies decides whether a forest can be built, and computes what is
  built before an item. It fails no assertion if no item that was expanded before loses an optional
  dependency. An optional dependency on an item that is not in the forest is forgotten. If every
  other dependency is an item of the forest and none depends on itself, no error is reported, the
  expanded dependencies of an item are exactly the items it depends on directly or through
  others, once each, and the sorted names have every item after those; otherwise there is an error.
\<close>

theorem checkItemDependencies_result:
  assumes "va_forest va = f" and "items_okay f"
  shows "\<exists>va'. checkItemDependencies va = Inr va' \<and>
    om_keys (bf_items (va_forest va')) = om_keys (bf_items f) \<and>
    (\<forall>n i. om_get (bf_items f) n = Some i \<longrightarrow>
       (\<exists>i'. om_get (bf_items (va_forest va')) n = Some i' \<and> bi_deps i' = kept_deps (item_names f) i)) \<and>
    (if (\<forall>n d. depends f n d \<longrightarrow> om_has (bf_items f) d) \<and> (\<forall>n. \<not> (depends f)\<^sup>+\<^sup>+ n n)
     then va_error va' = va_error va \<and>
       (\<forall>n i'. om_get (bf_items (va_forest va')) n = Some i' \<longrightarrow>
          distinct (bi_expanded_dependencies i') \<and>
          set (bi_expanded_dependencies i') = {d. (depends f)\<^sup>+\<^sup>+ n d}) \<and>
       set (bf_sorted_item_names (va_forest va')) = item_names f \<and>
       dependencies_first f (bf_sorted_item_names (va_forest va'))
     else num_errors (va_error va) < num_errors (va_error va'))"
proof -
  let ?items = "bf_items f"
  let ?okay = "(\<forall>n d. depends f n d \<longrightarrow> om_has ?items d) \<and> (\<forall>n. \<not> (depends f)\<^sup>+\<^sup>+ n n)"
  obtain items g where g: "map_loop (add_item_node (item_names f)) ?items new_graph = Inr (items, g)" "built g"
      "each_entry (\<lambda>n i. reduced (item_names f) (bi_deps i) i) ?items items"
      "om_has (dependencies g) = om_has ?items" "edge (dependencies g) = depends f"
    using item_graph [OF assms(2)] by blast
  obtain g' b where c: "check g = Inr (g', b)" "checked g'" "dependencies g' = dependencies g"
      "b \<longleftrightarrow> graph_state g' = GS_READY" "b \<longleftrightarrow> closed_deps (dependencies g) \<and> acyclic_deps (dependencies g)"
    using check_built [OF g(2)] by blast
  have b: "b \<longleftrightarrow> ?okay" unfolding c(5) closed_deps_def acyclic_deps_def g(4,5) by blast
  have names: "\<forall>(n, i) \<in> set items. om_has (dependencies g') n \<and> bi_item_name i = n"
  proof (intro ballI, clarify)
    fix n i' assume "(n, i') \<in> set items"
    then obtain i where i: "(n, i) \<in> set ?items" "reduced (item_names f) (bi_deps i) i i'"
      using each_entry_mem [OF g(3)] by blast
    then have "item_okay (item_names f) n i" using assms(2) by (auto simp: items_okay_def)
    then show "om_has (dependencies g') n \<and> bi_item_name i' = n"
      using i reduced_fields(2) [OF i(2)] c(3) g(4) by (force simp: item_okay_def om_has_iff om_keys_def)
  qed
  obtain items' where x: "map_loop (expand_item g') items () = Inr (items', ())" "each_entry (expanded g') items items'"
    using expand_all [OF c(2) names] by blast
  have keys: "om_keys items' = om_keys ?items" using each_entry_keys [OF x(2)] each_entry_keys [OF g(3)] by simp
  have sorted: "getSortedGraph g' = Inr (in_order g')"
    using c(2) by (simp add: getSortedGraph_def assertChecked_def checked_def)
  have loc: "\<exists>l. item_location items' n = Inr l" if "om_has (dependencies g) n" for n
  proof -
    have "om_has ?items n" using that g(4) by simp
    then have "om_has items' n" using keys by (simp only: om_has_iff)
    then show ?thesis by (auto simp: item_location_def the_ptr_def om_has_def)
  qed
  let ?report = "report_graph_errors (item_location items')
     (\<lambda>node unknown. node @ '' depends on unknown build item '' @ unknown)
     ''circular dependency detected: '' '' participates in a circular dependency'' g'"
  have "\<exists>e. (if b then Inr (va_error va) else ?report (va_error va)) = Inr e \<and>
      (if b then e = va_error va else num_errors (va_error va) < num_errors e)"
  proof (cases b)
    case False
    then have "check g = Inr (g', False)" using c(1) by simp
    then have "adds_errors True ?report" using loc by (rule report_graph_errors_adds [OF g(2)])
    then show ?thesis using False by (auto simp: adds_errors_def)
  qed simp
  then obtain e where e: "(if b then Inr (va_error va) else ?report (va_error va)) = Inr e"
      "if b then e = va_error va else num_errors (va_error va) < num_errors e" by blast
  let ?va = "va\<lparr>va_forest := f\<lparr>bf_items := items', bf_sorted_item_names := in_order g'\<rparr>, va_error := e\<rparr>"
  have run: "checkItemDependencies va = Inr ?va"
    unfolding checkItemDependencies_def assms(1) Let_def item_names_def [symmetric]
    by (simp only: g(1) c(1) x(1) sorted e(1) bind_res_Inr split_conv)
  have kept: "\<exists>i'. om_get items' n = Some i' \<and> bi_deps i' = kept_deps (item_names f) i"
    if i: "om_get ?items n = Some i" for n i
  proof -
    obtain i1 where i1: "om_get items n = Some i1" "reduced (item_names f) (bi_deps i) i i1"
      using each_entry_get [OF g(3) i] by blast
    obtain i2 where "om_get items' n = Some i2" "expanded g' n i1 i2" using each_entry_get [OF x(2) i1(1)] by blast
    then show ?thesis using reduced_all [OF i1(2)] by (auto simp: expanded_def)
  qed
  have exp: "distinct (bi_expanded_dependencies i') \<and> set (bi_expanded_dependencies i') = {d. (depends f)\<^sup>+\<^sup>+ n d}"
    if b: ?okay and i': "om_get items' n = Some i'" for n i'
  proof -
    have r: "graph_ready g'" using c(2,4) b \<open>b \<longleftrightarrow> ?okay\<close> by (simp add: graph_ready_def)
    have "(n, i') \<in> set items'" using i' by (rule map_of_SomeD)
    then obtain i where i: "(n, i) \<in> set items" "expanded g' n i i'" using each_entry_mem [OF x(2)] by blast
    then have "om_has (dependencies g') n" using names by blast
    from ready_closure [OF r this] obtain ys where ys: "getSortedDependencies g' n = Inr ys" "distinct ys" "ys \<noteq> []"
        "last ys = n" "set ys = {x. (depends f)\<^sup>*\<^sup>* n x}"
      unfolding c(3) g(5) by blast
    then have "bi_expanded_dependencies i' = butlast ys" using i(2) by (auto simp: expanded_def)
    then show ?thesis using closure_below [OF ys(2-5)] b by simp
  qed
  have order: "set (in_order g') = item_names f \<and> (?okay \<longrightarrow> dependencies_first f (in_order g'))"
  proof
    show "set (in_order g') = item_names f"
      using c(2,3) g(4) by (auto simp: checked_def item_names_def om_has_iff [symmetric])
    show "?okay \<longrightarrow> dependencies_first f (in_order g')"
    proof
      assume ?okay
      then have "graph_state g' = GS_READY" using b c(4) by blast
      then have d: "deps_first (in_order g') (succs (dependencies g))"
        using c(2,3) unfolding checked_def by metis
      show "dependencies_first f (in_order g')"
        unfolding dependencies_first_def
      proof (intro allI impI, elim conjE)
        fix ys n zs d' assume "in_order g' = ys @ n # zs" "depends f n d'"
        then show "d' \<in> set ys" using deps_first_split [OF d] g(5) by (metis edge_def)
      qed
    qed
  qed
  show ?thesis
  proof (rule exI [of _ ?va], intro conjI)
    show "checkItemDependencies va = Inr ?va" by (rule run)
    show "om_keys (bf_items (va_forest ?va)) = om_keys (bf_items f)" using keys by simp
    show "\<forall>n i. om_get (bf_items f) n = Some i \<longrightarrow> (\<exists>i'. om_get (bf_items (va_forest ?va)) n = Some i' \<and>
        bi_deps i' = kept_deps (item_names f) i)"
      using kept by simp
    show "if ?okay
     then va_error ?va = va_error va \<and>
       (\<forall>n i'. om_get (bf_items (va_forest ?va)) n = Some i' \<longrightarrow> distinct (bi_expanded_dependencies i') \<and>
          set (bi_expanded_dependencies i') = {d. (depends f)\<^sup>+\<^sup>+ n d}) \<and>
       set (bf_sorted_item_names (va_forest ?va)) = item_names f \<and>
       dependencies_first f (bf_sorted_item_names (va_forest ?va))
     else num_errors (va_error va) < num_errors (va_error ?va)"
    proof (cases ?okay)
      case True
      then have "e = va_error va" using e(2) b by simp
      then show ?thesis using True exp [OF True] order by simp
    next
      case False
      then have "num_errors (va_error va) < num_errors e" using e(2) b by simp
      then show ?thesis unfolding if_not_P [OF False] by simp
    qed
  qed
qed

text \<open>Two items: \<open>a\<close> depends on \<open>b\<close> and optionally on \<open>z\<close>, which does not exist.\<close>

definition fc_item :: "string \<Rightarrow> string list \<Rightarrow> string set \<Rightarrow> build_item" where
  "fc_item name deps optional =
     (bs_item name deps [] [])\<lparr>bi_config := (bs_config name [])\<lparr>ic_optional_deps := optional\<rparr>,
        bi_forest_root := ''/b'', bi_expanded_dependencies := []\<rparr>"

definition fc_forest :: forest where
  "fc_forest = (BuildForest ''/b'')\<lparr>bf_items := [(''a'', fc_item ''a'' [''b'', ''z''] {''z''}), (''b'', fc_item ''b'' [] {})]\<rparr>"

definition fc_validation :: validation where
  "fc_validation = \<lparr>va_forest = fc_forest, va_error = bs_error, va_plugins = {}, va_unused = []\<rparr>"

lemma fc_fields [simp]:
  "bi_item_name (fc_item n ds os) = n" "bi_deps (fc_item n ds os) = ds"
  "ic_optional_deps (bi_config (fc_item n ds os)) = os" "bi_expanded_dependencies (fc_item n ds os) = []"
  by (simp_all add: fc_item_def bs_item_def)

lemma fc_depends: "depends fc_forest n d \<longleftrightarrow> n = ''a'' \<and> d = ''b''"
  by (auto simp: depends_def fc_forest_def item_names_def om_keys_def kept_deps_def omitted_def split: if_splits)

lemma fc_okay: "items_okay fc_forest"
  by (auto simp: items_okay_def fc_forest_def om_ok_def om_keys_def item_okay_def)

theorem checkItemDependencies_result_witness:
  "\<exists>va' i. checkItemDependencies fc_validation = Inr va' \<and> va_error va' = bs_error
     \<and> om_get (bf_items (va_forest va')) ''a'' = Some i \<and> bi_deps i = [''b'']
     \<and> set (bi_expanded_dependencies i) = {''b''}"
proof -
  have f: "va_forest fc_validation = fc_forest" "va_error fc_validation = bs_error" by (simp_all add: fc_validation_def)
  have below: "(depends fc_forest)\<^sup>+\<^sup>+ n d \<longleftrightarrow> n = ''a'' \<and> d = ''b''" for n d
  proof
    show "n = ''a'' \<and> d = ''b''" if "(depends fc_forest)\<^sup>+\<^sup>+ n d"
      using that by (induction rule: tranclp_induct) (auto simp: fc_depends)
    show "(depends fc_forest)\<^sup>+\<^sup>+ n d" if "n = ''a'' \<and> d = ''b''"
      using that fc_depends by (blast intro: tranclp.r_into_trancl)
  qed
  have okay: "(\<forall>n d. depends fc_forest n d \<longrightarrow> om_has (bf_items fc_forest) d) \<and> (\<forall>n. \<not> (depends fc_forest)\<^sup>+\<^sup>+ n n)"
    unfolding below fc_depends by (simp add: fc_forest_def om_has_def)
  have a: "om_get (bf_items fc_forest) ''a'' = Some (fc_item ''a'' [''b'', ''z''] {''z''})" by (simp add: fc_forest_def)
  have kept: "kept_deps (item_names fc_forest) (fc_item ''a'' [''b'', ''z''] {''z''}) = [''b'']"
    by (simp add: kept_deps_def omitted_def item_names_def fc_forest_def om_keys_def)
  obtain va' where va': "checkItemDependencies fc_validation = Inr va'" "va_error va' = bs_error"
      "\<forall>n i. om_get (bf_items fc_forest) n = Some i \<longrightarrow>
         (\<exists>i'. om_get (bf_items (va_forest va')) n = Some i' \<and> bi_deps i' = kept_deps (item_names fc_forest) i)"
      "\<forall>n i'. om_get (bf_items (va_forest va')) n = Some i' \<longrightarrow>
         distinct (bi_expanded_dependencies i') \<and>
         set (bi_expanded_dependencies i') = {d. (depends fc_forest)\<^sup>+\<^sup>+ n d}"
    using checkItemDependencies_result [OF f(1) fc_okay, unfolded if_P [OF okay] f(2)] by blast
  obtain i where i: "om_get (bf_items (va_forest va')) ''a'' = Some i" "bi_deps i = [''b'']"
    using va'(3) a kept by fastforce
  then have "set (bi_expanded_dependencies i) = {''b''}" using va'(4) by (auto simp: below)
  then show ?thesis using va'(1,2) i by blast
qed

section \<open>Deleting an optional dependency\<close>

text \<open>The forest \<open>/w\<close> is backed by \<open>/b\<close>, where \<open>a\<close> depends optionally on \<open>b\<close>, and deletes some items.\<close>

definition del_tree :: build_tree where
  "del_tree = (BuildTree ''t'' ''/b/t'' [] {} {} [] (fst PlatformData))\<lparr>bt_forest_root := ''/b''\<rparr>"

definition del_forests :: "string set \<Rightarrow> forest_table" where
  "del_forests deleted =
     [(''/b'', (BuildForest ''/b'')\<lparr>bf_trees := [(''t'', del_tree)],
         bf_items := [(''a'', fc_item ''a'' [''b''] {''b''}), (''b'', fc_item ''b'' [] {})]\<rparr>),
      (''/w'', (BuildForest ''/w'')\<lparr>bf_backing_areas := [''/b''], bf_deleted_items := deleted\<rparr>)]"

definition del_env :: abuild_env where
  "del_env = \<lparr>ae_whoami = ''abuild'', ae_allow_1_0 = False, ae_native = ([], [], []),
     ae_platform_files = (\<lambda>p. (None, None)), ae_selectors = []\<rparr>"

definition accepted :: "forest_state res \<Rightarrow> bool" where
  "accepted r \<longleftrightarrow> (case r of Inl a \<Rightarrow> False | Inr s \<Rightarrow> num_errors (fst (snd s)) = 0)"

definition validate_deleting :: "string set \<Rightarrow> forest_state res" where
  "validate_deleting deleted = validate_forests del_env False (del_forests deleted, bs_error, {}, [])"


end
