(* ===== verification/Option_Parser.thy ===== *)
theory Option_Parser
  imports Std_Map Util_Strings
begin

text \<open>
  The class \<open>OptionParser\<close> (\<open>src/src/OptionParser.cc\<close>). A callback is a value of the type \<open>'c\<close>, and the
  calls that \<open>parseOptions\<close> makes are returned as a list, in their order: the calls of the callbacks
  of the options, of the one for errors and of the one for positional arguments. A regular expression
  is a function from a string to its match, if there is one.
\<close>

section \<open>State\<close>

datatype arg_type_e = at_none | at_optional_numeric | at_numeric | at_string | at_regex | at_list

record ('c, 'm) argument_specification =
  as_arg_type :: arg_type_e
  as_default_value :: int
  as_discard_term_arg :: bool
  as_regex :: "string \<Rightarrow> 'm option"
  as_callback :: 'c

type_synonym ('c, 'm) option_parser = "(string, ('c, 'm) argument_specification) omap"

datatype ('c, 'm) option_call =
    Call_void 'c
  | Call_int 'c int
  | Call_string 'c string
  | Call_regex 'c 'm
  | Call_vector 'c "string list"
  | Call_error string
  | Call_positional string

section \<open>Registration\<close>

definition register ::
    "string \<Rightarrow> ('c, 'm) argument_specification \<Rightarrow> ('c, 'm) option_parser \<Rightarrow> ('c, 'm) option_parser res" where
  "register option a p =
     assert_res (\<not> om_has p option) ''this->arguments.count(option) == 0'' (Inr (om_put option a p))"

definition ArgumentSpecification :: "arg_type_e \<Rightarrow> 'c \<Rightarrow> ('c, 'm) argument_specification" where
  "ArgumentSpecification t callback = \<lparr>as_arg_type = t, as_default_value = 0, as_discard_term_arg = False,
     as_regex = (\<lambda>s. None), as_callback = callback\<rparr>"

definition registerNoArg :: "string \<Rightarrow> 'c \<Rightarrow> ('c, 'm) option_parser \<Rightarrow> ('c, 'm) option_parser res" where
  "registerNoArg option callback = register option (ArgumentSpecification at_none callback)"

definition registerOptionalNumericArg ::
    "string \<Rightarrow> int \<Rightarrow> 'c \<Rightarrow> ('c, 'm) option_parser \<Rightarrow> ('c, 'm) option_parser res" where
  "registerOptionalNumericArg option default_value callback =
     register option ((ArgumentSpecification at_optional_numeric callback)\<lparr>as_default_value := default_value\<rparr>)"

definition registerNumericArg :: "string \<Rightarrow> 'c \<Rightarrow> ('c, 'm) option_parser \<Rightarrow> ('c, 'm) option_parser res" where
  "registerNumericArg option callback = register option (ArgumentSpecification at_numeric callback)"

definition registerStringArg :: "string \<Rightarrow> 'c \<Rightarrow> ('c, 'm) option_parser \<Rightarrow> ('c, 'm) option_parser res" where
  "registerStringArg option callback = register option (ArgumentSpecification at_string callback)"

definition registerRegexArg ::
    "string \<Rightarrow> (string \<Rightarrow> 'm option) \<Rightarrow> 'c \<Rightarrow> ('c, 'm) option_parser \<Rightarrow> ('c, 'm) option_parser res" where
  "registerRegexArg option r callback = register option ((ArgumentSpecification at_regex callback)\<lparr>as_regex := r\<rparr>)"

definition registerListArg ::
    "string \<Rightarrow> (string \<Rightarrow> 'm option) \<Rightarrow> bool \<Rightarrow> 'c \<Rightarrow> ('c, 'm) option_parser \<Rightarrow> ('c, 'm) option_parser res" where
  "registerListArg option term_regex discard callback =
     register option ((ArgumentSpecification at_list callback)\<lparr>as_regex := term_regex, as_discard_term_arg := discard\<rparr>)"

definition registerSynonym :: "string \<Rightarrow> string \<Rightarrow> ('c, 'm) option_parser \<Rightarrow> ('c, 'm) option_parser res" where
  "registerSynonym option existing p =
     assert_res (\<not> om_has p option) ''this->arguments.count(option) == 0''
       (case om_get p existing of
          None \<Rightarrow> Inl (Assertion ''this->arguments.count(existing_option) != 0'')
        | Some a \<Rightarrow> Inr (om_put option a p))"

section \<open>Recognition of options\<close>

definition char_in :: "char \<times> char \<Rightarrow> char \<Rightarrow> bool" where
  "char_in bounds c \<longleftrightarrow> fst bounds \<le> c \<and> c \<le> snd bounds"

definition is_digit :: "char \<Rightarrow> bool" where
  "is_digit = char_in (CHR ''0'', CHR ''9'')"

definition is_alpha :: "char \<Rightarrow> bool" where
  "is_alpha c \<longleftrightarrow> (char_in (CHR ''a'', CHR ''z'') c \<or> char_in (CHR ''A'', CHR ''Z'') c)"

definition option_char :: "char \<Rightarrow> bool" where
  "option_char c \<longleftrightarrow> is_alpha c \<or> is_digit c \<or> c = CHR ''_'' \<or> c = CHR ''-''"

text \<open>\<open>numeric_re\<close>.\<close>

definition numeric_re :: "string \<Rightarrow> bool" where
  "numeric_re s \<longleftrightarrow> s \<noteq> [] \<and> list_all is_digit s"

text \<open>\<open>short_option_re\<close> and \<open>long_option_re\<close>: the option and the argument that is attached to it.\<close>

definition short_option_re :: "string \<Rightarrow> (string \<times> string option) option" where
  "short_option_re s =
     (case s of
        dash # c # ds \<Rightarrow>
          if dash = CHR ''-'' \<and> is_alpha c \<and> (ds = [] \<or> numeric_re ds)
          then Some ([c], if ds = [] then None else Some ds) else None
      | _ \<Rightarrow> None)"

definition long_name :: "string \<Rightarrow> (string \<times> string option) option" where
  "long_name t =
     (let name = takeWhile option_char t; rest = dropWhile option_char t in
      if length name \<ge> 2 \<and> is_alpha (hd name) \<and> (rest = [] \<or> hd rest = CHR ''='')
      then Some (name, if rest = [] then None else Some (tl rest)) else None)"

definition long_option_re :: "string \<Rightarrow> (string \<times> string option) option" where
  "long_option_re s =
     (case s of
        a # t \<Rightarrow>
          if a = CHR ''-''
          then long_name (case t of b # u \<Rightarrow> if b = CHR ''-'' then u else t | [] \<Rightarrow> [])
          else None
      | [] \<Rightarrow> None)"

definition recognize :: "string \<Rightarrow> (string \<times> string option) option" where
  "recognize s = (case short_option_re s of None \<Rightarrow> long_option_re s | m \<Rightarrow> m)"

section \<open>Arguments of options\<close>

text \<open>\<open>std::atoi\<close> of a string of digits: the behaviour is undefined for a number that is not an \<open>int\<close>.\<close>

definition digit_value :: "char \<Rightarrow> int" where
  "digit_value c = of_char c - 48"

definition atoi :: "string \<Rightarrow> int res" where
  "atoi s =
     (let n = fold (\<lambda>c n. 10 * n + digit_value c) s 0
      in if n < 2 ^ 31 then Inr n else Inl (Undefined ''atoi of a number that is not an int''))"

text \<open>The argument: the attached one, or the next word; and the words after it.\<close>

definition first_arg :: "string option \<Rightarrow> string list \<Rightarrow> string option" where
  "first_arg attached args =
     (case attached of Some a \<Rightarrow> Some a | None \<Rightarrow> (case args of [] \<Rightarrow> None | a # as \<Rightarrow> Some a))"

definition after_arg :: "string option \<Rightarrow> string list \<Rightarrow> string list" where
  "after_arg attached args = (if attached = None then tl args else args)"

text \<open>The number for the callback, if there is one, and the words that are left.\<close>

definition numeric_arg ::
    "('c, 'm) argument_specification \<Rightarrow> string option \<Rightarrow> string list \<Rightarrow> (int option \<times> string list) res" where
  "numeric_arg a attached args =
     (case first_arg attached args of
        Some s \<Rightarrow>
          if numeric_re s then bind_res (atoi s) (\<lambda>n. Inr (Some n, after_arg attached args))
          else if as_arg_type a = at_optional_numeric \<and> attached = None
          then Inr (Some (as_default_value a), args) else Inr (None, args)
      | None \<Rightarrow> Inr (if as_arg_type a = at_optional_numeric then Some (as_default_value a) else None, args))"

text \<open>The words of a list up to the one that ends it.\<close>

fun list_arg :: "('c, 'm) argument_specification \<Rightarrow> string list \<Rightarrow> string list \<times> string list" where
  "list_arg a [] = ([], [])"
| "list_arg a (next_arg # args) =
     (if as_regex a next_arg \<noteq> None
      then ([], if as_discard_term_arg a then args else next_arg # args)
      else case list_arg a args of (words, rest) \<Rightarrow> (next_arg # words, rest))"

definition quoted :: "string \<Rightarrow> string" where
  "quoted s = ''\"'' @ s @ ''\"''"

text \<open>The call that an option causes, and the words that are left.\<close>

definition handleOption ::
    "string \<Rightarrow> ('c, 'm) argument_specification \<Rightarrow> string option \<Rightarrow> string list \<Rightarrow>
     (('c, 'm) option_call \<times> string list) res" where
  "handleOption option a attached args =
     (case as_arg_type a of
        at_none \<Rightarrow>
          Inr (if attached \<noteq> None
               then Call_error (''option '' @ quoted option @ '' does not take any arguments'')
               else Call_void (as_callback a), args)
      | at_list \<Rightarrow>
          (case list_arg a args of (words, rest) \<Rightarrow>
             Inr (Call_vector (as_callback a) ((case attached of None \<Rightarrow> [] | Some s \<Rightarrow> [s]) @ words), rest))
      | t \<Rightarrow>
          if t = at_numeric \<or> t = at_optional_numeric
          then bind_res (numeric_arg a attached args) (\<lambda>(number, rest).
                 Inr (case number of
                        None \<Rightarrow> Call_error (''option '' @ quoted option @ CHR 0x27 # ''s argument must be numeric'')
                      | Some n \<Rightarrow> Call_int (as_callback a) n, rest))
          else
            (case first_arg attached args of
               None \<Rightarrow> Inr (Call_error (''option '' @ quoted option @ '' requires an argument''), args)
             | Some s \<Rightarrow>
                 Inr (if t = at_string then Call_string (as_callback a) s
                      else case as_regex a s of
                             Some m \<Rightarrow> Call_regex (as_callback a) m
                           | None \<Rightarrow> Call_error (''invalid argument to option '' @ quoted option @ '': '' @ quoted s),
                      after_arg attached args)))"

lemma numeric_arg_shorter: "numeric_arg a attached args = Inr (n, rest) \<Longrightarrow> length rest \<le> length args"
  by (auto simp: numeric_arg_def after_arg_def res_simps split: option.splits if_splits)

lemma list_arg_shorter: "length (snd (list_arg a args)) \<le> length args"
  by (induction args) (auto split: prod.split)

lemma handleOption_shorter:
  assumes "handleOption option a attached args = Inr (c, rest)"
  shows "length rest \<le> length args"
  using assms numeric_arg_shorter [of a attached args] list_arg_shorter [of a args]
  by (auto simp: handleOption_def after_arg_def res_simps split: arg_type_e.splits prod.splits option.splits if_splits)

section \<open>All words\<close>

definition unrecognized :: "string \<Rightarrow> ('c, 'm) option_call" where
  "unrecognized s =
     (if s \<noteq> [] \<and> hd s = CHR ''-'' then Call_error (''unknown argument '' @ quoted s) else Call_positional s)"

definition next_call ::
    "('c, 'm) option_parser \<Rightarrow> string \<Rightarrow> string list \<Rightarrow> (('c, 'm) option_call \<times> string list) res" where
  "next_call p s args =
     (case recognize s of
        None \<Rightarrow> Inr (unrecognized s, args)
      | Some (option, attached) \<Rightarrow>
          (case om_get p option of
             None \<Rightarrow> Inr (Call_error (''unknown option '' @ quoted option), args)
           | Some a \<Rightarrow> handleOption option a attached args))"

lemma next_call_shorter: "next_call p s args = Inr (c, rest) \<Longrightarrow> length rest \<le> length args"
  using handleOption_shorter by (auto simp: next_call_def split: option.splits)

function parseOptions :: "('c, 'm) option_parser \<Rightarrow> string list \<Rightarrow> ('c, 'm) option_call list res" where
  "parseOptions p [] = Inr []"
| "parseOptions p (s # args) =
     (case next_call p s args of
        Inl e \<Rightarrow> Inl e
      | Inr (c, rest) \<Rightarrow> (case parseOptions p rest of Inl e \<Rightarrow> Inl e | Inr cs \<Rightarrow> Inr (c # cs)))"
  by pat_completeness auto
termination
proof (relation "measure (length o snd)", goal_cases)
  case 1
  show ?case by simp
next
  case (2 p s args r c rest)
  then show ?case using next_call_shorter [of p s args c rest] by simp
qed

end
