(* ===== verification/Option_Parser_Properties.thy ===== *)
theory Option_Parser_Properties
  imports Option_Parser
begin

text \<open>The two ways to give an argument to an option are the same.\<close>

section \<open>Recognition\<close>

definition option_name :: "string \<Rightarrow> bool" where
  "option_name name \<longleftrightarrow> length name \<ge> 2 \<and> is_alpha (hd name) \<and> list_all option_char name"

lemma equals_no_char: "\<not> option_char (CHR ''='')"
  by code_simp

lemma dash_no_alpha: "\<not> is_alpha (CHR ''-'')"
  by code_simp

lemma long_name_plain: "option_name name \<Longrightarrow> long_name name = Some (name, None)"
proof -
  assume n: "option_name name"
  then have w: "takeWhile option_char name = name" "dropWhile option_char name = []"
    by (simp_all add: option_name_def list_all_iff takeWhile_eq_all_conv dropWhile_eq_Nil_conv)
  show ?thesis unfolding long_name_def Let_def w using n by (simp add: option_name_def)
qed

lemma long_name_equals: "option_name name \<Longrightarrow> long_name (name @ CHR ''='' # v) = Some (name, Some v)"
proof -
  assume n: "option_name name"
  then have w: "takeWhile option_char (name @ CHR ''='' # v) = name"
    "dropWhile option_char (name @ CHR ''='' # v) = CHR ''='' # v"
    using equals_no_char by (simp_all add: option_name_def list_all_iff takeWhile_append dropWhile_append)
  show ?thesis unfolding long_name_def Let_def w using n by (simp add: option_name_def)
qed

lemma recognize_dashes: "recognize (''--'' @ t) = long_name t"
  using dash_no_alpha by (simp add: recognize_def short_option_re_def long_option_re_def)

lemma recognize_short: "is_alpha c \<Longrightarrow> ds = [] \<or> numeric_re ds \<Longrightarrow>
    recognize (CHR ''-'' # c # ds) = Some ([c], if ds = [] then None else Some ds)"
  by (simp add: recognize_def short_option_re_def)

section \<open>Arguments\<close>

text \<open>The option wants an argument, and \<open>v\<close> can be its argument.\<close>

definition takes_argument :: "('c, 'm) argument_specification \<Rightarrow> string \<Rightarrow> bool" where
  "takes_argument a v \<longleftrightarrow> as_arg_type a \<in> {at_string, at_regex} \<or>
     as_arg_type a \<in> {at_numeric, at_optional_numeric} \<and> numeric_re v"

lemma handleOption_attached:
  "takes_argument a v \<Longrightarrow> handleOption option a (Some v) args = handleOption option a None (v # args)"
  by (auto simp: takes_argument_def handleOption_def numeric_arg_def first_arg_def after_arg_def
      split: arg_type_e.splits)

lemma parse_cong:
  "next_call p s args = next_call p s' args' \<Longrightarrow> parseOptions p (s # args) = parseOptions p (s' # args')"
  by simp

text \<open>
  C40: For an option that takes a number, a string or a string of a given form, an argument that is
  attached to the option with an equals sign is the same as the argument in the next word, and
  digits attached to an option of one character are the same as digits in the next word. An argument
  in the next word may start with a dash, and it may be empty.
\<close>

theorem attached_argument_equivalent:
  assumes "takes_argument a v"
  shows "(option_name name \<and> om_get p name = Some a \<longrightarrow>
            parseOptions p ((''--'' @ name @ ''='' @ v) # args) = parseOptions p ((''--'' @ name) # v # args)) \<and>
         (is_alpha c \<and> om_get p [c] = Some a \<and> numeric_re v \<longrightarrow>
            parseOptions p ((CHR ''-'' # c # v) # args) = parseOptions p ([CHR ''-'', c] # v # args))"
proof (intro conjI impI; elim conjE)
  assume n: "option_name name" "om_get p name = Some a"
  have "next_call p (''--'' @ name @ ''='' @ v) args = handleOption name a (Some v) args"
    using n long_name_equals recognize_dashes [of "name @ CHR ''='' # v"] by (simp add: next_call_def)
  moreover have "next_call p (''--'' @ name) (v # args) = handleOption name a None (v # args)"
    using n long_name_plain recognize_dashes [of name] by (simp add: next_call_def)
  ultimately show "parseOptions p ((''--'' @ name @ ''='' @ v) # args) = parseOptions p ((''--'' @ name) # v # args)"
    using handleOption_attached [OF assms] by (intro parse_cong) simp
next
  assume c: "is_alpha c" "om_get p [c] = Some a" "numeric_re v"
  then have "next_call p (CHR ''-'' # c # v) args = handleOption [c] a (Some v) args"
    using recognize_short [of c v] by (auto simp: next_call_def numeric_re_def)
  moreover have "next_call p [CHR ''-'', c] (v # args) = handleOption [c] a None (v # args)"
    using c recognize_short [of c "[]"] by (simp add: next_call_def)
  ultimately show "parseOptions p ((CHR ''-'' # c # v) # args) = parseOptions p ([CHR ''-'', c] # v # args)"
    using handleOption_attached [OF assms] by (intro parse_cong) simp
qed

text \<open>The option \<open>jobs\<close> with its synonym \<open>j\<close>, as abuild registers them.\<close>

definition jobs_parser :: "(string, string) option_parser" where
  "jobs_parser = projr (bind_res (registerNumericArg ''jobs'' ''set'' []) (registerSynonym ''j'' ''jobs''))"

lemma jobs_get:
  "om_get jobs_parser ''jobs'' = Some (ArgumentSpecification at_numeric ''set'')"
  "om_get jobs_parser ''j'' = Some (ArgumentSpecification at_numeric ''set'')"
  by (simp_all add: jobs_parser_def registerNumericArg_def registerSynonym_def register_def om_has_def)

theorem attached_argument_equivalent_witness:
  "parseOptions jobs_parser [''--jobs=12'', ''all''] = parseOptions jobs_parser [''--jobs'', ''12'', ''all'']
   \<and> parseOptions jobs_parser [''-j12'', ''all''] = parseOptions jobs_parser [''-j'', ''12'', ''all'']
   \<and> parseOptions jobs_parser [''-j'', ''12'', ''all''] = Inr [Call_int ''set'' 12, Call_positional ''all'']"
proof -
  have t: "takes_argument (ArgumentSpecification at_numeric ''set'' :: (string, string) argument_specification) ''12''"
    by code_simp
  have "option_name ''jobs''" "is_alpha (CHR ''j'')" "numeric_re ''12''" by code_simp+
  moreover have "parseOptions jobs_parser [''-j'', ''12'', ''all''] = Inr [Call_int ''set'' 12, Call_positional ''all'']"
    by code_simp
  ultimately show ?thesis
    using attached_argument_equivalent [OF t, of "''jobs''" jobs_parser "[''all'']" "CHR ''j''"] jobs_get by simp
qed

end
