(* ===== verification/Spec2Isabelle.thy ===== *)
theory Spec2Isabelle
  imports Build_Graph_Properties Dependency_Runner_Properties Interface_Reimport Interface_Parser_Properties Platform_Properties
  Key_Val_Properties Item_Config_Properties Backing_Config Logger_Properties Forest_Properties Option_Parser_Properties
begin

text \<open>
  A model of abuild, a build system for trees of interdependent build items, as it is written in the
  C++ files of \<open>src/src\<close>, with the theorems that make its parts correct.

  \<^bold>\<open>The program.\<close> abuild reads the \<open>Abuild.conf\<close> files of a forest of build trees (\<open>KeyVal\<close>,
  \<open>ItemConfig\<close>, \<open>BackingConfig\<close>) and the platforms of its plugins (\<open>PlatformData\<close>,
  \<open>PlatformSelector\<close>), makes build items, trees and forests of them (\<open>BuildItem\<close>, \<open>BuildTree\<close>,
  \<open>BuildForest\<close>) and validates these with dependency graphs (\<open>DependencyGraph\<close>). The options select
  a build set, which is closed under dependencies; every item gets its platforms, and pairs of an item
  and a platform are the nodes of the build graph. The runner (\<open>DependencyRunner\<close>) hands the nodes to
  a pool of threads (\<open>WorkerPool\<close>, \<open>ThreadSafeQueue\<close>) in an order that the evaluator
  (\<open>DependencyEvaluator\<close>) derives from the graph. When a node is built, its interface file has been
  evaluated (\<open>InterfaceParser\<close>) into an \<open>Interface\<close>, which the nodes that depend on it import.

  \<^bold>\<open>Conventions.\<close> The theory \<open>Prelude\<close> has the result type \<open>res\<close>: \<open>Inl\<close> is an assertion that fails
  or an exception, so that every \<open>assert\<close>, \<open>throw\<close> and \<open>fatal\<close> of the source is a value; it also has
  the loop \<open>each\<close>. \<open>Std_Map\<close> is \<open>std::map\<close> as a sorted association list, with the locale \<open>std_map\<close>
  of its laws. \<open>Basic_Data\<close> holds file locations, target types, flags, traits and the class \<open>Error\<close>,
  whose messages are a list. Strings are lists of characters, \<open>unsigned int\<close> is \<open>32 word\<close> where it can
  wrap around, regular expressions are written as functions on strings. What a function asks the
  operating system is a field of a record (\<open>os\<close>, \<open>file_system\<close>) that it gets as an argument.

  \<^bold>\<open>Theories.\<close> A theory with the name of a class or of a phase holds the definitions;
  \<open>_Correct\<close>, \<open>_Check\<close>, \<open>_Safe\<close> and \<open>_Sets\<close> hold invariants and lemmas, \<open>_Properties\<close> the theorems
  that state what the component guarantees, with concrete instances.

  \<^item> \<open>Util_Strings\<close>, \<open>Util_Paths\<close>: \<open>Util.cc\<close>. The lemmas show that splitting and joining, quoting,
    and relative paths can be undone, that canonical paths are canonical, and the range in which
    \<open>digitsIn\<close> is right: its bound wraps around, and for the greatest number it does not return.
  \<^item> \<open>Dependency_Graph\<close>: \<open>DependencyGraph.cc\<close>. \<open>check\<close> fails exactly for unknown items and cycles, what
    it reports is real, a graph that passes is sorted, and the sorted closures and independent sets
    are those of the relation. The locale \<open>graph_contract\<close> is what its users rely on.
  \<^item> \<open>Dependency_Evaluator\<close>: \<open>DependencyEvaluator.cc\<close>. The states refine the rule of the header file:
    the state of an item that has not been started is a function of those of its dependencies. A ready
    item has all dependencies done, failures propagate, and evaluation makes progress.
  \<^item> \<open>Thread_Safe_Queue\<close>, \<open>Worker_Pool\<close>, \<open>Dependency_Runner\<close>: \<open>ThreadSafeQueue.hh\<close>, \<open>WorkerPool.hh\<close>,
    \<open>DependencyRunner.cc\<close>. The threads are an inductive step relation with every interleaving: the
    workers take, process and return items, the main thread is a program of small steps. The locale
    \<open>fifo\<close> is the contract of the queue. No run deadlocks, every run ends, no item is processed before
    its dependencies, and the result is true exactly when no item fails.
  \<^item> \<open>Interface\<close>, \<open>Interface_Parser\<close>: \<open>Interface.cc\<close>, \<open>InterfaceParser.cc\<close> and the evaluation of the
    \<open>nt_\<close> classes, from the parse tree on. The values stay well typed, importing is idempotent and
    importing into an empty interface keeps everything but local settings; of an if block the first
    clause with a true condition is evaluated, and conditions without errors decide.
  \<^item> \<open>Platform_Selector\<close>, \<open>Platform_Data\<close>, \<open>Platform_Load\<close>: the classes of these names and
    \<open>Abuild::loadPlatformData\<close>. Loading fails no assertion for any file, the selected platforms are those
    that match, and the compatible types of a type are the chain of its parents.
  \<^item> \<open>Key_Val\<close>, \<open>Item_Config\<close> with \<open>Item_Config_Check\<close> and \<open>Item_Config_Read\<close>, \<open>Backing_Config\<close>: the
    configuration files with their checks, caches and upgrade. Writing restores a file, a file of plain
    lines has the values it shows, and \<open>readConfig\<close> returns for all contents.
  \<^item> \<open>Build_Item\<close>: \<open>BuildItem.cc\<close>, \<open>BuildTree.cc\<close>, \<open>BuildForest.cc\<close>.
  \<^item> \<open>Forest_Check\<close>, \<open>Forest_Platforms\<close>, \<open>Forest_Merge\<close>: the validation of forests in
    \<open>Abuild-traverse.cc\<close>, in the order in which \<open>validateForest\<close> calls it, and the merging of backing
    areas. The check of the item dependencies reports an error exactly when there is one, and computes the
    transitive closure; deleting an optional dependency of an item of a backing area fails an assertion.
  \<^item> \<open>Build_Set\<close>: \<open>Abuild-buildset.cc\<close>. The set is taken from the items of the forest and closed under
    dependencies, plugins and build-also entries.
  \<^item> \<open>Build_Graph\<close>: the construction of the build graph in \<open>Abuild-build.cc\<close>. Nodes can be read back; the
    graph passes its check when no dependency declares a platform type, and need not otherwise.
  \<^item> \<open>Option_Parser\<close>: \<open>OptionParser.cc\<close>. The two ways to give an argument to an option are the same.
  \<^item> \<open>Logger\<close>: \<open>Logger.cc\<close>. The jobs hand over pieces of output, one thread prints. The output of a buffered
    job is one block of whole lines and complete, lines are never mixed in any interleaving, and all that
    was logged is printed before the program ends; an incomplete last line lacks its prefix.

  \<^bold>\<open>Recursion.\<close> The loops of the code end for a reason that is proved: the measures are the items not yet
  in the build set (\<open>expand_loop\<close>, \<open>rdeps_loop\<close>), the length of a path (\<open>parent_search\<close>), the nodes not yet
  visited (the traversal of a graph), the symbolic links not yet followed (\<open>canonical_loop\<close>). There is
  no fuel; \<open>digits_loop\<close> is a partial function, as the code need not return. The runs of the threads are
  finite by a measure on the pool and the evaluator.

  \<^bold>\<open>Not modelled.\<close> The traversal of directories, the backends that write files and start programs, the
  parsing of the command line, the upgrade mode, dumps, help and the Java builder: they are input and
  output, system calls, or generated code. The lexer and the parser of interface files are generated; the
  model starts from the parse tree.
\<close>

end
